(* ===== verification/Prelude.thy ===== *)
theory Prelude
  imports Main "HOL-Library.Word"
begin

unbundle bit_operations_syntax

text \<open>
  Shared vocabulary of the development: the machine integers of the Rust sources, the
  saturating operations of the standard library the code uses on counters, the byte orders
  of the wire and of the kernel ABI, and generic facts on lists, options and maps.

  The daemon and the eBPF object are built for little-endian targets (the object is
  \<^verbatim>\<open>bpfel-unknown-none\<close>), so \<^verbatim>\<open>to_be\<close> and
  \<^verbatim>\<open>from_be\<close> swap bytes. \<^verbatim>\<open>usize\<close> offsets are natural
  numbers; the one checked addition the parsers rely on is written out with its bound.
\<close>

section \<open>Machine integers\<close>

type_synonym u8 = "8 word"
type_synonym u16 = "16 word"
type_synonym u32 = "32 word"
type_synonym u64 = "64 word"

text \<open>Facts about the saturating operations, read as natural numbers.\<close>

named_theorems sat_simps

definition sat_add :: "'a::len word \<Rightarrow> 'a word \<Rightarrow> 'a word" where
  "sat_add a b = (if unat a + unat b < 2 ^ LENGTH('a) then a + b else - 1)"

definition sat_sub :: "'a::len word \<Rightarrow> 'a word \<Rightarrow> 'a word" where
  "sat_sub a b = (if b \<le> a then a - b else 0)"

lemma unat_le_max: "unat a \<le> 2 ^ LENGTH('a) - Suc 0" for a :: "'a::len word"
proof -
  have "unat a < 2 ^ LENGTH('a)" by (rule unsigned_less)
  then show ?thesis by linarith
qed

lemma unat_minus_one_word_max: "unat (- 1 :: 'a::len word) = 2 ^ LENGTH('a) - 1"
  by (simp add: unsigned_minus_1_eq_mask mask_eq_exp_minus_1)

lemma unat_sat_add [sat_simps]:
  "unat (sat_add a b) = min (unat a + unat b) (2 ^ LENGTH('a) - 1)" for a b :: "'a::len word"
proof (cases "unat a + unat b < 2 ^ LENGTH('a)")
  case True
  then show ?thesis by (simp add: sat_add_def unat_word_ariths)
next
  case False
  then show ?thesis by (simp add: sat_add_def unat_minus_one_word_max)
qed

lemma unat_sat_sub [sat_simps]: "unat (sat_sub a b) = unat a - unat b"
  by (auto simp: sat_sub_def unat_sub word_le_nat_alt)

lemma sat_add_mono: "a \<le> sat_add a b"
  by (simp add: word_le_nat_alt unat_sat_add unat_le_max)

lemma sat_add_zero [simp]: "sat_add a 0 = a" "sat_add 0 a = a"
  by (simp_all add: word_unat_eq_iff unat_sat_add min_absorb1 unat_le_max)

lemma sat_add_one_pos: "sat_add a (1 :: 'a::len word) \<noteq> 0"
proof
  assume "sat_add a (1 :: 'a word) = 0"
  then have "unat (sat_add a (1 :: 'a word)) = 0" by simp
  moreover have "1 \<le> (2 :: nat) ^ LENGTH('a) - 1"
    using one_less_power [of "2 :: nat" "LENGTH('a)"] by simp
  ultimately show False by (simp add: unat_sat_add unat_word_ariths)
qed

lemma sat_add_no_overflow:
  "unat a + unat b < 2 ^ LENGTH('a) \<Longrightarrow> sat_add a b = a + b" for a b :: "'a::len word"
  by (simp add: sat_add_def)

lemma sat_sub_le: "sat_sub a b \<le> a"
  by (simp add: word_le_nat_alt unat_sat_sub)

lemma unat_min: "unat (min a b) = min (unat a) (unat b)" for a b :: "'a::len word"
  by (simp add: min_def word_le_nat_alt)

section \<open>Byte order\<close>

definition swap16 :: "u16 \<Rightarrow> u16" where
  "swap16 w = push_bit 8 w OR drop_bit 8 w"

definition u16_from_be_bytes :: "u8 \<Rightarrow> u8 \<Rightarrow> u16" where
  "u16_from_be_bytes b0 b1 = of_nat (256 * unat b0 + unat b1)"

definition u32_from_be_bytes :: "u8 \<Rightarrow> u8 \<Rightarrow> u8 \<Rightarrow> u8 \<Rightarrow> u32" where
  "u32_from_be_bytes b0 b1 b2 b3 =
     of_nat (16777216 * unat b0 + 65536 * unat b1 + 256 * unat b2 + unat b3)"

definition u16_to_be_bytes :: "u16 \<Rightarrow> u8 list" where
  "u16_to_be_bytes w = [ucast (drop_bit 8 w), ucast w]"

definition u32_to_be_bytes :: "u32 \<Rightarrow> u8 list" where
  "u32_to_be_bytes w =
     [ucast (drop_bit 24 w), ucast (drop_bit 16 w), ucast (drop_bit 8 w), ucast w]"

lemma swap16_swap16 [simp]: "swap16 (swap16 w) = w"
  by (rule bit_word_eqI) (auto simp: swap16_def bit_simps not_less)

lemma swap16_eq_iff [simp]: "swap16 a = swap16 b \<longleftrightarrow> a = b"
  by (metis swap16_swap16)

lemma swap16_zero [simp]: "swap16 0 = 0"
  by (simp add: swap16_def)

lemma swap16_eq_zero [simp]: "swap16 a = 0 \<longleftrightarrow> a = 0"
  by (metis swap16_swap16 swap16_zero)

lemma unat_u8_le: "unat b \<le> 255" for b :: u8
  using unat_le_max [of b] by simp

lemma unat_u16_from_be_bytes [simp]: "unat (u16_from_be_bytes b0 b1) = 256 * unat b0 + unat b1"
  using unat_u8_le [of b0] unat_u8_le [of b1]
  by (simp only: u16_from_be_bytes_def unat_of_nat) simp

lemma unat_u32_from_be_bytes [simp]:
  "unat (u32_from_be_bytes b0 b1 b2 b3) =
     16777216 * unat b0 + 65536 * unat b1 + 256 * unat b2 + unat b3"
  using unat_u8_le [of b0] unat_u8_le [of b1] unat_u8_le [of b2] unat_u8_le [of b3]
  by (simp only: u32_from_be_bytes_def unat_of_nat) simp

lemma unat_drop_bit: "unat (drop_bit n w) = unat w div 2 ^ n" for w :: "'a::len word"
  unfolding unsigned_drop_bit_eq by (simp add: drop_bit_eq_div take_bit_eq_mod)

lemma unat_ucast_u8: "unat (ucast w :: u8) = unat w mod 256" for w :: "'a::len word"
  by (simp add: unsigned_ucast_eq take_bit_eq_mod)

lemma u16_be_bytes_roundtrip [simp]:
  "u16_from_be_bytes (ucast (drop_bit 8 w)) (ucast w) = w"
proof -
  have "unat w < 65536" using unat_le_max [of w] by simp
  then show ?thesis
    by (simp only: word_unat_eq_iff unat_u16_from_be_bytes unat_ucast_u8 unat_drop_bit) simp
qed

lemma base256_digits:
  "n < 4294967296 \<Longrightarrow> 16777216 * (n div 2 ^ 24 mod 256) + 65536 * (n div 2 ^ 16 mod 256)
      + 256 * (n div 2 ^ 8 mod 256) + n mod 256 = n" for n :: nat
proof -
  assume n: "n < 4294967296"
  have e16: "n div 2 ^ 16 = n div 2 ^ 8 div 256" and e24: "n div 2 ^ 24 = n div 2 ^ 8 div 256 div 256"
    by (simp_all add: div_mult2_eq [symmetric])
  have "n div 2 ^ 8 div 256 div 256 < 256"
    using n by (simp add: div_mult2_eq [symmetric])
  then have "n div 2 ^ 8 div 256 div 256 mod 256 = n div 2 ^ 8 div 256 div 256"
    by simp
  moreover have "n = 256 * (n div 2 ^ 8) + n mod 256"
    by simp
  moreover have "n div 2 ^ 8 = 256 * (n div 2 ^ 8 div 256) + n div 2 ^ 8 mod 256"
    by simp
  moreover have "n div 2 ^ 8 div 256 = 256 * (n div 2 ^ 8 div 256 div 256) + n div 2 ^ 8 div 256 mod 256"
    by simp
  ultimately show ?thesis unfolding e16 e24 by linarith
qed

lemma u32_be_bytes_roundtrip [simp]:
  "u32_from_be_bytes (ucast (drop_bit 24 w)) (ucast (drop_bit 16 w)) (ucast (drop_bit 8 w)) (ucast w) = w"
proof -
  have "unat w < 4294967296" using unat_le_max [of w] by simp
  then show ?thesis
    by (simp only: word_unat_eq_iff unat_u32_from_be_bytes unat_ucast_u8 unat_drop_bit base256_digits)
qed

lemma length_be_bytes [simp]:
  "length (u16_to_be_bytes a) = 2" "length (u32_to_be_bytes b) = 4"
  by (simp_all add: u16_to_be_bytes_def u32_to_be_bytes_def)

end
