(* ===== verification/Kernel_Abi.thy ===== *)
theory Kernel_Abi
  imports Prelude
begin

text \<open>
  The kernel/user-space contract, \<^verbatim>\<open>zimascope-common/src/kernel_abi.rs\<close>:
  constants, the enumerations that cross the boundary as validated \<^verbatim>\<open>u8\<close>
  discriminants, the fixed-size structs, and their \<^verbatim>\<open>repr(C)\<close> layout.
  Byte arrays such as \<^verbatim>\<open>[u8; 16]\<close> are byte lists. The locale
  \<open>abi_enum\<close> states what every enumeration promises; the layout function computes the
  offsets that the compile-time assertions of the source pin down.
\<close>

section \<open>Constants\<close>

definition ABI_VERSION :: u16 where "ABI_VERSION = 4"
definition DOMAIN_MAX_LEN :: nat where "DOMAIN_MAX_LEN = 253"
definition DOMAIN_SAMPLE_MAX :: nat where "DOMAIN_SAMPLE_MAX = 512"
definition SERVICE_SAMPLE_MAX :: nat where "SERVICE_SAMPLE_MAX = 64"
definition SERVICE_SAMPLED_FLAG :: u16 where "SERVICE_SAMPLED_FLAG = 1"
definition DEFAULT_FLOW_CAPACITY :: nat where "DEFAULT_FLOW_CAPACITY = 65536"
definition DEFAULT_OWNER_CAPACITY :: nat where "DEFAULT_OWNER_CAPACITY = 65536"
definition DEFAULT_LISTENER_CAPACITY :: nat where "DEFAULT_LISTENER_CAPACITY = 4096"
definition DEFAULT_TRAFFIC_RULE_CAPACITY :: nat where "DEFAULT_TRAFFIC_RULE_CAPACITY = 64"

lemmas abi_constants =
  ABI_VERSION_def DOMAIN_MAX_LEN_def DOMAIN_SAMPLE_MAX_def SERVICE_SAMPLE_MAX_def
  SERVICE_SAMPLED_FLAG_def DEFAULT_FLOW_CAPACITY_def DEFAULT_OWNER_CAPACITY_def
  DEFAULT_LISTENER_CAPACITY_def DEFAULT_TRAFFIC_RULE_CAPACITY_def

section \<open>Enumerations and their discriminants\<close>

datatype ip_family = V4 | V6

fun ip_family_to_abi :: "ip_family \<Rightarrow> u8" where
  "ip_family_to_abi V4 = 4"
| "ip_family_to_abi V6 = 6"

definition ip_family_from_abi :: "u8 \<Rightarrow> ip_family option" where
  "ip_family_from_abi value =
     (if value = 4 then Some V4
      else if value = 6 then Some V6
      else None)"

datatype direction = Inbound | Outbound

fun direction_to_abi :: "direction \<Rightarrow> u8" where
  "direction_to_abi Inbound = 1"
| "direction_to_abi Outbound = 2"

definition direction_from_abi :: "u8 \<Rightarrow> direction option" where
  "direction_from_abi value =
     (if value = 1 then Some Inbound
      else if value = 2 then Some Outbound
      else None)"

datatype transport_protocol = Tcp | Udp

fun transport_protocol_to_abi :: "transport_protocol \<Rightarrow> u8" where
  "transport_protocol_to_abi Tcp = 6"
| "transport_protocol_to_abi Udp = 17"

definition transport_protocol_from_abi :: "u8 \<Rightarrow> transport_protocol option" where
  "transport_protocol_from_abi value =
     (if value = 6 then Some Tcp
      else if value = 17 then Some Udp
      else None)"

datatype sample_kind = Dns | TlsClientHello | HttpRequest

fun sample_kind_to_abi :: "sample_kind \<Rightarrow> u8" where
  "sample_kind_to_abi Dns = 1"
| "sample_kind_to_abi TlsClientHello = 2"
| "sample_kind_to_abi HttpRequest = 3"

definition sample_kind_from_abi :: "u8 \<Rightarrow> sample_kind option" where
  "sample_kind_from_abi value =
     (if value = 1 then Some Dns
      else if value = 2 then Some TlsClientHello
      else if value = 3 then Some HttpRequest
      else None)"

datatype owner_kind = Socket | Listener

fun owner_kind_to_abi :: "owner_kind \<Rightarrow> u8" where
  "owner_kind_to_abi Socket = 1"
| "owner_kind_to_abi Listener = 2"

definition owner_kind_from_abi :: "u8 \<Rightarrow> owner_kind option" where
  "owner_kind_from_abi value =
     (if value = 1 then Some Socket
      else if value = 2 then Some Listener
      else None)"

datatype rule_action = Limit | Block

fun rule_action_to_abi :: "rule_action \<Rightarrow> u8" where
  "rule_action_to_abi Limit = 1"
| "rule_action_to_abi Block = 2"

definition rule_action_from_abi :: "u8 \<Rightarrow> rule_action option" where
  "rule_action_from_abi value =
     (if value = 1 then Some Limit
      else if value = 2 then Some Block
      else None)"

text \<open>
  What a validated discriminant promises: decoding an encoded constructor gives it back, and
  only its own discriminant decodes to it. Both directions follow for every enumeration.
\<close>

locale abi_enum =
  fixes to_abi :: "'a \<Rightarrow> u8"
    and from_abi :: "u8 \<Rightarrow> 'a option"
  assumes from_to: "from_abi (to_abi x) = Some x"
    and to_from: "from_abi v = Some x \<Longrightarrow> to_abi x = v"
begin

lemma from_abi_iff: "from_abi v = Some x \<longleftrightarrow> v = to_abi x"
  using from_to to_from by blast

lemma to_abi_inject: "to_abi x = to_abi y \<longleftrightarrow> x = y"
  by (metis from_to option.inject)

lemma from_abi_None: "from_abi v = None \<longleftrightarrow> v \<notin> range to_abi"
  by (metis from_abi_iff not_None_eq rangeE rangeI)

lemma from_abi_inject: "from_abi v = Some x \<Longrightarrow> from_abi w = Some x \<Longrightarrow> v = w"
  by (simp add: from_abi_iff)

end

interpretation ip_family_abi: abi_enum ip_family_to_abi ip_family_from_abi
proof
  show "ip_family_from_abi (ip_family_to_abi x) = Some x" for x
    by (cases x) (simp_all add: ip_family_from_abi_def)
  show "ip_family_from_abi v = Some x \<Longrightarrow> ip_family_to_abi x = v" for v x
    by (auto simp: ip_family_from_abi_def split: if_splits)
qed

interpretation direction_abi: abi_enum direction_to_abi direction_from_abi
proof
  show "direction_from_abi (direction_to_abi x) = Some x" for x
    by (cases x) (simp_all add: direction_from_abi_def)
  show "direction_from_abi v = Some x \<Longrightarrow> direction_to_abi x = v" for v x
    by (auto simp: direction_from_abi_def split: if_splits)
qed

interpretation transport_protocol_abi: abi_enum transport_protocol_to_abi transport_protocol_from_abi
proof
  show "transport_protocol_from_abi (transport_protocol_to_abi x) = Some x" for x
    by (cases x) (simp_all add: transport_protocol_from_abi_def)
  show "transport_protocol_from_abi v = Some x \<Longrightarrow> transport_protocol_to_abi x = v" for v x
    by (auto simp: transport_protocol_from_abi_def split: if_splits)
qed

interpretation sample_kind_abi: abi_enum sample_kind_to_abi sample_kind_from_abi
proof
  show "sample_kind_from_abi (sample_kind_to_abi x) = Some x" for x
    by (cases x) (simp_all add: sample_kind_from_abi_def)
  show "sample_kind_from_abi v = Some x \<Longrightarrow> sample_kind_to_abi x = v" for v x
    by (auto simp: sample_kind_from_abi_def split: if_splits)
qed

interpretation owner_kind_abi: abi_enum owner_kind_to_abi owner_kind_from_abi
proof
  show "owner_kind_from_abi (owner_kind_to_abi x) = Some x" for x
    by (cases x) (simp_all add: owner_kind_from_abi_def)
  show "owner_kind_from_abi v = Some x \<Longrightarrow> owner_kind_to_abi x = v" for v x
    by (auto simp: owner_kind_from_abi_def split: if_splits)
qed

interpretation rule_action_abi: abi_enum rule_action_to_abi rule_action_from_abi
proof
  show "rule_action_from_abi (rule_action_to_abi x) = Some x" for x
    by (cases x) (simp_all add: rule_action_from_abi_def)
  show "rule_action_from_abi v = Some x \<Longrightarrow> rule_action_to_abi x = v" for v x
    by (auto simp: rule_action_from_abi_def split: if_splits)
qed

section \<open>Structs\<close>

record abi_metadata =
  md_version :: u16
  md_flow_key_size :: u16
  md_flow_value_size :: u16
  md_domain_sample_size :: u16
  md_kernel_stats_size :: u16
  md_service_sample_size :: u16
  md_owner_key_size :: u16
  md_owner_value_size :: u16
  md_rule_state_size :: u16
  md_policy_config_size :: u16

record abi_flow_key =
  fk_src_addr :: "u8 list"
  fk_dst_addr :: "u8 list"
  fk_src_port_be :: u16
  fk_dst_port_be :: u16
  fk_ifindex :: u32
  fk_protocol :: u8
  fk_direction :: u8
  fk_ip_family :: u8
  fk_reserved :: u8

record abi_flow_value =
  fv_packets :: u64
  fv_bytes :: u64
  fv_first_seen_mono_ns :: u64
  fv_last_seen_mono_ns :: u64
  fv_tcp_flags :: u16
  fv_parse_flags :: u16
  fv_service_flags :: u16
  fv_reserved :: u16

definition flow_value_default :: abi_flow_value where
  "flow_value_default = \<lparr>fv_packets = 0, fv_bytes = 0, fv_first_seen_mono_ns = 0,
     fv_last_seen_mono_ns = 0, fv_tcp_flags = 0, fv_parse_flags = 0, fv_service_flags = 0,
     fv_reserved = 0\<rparr>"

record abi_owner_key =
  ok_remote_addr :: "u8 list"
  ok_remote_port_be :: u16
  ok_local_port_be :: u16
  ok_protocol :: u8
  ok_kind :: u8
  ok_ip_family :: u8
  ok_reserved :: u8

record abi_owner_value =
  ov_tgid :: u32
  ov_pid :: u32
  ov_uid :: u32
  ov_reserved :: u32
  ov_cgroup_id :: u64
  ov_comm :: "u8 list"
  ov_observed_mono_ns :: u64

record rule_ref =
  rr_rule_id :: u32
  rr_action :: u8
  rr_reserved :: "u8 list"

record bucket_key =
  bk_rule_id :: u32
  bk_direction :: u8
  bk_reserved :: "u8 list"

record rule_state =
  rs_lock :: u32
  rs_reserved :: u32
  rs_rate_bytes_per_s :: u64
  rs_burst_bytes :: u64
  rs_tokens :: u64
  rs_last_refill_mono_ns :: u64
  rs_matched_packets :: u64
  rs_matched_bytes :: u64
  rs_dropped_packets :: u64
  rs_dropped_bytes :: u64

definition rule_state_default :: rule_state where
  "rule_state_default = \<lparr>rs_lock = 0, rs_reserved = 0, rs_rate_bytes_per_s = 0,
     rs_burst_bytes = 0, rs_tokens = 0, rs_last_refill_mono_ns = 0, rs_matched_packets = 0,
     rs_matched_bytes = 0, rs_dropped_packets = 0, rs_dropped_bytes = 0\<rparr>"

record endpoint_match_key =
  em_addr :: "u8 list"
  em_port_be :: u16
  em_reserved :: "u8 list"

record policy_config =
  pc_enabled :: u8
  pc_app_rules :: u8
  pc_endpoint_rules :: u8
  pc_reserved :: u8
  pc_revision :: u32

record domain_sample =
  ds_observed_mono_ns :: u64
  ds_ifindex :: u32
  ds_payload_len :: u16
  ds_kind :: u8
  ds_transport :: u8
  ds_ip_family :: u8
  ds_direction :: u8
  ds_reserved :: "u8 list"
  ds_address :: "u8 list"
  ds_payload :: "u8 list"

record service_sample =
  ss_observed_mono_ns :: u64
  ss_key :: abi_flow_key
  ss_payload_len :: u16
  ss_reserved :: "u8 list"
  ss_payload :: "u8 list"

record kernel_stats =
  ks_packets_seen :: u64
  ks_packets_parsed :: u64
  ks_parse_failures :: u64
  ks_map_update_failures :: u64
  ks_flow_evictions :: u64
  ks_domain_events_emitted :: u64
  ks_domain_events_dropped :: u64
  ks_service_events_emitted :: u64
  ks_service_events_dropped :: u64
  ks_owner_events_inserted :: u64
  ks_owner_events_dropped :: u64
  ks_policy_dropped_packets :: u64
  ks_policy_dropped_bytes :: u64
  ks_policy_missing_state :: u64

definition kernel_stats_default :: kernel_stats where
  "kernel_stats_default = \<lparr>ks_packets_seen = 0, ks_packets_parsed = 0, ks_parse_failures = 0,
     ks_map_update_failures = 0, ks_flow_evictions = 0, ks_domain_events_emitted = 0,
     ks_domain_events_dropped = 0, ks_service_events_emitted = 0, ks_service_events_dropped = 0,
     ks_owner_events_inserted = 0, ks_owner_events_dropped = 0, ks_policy_dropped_packets = 0,
     ks_policy_dropped_bytes = 0, ks_policy_missing_state = 0\<rparr>"

section \<open>The \<^verbatim>\<open>repr(C)\<close> layout\<close>

text \<open>
  \<^verbatim>\<open>repr(C)\<close> puts each field at the next multiple of its alignment and rounds the
  size of the struct up to the largest alignment. A struct is described by its fields in
  declaration order; the bytes between the fields and after the last one are padding.
\<close>

datatype c_type = CInt nat | CArr c_type nat | CStruct "c_type list"

definition align_up :: "nat \<Rightarrow> nat \<Rightarrow> nat" where
  "align_up a n = (if a = 0 then n else (n + (a - 1)) div a * a)"

fun c_align :: "c_type \<Rightarrow> nat" where
  "c_align (CInt n) = n"
| "c_align (CArr t n) = c_align t"
| "c_align (CStruct ts) = fold max (map c_align ts) 1"

fun c_size :: "c_type \<Rightarrow> nat" where
  "c_size (CInt n) = n"
| "c_size (CArr t n) = n * c_size t"
| "c_size (CStruct ts) =
     align_up (c_align (CStruct ts))
       (fold (\<lambda>t off. align_up (c_align t) off + c_size t) ts 0)"

fun c_offsets :: "nat \<Rightarrow> c_type list \<Rightarrow> nat list" where
  "c_offsets off [] = []"
| "c_offsets off (t # ts) =
     align_up (c_align t) off # c_offsets (align_up (c_align t) off + c_size t) ts"

fun c_payload :: "c_type \<Rightarrow> nat" where
  "c_payload (CInt n) = n"
| "c_payload (CArr t n) = n * c_payload t"
| "c_payload (CStruct ts) = sum_list (map c_payload ts)"

definition c_padding :: "c_type \<Rightarrow> nat" where
  "c_padding t = c_size t - c_payload t"

abbreviation c_u8 :: c_type where "c_u8 \<equiv> CInt 1"
abbreviation c_u16 :: c_type where "c_u16 \<equiv> CInt 2"
abbreviation c_u32 :: c_type where "c_u32 \<equiv> CInt 4"
abbreviation c_u64 :: c_type where "c_u64 \<equiv> CInt 8"

definition AbiMetadata_fields :: "c_type list" where
  "AbiMetadata_fields = replicate 10 c_u16"

definition FlowKey_fields :: "c_type list" where
  "FlowKey_fields = [CArr c_u8 16, CArr c_u8 16, c_u16, c_u16, c_u32, c_u8, c_u8, c_u8, c_u8]"

definition FlowValue_fields :: "c_type list" where
  "FlowValue_fields = [c_u64, c_u64, c_u64, c_u64, c_u16, c_u16, c_u16, c_u16]"

definition OwnerKey_fields :: "c_type list" where
  "OwnerKey_fields = [CArr c_u8 16, c_u16, c_u16, c_u8, c_u8, c_u8, c_u8]"

definition OwnerValue_fields :: "c_type list" where
  "OwnerValue_fields = [c_u32, c_u32, c_u32, c_u32, c_u64, CArr c_u8 16, c_u64]"

definition RuleRef_fields :: "c_type list" where
  "RuleRef_fields = [c_u32, c_u8, CArr c_u8 3]"

definition BucketKey_fields :: "c_type list" where
  "BucketKey_fields = [c_u32, c_u8, CArr c_u8 3]"

definition RuleState_fields :: "c_type list" where
  "RuleState_fields = [CStruct [c_u32], c_u32, c_u64, c_u64, c_u64, c_u64, c_u64, c_u64, c_u64, c_u64]"

definition EndpointMatchKey_fields :: "c_type list" where
  "EndpointMatchKey_fields = [CArr c_u8 16, c_u16, CArr c_u8 6]"

definition PolicyConfig_fields :: "c_type list" where
  "PolicyConfig_fields = [c_u8, c_u8, c_u8, c_u8, c_u32]"

definition DomainSample_fields :: "c_type list" where
  "DomainSample_fields = [c_u64, c_u32, c_u16, c_u8, c_u8, c_u8, c_u8, CArr c_u8 6,
     CArr c_u8 16, CArr c_u8 DOMAIN_SAMPLE_MAX]"

definition ServiceSample_fields :: "c_type list" where
  "ServiceSample_fields = [c_u64, CStruct FlowKey_fields, c_u16, CArr c_u8 6,
     CArr c_u8 SERVICE_SAMPLE_MAX]"

definition KernelStats_fields :: "c_type list" where
  "KernelStats_fields = replicate 14 c_u64"

lemmas abi_layouts =
  AbiMetadata_fields_def FlowKey_fields_def FlowValue_fields_def OwnerKey_fields_def
  OwnerValue_fields_def RuleRef_fields_def BucketKey_fields_def RuleState_fields_def
  EndpointMatchKey_fields_def PolicyConfig_fields_def DomainSample_fields_def
  ServiceSample_fields_def KernelStats_fields_def

definition AbiMetadata_CURRENT :: abi_metadata where
  "AbiMetadata_CURRENT = \<lparr>md_version = ABI_VERSION,
     md_flow_key_size = of_nat (c_size (CStruct FlowKey_fields)),
     md_flow_value_size = of_nat (c_size (CStruct FlowValue_fields)),
     md_domain_sample_size = of_nat (c_size (CStruct DomainSample_fields)),
     md_kernel_stats_size = of_nat (c_size (CStruct KernelStats_fields)),
     md_service_sample_size = of_nat (c_size (CStruct ServiceSample_fields)),
     md_owner_key_size = of_nat (c_size (CStruct OwnerKey_fields)),
     md_owner_value_size = of_nat (c_size (CStruct OwnerValue_fields)),
     md_rule_state_size = of_nat (c_size (CStruct RuleState_fields)),
     md_policy_config_size = of_nat (c_size (CStruct PolicyConfig_fields))\<rparr>"

text \<open>
  The types that the daemon reads and writes as raw bytes (its \<^verbatim>\<open>pod_newtype\<close>
  list) are the ones whose padding would be uninitialised memory.
\<close>

definition pod_types :: "c_type list list" where
  "pod_types = [FlowKey_fields, FlowValue_fields, KernelStats_fields, AbiMetadata_fields,
     OwnerKey_fields, OwnerValue_fields, PolicyConfig_fields, BucketKey_fields,
     RuleState_fields, RuleRef_fields, EndpointMatchKey_fields]"

text \<open>
  C13: the compile-time assertions of \<^verbatim>\<open>kernel_abi.rs\<close> hold for the
  \<^verbatim>\<open>repr(C)\<close> layout of the structs as declared: the byte size of every ABI
  struct, its field offsets, and no padding byte in any type the daemon copies as raw bytes.
\<close>

theorem abi_layout:
  "map (\<lambda>fs. (c_size (CStruct fs), c_align (CStruct fs)))
     [AbiMetadata_fields, FlowKey_fields, FlowValue_fields, OwnerKey_fields, OwnerValue_fields,
      RuleRef_fields, BucketKey_fields, RuleState_fields, EndpointMatchKey_fields,
      PolicyConfig_fields, DomainSample_fields, ServiceSample_fields, KernelStats_fields]
   = [(20, 2), (44, 4), (40, 8), (24, 2), (48, 8), (8, 4), (8, 4), (72, 8), (24, 2), (8, 4),
      (552, 8), (128, 8), (112, 8)]
   \<and> c_offsets 0 FlowKey_fields = [0, 16, 32, 34, 36, 40, 41, 42, 43]
   \<and> c_offsets 0 OwnerKey_fields = [0, 16, 18, 20, 21, 22, 23]
   \<and> c_offsets 0 OwnerValue_fields = [0, 4, 8, 12, 16, 24, 40]
   \<and> c_offsets 0 DomainSample_fields = [0, 8, 12, 14, 15, 16, 17, 18, 24, 40]
   \<and> c_offsets 0 ServiceSample_fields = [0, 8, 52, 54, 60]
   \<and> c_offsets 0 FlowValue_fields = [0, 8, 16, 24, 32, 34, 36, 38]
   \<and> c_offsets 0 RuleRef_fields = [0, 4, 5]
   \<and> c_offsets 0 BucketKey_fields = [0, 4, 5]
   \<and> c_offsets 0 RuleState_fields = [0, 4, 8, 16, 24, 32, 40, 48, 56, 64]
   \<and> c_offsets 0 EndpointMatchKey_fields = [0, 16, 18]
   \<and> c_offsets 0 PolicyConfig_fields = [0, 1, 2, 3, 4]
   \<and> list_all (\<lambda>fs. c_padding (CStruct fs) = 0) pod_types"
  by code_simp

end
