(* ===== verification/Model.thy ===== *)
theory Model
  imports Kernel_Abi
begin

text \<open>
  User-space domain values, \<^verbatim>\<open>zimascope-common/src/model.rs\<close>: addresses and their
  kernel storage, Flow keys and updates, the kernel counters with their interval arithmetic,
  the kernel's process names, and the classification of addresses. A Rust \<^verbatim>\<open>str\<close> is
  the string of its UTF-8 bytes; operations on characters decode it first.
\<close>

section \<open>Addresses\<close>

datatype ipv4 = Ipv4 u8 u8 u8 u8

datatype ipv6 = Ipv6 "u8 list"

datatype ip_addr = IpV4 ipv4 | IpV6 ipv6

fun ipv4_octets :: "ipv4 \<Rightarrow> u8 list" where
  "ipv4_octets (Ipv4 a b c d) = [a, b, c, d]"

fun ipv4_value :: "ipv4 \<Rightarrow> u32" where
  "ipv4_value (Ipv4 a b c d) = u32_from_be_bytes a b c d"

fun is_ipv6 :: "ip_addr \<Rightarrow> bool" where
  "is_ipv6 (IpV4 _) = False"
| "is_ipv6 (IpV6 _) = True"

definition ipv4_storage :: "ipv4 \<Rightarrow> u8 list" where
  "ipv4_storage address = replicate 12 0 @ ipv4_octets address"

definition ipv4_from_abi :: "u8 list \<Rightarrow> ipv4" where
  "ipv4_from_abi storage = Ipv4 (storage ! 12) (storage ! 13) (storage ! 14) (storage ! 15)"

fun ip_storage :: "ip_addr \<Rightarrow> u8 list \<times> ip_family" where
  "ip_storage (IpV4 a) = (ipv4_storage a, V4)"
| "ip_storage (IpV6 (Ipv6 octets)) = (octets, V6)"

lemma length_ipv4_octets [simp]: "length (ipv4_octets a) = 4"
  by (cases a) simp

lemma length_ipv4_storage [simp]: "length (ipv4_storage a) = 16"
  by (simp add: ipv4_storage_def)

lemma ipv4_from_abi_storage [simp]: "ipv4_from_abi (ipv4_storage a) = a"
  by (cases a) (simp add: ipv4_from_abi_def ipv4_storage_def nth_append)

lemma ipv4_storage_inject [simp]: "ipv4_storage a = ipv4_storage b \<longleftrightarrow> a = b"
  by (metis ipv4_from_abi_storage)

section \<open>Flow values\<close>

datatype protocol = ProtoTcp | ProtoUdp

datatype flow_direction = FlowInbound | FlowOutbound

record endpoint =
  ep_address :: ip_addr
  ep_port :: "u16 option"

record flow_key =
  key_source :: endpoint
  key_destination :: endpoint
  key_interface_index :: u32
  key_protocol :: protocol
  key_direction :: flow_direction

record traffic_counters =
  tc_packets :: u64
  tc_bytes :: u64

definition traffic_counters_default :: traffic_counters where
  "traffic_counters_default = \<lparr>tc_packets = 0, tc_bytes = 0\<rparr>"

datatype end_reason = IdleTimeout | TcpFin | TcpReset | EvictedOrUnknown

datatype flow_state = Active | Ended end_reason

record application_ref =
  app_tgid :: u32
  app_uid :: u32
  app_cgroup_id :: u64
  app_comm :: string

text \<open>
  \<^verbatim>\<open>Instant\<close> is the monotonic clock of the standard library, read as nanoseconds (negative before its zero);
  a \<^verbatim>\<open>Duration\<close> is a number of nanoseconds.
\<close>

type_synonym instant = int
type_synonym duration = nat

record flow_update =
  fu_key :: flow_key
  fu_delta :: traffic_counters
  fu_total :: traffic_counters
  fu_first_seen :: instant
  fu_last_seen :: instant
  fu_state :: flow_state
  fu_service :: "string option"
  fu_application :: "application_ref option"

definition protocol_from_abi :: "u8 \<Rightarrow> protocol option" where
  "protocol_from_abi value =
     (case transport_protocol_from_abi value of
        Some Tcp \<Rightarrow> Some ProtoTcp
      | Some Udp \<Rightarrow> Some ProtoUdp
      | None \<Rightarrow> None)"

definition flow_direction_from_abi :: "u8 \<Rightarrow> flow_direction option" where
  "flow_direction_from_abi value =
     (case direction_from_abi value of
        Some Inbound \<Rightarrow> Some FlowInbound
      | Some Outbound \<Rightarrow> Some FlowOutbound
      | None \<Rightarrow> None)"

lemma protocol_from_abi_simps [simp]:
  "protocol_from_abi 6 = Some ProtoTcp" "protocol_from_abi 17 = Some ProtoUdp"
  by (simp_all add: protocol_from_abi_def transport_protocol_from_abi_def)

lemma protocol_from_abi_Some:
  "protocol_from_abi v = Some p \<longleftrightarrow> (p = ProtoTcp \<and> v = 6 \<or> p = ProtoUdp \<and> v = 17)"
  by (auto simp: protocol_from_abi_def transport_protocol_from_abi_def)

lemma flow_direction_from_abi_Some:
  "flow_direction_from_abi v = Some d \<longleftrightarrow> (d = FlowInbound \<and> v = 1 \<or> d = FlowOutbound \<and> v = 2)"
  by (auto simp: flow_direction_from_abi_def direction_from_abi_def)

section \<open>UTF-8 text and process names\<close>

text \<open>
  The well-formed byte sequences of UTF-8, as \<^verbatim>\<open>str::from_utf8\<close> accepts them, with
  the code points they stand for.
\<close>

definition utf8_tail :: "nat \<Rightarrow> bool" where
  "utf8_tail b \<longleftrightarrow> 128 \<le> b \<and> b \<le> 191"

fun utf8_decode :: "nat list \<Rightarrow> nat list option" where
  "utf8_decode [] = Some []"
| "utf8_decode (b0 # bs) =
     (if b0 < 128 then map_option ((#) b0) (utf8_decode bs)
      else if 194 \<le> b0 \<and> b0 \<le> 223 then
        (case bs of
           b1 # r \<Rightarrow>
             if utf8_tail b1
             then map_option ((#) ((b0 - 192) * 64 + (b1 - 128))) (utf8_decode r)
             else None
         | _ \<Rightarrow> None)
      else if 224 \<le> b0 \<and> b0 \<le> 239 then
        (case bs of
           b1 # b2 # r \<Rightarrow>
             if utf8_tail b1 \<and> utf8_tail b2 \<and> (b0 = 224 \<longrightarrow> 160 \<le> b1) \<and> (b0 = 237 \<longrightarrow> b1 \<le> 159)
             then map_option ((#) ((b0 - 224) * 4096 + (b1 - 128) * 64 + (b2 - 128))) (utf8_decode r)
             else None
         | _ \<Rightarrow> None)
      else if 240 \<le> b0 \<and> b0 \<le> 244 then
        (case bs of
           b1 # b2 # b3 # r \<Rightarrow>
             if utf8_tail b1 \<and> utf8_tail b2 \<and> utf8_tail b3
                \<and> (b0 = 240 \<longrightarrow> 144 \<le> b1) \<and> (b0 = 244 \<longrightarrow> b1 \<le> 143)
             then map_option
                    ((#) ((b0 - 240) * 262144 + (b1 - 128) * 4096 + (b2 - 128) * 64 + (b3 - 128)))
                    (utf8_decode r)
             else None
         | _ \<Rightarrow> None)
      else None)"

definition utf8_encode :: "nat \<Rightarrow> nat list" where
  "utf8_encode c =
     (if c < 128 then [c]
      else if c < 2048 then [192 + c div 64, 128 + c mod 64]
      else if c < 65536 then [224 + c div 4096, 128 + c div 64 mod 64, 128 + c mod 64]
      else [240 + c div 262144, 128 + c div 4096 mod 64, 128 + c div 64 mod 64, 128 + c mod 64])"

definition str_of_bytes :: "u8 list \<Rightarrow> string" where
  "str_of_bytes bs = map (\<lambda>b. char_of (unat b)) bs"

definition bytes_of_str :: "string \<Rightarrow> u8 list" where
  "bytes_of_str s = map (\<lambda>c. of_nat (of_char c)) s"

definition str_chars :: "string \<Rightarrow> nat list option" where
  "str_chars s = utf8_decode (map of_char s)"

definition from_utf8 :: "u8 list \<Rightarrow> string option" where
  "from_utf8 bs =
     (case utf8_decode (map unat bs) of None \<Rightarrow> None | Some _ \<Rightarrow> Some (str_of_bytes bs))"

text \<open>The Unicode property \<^verbatim>\<open>White_Space\<close>, which \<^verbatim>\<open>str::trim\<close> strips.\<close>

definition is_white_space :: "nat \<Rightarrow> bool" where
  "is_white_space c \<longleftrightarrow> (9 \<le> c \<and> c \<le> 13) \<or> c = 32 \<or> c = 133 \<or> c = 160 \<or> c = 5760
     \<or> (8192 \<le> c \<and> c \<le> 8202) \<or> c = 8232 \<or> c = 8233 \<or> c = 8239 \<or> c = 8287 \<or> c = 12288"

definition str_trim :: "string \<Rightarrow> string" where
  "str_trim s =
     (case str_chars s of
        None \<Rightarrow> s
      | Some cs \<Rightarrow>
          map char_of (concat (map utf8_encode
            (rev (dropWhile is_white_space (rev (dropWhile is_white_space cs)))))))"

definition comm_bytes :: "string \<Rightarrow> u8 list" where
  "comm_bytes comm =
     (let len = min (length comm) 15
      in take len (bytes_of_str comm) @ replicate (16 - len) 0)"

definition comm_text :: "u8 list \<Rightarrow> string" where
  "comm_text raw =
     (let text = (case from_utf8 (takeWhile (\<lambda>byte. byte \<noteq> 0) raw) of None \<Rightarrow> [] | Some t \<Rightarrow> t)
      in str_trim text)"


lemma unat_of_char_u8 [simp]: "unat (of_nat (of_char c) :: u8) = of_char c"
  by (simp add: unat_of_nat)

lemma str_of_bytes_of_str [simp]: "str_of_bytes (bytes_of_str s) = s"
  by (induction s) (auto simp: str_of_bytes_def bytes_of_str_def)

lemma map_unat_bytes_of_str [simp]: "map unat (bytes_of_str s) = map of_char s"
  by (simp add: bytes_of_str_def)

text \<open>Process names that the kernel's 16-byte storage can hold exactly.\<close>

definition plain_comm :: "string \<Rightarrow> bool" where
  "plain_comm s \<longleftrightarrow> s \<noteq> [] \<and> length s \<le> 15
     \<and> list_all (\<lambda>c. of_char c < (128 :: nat) \<and> of_char c \<noteq> (0 :: nat)) s
     \<and> \<not> is_white_space (of_char (hd s)) \<and> \<not> is_white_space (of_char (last s))"

lemma utf8_decode_ascii:
  "list_all (\<lambda>b. b < 128) bs \<Longrightarrow> utf8_decode bs = Some bs"
  by (induction bs) auto

lemma utf8_encode_ascii:
  "list_all (\<lambda>b. b < 128) bs \<Longrightarrow> concat (map utf8_encode bs) = bs"
  by (induction bs) (auto simp: utf8_encode_def)

lemma dropWhile_hd: "xs \<noteq> [] \<Longrightarrow> \<not> P (hd xs) \<Longrightarrow> dropWhile P xs = xs"
  by (cases xs) auto

lemma plain_comm_ascii: "plain_comm s \<Longrightarrow> list_all (\<lambda>b. b < 128) (map of_char s :: nat list)"
  by (auto simp: plain_comm_def list_all_iff)

lemma plain_comm_str_trim: "plain_comm s \<Longrightarrow> str_trim s = s"
proof -
  assume p: "plain_comm s"
  let ?cs = "map of_char s :: nat list"
  have "str_chars s = Some ?cs"
    using p by (simp add: str_chars_def utf8_decode_ascii plain_comm_ascii)
  moreover have "dropWhile is_white_space ?cs = ?cs"
    using p by (auto intro!: dropWhile_hd simp: plain_comm_def hd_map)
  moreover have "dropWhile is_white_space (rev ?cs) = rev ?cs"
    using p by (auto intro!: dropWhile_hd simp: plain_comm_def hd_rev last_map)
  moreover have "concat (map utf8_encode ?cs) = ?cs"
    using p by (intro utf8_encode_ascii plain_comm_ascii)
  ultimately show ?thesis
    by (simp add: str_trim_def o_def)
qed

lemma plain_comm_takeWhile:
  assumes "plain_comm s"
  shows "takeWhile (\<lambda>byte. byte \<noteq> 0) (comm_bytes s) = bytes_of_str s"
proof -
  have l: "length s \<le> 15" and nz: "\<forall>b \<in> set (bytes_of_str s). b \<noteq> 0"
    using assms
    by (auto simp: plain_comm_def list_all_iff bytes_of_str_def unat_eq_zero [symmetric]
        simp del: unat_eq_zero)
  have e: "comm_bytes s = bytes_of_str s @ replicate (16 - length s) 0"
    using l by (simp add: comm_bytes_def bytes_of_str_def)
  have "takeWhile (\<lambda>byte. byte \<noteq> 0) (replicate (16 - length s) (0 :: u8)) = []"
    by (cases "16 - length s") simp_all
  then show ?thesis
    unfolding e using nz by (subst takeWhile_append2) auto
qed

lemma length_comm_bytes [simp]: "length (comm_bytes s) = 16"
  by (simp add: comm_bytes_def bytes_of_str_def Let_def)

lemma comm_text_bytes: "plain_comm s \<Longrightarrow> comm_text (comm_bytes s) = s"
  by (simp add: comm_text_def plain_comm_takeWhile from_utf8_def utf8_decode_ascii
      plain_comm_ascii plain_comm_str_trim)

section \<open>Address classification\<close>

datatype address_scope =
  Public | Private | Shared | FakeIp | Loopback | LinkLocal | UniqueLocal | Multicast
  | Broadcast | Documentation | Reserved | Unspecified

text \<open>The predicates of \<^verbatim>\<open>std::net::Ipv4Addr\<close> and \<^verbatim>\<open>Ipv6Addr\<close>.\<close>

fun v4_is_broadcast :: "ipv4 \<Rightarrow> bool" where
  "v4_is_broadcast (Ipv4 a b c d) \<longleftrightarrow> a = 255 \<and> b = 255 \<and> c = 255 \<and> d = 255"

fun v4_is_loopback :: "ipv4 \<Rightarrow> bool" where
  "v4_is_loopback (Ipv4 a b c d) \<longleftrightarrow> a = 127"

fun v4_is_private :: "ipv4 \<Rightarrow> bool" where
  "v4_is_private (Ipv4 a b c d) \<longleftrightarrow>
     a = 10 \<or> (a = 172 \<and> 16 \<le> b \<and> b \<le> 31) \<or> (a = 192 \<and> b = 168)"

fun v4_is_link_local :: "ipv4 \<Rightarrow> bool" where
  "v4_is_link_local (Ipv4 a b c d) \<longleftrightarrow> a = 169 \<and> b = 254"

fun v4_is_multicast :: "ipv4 \<Rightarrow> bool" where
  "v4_is_multicast (Ipv4 a b c d) \<longleftrightarrow> 224 \<le> a \<and> a \<le> 239"

fun v4_is_documentation :: "ipv4 \<Rightarrow> bool" where
  "v4_is_documentation (Ipv4 a b c d) \<longleftrightarrow>
     (a = 192 \<and> b = 0 \<and> c = 2) \<or> (a = 198 \<and> b = 51 \<and> c = 100) \<or> (a = 203 \<and> b = 0 \<and> c = 113)"

fun v4_is_unspecified :: "ipv4 \<Rightarrow> bool" where
  "v4_is_unspecified (Ipv4 a b c d) \<longleftrightarrow> a = 0 \<and> b = 0 \<and> c = 0 \<and> d = 0"

definition classify_v4 :: "ipv4 \<Rightarrow> address_scope" where
  "classify_v4 address =
     (let value = ipv4_value address in
      if v4_is_broadcast address then Broadcast
      else if v4_is_loopback address then Loopback
      else if v4_is_private address then Private
      else if v4_is_link_local address then LinkLocal
      else if v4_is_multicast address then Multicast
      else if v4_is_documentation address then Documentation
      else if v4_is_unspecified address then Unspecified
      else if value AND 0xFFC00000 = 0x64400000 then Shared
      else if value AND 0xFFFE0000 = 0xC6120000 then FakeIp
      else if value AND 0xFFFFFF00 = 0xC0000000 \<or> value AND 0xF0000000 = 0xF0000000
         \<or> value AND 0xFF000000 = 0 then Reserved
      else Public)"

fun v6_segment :: "ipv6 \<Rightarrow> nat \<Rightarrow> u16" where
  "v6_segment (Ipv6 octets) i = u16_from_be_bytes (octets ! (2 * i)) (octets ! (2 * i + 1))"

fun v6_is_loopback :: "ipv6 \<Rightarrow> bool" where
  "v6_is_loopback (Ipv6 octets) \<longleftrightarrow> octets = replicate 15 0 @ [1]"

fun v6_is_unspecified :: "ipv6 \<Rightarrow> bool" where
  "v6_is_unspecified (Ipv6 octets) \<longleftrightarrow> octets = replicate 16 0"

definition v6_is_unique_local :: "ipv6 \<Rightarrow> bool" where
  "v6_is_unique_local a \<longleftrightarrow> v6_segment a 0 AND 0xFE00 = 0xFC00"

definition v6_is_unicast_link_local :: "ipv6 \<Rightarrow> bool" where
  "v6_is_unicast_link_local a \<longleftrightarrow> v6_segment a 0 AND 0xFFC0 = 0xFE80"

definition v6_is_multicast :: "ipv6 \<Rightarrow> bool" where
  "v6_is_multicast a \<longleftrightarrow> v6_segment a 0 AND 0xFF00 = 0xFF00"

definition classify_v6 :: "ipv6 \<Rightarrow> address_scope" where
  "classify_v6 address =
     (if v6_is_loopback address then Loopback
      else if v6_is_unspecified address then Unspecified
      else if v6_is_unique_local address then UniqueLocal
      else if v6_is_unicast_link_local address then LinkLocal
      else if v6_is_multicast address then Multicast
      else if v6_segment address 0 = 0x2001 \<and> v6_segment address 1 = 0x0DB8 then Documentation
      else Public)"

fun classify :: "ip_addr \<Rightarrow> address_scope" where
  "classify (IpV4 address) = classify_v4 address"
| "classify (IpV6 address) = classify_v6 address"

definition is_public :: "address_scope \<Rightarrow> bool" where
  "is_public s \<longleftrightarrow> s = Public"


lemma masked_eq_iff:
  "v AND NOT (mask k) = b AND NOT (mask k) \<longleftrightarrow> unat v div 2 ^ k = unat b div 2 ^ k"
  for v b :: "'a::len word"
proof -
  have "v AND NOT (mask k) = b AND NOT (mask k) \<longleftrightarrow> drop_bit k v = drop_bit k b"
  proof
    assume l: "v AND NOT (mask k) = b AND NOT (mask k)"
    show "drop_bit k v = drop_bit k b"
    proof (rule bit_word_eqI)
      fix n :: nat
      have "bit (v AND NOT (mask k)) (k + n) = bit (b AND NOT (mask k)) (k + n)"
        using l by simp
      then show "bit (drop_bit k v) n = bit (drop_bit k b) n"
        by (auto simp: bit_simps dest: bit_imp_le_length)
    qed
  next
    assume r: "drop_bit k v = drop_bit k b"
    show "v AND NOT (mask k) = b AND NOT (mask k)"
    proof (rule bit_word_eqI)
      fix n :: nat
      have "bit (drop_bit k v) (n - k) = bit (drop_bit k b) (n - k)"
        using r by simp
      then show "bit (v AND NOT (mask k)) n = bit (b AND NOT (mask k)) n"
        by (auto simp: bit_simps)
    qed
  qed
  then show ?thesis by (simp only: word_unat_eq_iff unat_drop_bit)
qed

lemma prefix_masks:
  "(0xFFC00000 :: u32) = NOT (mask 22)" "(0xFFFE0000 :: u32) = NOT (mask 17)"
  "(0xFFFFFF00 :: u32) = NOT (mask 8)" "(0xF0000000 :: u32) = NOT (mask 28)"
  "(0xFF000000 :: u32) = NOT (mask 24)"
  by (simp_all add: mask_eq_exp_minus_1)

lemma masked_prefix:
  "v AND 0xFFC00000 = 0x64400000 \<longleftrightarrow> unat v div 2 ^ 22 = 401"
  "v AND 0xFFFE0000 = 0xC6120000 \<longleftrightarrow> unat v div 2 ^ 17 = 25353"
  "v AND 0xFFFFFF00 = 0xC0000000 \<longleftrightarrow> unat v div 2 ^ 8 = 12582912"
  "v AND 0xF0000000 = 0xF0000000 \<longleftrightarrow> unat v div 2 ^ 28 = 15"
  "v AND 0xFF000000 = 0 \<longleftrightarrow> unat v div 2 ^ 24 = 0" for v :: u32
  using masked_eq_iff [of v 22 "0x64400000"] masked_eq_iff [of v 17 "0xC6120000"]
    masked_eq_iff [of v 8 "0xC0000000"] masked_eq_iff [of v 28 "0xF0000000"]
    masked_eq_iff [of v 24 0]
  by (simp_all only: prefix_masks [symmetric]) simp_all

text \<open>The special-purpose IPv4 blocks, as network address and prefix length.\<close>

definition special_v4_blocks :: "(nat \<times> nat) list" where
  "special_v4_blocks =
     [(0x00000000, 8), (0x0A000000, 8), (0x64400000, 10), (0x7F000000, 8), (0xA9FE0000, 16),
      (0xAC100000, 12), (0xC0000000, 24), (0xC0000200, 24), (0xC0A80000, 16), (0xC6120000, 15),
      (0xC6336400, 24), (0xCB007100, 24), (0xE0000000, 4), (0xF0000000, 4)]"

definition in_block :: "nat \<Rightarrow> nat \<times> nat \<Rightarrow> bool" where
  "in_block v = (\<lambda>(base, len). v div 2 ^ (32 - len) = base div 2 ^ (32 - len))"


text \<open>An address read as a number, divided at the prefix lengths in use.\<close>

lemma div_digit: "0 < n \<Longrightarrow> (n * k + b) div n = k + b div n" for n k b :: nat
  by simp

lemma digit_eq_iff:
  fixes n a b k l :: nat
  assumes "b < n" "l < n"
  shows "n * a + b = n * k + l \<longleftrightarrow> a = k \<and> b = l"
proof
  assume e: "n * a + b = n * k + l"
  then have "(n * a + b) div n = (n * k + l) div n" "(n * a + b) mod n = (n * k + l) mod n"
    by simp_all
  with assms show "a = k \<and> b = l" by simp
qed simp

lemma ipv4_value_div:
  assumes "v = unat (ipv4_value (Ipv4 a b c d))"
  shows "v div 16777216 = unat a" "v div 65536 = 256 * unat a + unat b"
    "v div 256 = 256 * (256 * unat a + unat b) + unat c"
    "v div 268435456 = unat a div 16" "v div 1048576 = 16 * unat a + unat b div 16"
    "v div 4194304 = 4 * unat a + unat b div 64" "v div 131072 = 128 * unat a + unat b div 2"
proof -
  have v: "v = 256 * (65536 * unat a + 256 * unat b + unat c) + unat d"
    using assms by simp
  note le = unat_u8_le [of a] unat_u8_le [of b] unat_u8_le [of c] unat_u8_le [of d]
  show e8: "v div 256 = 256 * (256 * unat a + unat b) + unat c"
    using le unfolding v by simp
  have d: "v div (256 * n) = v div 256 div n" for n
    by (simp only: div_mult2_eq)
  show e16: "v div 65536 = 256 * unat a + unat b"
    using d [of 256] le by (simp add: e8)
  have d': "v div (65536 * n) = (256 * unat a + unat b) div n" for n
    by (simp only: div_mult2_eq e16)
  show e24: "v div 16777216 = unat a"
    using d' [of 256] le by simp
  show "v div 268435456 = unat a div 16"
    using div_mult2_eq [of v 16777216 16] by (simp add: e24)
  show "v div 1048576 = 16 * unat a + unat b div 16"
    using d' [of 16] div_digit [of 16 "16 * unat a" "unat b"] by (simp del: div_mult_self1 div_mult_self2)
  show "v div 4194304 = 4 * unat a + unat b div 64"
    using d' [of 64] div_digit [of 64 "4 * unat a" "unat b"] by simp
  show "v div 131072 = 128 * unat a + unat b div 2"
    using d' [of 2] div_digit [of 2 "128 * unat a" "unat b"] by simp
qed

lemma u8_eq_iff: "a = b \<longleftrightarrow> unat a = unat b" for a b :: u8
  by (rule word_unat_eq_iff)

lemma v4_predicates_blocks:
  assumes "v = unat (ipv4_value x)"
  shows "v4_is_loopback x \<longleftrightarrow> in_block v (0x7F000000, 8)"
    "v4_is_private x \<longleftrightarrow> in_block v (0x0A000000, 8) \<or> in_block v (0xAC100000, 12)
        \<or> in_block v (0xC0A80000, 16)"
    "v4_is_link_local x \<longleftrightarrow> in_block v (0xA9FE0000, 16)"
    "v4_is_multicast x \<longleftrightarrow> in_block v (0xE0000000, 4)"
    "v4_is_documentation x \<longleftrightarrow> in_block v (0xC0000200, 24) \<or> in_block v (0xC6336400, 24)
        \<or> in_block v (0xCB007100, 24)"
    "ipv4_value x AND 0xFFC00000 = 0x64400000 \<longleftrightarrow> in_block v (0x64400000, 10)"
    "ipv4_value x AND 0xFFFE0000 = 0xC6120000 \<longleftrightarrow> in_block v (0xC6120000, 15)"
    "ipv4_value x AND 0xFFFFFF00 = 0xC0000000 \<longleftrightarrow> in_block v (0xC0000000, 24)"
    "ipv4_value x AND 0xF0000000 = 0xF0000000 \<longleftrightarrow> in_block v (0xF0000000, 4)"
    "ipv4_value x AND 0xFF000000 = 0 \<longleftrightarrow> in_block v (0x00000000, 8)"
    "v4_is_broadcast x \<Longrightarrow> in_block v (0xF0000000, 4)"
    "v4_is_unspecified x \<Longrightarrow> in_block v (0x00000000, 8)"
proof -
  obtain a b c d where x: "x = Ipv4 a b c d" by (cases x)
  have le: "unat a < 256" "unat b < 256" "unat c < 256" "unat b div 16 < 16"
    using unat_u8_le [of a] unat_u8_le [of b] unat_u8_le [of c] by linarith+
  note dv = ipv4_value_div [OF assms [unfolded x]]
  note simps = x in_block_def dv u8_eq_iff word_le_nat_alt
  have two: "256 * unat a + unat b = 256 * k + l \<longleftrightarrow> unat a = k \<and> unat b = l" if "l < 256" for k l
    using that le by (intro digit_eq_iff)
  have three: "256 * (256 * unat a + unat b) + unat c = 256 * (256 * k + l) + m
      \<longleftrightarrow> unat a = k \<and> unat b = l \<and> unat c = m" if "l < 256" "m < 256" for k l m
    using digit_eq_iff [OF le(3) that(2), of "256 * unat a + unat b" "256 * k + l"] two [OF that(1)]
    by blast
  have nib: "16 * unat a + unat b div 16 = 16 * k + l \<longleftrightarrow> unat a = k \<and> unat b div 16 = l"
    if "l < 16" for k l
    using that le by (intro digit_eq_iff)
  have d16: "n div 16 = 1 \<longleftrightarrow> 16 \<le> n \<and> n \<le> 31" "n div 16 = 14 \<longleftrightarrow> 224 \<le> n \<and> n \<le> 239" for n :: nat
    by auto
  show "v4_is_loopback x \<longleftrightarrow> in_block v (0x7F000000, 8)"
    by (simp add: simps)
  show "v4_is_link_local x \<longleftrightarrow> in_block v (0xA9FE0000, 16)"
    using two [of 254 169] by (simp add: simps)
  show "v4_is_multicast x \<longleftrightarrow> in_block v (0xE0000000, 4)"
    by (simp add: simps d16)
  show "v4_is_private x \<longleftrightarrow> in_block v (0x0A000000, 8) \<or> in_block v (0xAC100000, 12)
        \<or> in_block v (0xC0A80000, 16)"
    using two [of 168 192] nib [of 1 172] by (simp add: simps d16 [simplified])
  show "v4_is_documentation x \<longleftrightarrow> in_block v (0xC0000200, 24) \<or> in_block v (0xC6336400, 24)
        \<or> in_block v (0xCB007100, 24)"
    using three [of 0 2 192] three [of 51 100 198] three [of 0 113 203] by (simp add: simps)
  show "ipv4_value x AND 0xFFC00000 = 0x64400000 \<longleftrightarrow> in_block v (0x64400000, 10)"
    "ipv4_value x AND 0xFFFE0000 = 0xC6120000 \<longleftrightarrow> in_block v (0xC6120000, 15)"
    "ipv4_value x AND 0xFFFFFF00 = 0xC0000000 \<longleftrightarrow> in_block v (0xC0000000, 24)"
    "ipv4_value x AND 0xF0000000 = 0xF0000000 \<longleftrightarrow> in_block v (0xF0000000, 4)"
    "ipv4_value x AND 0xFF000000 = 0 \<longleftrightarrow> in_block v (0x00000000, 8)"
    by (simp_all add: masked_prefix in_block_def assms)
  show "v4_is_broadcast x \<Longrightarrow> in_block v (0xF0000000, 4)"
    "v4_is_unspecified x \<Longrightarrow> in_block v (0x00000000, 8)"
    by (auto simp: simps)
qed

text \<open>
  The built-in classification calls an IPv4 address public exactly when it lies outside
  every special-purpose block, so only those addresses reach the GeoIP database.
\<close>

theorem classify_v4_public_iff:
  "is_public (classify (IpV4 x)) \<longleftrightarrow>
     list_all (\<lambda>block. \<not> in_block (unat (ipv4_value x)) block) special_v4_blocks"
proof -
  note p = v4_predicates_blocks [OF refl, of x]
  have "classify_v4 x = Public \<longleftrightarrow>
      \<not> (v4_is_broadcast x \<or> v4_is_loopback x \<or> v4_is_private x \<or> v4_is_link_local x
        \<or> v4_is_multicast x \<or> v4_is_documentation x \<or> v4_is_unspecified x
        \<or> ipv4_value x AND 0xFFC00000 = 0x64400000 \<or> ipv4_value x AND 0xFFFE0000 = 0xC6120000
        \<or> ipv4_value x AND 0xFFFFFF00 = 0xC0000000 \<or> ipv4_value x AND 0xF0000000 = 0xF0000000
        \<or> ipv4_value x AND 0xFF000000 = 0)"
    by (simp add: classify_v4_def Let_def)
  also have "\<dots> \<longleftrightarrow> (\<forall>block \<in> set special_v4_blocks. \<not> in_block (unat (ipv4_value x)) block)"
    using p(11,12) unfolding p(1-10) special_v4_blocks_def by auto
  finally show ?thesis by (simp add: is_public_def list_all_iff)
qed


section \<open>Kernel counters\<close>

text \<open>
  The field list of the \<^verbatim>\<open>kernel_counters!\<close> macro, shared by the conversion
  from the ABI type, the monotonicity test and the delta.
\<close>

record kernel_counters =
  kc_packets_seen :: u64
  kc_packets_parsed :: u64
  kc_parse_failures :: u64
  kc_map_update_failures :: u64
  kc_flow_evictions :: u64
  kc_domain_events_emitted :: u64
  kc_domain_events_dropped :: u64
  kc_service_events_emitted :: u64
  kc_service_events_dropped :: u64
  kc_owner_events_inserted :: u64
  kc_owner_events_dropped :: u64
  kc_policy_dropped_packets :: u64
  kc_policy_dropped_bytes :: u64
  kc_policy_missing_state :: u64

definition kernel_counters_default :: kernel_counters where
  "kernel_counters_default = \<lparr>kc_packets_seen = 0,
     kc_packets_parsed = 0,
     kc_parse_failures = 0,
     kc_map_update_failures = 0,
     kc_flow_evictions = 0,
     kc_domain_events_emitted = 0,
     kc_domain_events_dropped = 0,
     kc_service_events_emitted = 0,
     kc_service_events_dropped = 0,
     kc_owner_events_inserted = 0,
     kc_owner_events_dropped = 0,
     kc_policy_dropped_packets = 0,
     kc_policy_dropped_bytes = 0,
     kc_policy_missing_state = 0\<rparr>"

definition kernel_counters_from :: "kernel_stats \<Rightarrow> kernel_counters" where
  "kernel_counters_from stats = \<lparr>kc_packets_seen = ks_packets_seen stats,
     kc_packets_parsed = ks_packets_parsed stats,
     kc_parse_failures = ks_parse_failures stats,
     kc_map_update_failures = ks_map_update_failures stats,
     kc_flow_evictions = ks_flow_evictions stats,
     kc_domain_events_emitted = ks_domain_events_emitted stats,
     kc_domain_events_dropped = ks_domain_events_dropped stats,
     kc_service_events_emitted = ks_service_events_emitted stats,
     kc_service_events_dropped = ks_service_events_dropped stats,
     kc_owner_events_inserted = ks_owner_events_inserted stats,
     kc_owner_events_dropped = ks_owner_events_dropped stats,
     kc_policy_dropped_packets = ks_policy_dropped_packets stats,
     kc_policy_dropped_bytes = ks_policy_dropped_bytes stats,
     kc_policy_missing_state = ks_policy_missing_state stats\<rparr>"

definition is_monotonic_from :: "kernel_counters \<Rightarrow> kernel_counters \<Rightarrow> bool" where
  "is_monotonic_from self previous \<longleftrightarrow> True
     \<and> kc_packets_seen self \<ge> kc_packets_seen previous
     \<and> kc_packets_parsed self \<ge> kc_packets_parsed previous
     \<and> kc_parse_failures self \<ge> kc_parse_failures previous
     \<and> kc_map_update_failures self \<ge> kc_map_update_failures previous
     \<and> kc_flow_evictions self \<ge> kc_flow_evictions previous
     \<and> kc_domain_events_emitted self \<ge> kc_domain_events_emitted previous
     \<and> kc_domain_events_dropped self \<ge> kc_domain_events_dropped previous
     \<and> kc_service_events_emitted self \<ge> kc_service_events_emitted previous
     \<and> kc_service_events_dropped self \<ge> kc_service_events_dropped previous
     \<and> kc_owner_events_inserted self \<ge> kc_owner_events_inserted previous
     \<and> kc_owner_events_dropped self \<ge> kc_owner_events_dropped previous
     \<and> kc_policy_dropped_packets self \<ge> kc_policy_dropped_packets previous
     \<and> kc_policy_dropped_bytes self \<ge> kc_policy_dropped_bytes previous
     \<and> kc_policy_missing_state self \<ge> kc_policy_missing_state previous"

text \<open>Plain subtraction: it wraps where the caller did not check monotonicity first.\<close>

definition delta_from :: "kernel_counters \<Rightarrow> kernel_counters \<Rightarrow> kernel_counters" where
  "delta_from self previous = \<lparr>kc_packets_seen = kc_packets_seen self - kc_packets_seen previous,
     kc_packets_parsed = kc_packets_parsed self - kc_packets_parsed previous,
     kc_parse_failures = kc_parse_failures self - kc_parse_failures previous,
     kc_map_update_failures = kc_map_update_failures self - kc_map_update_failures previous,
     kc_flow_evictions = kc_flow_evictions self - kc_flow_evictions previous,
     kc_domain_events_emitted = kc_domain_events_emitted self - kc_domain_events_emitted previous,
     kc_domain_events_dropped = kc_domain_events_dropped self - kc_domain_events_dropped previous,
     kc_service_events_emitted = kc_service_events_emitted self - kc_service_events_emitted previous,
     kc_service_events_dropped = kc_service_events_dropped self - kc_service_events_dropped previous,
     kc_owner_events_inserted = kc_owner_events_inserted self - kc_owner_events_inserted previous,
     kc_owner_events_dropped = kc_owner_events_dropped self - kc_owner_events_dropped previous,
     kc_policy_dropped_packets = kc_policy_dropped_packets self - kc_policy_dropped_packets previous,
     kc_policy_dropped_bytes = kc_policy_dropped_bytes self - kc_policy_dropped_bytes previous,
     kc_policy_missing_state = kc_policy_missing_state self - kc_policy_missing_state previous\<rparr>"

text \<open>Every counter of a value, read as numbers, in the order of the macro.\<close>

definition counter_values :: "kernel_counters \<Rightarrow> nat list" where
  "counter_values k = map unat [kc_packets_seen k,
     kc_packets_parsed k,
     kc_parse_failures k,
     kc_map_update_failures k,
     kc_flow_evictions k,
     kc_domain_events_emitted k,
     kc_domain_events_dropped k,
     kc_service_events_emitted k,
     kc_service_events_dropped k,
     kc_owner_events_inserted k,
     kc_owner_events_dropped k,
     kc_policy_dropped_packets k,
     kc_policy_dropped_bytes k,
     kc_policy_missing_state k]"

lemma counter_values_from:
  "counter_values (kernel_counters_from s) = map unat [ks_packets_seen s,
     ks_packets_parsed s,
     ks_parse_failures s,
     ks_map_update_failures s,
     ks_flow_evictions s,
     ks_domain_events_emitted s,
     ks_domain_events_dropped s,
     ks_service_events_emitted s,
     ks_service_events_dropped s,
     ks_owner_events_inserted s,
     ks_owner_events_dropped s,
     ks_policy_dropped_packets s,
     ks_policy_dropped_bytes s,
     ks_policy_missing_state s]"
  by (simp add: counter_values_def kernel_counters_from_def)

lemma counter_values_delta:
  "is_monotonic_from k p \<Longrightarrow>
     counter_values (delta_from k p) = map2 (-) (counter_values k) (counter_values p)"
  by (simp add: counter_values_def delta_from_def is_monotonic_from_def unat_sub)

lemma counter_values_mono:
  "is_monotonic_from k p \<Longrightarrow> list_all2 (\<le>) (counter_values p) (counter_values k)"
  by (simp add: counter_values_def is_monotonic_from_def word_le_nat_alt)

end
