(* ===== verification/Packet_Parse.thy ===== *)
theory Packet_Parse
  imports Model
begin

text \<open>
  Bounded Ethernet/VLAN/IPv4/TCP/UDP parsing, \<^verbatim>\<open>zimascope-ebpf/src/parse.rs\<close>, and
  the packet cursor of \<^verbatim>\<open>tc.rs\<close>. The \<^verbatim>\<open>PacketCursor\<close> trait is a
  record of reads; its contract is the locale \<open>packet_cursor\<close>, which the byte-slice cursor
  of the host and the pointer cursor of the eBPF program both satisfy. Header sizes and field
  offsets are those of the wire formats (the values the \<^verbatim>\<open>network-types\<close> layouts
  stand for, which the frames built by the tests of \<^verbatim>\<open>parse.rs\<close> spell out).
\<close>

section \<open>Cursors\<close>

record cursor =
  read_u8 :: "nat \<Rightarrow> u8 option"
  read_u16_be :: "nat \<Rightarrow> u16 option"
  read_u32_be :: "nat \<Rightarrow> u32 option"
  read_bytes :: "nat \<Rightarrow> nat \<Rightarrow> u8 list option"

text \<open>The trait's default methods: a byte-wise copy, and the presence test.\<close>

fun default_read_bytes :: "(nat \<Rightarrow> u8 option) \<Rightarrow> nat \<Rightarrow> nat \<Rightarrow> u8 list option" where
  "default_read_bytes rd off 0 = Some []"
| "default_read_bytes rd off (Suc len) =
     (case rd off of
        Some value \<Rightarrow> map_option ((#) value) (default_read_bytes rd (Suc off) len)
      | None \<Rightarrow> None)"

definition has :: "cursor \<Rightarrow> nat \<Rightarrow> nat \<Rightarrow> bool" where
  "has c off len \<longleftrightarrow> len = 0 \<or> read_u8 c (off + len - 1) \<noteq> None"

definition memory_cursor :: "u8 list \<Rightarrow> cursor" where
  "memory_cursor data =
     \<lparr>read_u8 = (\<lambda>off. if off < length data then Some (data ! off) else None),
      read_u16_be = (\<lambda>off. if off + 2 \<le> length data
         then Some (u16_from_be_bytes (data ! off) (data ! (off + 1))) else None),
      read_u32_be = (\<lambda>off. if off + 4 \<le> length data
         then Some (u32_from_be_bytes (data ! off) (data ! (off + 1)) (data ! (off + 2)) (data ! (off + 3)))
         else None),
      read_bytes = (\<lambda>off len. if off + len \<le> length data
         then Some (take len (drop off data)) else None)\<rparr>"

text \<open>
  The eBPF cursor holds two verified packet pointers; the packet's memory is read through
  them. \<open>slice_at\<close> is the bounds check every access goes through.
\<close>

record bpf_packet =
  bp_data :: u64
  bp_data_end :: u64
  bp_mem :: "u64 \<Rightarrow> u8"

definition MAX_PACKET_OFF :: nat where "MAX_PACKET_OFF = 0x3fff"

definition slice_at :: "bpf_packet \<Rightarrow> nat \<Rightarrow> nat \<Rightarrow> u64 option" where
  "slice_at p off len =
     (if off + len \<ge> 2 ^ 64 then None
      else if off + len > MAX_PACKET_OFF then None
      else let start = bp_data p + of_nat off; stop = start + of_nat len in
        if stop < start \<or> stop > bp_data_end p then None else Some start)"

definition bpf_cursor :: "bpf_packet \<Rightarrow> cursor" where
  "bpf_cursor p =
     (let rd = (\<lambda>off. map_option (bp_mem p) (slice_at p off 1)) in
     \<lparr>read_u8 = rd,
      read_u16_be = (\<lambda>off. map_option
         (\<lambda>a. u16_from_be_bytes (bp_mem p a) (bp_mem p (a + 1))) (slice_at p off 2)),
      read_u32_be = (\<lambda>off. map_option
         (\<lambda>a. u32_from_be_bytes (bp_mem p a) (bp_mem p (a + 1)) (bp_mem p (a + 2)) (bp_mem p (a + 3)))
         (slice_at p off 4)),
      read_bytes = default_read_bytes rd\<rparr>)"

text \<open>
  What the parsers rely on: multi-byte reads are the big-endian composition of byte reads, a
  copy is the sequence of its bytes, and the readable offsets form an initial segment.
\<close>

locale packet_cursor =
  fixes c :: cursor
  assumes u8_closed: "read_u8 c j \<noteq> None \<Longrightarrow> i \<le> j \<Longrightarrow> read_u8 c i \<noteq> None"
    and u16_bytes: "read_u16_be c i =
      (case (read_u8 c i, read_u8 c (i + 1)) of
         (Some a, Some b) \<Rightarrow> Some (u16_from_be_bytes a b) | _ \<Rightarrow> None)"
    and u32_bytes: "read_u32_be c i =
      (case (read_u8 c i, read_u8 c (i + 1), read_u8 c (i + 2), read_u8 c (i + 3)) of
         (Some a, Some b, Some d, Some e) \<Rightarrow> Some (u32_from_be_bytes a b d e) | _ \<Rightarrow> None)"
    and copy_bytes: "0 < n \<Longrightarrow> read_bytes c i n = default_read_bytes (read_u8 c) i n"
begin

lemma has_bytes: "has c i n \<Longrightarrow> j < n \<Longrightarrow> read_u8 c (i + j) \<noteq> None"
  using u8_closed [of "i + n - 1" "i + j"] by (auto simp: has_def)

lemma copy_length: "0 < n \<Longrightarrow> read_bytes c i n = Some bs \<Longrightarrow> length bs = n"
proof -
  have "default_read_bytes rd i n = Some bs \<Longrightarrow> length bs = n" for rd bs i n
    by (induction n arbitrary: i bs) (auto split: option.splits)
  then show "0 < n \<Longrightarrow> read_bytes c i n = Some bs \<Longrightarrow> length bs = n"
    by (simp add: copy_bytes)
qed

end

text \<open>Two cursors that agree on the first bytes give the same reads there.\<close>

locale cursor_pair = l: packet_cursor c + r: packet_cursor c' for c c' +
  fixes n :: nat
  assumes agree: "i < n \<Longrightarrow> read_u8 c i = read_u8 c' i"
begin

lemma u16_agree: "i + 2 \<le> n \<Longrightarrow> read_u16_be c i = read_u16_be c' i"
  by (simp add: l.u16_bytes r.u16_bytes agree)

lemma u32_agree: "i + 4 \<le> n \<Longrightarrow> read_u32_be c i = read_u32_be c' i"
  by (simp add: l.u32_bytes r.u32_bytes agree)

lemma default_agree: "i + k \<le> n \<Longrightarrow> default_read_bytes (read_u8 c) i k = default_read_bytes (read_u8 c') i k"
  by (induction k arbitrary: i) (simp_all add: agree split: option.split)

lemma bytes_agree: "0 < k \<Longrightarrow> i + k \<le> n \<Longrightarrow> read_bytes c i k = read_bytes c' i k"
  by (simp add: l.copy_bytes r.copy_bytes default_agree)

lemma has_agree: "i + k \<le> n \<Longrightarrow> has c i k = has c' i k"
  by (cases k) (simp_all add: has_def agree)

lemmas reads_agree = agree u16_agree u32_agree bytes_agree has_agree

end

lemma default_read_bytes_list:
  "off + len \<le> length data \<Longrightarrow>
     default_read_bytes (\<lambda>i. if i < length data then Some (data ! i) else None) off len
     = Some (take len (drop off data))"
proof (induction len arbitrary: off)
  case (Suc len)
  then have "drop off data = data ! off # drop (Suc off) data"
    by (simp add: Cons_nth_drop_Suc)
  with Suc show ?case by simp
qed simp

lemma default_read_bytes_None:
  "\<not> off + len \<le> length data \<Longrightarrow> 0 < len \<Longrightarrow>
     default_read_bytes (\<lambda>i. if i < length data then Some (data ! i) else None) off len = None"
proof (induction len arbitrary: off)
  case (Suc len)
  then show ?case by (cases "len = 0") auto
qed simp

interpretation memory: packet_cursor "memory_cursor data" for data
  by unfold_locales
    (auto simp: memory_cursor_def default_read_bytes_list default_read_bytes_None
      split: if_splits)

interpretation extended: cursor_pair "memory_cursor data" "memory_cursor (data @ more)" "length data"
  for data more
  by unfold_locales (simp add: memory_cursor_def nth_append)


text \<open>
  A frame loaded at the packet pointers: the kernel's guarantee is that the pointers delimit
  the linear data and do not come near the top of the address space.
\<close>

definition bpf_loads :: "bpf_packet \<Rightarrow> u8 list \<Rightarrow> bool" where
  "bpf_loads p data \<longleftrightarrow>
     unat (bp_data_end p) = unat (bp_data p) + length data
     \<and> unat (bp_data p) + MAX_PACKET_OFF < 2 ^ 64
     \<and> (\<forall>i < length data. bp_mem p (bp_data p + of_nat i) = data ! i)"

lemma slice_at_loaded:
  assumes "bpf_loads p data"
  shows "slice_at p off len =
     (if off + len \<le> MAX_PACKET_OFF \<and> off + len \<le> length data then Some (bp_data p + of_nat off) else None)"
proof (cases "off + len \<le> MAX_PACKET_OFF")
  case True
  have b: "unat (bp_data p) + MAX_PACKET_OFF < 2 ^ 64"
    and e: "unat (bp_data_end p) = unat (bp_data p) + length data"
    using assms by (simp_all add: bpf_loads_def)
  have "unat (of_nat k :: u64) = k" if "k \<le> MAX_PACKET_OFF" for k
    using that by (simp add: unat_of_nat MAX_PACKET_OFF_def)
  then have n: "unat (bp_data p + of_nat k) = unat (bp_data p) + k" if "k \<le> MAX_PACKET_OFF" for k
    using that b by (simp add: unat_word_ariths)
  have "bp_data p + of_nat off + of_nat len = bp_data p + of_nat (off + len)"
    by simp
  then have "unat (bp_data p + of_nat off + of_nat len) = unat (bp_data p) + (off + len)"
    using n [OF True] by (simp only:)
  moreover have "unat (bp_data p + of_nat off) = unat (bp_data p) + off"
    using True by (intro n) simp
  ultimately show ?thesis
    using True e by (auto simp: slice_at_def Let_def word_less_nat_alt MAX_PACKET_OFF_def)
next
  case False
  then show ?thesis by (simp add: slice_at_def)
qed

lemma bpf_read_u8:
  assumes "bpf_loads p data"
  shows "read_u8 (bpf_cursor p) i =
    (if i < MAX_PACKET_OFF \<and> i < length data then Some (data ! i) else None)"
  using assms slice_at_loaded [OF assms, of i 1]
  by (auto simp: bpf_cursor_def Let_def bpf_loads_def)

lemma bpf_mem_offset:
  assumes "bpf_loads p data" "i + k < length data"
  shows "bp_mem p (bp_data p + of_nat i + of_nat k) = data ! (i + k)"
proof -
  have "bp_data p + of_nat i + of_nat k = bp_data p + of_nat (i + k)" by simp
  then show ?thesis using assms unfolding bpf_loads_def by (simp only:)
qed

lemma bpf_packet_cursor:
  assumes l: "bpf_loads p data"
  shows "packet_cursor (bpf_cursor p)"
proof
  show "read_u8 (bpf_cursor p) j \<noteq> None \<Longrightarrow> i \<le> j \<Longrightarrow> read_u8 (bpf_cursor p) i \<noteq> None" for i j
    by (auto simp: bpf_read_u8 [OF l] split: if_splits)
  show "read_u16_be (bpf_cursor p) i =
      (case (read_u8 (bpf_cursor p) i, read_u8 (bpf_cursor p) (i + 1)) of
         (Some a, Some b) \<Rightarrow> Some (u16_from_be_bytes a b) | _ \<Rightarrow> None)" for i
    using bpf_mem_offset [OF l, of i 0] bpf_mem_offset [OF l, of i 1]
    by (auto simp: bpf_read_u8 [OF l] slice_at_loaded [OF l] bpf_cursor_def [of p] Let_def ac_simps)
  show "read_u32_be (bpf_cursor p) i =
      (case (read_u8 (bpf_cursor p) i, read_u8 (bpf_cursor p) (i + 1), read_u8 (bpf_cursor p) (i + 2),
         read_u8 (bpf_cursor p) (i + 3)) of
         (Some a, Some b, Some d, Some e) \<Rightarrow> Some (u32_from_be_bytes a b d e) | _ \<Rightarrow> None)" for i
    using bpf_mem_offset [OF l, of i 0] bpf_mem_offset [OF l, of i 1]
      bpf_mem_offset [OF l, of i 2] bpf_mem_offset [OF l, of i 3]
    by (auto simp: bpf_read_u8 [OF l] slice_at_loaded [OF l] bpf_cursor_def [of p] Let_def ac_simps)
  show "0 < n \<Longrightarrow> read_bytes (bpf_cursor p) i n = default_read_bytes (read_u8 (bpf_cursor p)) i n" for i n
    by (simp add: bpf_cursor_def Let_def)
qed


lemma bpf_memory_pair:
  assumes "bpf_loads p data"
  shows "cursor_pair (bpf_cursor p) (memory_cursor data) MAX_PACKET_OFF"
proof (intro cursor_pair.intro cursor_pair_axioms.intro)
  show "packet_cursor (bpf_cursor p)" by (rule bpf_packet_cursor [OF assms])
  show "packet_cursor (memory_cursor data)" by (rule memory.packet_cursor_axioms)
  show "i < MAX_PACKET_OFF \<Longrightarrow> read_u8 (bpf_cursor p) i = read_u8 (memory_cursor data) i" for i
    by (simp add: bpf_read_u8 [OF assms] memory_cursor_def)
qed

section \<open>Parsing one packet\<close>

text \<open>
  \<^verbatim>\<open>network-types\<close> stores the EtherType discriminants in network byte order;
  on the little-endian target the stored number is the swapped one.
\<close>

datatype ether_type = EtIpv4 | EtIeee8021q | EtIeee8021ad

fun ether_type_stored :: "ether_type \<Rightarrow> u16" where
  "ether_type_stored EtIpv4 = swap16 0x0800"
| "ether_type_stored EtIeee8021q = swap16 0x8100"
| "ether_type_stored EtIeee8021ad = swap16 0x88A8"

definition ether_type_host :: "ether_type \<Rightarrow> u16" where
  "ether_type_host value = swap16 (ether_type_stored value)"

definition EthHdr_LEN :: nat where "EthHdr_LEN = 14"
definition VlanHdr_LEN :: nat where "VlanHdr_LEN = 4"
definition Ipv4Hdr_LEN :: nat where "Ipv4Hdr_LEN = 20"
definition TcpHdr_LEN :: nat where "TcpHdr_LEN = 20"
definition UdpHdr_LEN :: nat where "UdpHdr_LEN = 8"
definition TCP_DATA_OFFSET_AND_FLAGS_OFFSET :: nat where "TCP_DATA_OFFSET_AND_FLAGS_OFFSET = 12"
definition IpProto_Tcp :: u8 where "IpProto_Tcp = 6"
definition IpProto_Udp :: u8 where "IpProto_Udp = 17"

definition PARSE_FLAG_VLAN_TAGGED :: u16 where "PARSE_FLAG_VLAN_TAGGED = 1"
definition PARSE_FLAG_IP_OPTIONS :: u16 where "PARSE_FLAG_IP_OPTIONS = 2"
definition PARSE_FLAG_IP_FRAGMENTED :: u16 where "PARSE_FLAG_IP_FRAGMENTED = 4"

lemmas header_constants =
  EthHdr_LEN_def VlanHdr_LEN_def Ipv4Hdr_LEN_def TcpHdr_LEN_def UdpHdr_LEN_def
  TCP_DATA_OFFSET_AND_FLAGS_OFFSET_def IpProto_Tcp_def IpProto_Udp_def

record parsed_flow =
  pf_src_addr :: "u8 list"
  pf_dst_addr :: "u8 list"
  pf_src_port_be :: u16
  pf_dst_port_be :: u16
  pf_protocol :: u8
  pf_ip_family :: u8
  pf_tcp_flags :: u16
  pf_parse_flags :: u16
  pf_payload_offset :: nat
  pf_payload_end :: nat

datatype parse_result = Flow parsed_flow | Skipped | Truncated | Invalid

fun is_flow :: "parse_result \<Rightarrow> bool" where
  "is_flow (Flow _) = True"
| "is_flow _ = False"

fun is_failure :: "parse_result \<Rightarrow> bool" where
  "is_failure Truncated = True"
| "is_failure Invalid = True"
| "is_failure _ = False"

definition word_storage :: "u32 \<Rightarrow> u8 list" where
  "word_storage word_be = replicate 12 0 @ u32_to_be_bytes word_be"

text \<open>The transport part of \<^verbatim>\<open>parse_ipv4\<close>, from the match on the protocol on.\<close>

definition parse_transport ::
  "cursor \<Rightarrow> u8 \<Rightarrow> nat \<Rightarrow> nat \<Rightarrow> u32 \<Rightarrow> u32 \<Rightarrow> u16 \<Rightarrow> parse_result" where
  "parse_transport c protocol l4_offset declared_end src_word dst_word parse_flags =
     (let is_tcp = (protocol = IpProto_Tcp); is_udp = (protocol = IpProto_Udp) in
      if is_tcp \<and> (l4_offset + TcpHdr_LEN > declared_end \<or> \<not> has c l4_offset TcpHdr_LEN)
      then Truncated
      else if is_udp \<and> (l4_offset + UdpHdr_LEN > declared_end \<or> \<not> has c l4_offset UdpHdr_LEN)
      then Truncated
      else if \<not> is_tcp \<and> \<not> is_udp then Skipped
      else
        let src_port_offset = 0; dst_port_offset = 2 in
        (case read_u16_be c (l4_offset + src_port_offset) of
           None \<Rightarrow> Truncated
         | Some src_port \<Rightarrow>
        (case read_u16_be c (l4_offset + dst_port_offset) of
           None \<Rightarrow> Truncated
         | Some dst_port \<Rightarrow>
        let finish = (\<lambda>tcp_flags l4_header_len. Flow
              \<lparr>pf_src_addr = word_storage src_word, pf_dst_addr = word_storage dst_word,
               pf_src_port_be = swap16 src_port, pf_dst_port_be = swap16 dst_port,
               pf_protocol = protocol, pf_ip_family = ip_family_to_abi V4,
               pf_tcp_flags = tcp_flags, pf_parse_flags = parse_flags,
               pf_payload_offset = l4_offset + l4_header_len, pf_payload_end = declared_end\<rparr>) in
        if is_tcp then
          (case read_u16_be c (l4_offset + TCP_DATA_OFFSET_AND_FLAGS_OFFSET) of
             None \<Rightarrow> Truncated
           | Some offset_flags \<Rightarrow>
               let data_offset_words = unat (drop_bit 12 offset_flags) in
               if data_offset_words < TcpHdr_LEN div 4 then Invalid
               else if l4_offset + data_offset_words * 4 > declared_end
                  \<or> \<not> has c l4_offset (data_offset_words * 4) then Truncated
               else finish (offset_flags AND 0x01FF) (data_offset_words * 4))
        else finish 0 UdpHdr_LEN)))"

definition parse_ipv4 :: "cursor \<Rightarrow> nat \<Rightarrow> parse_result" where
  "parse_ipv4 c l3_offset =
     (case read_u8 c l3_offset of
        None \<Rightarrow> Truncated
      | Some version_ihl \<Rightarrow>
          if drop_bit 4 version_ihl \<noteq> 4 then Invalid
          else let ihl_words = unat (version_ihl AND 0x0F) in
          if ihl_words < Ipv4Hdr_LEN div 4 then Invalid
          else let ip_header_len = ihl_words * 4 in
     (case read_u16_be c (l3_offset + 2) of
        None \<Rightarrow> Truncated
      | Some tot_len \<Rightarrow>
          let total_length = unat tot_len in
          if total_length < ip_header_len then Invalid else
     (case read_u16_be c (l3_offset + 6) of
        None \<Rightarrow> Truncated
      | Some fragment \<Rightarrow>
          if fragment AND 0x1FFF \<noteq> 0 then Skipped else
     (case read_u8 c (l3_offset + 9) of
        None \<Rightarrow> Truncated
      | Some protocol \<Rightarrow>
     (case read_u32_be c (l3_offset + 12) of
        None \<Rightarrow> Truncated
      | Some src_word \<Rightarrow>
     (case read_u32_be c (l3_offset + 16) of
        None \<Rightarrow> Truncated
      | Some dst_word \<Rightarrow>
          parse_transport c protocol (l3_offset + ip_header_len) (l3_offset + total_length)
            src_word dst_word
            ((if ihl_words > Ipv4Hdr_LEN div 4 then PARSE_FLAG_IP_OPTIONS else 0)
             OR (if fragment AND push_bit 13 1 \<noteq> 0 then PARSE_FLAG_IP_FRAGMENTED else 0))))))))"

definition parse :: "cursor \<Rightarrow> parse_result" where
  "parse c =
     (let at = (\<lambda>ethertype l3_offset.
            if ethertype \<noteq> ether_type_host EtIpv4 then Skipped else parse_ipv4 c l3_offset)
      in (case read_u16_be c 12 of
            None \<Rightarrow> Truncated
          | Some value \<Rightarrow>
              if value = ether_type_host EtIeee8021q \<or> value = ether_type_host EtIeee8021ad then
                (case read_u16_be c (EthHdr_LEN + 2) of
                   Some inner \<Rightarrow> at inner (EthHdr_LEN + VlanHdr_LEN)
                 | None \<Rightarrow> Truncated)
              else at value EthHdr_LEN))"

section \<open>What a parsed Flow satisfies\<close>

definition parsed_flow_ok :: "parsed_flow \<Rightarrow> bool" where
  "parsed_flow_ok f \<longleftrightarrow>
     length (pf_src_addr f) = 16 \<and> length (pf_dst_addr f) = 16
     \<and> take 12 (pf_src_addr f) = replicate 12 0 \<and> take 12 (pf_dst_addr f) = replicate 12 0
     \<and> pf_ip_family f = ip_family_to_abi V4
     \<and> (pf_protocol f = IpProto_Tcp \<or> pf_protocol f = IpProto_Udp \<and> pf_tcp_flags f = 0)
     \<and> pf_tcp_flags f AND 0x01FF = pf_tcp_flags f
     \<and> pf_parse_flags f AND PARSE_FLAG_VLAN_TAGGED = 0
     \<and> 42 \<le> pf_payload_offset f \<and> pf_payload_offset f \<le> 138
     \<and> pf_payload_offset f \<le> pf_payload_end f \<and> pf_payload_end f \<le> 18 + 65535"

lemma length_word_storage [simp]: "length (word_storage w) = 16"
  by (simp add: word_storage_def)

lemma unat_and_le: "unat (w AND m) \<le> unat m" for w m :: "'a::len word"
  by (metis word_and_le1 word_le_nat_alt)

lemma unat_drop_bit_12: "unat (drop_bit 12 w) \<le> 15" for w :: u16
  using unat_le_max [of w] by (simp add: unat_drop_bit)

lemma parse_transport_flow:
  assumes "parse_transport c protocol l4 declared_end src dst flags = Flow f"
  shows "pf_src_addr f = word_storage src" "pf_dst_addr f = word_storage dst"
    "pf_ip_family f = ip_family_to_abi V4" "pf_parse_flags f = flags"
    "pf_protocol f = IpProto_Tcp \<or> pf_protocol f = IpProto_Udp \<and> pf_tcp_flags f = 0"
    "pf_tcp_flags f AND 0x01FF = pf_tcp_flags f"
    "l4 + 8 \<le> pf_payload_offset f" "pf_payload_offset f \<le> l4 + 60"
    "pf_payload_offset f \<le> pf_payload_end f" "pf_payload_end f = declared_end"
  using assms unat_drop_bit_12
  by (auto simp: parse_transport_def Let_def header_constants ac_simps
      split: if_splits option.splits dest: spec)


lemma ihl_le: "unat (w AND 15) \<le> 15" for w :: u8
  using unat_and_le [of w 15] by simp

lemma parse_ipv4_flow:
  assumes "parse_ipv4 c l3 = Flow f"
  obtains protocol l4 declared_end src dst flags
  where "parse_transport c protocol l4 declared_end src dst flags = Flow f"
    "l3 + 20 \<le> l4" "l4 \<le> l3 + 60" "declared_end \<le> l3 + 65535" "flags AND PARSE_FLAG_VLAN_TAGGED = 0"
proof -
  obtain v tl fr pr sw dw where r: "read_u8 c l3 = Some v" "read_u16_be c (l3 + 2) = Some tl"
      "read_u16_be c (l3 + 6) = Some fr" "read_u8 c (l3 + 9) = Some pr"
      "read_u32_be c (l3 + 12) = Some sw" "read_u32_be c (l3 + 16) = Some dw"
    and ihl: "5 \<le> unat (v AND 15)"
    and t: "parse_transport c pr (l3 + unat (v AND 15) * 4) (l3 + unat tl) sw dw
        ((if 5 < unat (v AND 15) then PARSE_FLAG_IP_OPTIONS else 0)
          OR (if fr AND push_bit 13 1 \<noteq> 0 then PARSE_FLAG_IP_FRAGMENTED else 0)) = Flow f"
    using assms
    by (auto simp: parse_ipv4_def Let_def Ipv4Hdr_LEN_def split: option.splits if_splits)
  show thesis
  proof (rule that [OF t])
    show "l3 + 20 \<le> l3 + unat (v AND 15) * 4" using ihl by simp
    show "l3 + unat (v AND 15) * 4 \<le> l3 + 60" using ihl_le [of v] by simp
    show "l3 + unat tl \<le> l3 + 65535" using unat_le_max [of tl] by simp
    show "((if 5 < unat (v AND 15) then PARSE_FLAG_IP_OPTIONS else 0)
        OR (if fr AND push_bit 13 1 \<noteq> 0 then PARSE_FLAG_IP_FRAGMENTED else 0))
        AND PARSE_FLAG_VLAN_TAGGED = 0"
      by (simp add: PARSE_FLAG_IP_OPTIONS_def PARSE_FLAG_IP_FRAGMENTED_def PARSE_FLAG_VLAN_TAGGED_def)
  qed
qed

lemma parse_flow:
  assumes "parse c = Flow f"
  obtains l3 where "l3 = 14 \<or> l3 = 18" "parse_ipv4 c l3 = Flow f"
  using assms by (auto simp: parse_def Let_def header_constants split: option.splits if_splits)

text \<open>
  C8: whatever bytes were captured, a packet reported as a Flow is an IPv4 TCP or UDP packet
  with zero-extended addresses, a payload window that starts behind the headers and does not
  run backwards, nine TCP flag bits (none for UDP), and no VLAN flag.
\<close>

theorem parse_flow_ok: "parse c = Flow f \<Longrightarrow> parsed_flow_ok f"
proof -
  assume "parse c = Flow f"
  then obtain l3 where l3: "l3 = 14 \<or> l3 = 18" and "parse_ipv4 c l3 = Flow f"
    by (rule parse_flow)
  then obtain pr l4 de sw dw fl where t: "parse_transport c pr l4 de sw dw fl = Flow f"
    and b: "l3 + 20 \<le> l4" "l4 \<le> l3 + 60" "de \<le> l3 + 65535" "fl AND PARSE_FLAG_VLAN_TAGGED = 0"
    by (auto elim: parse_ipv4_flow)
  note p = parse_transport_flow [OF t]
  show ?thesis
    using b l3 p(5-9) by (auto simp: parsed_flow_ok_def p(1-4,10) word_storage_def)
qed

context cursor_pair
begin

lemma parse_transport_agree:
  assumes "l4 + 60 \<le> n"
  shows "parse_transport c protocol l4 de src dst flags = parse_transport c' protocol l4 de src dst flags"
proof -
  have w: "unat (drop_bit 12 v) * 4 \<le> 60" for v :: u16
    using unat_drop_bit_12 [of v] by simp
  have h: "has c l4 (unat (drop_bit 12 v) * 4) = has c' l4 (unat (drop_bit 12 v) * 4)" for v :: u16
    using w [of v] assms by (intro has_agree) simp
  show ?thesis
    using assms
    by (simp add: parse_transport_def Let_def header_constants reads_agree h split: option.split)
qed

lemma parse_ipv4_agree:
  assumes "l3 + 120 \<le> n"
  shows "parse_ipv4 c l3 = parse_ipv4 c' l3"
proof -
  have t: "parse_transport c pr (l3 + unat (v AND 15) * 4) de sw dw fl
      = parse_transport c' pr (l3 + unat (v AND 15) * 4) de sw dw fl" for v :: u8 and pr de sw dw fl
    using ihl_le [of v] assms by (intro parse_transport_agree) simp
  show ?thesis
    using assms by (simp add: parse_ipv4_def Let_def reads_agree t parse_transport_agree Ipv4Hdr_LEN_def
        split: option.split)
qed

lemma parse_agree: "138 \<le> n \<Longrightarrow> parse c = parse c'"
  by (simp add: parse_def Let_def header_constants reads_agree parse_ipv4_agree
      split: option.split)

end

text \<open>
  C7: the eBPF program and the host tests run the same parser. For a frame of any length
  loaded at the packet pointers, parsing through the pointers gives the result of parsing the
  frame's bytes, although the pointer cursor refuses every offset beyond its verifier bound.
\<close>

theorem parse_bpf_eq_memory:
  assumes "bpf_loads p data"
  shows "parse (bpf_cursor p) = parse (memory_cursor data)"
  by (rule cursor_pair.parse_agree [OF bpf_memory_pair [OF assms]])
    (simp add: MAX_PACKET_OFF_def)


section \<open>Frames and the fields they carry\<close>

text \<open>
  A reference encoder for Ethernet frames: an optional 802.1Q/802.1ad tag, an IPv4 header with
  options, and a TCP segment (with options) or a UDP datagram. It says what the bytes mean, so
  that the parser can be compared with it.
\<close>

datatype segment =
  TcpSegment (seg_src: u16) (seg_dst: u16) (seg_seq_ack: "u8 list") (seg_flags: u16)
    (seg_tail: "u8 list") (seg_opts: "u8 list")
| UdpSegment (seg_src: u16) (seg_dst: u16) (seg_rest: "u8 list")

record frame =
  fr_macs :: "u8 list"
  fr_tag :: "(ether_type \<times> u16) option"
  fr_tos :: u8
  fr_ident :: "u8 list"
  fr_more_fragments :: bool
  fr_ttl :: u8
  fr_checksum :: "u8 list"
  fr_src :: u32
  fr_dst :: u32
  fr_options :: "u8 list"
  fr_segment :: segment
  fr_payload :: "u8 list"

fun encode_segment :: "segment \<Rightarrow> u8 list" where
  "encode_segment (TcpSegment src dst seq_ack flags tail opts) =
     u16_to_be_bytes src @ u16_to_be_bytes dst @ seq_ack
     @ u16_to_be_bytes (of_nat (4096 * (5 + length opts div 4) + unat flags)) @ tail @ opts"
| "encode_segment (UdpSegment src dst rest) = u16_to_be_bytes src @ u16_to_be_bytes dst @ rest"

fun segment_protocol :: "segment \<Rightarrow> u8" where
  "segment_protocol (TcpSegment _ _ _ _ _ _) = IpProto_Tcp"
| "segment_protocol (UdpSegment _ _ _) = IpProto_Udp"

fun segment_tcp_flags :: "segment \<Rightarrow> u16" where
  "segment_tcp_flags (TcpSegment _ _ _ flags _ _) = flags"
| "segment_tcp_flags (UdpSegment _ _ _) = 0"

fun segment_ok :: "segment \<Rightarrow> bool" where
  "segment_ok (TcpSegment _ _ seq_ack flags tail opts) \<longleftrightarrow>
     length seq_ack = 8 \<and> unat flags < 512 \<and> length tail = 6
     \<and> length opts mod 4 = 0 \<and> length opts \<le> 40"
| "segment_ok (UdpSegment _ _ rest) \<longleftrightarrow> length rest = 4"

definition encode_link :: "frame \<Rightarrow> u8 list" where
  "encode_link f = fr_macs f
     @ (case fr_tag f of
          None \<Rightarrow> []
        | Some (et, tci) \<Rightarrow> u16_to_be_bytes (ether_type_host et) @ u16_to_be_bytes tci)
     @ u16_to_be_bytes (ether_type_host EtIpv4)"

definition total_len :: "frame \<Rightarrow> nat" where
  "total_len f = 20 + length (fr_options f) + length (encode_segment (fr_segment f)) + length (fr_payload f)"

definition fragment_field :: "frame \<Rightarrow> u16" where
  "fragment_field f = (if fr_more_fragments f then 0x2000 else 0)"

definition encode_ipv4 :: "frame \<Rightarrow> u8 list" where
  "encode_ipv4 f =
     [of_nat (64 + (5 + length (fr_options f) div 4)), fr_tos f]
     @ u16_to_be_bytes (of_nat (total_len f)) @ fr_ident f @ u16_to_be_bytes (fragment_field f)
     @ [fr_ttl f, segment_protocol (fr_segment f)] @ fr_checksum f
     @ u32_to_be_bytes (fr_src f) @ u32_to_be_bytes (fr_dst f)"

definition encode_frame :: "frame \<Rightarrow> u8 list" where
  "encode_frame f = encode_link f @ encode_ipv4 f @ fr_options f
     @ encode_segment (fr_segment f) @ fr_payload f"

definition frame_ok :: "frame \<Rightarrow> bool" where
  "frame_ok f \<longleftrightarrow>
     length (fr_macs f) = 12 \<and> length (fr_ident f) = 2 \<and> length (fr_checksum f) = 2
     \<and> (case fr_tag f of None \<Rightarrow> True | Some (et, _) \<Rightarrow> et \<noteq> EtIpv4)
     \<and> length (fr_options f) mod 4 = 0 \<and> length (fr_options f) \<le> 40
     \<and> segment_ok (fr_segment f) \<and> total_len f \<le> 65535"

definition frame_flow :: "frame \<Rightarrow> parsed_flow" where
  "frame_flow f =
     \<lparr>pf_src_addr = word_storage (fr_src f), pf_dst_addr = word_storage (fr_dst f),
      pf_src_port_be = swap16 (seg_src (fr_segment f)),
      pf_dst_port_be = swap16 (seg_dst (fr_segment f)),
      pf_protocol = segment_protocol (fr_segment f), pf_ip_family = ip_family_to_abi V4,
      pf_tcp_flags = segment_tcp_flags (fr_segment f),
      pf_parse_flags = (if fr_options f \<noteq> [] then PARSE_FLAG_IP_OPTIONS else 0)
        OR (if fr_more_fragments f then PARSE_FLAG_IP_FRAGMENTED else 0),
      pf_payload_offset = length (encode_frame f) - length (fr_payload f),
      pf_payload_end = length (encode_frame f)\<rparr>"

text \<open>A field read where the encoder put it.\<close>

lemma read_u8_at: "data = pre @ b # post \<Longrightarrow> i = length pre \<Longrightarrow> read_u8 (memory_cursor data) i = Some b"
  by (simp add: memory_cursor_def)

lemma read_u16_at:
  "data = pre @ u16_to_be_bytes w @ post \<Longrightarrow> i = length pre \<Longrightarrow>
     read_u16_be (memory_cursor data) i = Some w"
  by (simp add: memory_cursor_def u16_to_be_bytes_def nth_append)

lemma read_u32_at:
  "data = pre @ u32_to_be_bytes w @ post \<Longrightarrow> i = length pre \<Longrightarrow>
     read_u32_be (memory_cursor data) i = Some w"
  by (simp add: memory_cursor_def u32_to_be_bytes_def nth_append)

lemma has_memory: "has (memory_cursor xs) i n \<longleftrightarrow> n = 0 \<or> i + n \<le> length xs"
  by (auto simp: has_def memory_cursor_def)

lemma unat_and_mask: "unat (w AND mask n) = unat w mod 2 ^ n" for w :: "'a::len word"
  unfolding take_bit_eq_mask [symmetric] unsigned_take_bit_eq by (rule take_bit_eq_mod)

lemma low_masks: "(0x01FF :: u16) = mask 9" "(0x0F :: u8) = mask 4"
  by (simp_all add: mask_eq_exp_minus_1)

lemma data_offset_field:
  assumes "unat flags < 512" "k \<le> 15"
  shows "unat (drop_bit 12 (of_nat (4096 * k + unat flags) :: u16)) = k"
    "(of_nat (4096 * k + unat flags) :: u16) AND 0x01FF = flags"
proof -
  have n: "unat (of_nat (4096 * k + unat flags) :: u16) = 4096 * k + unat flags"
    using assms by (simp only: unat_of_nat) simp
  show "unat (drop_bit 12 (of_nat (4096 * k + unat flags) :: u16)) = k"
    unfolding unat_drop_bit n using assms by simp
  have "unat ((of_nat (4096 * k + unat flags) :: u16) AND 0x01FF)
      = unat (of_nat (4096 * k + unat flags) :: u16) mod 2 ^ 9"
    by (simp only: low_masks unat_and_mask)
  also have "\<dots> = unat flags"
    unfolding n using assms mod_mult_self2 [of "unat flags" 512 "8 * k"] by (simp add: algebra_simps)
  finally show "(of_nat (4096 * k + unat flags) :: u16) AND 0x01FF = flags"
    by (simp only: word_unat_eq_iff)
qed

lemma version_ihl_field:
  assumes "k \<le> 15"
  shows "drop_bit 4 (of_nat (64 + k) :: u8) = 4" "unat ((of_nat (64 + k) :: u8) AND 0x0F) = k"
proof -
  have n: "unat (of_nat (64 + k) :: u8) = 64 + k"
    using assms by (simp only: unat_of_nat) simp
  show "drop_bit 4 (of_nat (64 + k) :: u8) = 4"
    unfolding word_unat_eq_iff unat_drop_bit n using assms by simp
  have "unat ((of_nat (64 + k) :: u8) AND 0x0F) = unat (of_nat (64 + k) :: u8) mod 2 ^ 4"
    by (simp only: low_masks unat_and_mask)
  then show "unat ((of_nat (64 + k) :: u8) AND 0x0F) = k"
    unfolding n using assms mod_mult_self2 [of k 16 4] by (simp add: add.commute)
qed


lemma parse_encoded_transport:
  fixes f :: frame and pre post :: "u8 list"
  defines "seg \<equiv> fr_segment f"
  defines "data \<equiv> pre @ encode_segment seg @ post"
  assumes ok: "segment_ok seg"
  shows "parse_transport (memory_cursor data) (segment_protocol seg) (length pre) (length data) src dst flags
     = Flow \<lparr>pf_src_addr = word_storage src, pf_dst_addr = word_storage dst,
         pf_src_port_be = swap16 (seg_src seg), pf_dst_port_be = swap16 (seg_dst seg),
         pf_protocol = segment_protocol seg, pf_ip_family = ip_family_to_abi V4,
         pf_tcp_flags = segment_tcp_flags seg, pf_parse_flags = flags,
         pf_payload_offset = length pre + length (encode_segment seg), pf_payload_end = length data\<rparr>"
proof (cases seg)
  case (TcpSegment sp dp sa fl tail opts)
  then have l: "length sa = 8" "unat fl < 512" "length tail = 6" "length opts mod 4 = 0" "length opts \<le> 40"
    using ok by simp_all
  let ?k = "5 + length opts div 4"
  have k: "?k \<le> 15" "4 * (length opts div 4) = length opts"
    using l by auto
  have d: "data = pre @ u16_to_be_bytes sp @ u16_to_be_bytes dp @ sa
      @ u16_to_be_bytes (of_nat (4096 * ?k + unat fl)) @ tail @ opts @ post"
    by (simp add: data_def TcpSegment)
  have r: "read_u16_be (memory_cursor data) (length pre) = Some sp"
    "read_u16_be (memory_cursor data) (length pre + 2) = Some dp"
    "read_u16_be (memory_cursor data) (length pre + 12) = Some (of_nat (4096 * ?k + unat fl))"
    unfolding d
    by (rule read_u16_at, rule refl, simp)
       (rule read_u16_at [where pre = "pre @ u16_to_be_bytes sp"], simp, simp,
        rule read_u16_at [where pre = "pre @ u16_to_be_bytes sp @ u16_to_be_bytes dp @ sa"],
        simp, simp add: l)
  note fld = data_offset_field [OF l(2) k(1)]
  show ?thesis
    using l k fld
    by (simp add: parse_transport_def Let_def header_constants TcpSegment r has_memory
        del: of_nat_add of_nat_mult add_2_eq_Suc' mult_Suc_right) (simp add: d)
next
  case (UdpSegment sp dp rest)
  have d: "data = pre @ u16_to_be_bytes sp @ u16_to_be_bytes dp @ rest @ post"
    by (simp add: data_def UdpSegment)
  have r: "read_u16_be (memory_cursor data) (length pre) = Some sp"
    "read_u16_be (memory_cursor data) (length pre + 2) = Some dp"
    unfolding d
    by (rule read_u16_at, rule refl, simp)
       (rule read_u16_at [where pre = "pre @ u16_to_be_bytes sp"], simp, simp)
  have "length rest = 4" using ok UdpSegment by simp
  then have "length data = length pre + 8 + length post" by (simp add: d)
  then show ?thesis
    using \<open>length rest = 4\<close> r
    by (simp add: parse_transport_def Let_def header_constants UdpSegment has_memory)
qed

lemma length_encode_ipv4:
  "frame_ok f \<Longrightarrow> length (encode_ipv4 f) = 20"
  by (simp add: encode_ipv4_def frame_ok_def u16_to_be_bytes_def u32_to_be_bytes_def)

lemma fragment_field_bits:
  "fragment_field f AND 0x1FFF = 0"
  "fragment_field f AND push_bit 13 1 \<noteq> 0 \<longleftrightarrow> fr_more_fragments f"
  by (simp_all add: fragment_field_def)

lemma parse_encoded_ipv4:
  assumes ok: "frame_ok f"
    and data: "data = pre @ encode_ipv4 f @ fr_options f @ encode_segment (fr_segment f) @ fr_payload f"
    and l3: "l3 = length pre"
  shows "parse_ipv4 (memory_cursor data) l3
    = parse_transport (memory_cursor data) (segment_protocol (fr_segment f))
        (length (pre @ encode_ipv4 f @ fr_options f)) (length data) (fr_src f) (fr_dst f)
        ((if fr_options f \<noteq> [] then PARSE_FLAG_IP_OPTIONS else 0)
         OR (if fr_more_fragments f then PARSE_FLAG_IP_FRAGMENTED else 0))"
proof -
  let ?n = "length (fr_options f)" let ?k = "5 + ?n div 4"
  let ?c = "memory_cursor data"
  let ?vi = "of_nat (64 + ?k) :: u8" let ?tot = "of_nat (total_len f) :: u16"
  let ?prot = "segment_protocol (fr_segment f)"
  have n: "?n mod 4 = 0" "?n \<le> 40" and len: "length (fr_ident f) = 2" "length (fr_checksum f) = 2"
    "total_len f \<le> 65535" using ok by (simp_all add: frame_ok_def)
  have k: "?k \<le> 15" "4 * (?n div 4) = ?n" using n by auto
  note vi = version_ihl_field [OF k(1)]
  have tot: "unat ?tot = total_len f" using len by (simp only: unat_of_nat) simp
  let ?rest = "fr_options f @ encode_segment (fr_segment f) @ fr_payload f"
  have d: "data = pre @ ?vi # [fr_tos f] @ u16_to_be_bytes ?tot @ fr_ident f
      @ u16_to_be_bytes (fragment_field f) @ [fr_ttl f] @ ?prot # fr_checksum f
      @ u32_to_be_bytes (fr_src f) @ u32_to_be_bytes (fr_dst f) @ ?rest"
    by (simp add: data encode_ipv4_def)
  have r1: "read_u8 ?c l3 = Some ?vi" by (rule read_u8_at [OF d l3])
  have r2: "read_u16_be ?c (l3 + 2) = Some ?tot"
    by (rule read_u16_at [where pre = "pre @ [?vi, fr_tos f]"]) (simp_all add: d l3)
  have r3: "read_u16_be ?c (l3 + 6) = Some (fragment_field f)"
    by (rule read_u16_at [where pre = "pre @ [?vi, fr_tos f] @ u16_to_be_bytes ?tot @ fr_ident f"])
      (simp_all add: d l3 len)
  have r4: "read_u8 ?c (l3 + 9) = Some ?prot"
    by (rule read_u8_at [where pre = "pre @ [?vi, fr_tos f] @ u16_to_be_bytes ?tot @ fr_ident f
          @ u16_to_be_bytes (fragment_field f) @ [fr_ttl f]"])
      (simp_all add: d l3 len)
  have r5: "read_u32_be ?c (l3 + 12) = Some (fr_src f)"
    by (rule read_u32_at [where pre = "pre @ [?vi, fr_tos f] @ u16_to_be_bytes ?tot @ fr_ident f
          @ u16_to_be_bytes (fragment_field f) @ [fr_ttl f, ?prot] @ fr_checksum f"])
      (simp_all add: d l3 len)
  have r6: "read_u32_be ?c (l3 + 16) = Some (fr_dst f)"
    by (rule read_u32_at [where pre = "pre @ [?vi, fr_tos f] @ u16_to_be_bytes ?tot @ fr_ident f
          @ u16_to_be_bytes (fragment_field f) @ [fr_ttl f, ?prot] @ fr_checksum f
          @ u32_to_be_bytes (fr_src f)"])
      (simp_all add: d l3 len)
  have "0 < ?n div 4 \<longleftrightarrow> 0 < ?n" using k(2) by linarith
  then have opt: "5 < ?k \<longleftrightarrow> fr_options f \<noteq> []" by simp
  have le: "?k * 4 \<le> total_len f" using k by (simp add: total_len_def)
  have off: "l3 + ?k * 4 = length (pre @ encode_ipv4 f @ fr_options f)"
    "l3 + total_len f = length data"
    using k length_encode_ipv4 [OF ok] by (simp_all add: l3 data total_len_def)
  have hdr: "Ipv4Hdr_LEN div 4 = 5" by (simp add: Ipv4Hdr_LEN_def)
  show ?thesis
    unfolding parse_ipv4_def Let_def r1 r2 r3 r4 r5 r6 option.case vi tot hdr fragment_field_bits opt off
    using le by auto
qed

lemma length_u16_to_be_bytes [simp]: "length (u16_to_be_bytes w) = 2"
  by (simp add: u16_to_be_bytes_def)

text \<open>
  C3: the parser inverts the encoder: every well-formed IPv4 TCP or UDP frame, tagged or not,
  with or without options, is parsed to the Flow that carries exactly the frame's addresses,
  ports, protocol, flags and payload window.
\<close>

theorem parse_encode_frame:
  assumes ok: "frame_ok f"
  shows "parse (memory_cursor (encode_frame f)) = Flow (frame_flow f)"
proof -
  let ?data = "encode_frame f" let ?link = "encode_link f"
  have len: "length (fr_macs f) = 12" and seg: "segment_ok (fr_segment f)"
    using ok by (simp_all add: frame_ok_def)
  have d: "?data = ?link @ encode_ipv4 f @ fr_options f @ encode_segment (fr_segment f) @ fr_payload f"
    by (simp add: encode_frame_def)
  have link: "parse (memory_cursor ?data) = parse_ipv4 (memory_cursor ?data) (length ?link)"
  proof (cases "fr_tag f")
    case None
    have "read_u16_be (memory_cursor ?data) 12 = Some (ether_type_host EtIpv4)"
      by (rule read_u16_at [where pre = "fr_macs f"]) (simp_all add: d encode_link_def None len)
    then show ?thesis
      by (simp add: parse_def Let_def header_constants encode_link_def None len
          ether_type_host_def swap16_swap16)
  next
    case (Some t)
    obtain et tci where t: "fr_tag f = Some (et, tci)" using Some by (cases t) auto
    then have et: "et = EtIeee8021q \<or> et = EtIeee8021ad" using ok by (cases et) (auto simp: frame_ok_def)
    have "read_u16_be (memory_cursor ?data) 12 = Some (ether_type_host et)"
      by (rule read_u16_at [where pre = "fr_macs f"]) (simp_all add: d encode_link_def t len)
    moreover have "read_u16_be (memory_cursor ?data) (EthHdr_LEN + 2) = Some (ether_type_host EtIpv4)"
      by (rule read_u16_at [where pre = "fr_macs f @ u16_to_be_bytes (ether_type_host et) @ u16_to_be_bytes tci"])
        (simp_all add: d encode_link_def t len EthHdr_LEN_def)
    ultimately show ?thesis
      using et by (auto simp: parse_def Let_def encode_link_def t len EthHdr_LEN_def VlanHdr_LEN_def)
  qed
  have "length ?data - length (fr_payload f) =
      length ((?link @ encode_ipv4 f @ fr_options f)) + length (encode_segment (fr_segment f))"
    by (simp add: d)
  then show ?thesis
    unfolding link parse_encoded_ipv4 [OF ok d refl]
    using parse_encoded_transport [OF seg, of "?link @ encode_ipv4 f @ fr_options f" "fr_payload f"]
    by (simp only: frame_flow_def d append_assoc)
qed

section \<open>Concrete packets\<close>

text \<open>
  A tagged TCP segment with IP and TCP options, and the bytes of a UDP datagram to port 53.
\<close>

definition sample_frame :: frame where
  "sample_frame = \<lparr>fr_macs = replicate 12 1, fr_tag = Some (EtIeee8021q, 7), fr_tos = 0, fr_ident = [0, 9],
     fr_more_fragments = True, fr_ttl = 64, fr_checksum = [1, 2], fr_src = 0xC0A80105, fr_dst = 0x01010101,
     fr_options = [1, 1, 1, 1],
     fr_segment = TcpSegment 40000 443 (replicate 8 5) 0x18 (replicate 6 0) [1, 1, 1, 1],
     fr_payload = [22, 3, 1]\<rparr>"

definition sample_datagram :: "u8 list" where
  "sample_datagram = [2, 2, 2, 2, 2, 2, 2, 2, 2, 2, 2, 2, 0x08, 0x00,
     0x45, 0, 0, 30, 0, 1, 0, 0, 64, 17, 0, 0, 192, 168, 1, 5, 1, 1, 1, 1,
     0x9C, 0x40, 0, 53, 0, 10, 0, 0, 0xAB, 0xCD]"

definition sample_packet :: bpf_packet where
  "sample_packet = \<lparr>bp_data = 4096, bp_data_end = 4096 + 44,
     bp_mem = (\<lambda>a. sample_datagram ! unat (a - 4096))\<rparr>"

lemma length_sample_datagram: "length sample_datagram = 44"
  by (simp add: sample_datagram_def)

lemma sample_datagram_reads:
  "read_u16_be (memory_cursor sample_datagram) 12 = Some 0x0800"
  "read_u8 (memory_cursor sample_datagram) 14 = Some 0x45"
  "read_u16_be (memory_cursor sample_datagram) 16 = Some 30"
  "read_u16_be (memory_cursor sample_datagram) 20 = Some 0"
  "read_u8 (memory_cursor sample_datagram) 23 = Some 17"
  "read_u32_be (memory_cursor sample_datagram) 26 = Some 0xC0A80105"
  "read_u32_be (memory_cursor sample_datagram) 30 = Some 0x01010101"
  "read_u16_be (memory_cursor sample_datagram) 34 = Some 40000"
  "read_u16_be (memory_cursor sample_datagram) 36 = Some 53"
  by (simp_all add: memory_cursor_def length_sample_datagram)
    (simp_all add: sample_datagram_def u16_from_be_bytes_def u32_from_be_bytes_def)

lemma sample_datagram_flow:
  "parse (memory_cursor sample_datagram) =
     Flow \<lparr>pf_src_addr = word_storage 0xC0A80105, pf_dst_addr = word_storage 0x01010101,
       pf_src_port_be = swap16 40000, pf_dst_port_be = swap16 53, pf_protocol = 17, pf_ip_family = 4,
       pf_tcp_flags = 0, pf_parse_flags = 0, pf_payload_offset = 42, pf_payload_end = 44\<rparr>"
  by (simp add: parse_def parse_ipv4_def parse_transport_def Let_def header_constants
      sample_datagram_reads has_memory length_sample_datagram ether_type_host_def)

lemma parse_flow_ok_witness:
  "\<exists>f. parse (memory_cursor sample_datagram) = Flow f \<and> pf_payload_offset f = 42 \<and> parsed_flow_ok f"
  using sample_datagram_flow parse_flow_ok [OF sample_datagram_flow] by simp

lemma sample_packet_loads: "bpf_loads sample_packet sample_datagram"
proof -
  have "unat (of_nat i :: u64) = i" if "i < 44" for i
    using that by (simp add: unat_of_nat)
  then show ?thesis
    by (simp add: bpf_loads_def sample_packet_def length_sample_datagram MAX_PACKET_OFF_def)
qed

lemma parse_bpf_eq_memory_witness:
  "parse (bpf_cursor sample_packet) = parse (memory_cursor sample_datagram)
   \<and> is_flow (parse (memory_cursor sample_datagram))"
  using parse_bpf_eq_memory [OF sample_packet_loads] sample_datagram_flow by simp

lemma parse_encode_frame_witness:
  "parse (memory_cursor (encode_frame sample_frame)) = Flow (frame_flow sample_frame)
   \<and> pf_tcp_flags (frame_flow sample_frame) = 0x18 \<and> length (encode_frame sample_frame) = 69"
proof -
  have "frame_ok sample_frame" by (simp add: frame_ok_def sample_frame_def total_len_def)
  moreover have "pf_tcp_flags (frame_flow sample_frame) = 0x18"
    by (simp add: frame_flow_def sample_frame_def)
  moreover have "length (encode_frame sample_frame) = 69"
    by (simp add: encode_frame_def encode_link_def encode_ipv4_def sample_frame_def u32_to_be_bytes_def)
  ultimately show ?thesis using parse_encode_frame [of sample_frame] by simp
qed

end
