(* ===== verification/Kernel_Maps.thy ===== *)
theory Kernel_Maps
  imports Kernel_Abi
begin

text \<open>
  The maps of the eBPF object, \<^verbatim>\<open>zimascope-ebpf/src/maps.rs\<close>. A map is its contents
  as a partial function (what the reads of one CPU return); a ring buffer is the list of
  submitted samples. The kernel's map implementation is not part of the repository: reads are
  application, and every update that can fail or evict takes the kernel's insertion as a
  parameter, with the law it is documented to satisfy.
\<close>

record kernel =
  k_flow_map :: "abi_flow_key \<rightharpoonup> abi_flow_value"
  k_stats :: "kernel_stats option"
  k_domain_events :: "domain_sample list"
  k_service_events :: "service_sample list"
  k_owner_map :: "abi_owner_key \<rightharpoonup> abi_owner_value"
  k_listener_map :: "abi_owner_key \<rightharpoonup> abi_owner_value"
  k_policy_config :: "policy_config option"
  k_rule_states :: "bucket_key \<rightharpoonup> rule_state"
  k_app_cgroup_ingress :: "u64 \<rightharpoonup> rule_ref"
  k_app_cgroup_egress :: "u64 \<rightharpoonup> rule_ref"
  k_app_comm_ingress :: "u8 list \<rightharpoonup> rule_ref"
  k_app_comm_egress :: "u8 list \<rightharpoonup> rule_ref"
  k_endpoint_exact_ingress :: "endpoint_match_key \<rightharpoonup> rule_ref"
  k_endpoint_exact_egress :: "endpoint_match_key \<rightharpoonup> rule_ref"
  k_endpoint_cidr_ingress :: "nat \<times> u8 list \<rightharpoonup> rule_ref"
  k_endpoint_cidr_egress :: "nat \<times> u8 list \<rightharpoonup> rule_ref"

text \<open>The object as loaded: every hash map empty, the array entries present and zero.\<close>

definition kernel_loaded :: kernel where
  "kernel_loaded =
     \<lparr>k_flow_map = Map.empty, k_stats = Some kernel_stats_default, k_domain_events = [],
      k_service_events = [], k_owner_map = Map.empty, k_listener_map = Map.empty,
      k_policy_config = Some \<lparr>pc_enabled = 0, pc_app_rules = 0, pc_endpoint_rules = 0,
        pc_reserved = 0, pc_revision = 0\<rparr>,
      k_rule_states = Map.empty, k_app_cgroup_ingress = Map.empty,
      k_app_cgroup_egress = Map.empty, k_app_comm_ingress = Map.empty,
      k_app_comm_egress = Map.empty, k_endpoint_exact_ingress = Map.empty,
      k_endpoint_exact_egress = Map.empty, k_endpoint_cidr_ingress = Map.empty,
      k_endpoint_cidr_egress = Map.empty\<rparr>"

definition map_stats :: "(kernel_stats \<Rightarrow> kernel_stats) \<Rightarrow> kernel \<Rightarrow> kernel" where
  "map_stats f k = k\<lparr>k_stats := map_option f (k_stats k)\<rparr>"

text \<open>
  An LRU hash accepts an entry by, if need be, evicting others; an insertion it refuses leaves
  it as it was. A longest-prefix-match lookup returns the entry of the longest stored prefix
  that the address starts with.
\<close>

type_synonym ('k, 'v) map_insert = "('k \<rightharpoonup> 'v) \<Rightarrow> 'k \<Rightarrow> 'v \<Rightarrow> ('k \<rightharpoonup> 'v) option"

definition lru_insert :: "('k, 'v) map_insert \<Rightarrow> bool" where
  "lru_insert ins \<longleftrightarrow>
     (\<forall>m k v m'. ins m k v = Some m' \<longrightarrow>
        m' k = Some v \<and> (\<forall>k'. k' \<noteq> k \<longrightarrow> m' k' = m k' \<or> m' k' = None))"

definition plain_insert :: "('k, 'v) map_insert" where
  "plain_insert m k v = Some (m(k \<mapsto> v))"

lemma plain_insert_lru: "lru_insert plain_insert"
  by (simp add: lru_insert_def plain_insert_def)

lemma lru_insert_get: "lru_insert ins \<Longrightarrow> ins m k v = Some m' \<Longrightarrow> m' k = Some v"
  by (simp add: lru_insert_def)

lemma lru_insert_other:
  "lru_insert ins \<Longrightarrow> ins m k v = Some m' \<Longrightarrow> k' \<noteq> k \<Longrightarrow> m' k' = Some w \<Longrightarrow> m k' = Some w"
  unfolding lru_insert_def by (metis option.distinct(1))

text \<open>The leading bits of an address of four octets, as a number.\<close>

definition octets_value :: "u8 list \<Rightarrow> nat" where
  "octets_value bs = foldl (\<lambda>n b. n * 256 + unat b) 0 bs"

definition prefix_covers :: "nat \<times> u8 list \<Rightarrow> u8 list \<Rightarrow> bool" where
  "prefix_covers p a \<longleftrightarrow>
     fst p \<le> 32 \<and> octets_value (snd p) div 2 ^ (32 - fst p) = octets_value a div 2 ^ (32 - fst p)"

text \<open>The law of the lookup on one map's contents.\<close>

definition lpm_lookup ::
  "((nat \<times> u8 list \<rightharpoonup> rule_ref) \<Rightarrow> u8 list \<Rightarrow> rule_ref option) \<Rightarrow> (nat \<times> u8 list \<rightharpoonup> rule_ref) \<Rightarrow> bool" where
  "lpm_lookup get m \<longleftrightarrow>
     (\<forall>a r. get m a = Some r \<longrightarrow>
        (\<exists>p. m p = Some r \<and> prefix_covers p a
           \<and> (\<forall>q \<in> dom m. prefix_covers q a \<longrightarrow> fst q \<le> fst p)))
     \<and> (\<forall>a. get m a = None \<longrightarrow> (\<forall>q \<in> dom m. \<not> prefix_covers q a))"

end
