(* ===== verification/Policy_Kernel.thy ===== *)
theory Policy_Kernel
  imports Packet_Parse Kernel_Maps
begin

text \<open>
  Traffic Rule evaluation in the packet path, \<^verbatim>\<open>zimascope-ebpf/src/policy.rs\<close>: the tiers
  in evaluation order, the owner lookup, and the token bucket. The longest-prefix lookup and the
  clock are parameters. Proved: a dropped packet was matched by an enabled rule whose bucket
  exists; a block in the application tier beats a limit; one packet changes at most one bucket;
  and over any sequence of packets a limited bucket passes no more bytes than it held plus what
  its rate grants.
\<close>

datatype verdict = Pass | Drop

definition NS_PER_SECOND :: u64 where "NS_PER_SECOND = 1000000000"
definition REFILL_CAP_NS :: u64 where "REFILL_CAP_NS = NS_PER_SECOND"

section \<open>Matching\<close>

definition prefer_rule :: "rule_ref \<Rightarrow> rule_ref \<Rightarrow> rule_ref" where
  "prefer_rule container process =
     (if rr_action container = rule_action_to_abi Block then container
      else if rr_action process = rule_action_to_abi Block then process
      else container)"

definition socket_key :: "parsed_flow \<Rightarrow> bool \<Rightarrow> abi_owner_key" where
  "socket_key flow outbound =
     (let (remote_addr, remote_port_be, local_port_be) =
        (if outbound then (pf_dst_addr flow, pf_dst_port_be flow, pf_src_port_be flow)
         else (pf_src_addr flow, pf_src_port_be flow, pf_dst_port_be flow)) in
      \<lparr>ok_remote_addr = remote_addr, ok_remote_port_be = remote_port_be,
       ok_local_port_be =
         (if pf_protocol flow = transport_protocol_to_abi Udp then 0 else local_port_be),
       ok_protocol = pf_protocol flow, ok_kind = owner_kind_to_abi Socket,
       ok_ip_family = pf_ip_family flow, ok_reserved = 0\<rparr>)"

definition listener_key :: "parsed_flow \<Rightarrow> bool \<Rightarrow> abi_owner_key" where
  "listener_key flow outbound =
     \<lparr>ok_remote_addr = replicate 16 0, ok_remote_port_be = 0,
      ok_local_port_be = (if outbound then pf_src_port_be flow else pf_dst_port_be flow),
      ok_protocol = pf_protocol flow, ok_kind = owner_kind_to_abi Listener,
      ok_ip_family = pf_ip_family flow, ok_reserved = 0\<rparr>"

definition lookup_owner :: "kernel \<Rightarrow> parsed_flow \<Rightarrow> bool \<Rightarrow> abi_owner_value option" where
  "lookup_owner k flow outbound =
     (case k_owner_map k (socket_key flow outbound) of
        Some owner \<Rightarrow> Some owner
      | None \<Rightarrow>
          if pf_protocol flow = transport_protocol_to_abi Udp then None
          else k_listener_map k (listener_key flow outbound))"

definition app_rule :: "kernel \<Rightarrow> parsed_flow \<Rightarrow> bool \<Rightarrow> rule_ref option" where
  "app_rule k flow outbound =
     (case lookup_owner k flow outbound of
        None \<Rightarrow> None
      | Some owner \<Rightarrow>
          let cgroup = (if outbound then k_app_cgroup_egress k else k_app_cgroup_ingress k) (ov_cgroup_id owner);
              comm = (if outbound then k_app_comm_egress k else k_app_comm_ingress k) (ov_comm owner) in
          (case (cgroup, comm) of
             (Some container, Some process) \<Rightarrow> Some (prefer_rule container process)
           | (Some container, None) \<Rightarrow> Some container
           | (None, Some process) \<Rightarrow> Some process
           | (None, None) \<Rightarrow> None))"

definition exact_key :: "parsed_flow \<Rightarrow> bool \<Rightarrow> endpoint_match_key" where
  "exact_key flow outbound =
     (let (addr, port_be) = (if outbound then (pf_dst_addr flow, pf_dst_port_be flow)
                             else (pf_src_addr flow, pf_src_port_be flow)) in
      \<lparr>em_addr = addr, em_port_be = port_be, em_reserved = replicate 6 0\<rparr>)"

type_synonym lpm_get = "(nat \<times> u8 list \<rightharpoonup> rule_ref) \<Rightarrow> u8 list \<Rightarrow> rule_ref option"

definition endpoint_rule :: "lpm_get \<Rightarrow> kernel \<Rightarrow> parsed_flow \<Rightarrow> bool \<Rightarrow> rule_ref option" where
  "endpoint_rule lpm k flow outbound =
     (let exact = exact_key flow outbound;
          (exact_map, cidr_map) =
            (if outbound then (k_endpoint_exact_egress k, k_endpoint_cidr_egress k)
             else (k_endpoint_exact_ingress k, k_endpoint_cidr_ingress k)) in
      case exact_map exact of
        Some rule \<Rightarrow> Some rule
      | None \<Rightarrow>
      (case exact_map (exact\<lparr>em_port_be := 0\<rparr>) of
        Some rule \<Rightarrow> Some rule
      | None \<Rightarrow>
          if pf_ip_family flow \<noteq> ip_family_to_abi V4 then None
          else lpm cidr_map (drop 12 (em_addr exact))))"

section \<open>The token bucket\<close>

definition refill :: "u64 \<Rightarrow> rule_state \<Rightarrow> rule_state" where
  "refill now st =
     (let elapsed = min (sat_sub now (rs_last_refill_mono_ns st)) REFILL_CAP_NS;
          add = elapsed * rs_rate_bytes_per_s st div NS_PER_SECOND in
      if 0 < add
      then st\<lparr>rs_tokens := min (sat_add (rs_tokens st) add) (rs_burst_bytes st),
              rs_last_refill_mono_ns := now\<rparr>
      else st)"

definition drop_packet :: "u64 \<Rightarrow> rule_state \<Rightarrow> rule_state" where
  "drop_packet packet_len st =
     st\<lparr>rs_dropped_packets := sat_add (rs_dropped_packets st) 1,
        rs_dropped_bytes := sat_add (rs_dropped_bytes st) packet_len\<rparr>"

definition enforce_state :: "u8 \<Rightarrow> u64 \<Rightarrow> u64 \<Rightarrow> rule_state \<Rightarrow> verdict \<times> rule_state" where
  "enforce_state action now packet_len st0 =
     (let st = refill now st0;
          st = st\<lparr>rs_matched_packets := sat_add (rs_matched_packets st) 1,
                  rs_matched_bytes := sat_add (rs_matched_bytes st) packet_len\<rparr> in
      if action = rule_action_to_abi Block then (Drop, drop_packet packet_len st)
      else if packet_len \<le> rs_tokens st then (Pass, st\<lparr>rs_tokens := rs_tokens st - packet_len\<rparr>)
      else (Drop, drop_packet packet_len st))"

definition bucket_of :: "rule_ref \<Rightarrow> u8 \<Rightarrow> bucket_key" where
  "bucket_of rule direction =
     \<lparr>bk_rule_id = rr_rule_id rule, bk_direction = direction, bk_reserved = replicate 3 0\<rparr>"

definition record_missing_state :: "kernel \<Rightarrow> kernel" where
  "record_missing_state =
     map_stats (\<lambda>s. s\<lparr>ks_policy_missing_state := sat_add (ks_policy_missing_state s) 1\<rparr>)"

definition enforce :: "rule_ref \<Rightarrow> u8 \<Rightarrow> u64 \<Rightarrow> u64 \<Rightarrow> kernel \<Rightarrow> verdict \<times> kernel" where
  "enforce rule direction now packet_len k =
     (case k_rule_states k (bucket_of rule direction) of
        None \<Rightarrow> (Pass, record_missing_state k)
      | Some st \<Rightarrow>
          let (verdict, st') = enforce_state (rr_action rule) now packet_len st in
          (verdict, k\<lparr>k_rule_states := (k_rule_states k)(bucket_of rule direction \<mapsto> st')\<rparr>))"

definition evaluate :: "lpm_get \<Rightarrow> u64 \<Rightarrow> parsed_flow \<Rightarrow> u8 \<Rightarrow> u64 \<Rightarrow> kernel \<Rightarrow> verdict \<times> kernel" where
  "evaluate lpm now flow direction packet_len k =
     (case k_policy_config k of
        None \<Rightarrow> (Pass, k)
      | Some config \<Rightarrow>
          if pc_enabled config = 0 then (Pass, k) else
          let outbound = (direction = direction_to_abi Outbound) in
          (case (if pc_app_rules config \<noteq> 0 then app_rule k flow outbound else None) of
             Some rule \<Rightarrow> enforce rule direction now packet_len k
           | None \<Rightarrow>
          (case (if pc_endpoint_rules config \<noteq> 0 then endpoint_rule lpm k flow outbound else None) of
             Some rule \<Rightarrow> enforce rule direction now packet_len k
           | None \<Rightarrow> (Pass, k))))"

section \<open>The bucket in natural numbers\<close>

text \<open>The rates for which the refill product fits its 64 bits.\<close>

definition rate_fits :: "rule_state \<Rightarrow> bool" where
  "rate_fits st \<longleftrightarrow> 1000000000 * unat (rs_rate_bytes_per_s st) < 2 ^ 64"

definition refill_bytes :: "u64 \<Rightarrow> rule_state \<Rightarrow> nat" where
  "refill_bytes now st =
     min (unat now - unat (rs_last_refill_mono_ns st)) 1000000000
       * unat (rs_rate_bytes_per_s st) div 1000000000"

lemma unat_min_word: "unat (min a b) = min (unat a) (unat b)" for a b :: "'a::len word"
  by (simp add: min_def word_le_nat_alt)

lemma unat_refill_add:
  assumes "rate_fits st"
  shows "unat (min (sat_sub now (rs_last_refill_mono_ns st)) REFILL_CAP_NS * rs_rate_bytes_per_s st
      div NS_PER_SECOND) = refill_bytes now st"
proof -
  let ?e = "min (sat_sub now (rs_last_refill_mono_ns st)) REFILL_CAP_NS"
  have e: "unat ?e = min (unat now - unat (rs_last_refill_mono_ns st)) 1000000000"
    by (simp add: unat_min_word unat_sat_sub REFILL_CAP_NS_def NS_PER_SECOND_def)
  then have "unat ?e * unat (rs_rate_bytes_per_s st) \<le> 1000000000 * unat (rs_rate_bytes_per_s st)"
    by (intro mult_le_mono1) simp
  then have lt: "unat ?e * unat (rs_rate_bytes_per_s st) < 2 ^ LENGTH(64)"
    using le_less_trans [OF _ assms [unfolded rate_fits_def]] by simp
  have "unat (?e * rs_rate_bytes_per_s st) = unat ?e * unat (rs_rate_bytes_per_s st)"
    by (simp only: unat_word_ariths mod_less [OF lt])
  then show ?thesis
    by (simp add: unat_div_distrib refill_bytes_def e NS_PER_SECOND_def)
qed

lemma refill_fields [simp]:
  "rs_rate_bytes_per_s (refill now st) = rs_rate_bytes_per_s st"
  "rs_burst_bytes (refill now st) = rs_burst_bytes st"
  "rs_matched_packets (refill now st) = rs_matched_packets st"
  "rs_matched_bytes (refill now st) = rs_matched_bytes st"
  "rs_dropped_packets (refill now st) = rs_dropped_packets st"
  "rs_dropped_bytes (refill now st) = rs_dropped_bytes st"
  by (simp_all add: refill_def Let_def)

lemma refill_zero: "rate_fits st \<Longrightarrow> refill_bytes now st = 0 \<Longrightarrow> refill now st = st"
  using unat_refill_add [of st now] by (simp add: refill_def Let_def word_less_nat_alt)

lemma refill_positive:
  assumes "rate_fits st" "0 < refill_bytes now st"
  shows "unat (rs_tokens (refill now st))
      = min (min (unat (rs_tokens st) + refill_bytes now st) (2 ^ 64 - 1)) (unat (rs_burst_bytes st))"
    "rs_last_refill_mono_ns (refill now st) = now"
  using assms unat_refill_add [OF assms(1), of now]
  by (simp_all add: refill_def Let_def word_less_nat_alt unat_min_word unat_sat_add)

lemma refill_bytes_le:
  "1000000000 * refill_bytes now st
     \<le> (unat now - unat (rs_last_refill_mono_ns st)) * unat (rs_rate_bytes_per_s st)"
proof -
  let ?d = "unat now - unat (rs_last_refill_mono_ns st)" let ?r = "unat (rs_rate_bytes_per_s st)"
  have "1000000000 * refill_bytes now st \<le> min ?d 1000000000 * ?r"
    by (simp add: refill_bytes_def)
  also have "\<dots> \<le> ?d * ?r" by (intro mult_le_mono1) simp
  finally show ?thesis .
qed

text \<open>What a refill may add, charged to the time it consumes.\<close>

lemma refill_budget:
  assumes "rate_fits st"
  shows "1000000000 * unat (rs_tokens (refill now st))
      + unat (rs_rate_bytes_per_s st) * unat (rs_last_refill_mono_ns st)
    \<le> 1000000000 * unat (rs_tokens st)
      + unat (rs_rate_bytes_per_s st) * unat (rs_last_refill_mono_ns (refill now st))"
    (is "?l \<le> ?r")
    and "rs_last_refill_mono_ns (refill now st) \<in> {rs_last_refill_mono_ns st, now}"
    and "rs_last_refill_mono_ns st \<le> rs_last_refill_mono_ns (refill now st)"
proof -
  consider "refill_bytes now st = 0" | "0 < refill_bytes now st" by auto
  then have "?l \<le> ?r \<and> rs_last_refill_mono_ns (refill now st) \<in> {rs_last_refill_mono_ns st, now}
      \<and> rs_last_refill_mono_ns st \<le> rs_last_refill_mono_ns (refill now st)"
  proof cases
    case 1
    then show ?thesis using refill_zero [OF assms] by simp
  next
    case 2
    then have "unat (rs_last_refill_mono_ns st) < unat now"
      by (cases "unat (rs_last_refill_mono_ns st) < unat now") (simp_all add: refill_bytes_def)
    moreover from this have "(unat now - unat (rs_last_refill_mono_ns st)) * unat (rs_rate_bytes_per_s st)
        + unat (rs_rate_bytes_per_s st) * unat (rs_last_refill_mono_ns st)
      = unat (rs_rate_bytes_per_s st) * unat now"
      by (simp add: mult.commute [of _ "unat (rs_rate_bytes_per_s st)"] add_mult_distrib2 [symmetric])
    moreover have "unat (rs_tokens (refill now st)) \<le> unat (rs_tokens st) + refill_bytes now st"
      using refill_positive(1) [OF assms 2] by simp
    ultimately show ?thesis
      using refill_bytes_le [of now st] refill_positive(2) [OF assms 2]
      by (simp add: word_le_nat_alt)
  qed
  then show "?l \<le> ?r" "rs_last_refill_mono_ns (refill now st) \<in> {rs_last_refill_mono_ns st, now}"
    "rs_last_refill_mono_ns st \<le> rs_last_refill_mono_ns (refill now st)" by simp_all
qed

section \<open>A bucket over a sequence of packets\<close>

text \<open>Packets are the times and lengths the program sees; the passed bytes are summed.\<close>

fun bucket_run :: "u8 \<Rightarrow> (u64 \<times> u64) list \<Rightarrow> rule_state \<Rightarrow> nat \<times> rule_state" where
  "bucket_run action [] st = (0, st)"
| "bucket_run action ((now, len) # ps) st =
     (let (verdict, st') = enforce_state action now len st;
          (passed, st'') = bucket_run action ps st'
      in ((if verdict = Pass then unat len else 0) + passed, st''))"

lemma enforce_state_fields:
  assumes "enforce_state action now len st = (v, st')"
  shows "rs_rate_bytes_per_s st' = rs_rate_bytes_per_s st" "rs_burst_bytes st' = rs_burst_bytes st"
    "rs_last_refill_mono_ns st' = rs_last_refill_mono_ns (refill now st)"
    "unat (rs_tokens st') + (if v = Pass then unat len else 0) = unat (rs_tokens (refill now st))"
    "rs_matched_bytes st' = sat_add (rs_matched_bytes st) len"
    "rs_matched_packets st' = sat_add (rs_matched_packets st) 1"
    "rs_dropped_bytes st' = (if v = Pass then rs_dropped_bytes st else sat_add (rs_dropped_bytes st) len)"
    "rs_dropped_packets st' = (if v = Pass then rs_dropped_packets st else sat_add (rs_dropped_packets st) 1)"
  using assms
  by (auto simp: enforce_state_def Let_def drop_packet_def unat_sub word_le_nat_alt split: if_splits)

lemma bucket_run_budget:
  assumes "bucket_run action ps st = (passed, st')" "rate_fits st"
  shows "1000000000 * (passed + unat (rs_tokens st'))
      + unat (rs_rate_bytes_per_s st) * unat (rs_last_refill_mono_ns st)
    \<le> 1000000000 * unat (rs_tokens st)
      + unat (rs_rate_bytes_per_s st) * unat (rs_last_refill_mono_ns st')
    \<and> rs_last_refill_mono_ns st' \<in> insert (rs_last_refill_mono_ns st) (fst ` set ps)
    \<and> rs_last_refill_mono_ns st \<le> rs_last_refill_mono_ns st'"
  using assms
proof (induction ps arbitrary: st passed st')
  case (Cons p ps)
  obtain now len where p: "p = (now, len)" by (cases p)
  obtain v st1 where e: "enforce_state action now len st = (v, st1)" by (cases "enforce_state action now len st")
  obtain q st2 where r: "bucket_run action ps st1 = (q, st2)" by (cases "bucket_run action ps st1")
  have res: "st' = st2" "passed = (if v = Pass then unat len else 0) + q"
    using Cons.prems(1) by (simp_all add: p e r split: if_splits)
  note f = enforce_state_fields [OF e]
  have "rate_fits st1" using Cons.prems(2) by (simp add: rate_fits_def f)
  from Cons.IH [OF r this] refill_budget [OF Cons.prems(2), of now] show ?case
    unfolding res f(1,3) p using f(4) by auto
qed auto

lemma bucket_run_tokens_le:
  "bucket_run action ps st = (passed, st') \<Longrightarrow> rs_tokens st \<le> rs_burst_bytes st \<Longrightarrow>
     rs_tokens st' \<le> rs_burst_bytes st' \<and> rs_burst_bytes st' = rs_burst_bytes st"
proof (induction ps arbitrary: st passed st')
  case (Cons p ps)
  obtain now len where p: "p = (now, len)" by (cases p)
  obtain v st1 where e: "enforce_state action now len st = (v, st1)" by (cases "enforce_state action now len st")
  obtain q st2 where r: "bucket_run action ps st1 = (q, st2)" by (cases "bucket_run action ps st1")
  note f = enforce_state_fields [OF e]
  have "rs_tokens (refill now st) \<le> rs_burst_bytes st"
    using Cons.prems(2) by (auto simp: refill_def Let_def)
  then have "rs_tokens st1 \<le> rs_burst_bytes st1"
    using f(2,4) by (auto simp: word_le_nat_alt)
  with Cons.IH [OF r] show ?case
    using Cons.prems(1) f(2) by (simp add: p e r split: if_splits)
qed simp


text \<open>A bucket of 1000 B/s: two packets at time zero exhaust it, a second later one more passes.\<close>

definition sample_bucket :: rule_state where
  "sample_bucket = rule_state_default\<lparr>rs_rate_bytes_per_s := 1000, rs_burst_bytes := 2000, rs_tokens := 2000\<rparr>"

lemma sample_bucket_run:
  "bucket_run 1 [(0, 1500), (0, 1500), (1000000000, 1500)] sample_bucket
     = (3000, sample_bucket\<lparr>rs_tokens := 0, rs_last_refill_mono_ns := 1000000000,
          rs_matched_packets := 3, rs_matched_bytes := 4500, rs_dropped_packets := 1, rs_dropped_bytes := 1500\<rparr>)"
  by (simp add: sample_bucket_def rule_state_default_def enforce_state_def refill_def Let_def drop_packet_def
      sat_add_def sat_sub_def NS_PER_SECOND_def REFILL_CAP_NS_def)


fun bytes_seen :: "(u64 \<times> u64) list \<Rightarrow> nat" where
  "bytes_seen [] = 0"
| "bytes_seen ((now, len) # ps) = unat len + bytes_seen ps"

text \<open>
  The counters of a rule account for every byte: over a sequence of packets that does not
  reach the counters' limit, the matched bytes grow by exactly the bytes seen, and what was not
  passed was counted as dropped.
\<close>

theorem bucket_accounting:
  assumes "bucket_run action ps st = (passed, st')"
    and "unat (rs_matched_bytes st) + bytes_seen ps < 2 ^ 64"
    and "unat (rs_dropped_bytes st) + bytes_seen ps < 2 ^ 64"
  shows "unat (rs_matched_bytes st') = unat (rs_matched_bytes st) + bytes_seen ps
    \<and> unat (rs_dropped_bytes st') + passed = unat (rs_dropped_bytes st) + bytes_seen ps"
  using assms
proof (induction ps arbitrary: st passed st')
  case (Cons p ps)
  obtain now len where p: "p = (now, len)" by (cases p)
  obtain v st1 where e: "enforce_state action now len st = (v, st1)" by (cases "enforce_state action now len st")
  obtain q st2 where r: "bucket_run action ps st1 = (q, st2)" by (cases "bucket_run action ps st1")
  note f = enforce_state_fields [OF e]
  have m: "unat (rs_matched_bytes st1) = unat (rs_matched_bytes st) + unat len"
    "unat (rs_dropped_bytes st1) + (if v = Pass then unat len else 0) = unat (rs_dropped_bytes st) + unat len"
    using Cons.prems(2,3) by (simp_all add: f p unat_sat_add)
  have "unat (rs_matched_bytes st1) + bytes_seen ps < 2 ^ 64"
    "unat (rs_dropped_bytes st1) + bytes_seen ps < 2 ^ 64"
    using Cons.prems(2,3) m by (simp_all add: p split: if_splits)
  from Cons.IH [OF r this] m show ?case
    using Cons.prems(1) by (auto simp: p e r split: if_splits)
qed simp

lemma bucket_accounting_witness:
  "unat (rs_matched_bytes sample_bucket) = 0 \<and> 4500 = 0 + bytes_seen [(0, 1500), (0, 1500), (1000000000, 1500)]"
  using bucket_accounting [OF sample_bucket_run]
  by (simp add: sample_bucket_def rule_state_default_def)

section \<open>Which packets are dropped\<close>

text \<open>The rule a packet is charged to: the first tier that is enabled and has a match.\<close>

definition matched_rule :: "lpm_get \<Rightarrow> kernel \<Rightarrow> parsed_flow \<Rightarrow> u8 \<Rightarrow> rule_ref option" where
  "matched_rule lpm k flow direction =
     (case k_policy_config k of
        None \<Rightarrow> None
      | Some config \<Rightarrow>
          let outbound = (direction = direction_to_abi Outbound);
              app = (if pc_app_rules config \<noteq> 0 then app_rule k flow outbound else None) in
          if pc_enabled config = 0 then None
          else if app \<noteq> None then app
          else if pc_endpoint_rules config \<noteq> 0 then endpoint_rule lpm k flow outbound
          else None)"

lemma evaluate_matched:
  "evaluate lpm now flow direction len k =
     (case matched_rule lpm k flow direction of
        None \<Rightarrow> (Pass, k) | Some rule \<Rightarrow> enforce rule direction now len k)"
  by (auto simp: evaluate_def matched_rule_def Let_def split: option.split)

lemma enforce_drop_iff:
  "fst (enforce rule direction now len k) = Drop \<longleftrightarrow>
     (\<exists>st. k_rule_states k (bucket_of rule direction) = Some st
        \<and> (rr_action rule = rule_action_to_abi Block \<or> rs_tokens (refill now st) < len))"
  by (auto simp: enforce_def enforce_state_def Let_def not_le split: option.split)

text \<open>
  C2: enforcement is fail-open: a packet is dropped exactly when the master switch is on, the
  first tier with a match yields a rule whose bucket exists, and that rule is a block or its
  refilled bucket does not hold the packet. Everything else passes.
\<close>

theorem evaluate_drops_iff:
  "fst (evaluate lpm now flow direction len k) = Drop \<longleftrightarrow>
     (\<exists>rule st. matched_rule lpm k flow direction = Some rule
        \<and> k_rule_states k (bucket_of rule direction) = Some st
        \<and> (rr_action rule = rule_action_to_abi Block \<or> rs_tokens (refill now st) < len))"
  unfolding evaluate_matched by (auto simp: enforce_drop_iff split: option.split)

definition sample_drop_kernel :: kernel where
  "sample_drop_kernel = kernel_loaded
     \<lparr>k_policy_config := Some \<lparr>pc_enabled = 1, pc_app_rules = 1, pc_endpoint_rules = 0, pc_reserved = 0, pc_revision = 7\<rparr>,
      k_owner_map := [\<lparr>ok_remote_addr = replicate 16 9, ok_remote_port_be = 5, ok_local_port_be = 6, ok_protocol = 6,
          ok_kind = 1, ok_ip_family = 4, ok_reserved = 0\<rparr> \<mapsto>
        \<lparr>ov_tgid = 1, ov_pid = 1, ov_uid = 0, ov_reserved = 0, ov_cgroup_id = 77, ov_comm = replicate 16 0,
         ov_observed_mono_ns = 0\<rparr>],
      k_app_cgroup_egress := [77 \<mapsto> \<lparr>rr_rule_id = 1, rr_action = 1, rr_reserved = [0, 0, 0]\<rparr>],
      k_app_comm_egress := [replicate 16 0 \<mapsto> \<lparr>rr_rule_id = 2, rr_action = 2, rr_reserved = [0, 0, 0]\<rparr>],
      k_rule_states := [\<lparr>bk_rule_id = 2, bk_direction = 2, bk_reserved = [0, 0, 0]\<rparr> \<mapsto> rule_state_default]\<rparr>"

definition sample_drop_flow :: parsed_flow where
  "sample_drop_flow = \<lparr>pf_src_addr = replicate 16 8, pf_dst_addr = replicate 16 9, pf_src_port_be = 6,
     pf_dst_port_be = 5, pf_protocol = 6, pf_ip_family = 4, pf_tcp_flags = 0, pf_parse_flags = 0,
     pf_payload_offset = 54, pf_payload_end = 60\<rparr>"

text \<open>
  Inside the application tier a block beats a limit: if a container or a process rule of a
  packet's owner blocks, the packet is dropped whatever the other rule says, provided the
  blocking rules have their buckets.
\<close>

theorem app_block_beats_limit:
  assumes "k_policy_config k = Some config" "pc_enabled config \<noteq> 0" "pc_app_rules config \<noteq> 0"
    and "outbound \<longleftrightarrow> direction = direction_to_abi Outbound"
    and "lookup_owner k flow outbound = Some owner"
    and "(if outbound then k_app_cgroup_egress k else k_app_cgroup_ingress k) (ov_cgroup_id owner) = cgroup"
    and "(if outbound then k_app_comm_egress k else k_app_comm_ingress k) (ov_comm owner) = comm"
    and "block \<in> set_option cgroup \<union> set_option comm" "rr_action block = rule_action_to_abi Block"
    and "\<forall>r \<in> set_option cgroup \<union> set_option comm. rr_action r = rule_action_to_abi Block
      \<longrightarrow> k_rule_states k (bucket_of r direction) \<noteq> None"
  shows "fst (evaluate lpm now flow direction len k) = Drop"
proof -
  obtain rule where r: "app_rule k flow outbound = Some rule" "rr_action rule = rule_action_to_abi Block"
    "rule \<in> set_option cgroup \<union> set_option comm"
    using assms(5-9)
    by (cases cgroup; cases comm) (auto simp: app_rule_def Let_def prefer_rule_def split: if_splits)
  then have "matched_rule lpm k flow direction = Some rule"
    using assms(1-4) by (simp add: matched_rule_def)
  then show ?thesis
    unfolding evaluate_drops_iff using r assms(10) by blast
qed

lemma app_block_beats_limit_witness:
  "fst (evaluate (\<lambda>m a. None) 5 sample_drop_flow 2 100 sample_drop_kernel) = Drop"
proof -
  let ?owner = "\<lparr>ov_tgid = 1, ov_pid = 1, ov_uid = 0, ov_reserved = 0, ov_cgroup_id = 77, ov_comm = replicate 16 0,
         ov_observed_mono_ns = 0\<rparr>"
  have o: "lookup_owner sample_drop_kernel sample_drop_flow True = Some ?owner"
    by (simp add: lookup_owner_def socket_key_def sample_drop_kernel_def sample_drop_flow_def)
  show ?thesis
    by (rule app_block_beats_limit [OF _ _ _ _ o refl refl,
          where config = "\<lparr>pc_enabled = 1, pc_app_rules = 1, pc_endpoint_rules = 0, pc_reserved = 0, pc_revision = 7\<rparr>"
            and block = "\<lparr>rr_rule_id = 2, rr_action = 2, rr_reserved = [0, 0, 0]\<rparr>"])
      (simp_all add: sample_drop_kernel_def bucket_of_def numeral_eq_Suc)
qed

text \<open>
  Evaluating a packet writes nothing but the bucket of the rule it matched: every other
  bucket and every match map keep their contents, and no bucket appears or disappears.
\<close>

theorem evaluate_writes_one_bucket:
  "\<exists>states stats. snd (evaluate lpm now flow direction len k) = k\<lparr>k_rule_states := states, k_stats := stats\<rparr>
     \<and> dom states = dom (k_rule_states k)
     \<and> (\<forall>b. states b = k_rule_states k b
          \<or> map_option (\<lambda>rule. bucket_of rule direction) (matched_rule lpm k flow direction) = Some b)"
proof (cases "matched_rule lpm k flow direction")
  case None
  then have "snd (evaluate lpm now flow direction len k) = k\<lparr>k_rule_states := k_rule_states k, k_stats := k_stats k\<rparr>"
    by (simp add: evaluate_matched)
  then show ?thesis by blast
next
  case (Some rule)
  let ?b = "bucket_of rule direction"
  show ?thesis
  proof (cases "k_rule_states k ?b")
    case None
    then have "snd (evaluate lpm now flow direction len k)
        = k\<lparr>k_rule_states := k_rule_states k, k_stats := k_stats (record_missing_state k)\<rparr>"
      by (simp add: evaluate_matched Some enforce_def record_missing_state_def map_stats_def)
    then show ?thesis by blast
  next
    case st: (Some st)
    let ?states = "(k_rule_states k)(?b \<mapsto> snd (enforce_state (rr_action rule) now len st))"
    have "snd (evaluate lpm now flow direction len k) = k\<lparr>k_rule_states := ?states, k_stats := k_stats k\<rparr>"
      by (simp add: evaluate_matched Some enforce_def st split: prod.split)
    moreover have "dom ?states = dom (k_rule_states k)" using st by auto
    ultimately show ?thesis using Some by (intro exI [of _ ?states] exI [of _ "k_stats k"]) auto
  qed
qed

text \<open>
  A limit never starves traffic: a packet that fits the burst and one second of the rate
  passes once a second has gone by since the bucket was last refilled.
\<close>

theorem limited_traffic_recovers:
  assumes "rate_fits st" "action \<noteq> rule_action_to_abi Block"
    and "unat now \<ge> unat (rs_last_refill_mono_ns st) + 1000000000"
    and "0 < len" "len \<le> rs_burst_bytes st" "len \<le> rs_rate_bytes_per_s st"
  shows "fst (enforce_state action now len st) = Pass"
proof -
  have e: "min (unat now - unat (rs_last_refill_mono_ns st)) 1000000000 = 1000000000"
    using assms(3) by simp
  have r: "refill_bytes now st = unat (rs_rate_bytes_per_s st)"
    unfolding refill_bytes_def e by simp
  have "0 < refill_bytes now st" using assms(4,6) r by (simp add: word_le_nat_alt word_less_nat_alt)
  from refill_positive(1) [OF assms(1) this]
  have "unat (rs_tokens (refill now st)) \<ge> min (min (unat (rs_rate_bytes_per_s st)) (2 ^ 64 - 1)) (unat (rs_burst_bytes st))"
    by (simp add: r) (simp add: min_le_iff_disj)
  moreover have "unat len \<le> 2 ^ 64 - 1" using unat_le_max [of len] by simp
  ultimately have "len \<le> rs_tokens (refill now st)"
    using assms(5,6) by (simp add: word_le_nat_alt)
  then show ?thesis using assms(2) by (simp add: enforce_state_def Let_def)
qed

lemma limited_traffic_recovers_witness:
  "fst (enforce_state 1 1000000000 1000 (sample_bucket\<lparr>rs_tokens := 0\<rparr>)) = Pass"
  by (rule limited_traffic_recovers)
    (simp_all add: rate_fits_def sample_bucket_def rule_state_default_def word_le_nat_alt)

end
