(* ===== verification/Owner.thy ===== *)
theory Owner
  imports Policy_Kernel
begin

text \<open>
  Socket-owner capture, \<^verbatim>\<open>zimascope-ebpf/src/owner.rs\<close> and \<^verbatim>\<open>udp.rs\<close>.
  The hooks write the owner maps from process context; the packet path (\<open>lookup_owner\<close>) and
  user space read them. What must hold between the two is that both sides build the same key
  from what they see of one connection: the hook from the socket, in the kernel's mixed byte
  orders, the packet path from the frame.
\<close>

section \<open>Byte order of the socket context\<close>

definition swap32 :: "u32 \<Rightarrow> u32" where
  "swap32 w =
     (let bs = u32_to_be_bytes w in u32_from_be_bytes (bs ! 3) (bs ! 2) (bs ! 1) (bs ! 0))"

lemma u32_to_from_be_bytes [simp]: "u32_to_be_bytes (u32_from_be_bytes a b c d) = [a, b, c, d]"
proof -
  let ?c = "unat c + 256 * (unat b + 256 * unat a)"
  have n: "unat (u32_from_be_bytes a b c d) = unat d + 256 * ?c" by simp
  have step: "x < 256 \<Longrightarrow> (x + 256 * y) div 256 = y" for x y :: nat by simp
  have lt: "unat x < 256" for x :: u8 using unat_u8_le [of x] by simp
  have q: "n div 2 ^ 8 = n div 256" "n div 2 ^ 16 = n div 256 div 256"
    "n div 2 ^ 24 = n div 256 div 256 div 256" for n :: nat
    by (simp_all add: div_mult2_eq [symmetric])
  show ?thesis
    unfolding u32_to_be_bytes_def
    by (simp only: list.inject word_unat_eq_iff unat_ucast_u8 unat_drop_bit n q step [OF lt] mod_mult_self2
        mod_less [OF lt] simp_thms)
qed

lemma u32_bytes_cases:
  obtains a b c d where "w = u32_from_be_bytes a b c d"
  by (rule that [OF u32_be_bytes_roundtrip [symmetric]])

lemma swap32_bytes: "swap32 (u32_from_be_bytes a b c d) = u32_from_be_bytes d c b a"
  by (simp add: swap32_def Let_def)

lemma swap32_swap32 [simp]: "swap32 (swap32 w) = w"
  by (cases w rule: u32_bytes_cases) (simp add: swap32_bytes)

section \<open>The hooks\<close>

datatype sock_op = TcpConnectCb | TcpListenCb | OtherOp u32

record sock_ops_context =
  so_op :: sock_op
  so_family :: u32
  so_remote_ip4 :: u32
  so_remote_port :: u32
  so_local_port :: u32

text \<open>What the helpers report of the current task.\<close>

record task =
  tk_pid_tgid :: u64
  tk_uid_gid :: u64
  tk_comm :: "u8 list option"
  tk_cgroup_id :: u64
  tk_now :: u64

definition AF_INET :: u32 where "AF_INET = 2"
definition SOCK_OPS_CONTINUE :: u32 where "SOCK_OPS_CONTINUE = 1"
definition SOCK_ADDR_ALLOW :: u32 where "SOCK_ADDR_ALLOW = 1"

definition be_ipv4_storage :: "u32 \<Rightarrow> u8 list" where
  "be_ipv4_storage value = replicate 12 0 @ u32_to_be_bytes (swap32 value)"

definition owner_key :: "sock_ops_context \<Rightarrow> owner_kind \<Rightarrow> bool \<Rightarrow> abi_owner_key" where
  "owner_key ctx kind listener =
     (let (remote_addr, remote_port_be) =
        (if listener then (replicate 16 0, 0)
         else (be_ipv4_storage (so_remote_ip4 ctx), ucast (drop_bit 16 (so_remote_port ctx)))) in
      \<lparr>ok_remote_addr = remote_addr, ok_remote_port_be = remote_port_be,
       ok_local_port_be = swap16 (ucast (so_local_port ctx)),
       ok_protocol = transport_protocol_to_abi Tcp, ok_kind = owner_kind_to_abi kind,
       ok_ip_family = ip_family_to_abi V4, ok_reserved = 0\<rparr>)"

definition owner_value :: "task \<Rightarrow> abi_owner_value" where
  "owner_value t =
     \<lparr>ov_tgid = ucast (drop_bit 32 (tk_pid_tgid t)), ov_pid = ucast (tk_pid_tgid t),
      ov_uid = ucast (tk_uid_gid t), ov_reserved = 0, ov_cgroup_id = tk_cgroup_id t,
      ov_comm = (case tk_comm t of Some comm \<Rightarrow> comm | None \<Rightarrow> replicate 16 0),
      ov_observed_mono_ns = tk_now t\<rparr>"

definition count_owner :: "bool \<Rightarrow> kernel \<Rightarrow> kernel" where
  "count_owner inserted =
     map_stats (\<lambda>s. if inserted
       then s\<lparr>ks_owner_events_inserted := sat_add (ks_owner_events_inserted s) 1\<rparr>
       else s\<lparr>ks_owner_events_dropped := sat_add (ks_owner_events_dropped s) 1\<rparr>)"

type_synonym owner_insert = "(abi_owner_key, abi_owner_value) map_insert"

text \<open>\<^verbatim>\<open>insert_owner\<close> on either of the two maps.\<close>

definition insert_owner :: "owner_insert \<Rightarrow> abi_owner_key \<Rightarrow> abi_owner_value \<Rightarrow> kernel \<Rightarrow> kernel" where
  "insert_owner ins key value k =
     (case ins (k_owner_map k) key value of
        Some m \<Rightarrow> count_owner True (k\<lparr>k_owner_map := m\<rparr>)
      | None \<Rightarrow> count_owner False k)"

definition insert_listener :: "owner_insert \<Rightarrow> abi_owner_key \<Rightarrow> abi_owner_value \<Rightarrow> kernel \<Rightarrow> kernel" where
  "insert_listener ins key value k =
     (case ins (k_listener_map k) key value of
        Some m \<Rightarrow> count_owner True (k\<lparr>k_listener_map := m\<rparr>)
      | None \<Rightarrow> count_owner False k)"

definition sock_owner_v1 :: "owner_insert \<Rightarrow> sock_ops_context \<Rightarrow> task \<Rightarrow> kernel \<Rightarrow> u32 \<times> kernel" where
  "sock_owner_v1 ins ctx t k =
     (if so_family ctx \<noteq> AF_INET then (SOCK_OPS_CONTINUE, k)
      else if so_op ctx = TcpConnectCb then
        (SOCK_OPS_CONTINUE, insert_owner ins (owner_key ctx Socket False) (owner_value t) k)
      else if so_op ctx = TcpListenCb then
        (SOCK_OPS_CONTINUE, insert_listener ins (owner_key ctx Listener True) (owner_value t) k)
      else (SOCK_OPS_CONTINUE, k))"

definition udp_owner_key :: "u32 \<Rightarrow> u32 \<Rightarrow> abi_owner_key" where
  "udp_owner_key remote_ip4 remote_port =
     \<lparr>ok_remote_addr = be_ipv4_storage remote_ip4, ok_remote_port_be = ucast (remote_port AND 0xFFFF),
      ok_local_port_be = 0, ok_protocol = transport_protocol_to_abi Udp,
      ok_kind = owner_kind_to_abi Socket, ok_ip_family = ip_family_to_abi V4, ok_reserved = 0\<rparr>"

definition udp_owner_v1 :: "owner_insert \<Rightarrow> u32 \<Rightarrow> u32 \<Rightarrow> task \<Rightarrow> kernel \<Rightarrow> u32 \<times> kernel" where
  "udp_owner_v1 ins remote_ip4 remote_port t k =
     (SOCK_ADDR_ALLOW, insert_owner ins (udp_owner_key remote_ip4 remote_port) (owner_value t) k)"

section \<open>The hook and the packet path agree\<close>

lemma be_ipv4_storage_swap32: "be_ipv4_storage (swap32 w) = word_storage w"
  by (simp add: be_ipv4_storage_def word_storage_def)

text \<open>
  The socket context of a connection as the kernel fills it in: the remote address is the
  network-order word, the remote port is the network-order port in the upper half, the local
  port is in host order.
\<close>

definition connect_context :: "u32 \<Rightarrow> u16 \<Rightarrow> u16 \<Rightarrow> sock_ops_context" where
  "connect_context remote remote_port local_port =
     \<lparr>so_op = TcpConnectCb, so_family = AF_INET, so_remote_ip4 = swap32 remote,
      so_remote_port = push_bit 16 (ucast (swap16 remote_port)), so_local_port = ucast local_port\<rparr>"

lemma port_in_upper_half [simp]: "ucast (drop_bit 16 (push_bit 16 (ucast p :: u32))) = p" for p :: u16
  by (rule bit_word_eqI) (simp add: bit_simps)

lemma ucast_up_down [simp]: "ucast (ucast p :: u32) = p" for p :: u16
  by (rule bit_word_eqI) (simp add: bit_simps)

lemma count_owner_maps [simp]:
  "k_owner_map (count_owner b k) = k_owner_map k" "k_listener_map (count_owner b k) = k_listener_map k"
  by (simp_all add: count_owner_def map_stats_def)

lemma connect_key_outbound:
  assumes "fr_segment f = TcpSegment local_port remote_port sa fl tail opts" "fr_dst f = remote"
  shows "owner_key (connect_context remote remote_port local_port) Socket False = socket_key (frame_flow f) True"
  using assms
  by (simp add: owner_key_def connect_context_def socket_key_def frame_flow_def be_ipv4_storage_swap32
      IpProto_Tcp_def IpProto_Udp_def)

lemma connect_key_inbound:
  assumes "fr_segment f = TcpSegment remote_port local_port sa fl tail opts" "fr_src f = remote"
  shows "owner_key (connect_context remote remote_port local_port) Socket False = socket_key (frame_flow f) False"
  using assms
  by (simp add: owner_key_def connect_context_def socket_key_def frame_flow_def be_ipv4_storage_swap32
      IpProto_Tcp_def IpProto_Udp_def)

text \<open>
  C10: a connection's owner is found from its packets: after the connect hook stored the owner,
  looking up any segment the socket sends, and any segment of the peer's answer, gives exactly
  the task that connected.
\<close>

theorem connected_owner_found:
  assumes "lru_insert ins"
    and "ins (k_owner_map k) (owner_key (connect_context remote remote_port local_port) Socket False)
        (owner_value t) \<noteq> None"
    and "fr_segment f = TcpSegment local_port remote_port sa fl tail opts" "fr_dst f = remote"
    and "fr_segment g = TcpSegment remote_port local_port sa' fl' tail' opts'" "fr_src g = remote"
    and "k' = snd (sock_owner_v1 ins (connect_context remote remote_port local_port) t k)"
  shows "lookup_owner k' (frame_flow f) True = Some (owner_value t)
    \<and> lookup_owner k' (frame_flow g) False = Some (owner_value t)"
proof -
  let ?ctx = "connect_context remote remote_port local_port" let ?key = "owner_key ?ctx Socket False"
  obtain m where m: "ins (k_owner_map k) ?key (owner_value t) = Some m" using assms(2) by blast
  have "k_owner_map k' ?key = Some (owner_value t)"
    using m lru_insert_get [OF assms(1) m]
    by (simp add: assms(7) sock_owner_v1_def connect_context_def insert_owner_def)
  then show ?thesis
    using connect_key_outbound [OF assms(3,4)] connect_key_inbound [OF assms(5,6)]
    by (simp add: lookup_owner_def)
qed

definition sample_task :: task where
  "sample_task = \<lparr>tk_pid_tgid = 0x0000002A0000002B, tk_uid_gid = 1000, tk_comm = None, tk_cgroup_id = 9,
     tk_now = 5\<rparr>"

lemma connected_owner_found_witness:
  "\<exists>k'. lookup_owner k' (frame_flow (sample_frame\<lparr>fr_segment := TcpSegment 4000 443 [] 0 [] []\<rparr>)) True
      = Some (owner_value sample_task)
    \<and> ov_tgid (owner_value sample_task) = 42 \<and> ov_pid (owner_value sample_task) = 43"
proof -
  let ?f = "sample_frame\<lparr>fr_segment := TcpSegment 4000 443 [] 0 [] []\<rparr>"
  let ?g = "sample_frame\<lparr>fr_segment := TcpSegment 443 4000 [] 0 [] [], fr_src := fr_dst sample_frame\<rparr>"
  from connected_owner_found [OF plain_insert_lru, of kernel_loaded "fr_dst sample_frame" 443 4000 sample_task
      ?f "[]" 0 "[]" "[]" ?g "[]" 0 "[]" "[]"]
  have "\<exists>k'. lookup_owner k' (frame_flow ?f) True = Some (owner_value sample_task)"
    by (simp add: plain_insert_def) blast
  then show ?thesis by (simp add: owner_value_def sample_task_def)
qed

lemma udp_key:
  assumes "fr_segment f = UdpSegment sport dport rest"
  shows "socket_key (frame_flow f) True = udp_owner_key (swap32 (fr_dst f)) (ucast (swap16 dport))"
    "socket_key (frame_flow f) False = udp_owner_key (swap32 (fr_src f)) (ucast (swap16 sport))"
proof -
  have low: "ucast ((ucast p :: u32) AND 0xFFFF) = p" for p :: u16
  proof -
    have e: "(0xFFFF :: u32) = mask 16" by (simp add: mask_eq_exp_minus_1)
    show ?thesis unfolding e by (rule bit_word_eqI) (auto simp: bit_simps)
  qed
  show "socket_key (frame_flow f) True = udp_owner_key (swap32 (fr_dst f)) (ucast (swap16 dport))"
    "socket_key (frame_flow f) False = udp_owner_key (swap32 (fr_src f)) (ucast (swap16 sport))"
    using assms
    by (simp_all add: socket_key_def udp_owner_key_def frame_flow_def be_ipv4_storage_swap32
        IpProto_Tcp_def IpProto_Udp_def low)
qed

text \<open>
  A UDP datagram is attributed to the last task that sent to its remote endpoint, whatever
  its local port: after the send hook ran for that endpoint, every datagram to it, and every
  datagram back from it, resolves to the sender.
\<close>

theorem udp_owner_found:
  assumes "lru_insert ins"
    and "ins (k_owner_map k) (udp_owner_key (swap32 remote) (ucast (swap16 remote_port))) (owner_value t) \<noteq> None"
    and "fr_segment f = UdpSegment any remote_port rest" "fr_dst f = remote"
    and "fr_segment g = UdpSegment remote_port any' rest'" "fr_src g = remote"
    and "k' = snd (udp_owner_v1 ins (swap32 remote) (ucast (swap16 remote_port)) t k)"
  shows "lookup_owner k' (frame_flow f) True = Some (owner_value t)
    \<and> lookup_owner k' (frame_flow g) False = Some (owner_value t)"
proof -
  let ?key = "udp_owner_key (swap32 remote) (ucast (swap16 remote_port))"
  obtain m where m: "ins (k_owner_map k) ?key (owner_value t) = Some m" using assms(2) by blast
  have "k_owner_map k' ?key = Some (owner_value t)"
    using m lru_insert_get [OF assms(1) m] by (simp add: assms(7) udp_owner_v1_def insert_owner_def)
  then show ?thesis
    using udp_key [OF assms(3)] udp_key [OF assms(5)] assms(4,6) by (simp add: lookup_owner_def)
qed

lemma udp_owner_found_witness:
  "\<exists>k'. lookup_owner k' (frame_flow (sample_frame\<lparr>fr_segment := UdpSegment 4000 53 []\<rparr>)) True
      = Some (owner_value sample_task)"
proof -
  let ?f = "sample_frame\<lparr>fr_segment := UdpSegment 4000 53 []\<rparr>"
  let ?g = "sample_frame\<lparr>fr_segment := UdpSegment 53 1 [], fr_src := fr_dst sample_frame\<rparr>"
  from udp_owner_found [OF plain_insert_lru, of kernel_loaded "fr_dst sample_frame" 53 sample_task
      ?f 4000 "[]" ?g 1 "[]"]
  show ?thesis by (simp add: plain_insert_def) blast
qed

end
