(* ===== verification/Domain_Parse.thy ===== *)
theory Domain_Parse
  imports Packet_Parse "HOL-Library.Monad_Syntax"
begin

text \<open>
  Bounded DNS, TLS SNI and HTTP Host extraction, \<^verbatim>\<open>zimascope-ebpf/src/domain.rs\<close>:
  the functions in source order. A Rust \<^verbatim>\<open>for _ in 0..N\<close> is a recursion on the
  number of rounds left, so every loop here ends by construction. The caller's domain buffer is
  a list of \<^verbatim>\<open>DOMAIN_MAX_LEN\<close> bytes; it is returned where a name was extracted (its
  contents after a refusal are not read by the callers). Proved: name and answer bounds,
  independence of the bytes beyond the declared end, and inversion of a DNS and a TLS encoder.
\<close>

section \<open>Bounds and buffers\<close>

definition DNS_PORT :: u16 where "DNS_PORT = 53"
definition TLS_PORT :: u16 where "TLS_PORT = 443"
definition HTTP_PORT :: u16 where "HTTP_PORT = 80"
definition MAX_DNS_ANSWERS :: nat where "MAX_DNS_ANSWERS = 8"
definition MAX_DNS_LABELS :: nat where "MAX_DNS_LABELS = 16"
definition MAX_TLS_EXTENSIONS :: nat where "MAX_TLS_EXTENSIONS = 16"
definition MAX_HTTP_SCAN :: nat where "MAX_HTTP_SCAN = 512"
definition MAX_HTTP_HEADERS :: nat where "MAX_HTTP_HEADERS = 16"
definition MAX_HTTP_HOST_LEN :: nat where "MAX_HTTP_HOST_LEN = 253"

lemmas domain_bounds = MAX_DNS_ANSWERS_def MAX_DNS_LABELS_def MAX_TLS_EXTENSIONS_def
  MAX_HTTP_SCAN_def MAX_HTTP_HEADERS_def MAX_HTTP_HOST_LEN_def DOMAIN_MAX_LEN_def

record dns_answer =
  da_ttl_secs :: u32
  da_address :: "u8 list"

definition within :: "nat \<Rightarrow> nat \<Rightarrow> nat \<Rightarrow> bool" where
  "within off len stop \<longleftrightarrow> off + len < 2 ^ 64 \<and> off + len \<le> stop"

definition ensure :: "bool \<Rightarrow> unit option" where
  "ensure b = (if b then Some () else None)"

lemma ensure_bind [simp]: "Option.bind (ensure b) f = (if b then f () else None)"
  by (simp add: ensure_def)

definition write_at :: "u8 list \<Rightarrow> nat \<Rightarrow> u8 list \<Rightarrow> u8 list" where
  "write_at buf i bs = take i buf @ bs @ drop (i + length bs) buf"

lemma length_write_at [simp]:
  "i + length bs \<le> length buf \<Longrightarrow> length (write_at buf i bs) = length buf"
  by (simp add: write_at_def)

lemma take_write_at:
  "i + length bs \<le> length buf \<Longrightarrow> take (i + length bs) (write_at buf i bs) = take i buf @ bs"
  by (simp add: write_at_def)

section \<open>DNS responses\<close>

fun read_question_name :: "cursor \<Rightarrow> nat \<Rightarrow> nat \<Rightarrow> nat \<Rightarrow> nat \<Rightarrow> u8 list \<Rightarrow> (nat \<times> nat \<times> u8 list) option" where
  "read_question_name c stop 0 position len buf = None"
| "read_question_name c stop (Suc rounds) position len buf =
     do {
       ensure (within position 1 stop);
       label_byte \<leftarrow> read_u8 c position;
       let label_len = unat label_byte;
       let position = position + 1;
       if label_len = 0 then Some (len, position, buf)
       else do {
         ensure (\<not> (label_byte AND 0xC0 \<noteq> 0 \<or> label_len > 63 \<or> \<not> within position label_len stop));
         ensure (\<not> (len > 0 \<and> len + 1 \<ge> DOMAIN_MAX_LEN));
         let buf = (if len > 0 then buf[len := 46] else buf);
         let len = (if len > 0 then len + 1 else len);
         ensure (\<not> len + label_len > DOMAIN_MAX_LEN);
         bytes \<leftarrow> read_bytes c position label_len;
         read_question_name c stop rounds (position + label_len) (len + label_len) (write_at buf len bytes)
       }
     }"

fun skip_answer_name :: "cursor \<Rightarrow> nat \<Rightarrow> nat \<Rightarrow> nat \<Rightarrow> nat option" where
  "skip_answer_name c stop 0 position = None"
| "skip_answer_name c stop (Suc rounds) position =
     do {
       ensure (within position 1 stop);
       label_len \<leftarrow> read_u8 c position;
       let position = position + 1;
       if label_len = 0 then Some position
       else if label_len AND 0xC0 = 0xC0 then do {
         ensure (within position 1 stop);
         Some (position + 1)
       }
       else do {
         ensure (\<not> (unat label_len > 63 \<or> \<not> within position (unat label_len) stop));
         skip_answer_name c stop rounds (position + unat label_len)
       }
     }"

definition answer_address :: "u8 \<Rightarrow> u8 \<Rightarrow> u8 \<Rightarrow> u8 \<Rightarrow> u8 list" where
  "answer_address b0 b1 b2 b3 = replicate 12 0 @ [b0, b1, b2, b3]"

text \<open>
  The answer loop returns the emitted answers in order; the callback is always given the
  question's name, which the loop does not change.
\<close>

fun dns_answers :: "cursor \<Rightarrow> nat \<Rightarrow> nat \<Rightarrow> nat \<Rightarrow> nat \<Rightarrow> nat \<Rightarrow> dns_answer list" where
  "dns_answers c stop answers 0 position emitted = []"
| "dns_answers c stop answers (Suc rounds) position emitted =
     (if emitted = answers then [] else
      case skip_answer_name c stop MAX_DNS_LABELS position of
        None \<Rightarrow> []
      | Some position \<Rightarrow>
      if \<not> within position 10 stop then [] else
      case (read_u16_be c position, read_u16_be c (position + 2), read_u32_be c (position + 4),
            read_u16_be c (position + 8)) of
        (Some rtype, Some cls, Some ttl, Some rdlength) \<Rightarrow>
          let position = position + 10; rdlength = unat rdlength in
          if \<not> within position rdlength stop then []
          else if rtype = 1 \<and> cls = 1 \<and> rdlength = 4 then
            (case (read_u8 c position, read_u8 c (position + 1), read_u8 c (position + 2),
                   read_u8 c (position + 3)) of
               (Some b0, Some b1, Some b2, Some b3) \<Rightarrow>
                 \<lparr>da_ttl_secs = ttl, da_address = answer_address b0 b1 b2 b3\<rparr>
                 # dns_answers c stop answers rounds (position + rdlength) (emitted + 1)
             | _ \<Rightarrow> [])
          else dns_answers c stop answers rounds (position + rdlength) emitted
      | _ \<Rightarrow> [])"

definition parse_dns_response ::
  "cursor \<Rightarrow> nat \<Rightarrow> nat \<Rightarrow> u8 list \<Rightarrow> (u8 list \<times> nat \<times> dns_answer) list" where
  "parse_dns_response c off stop buf =
     (if \<not> within off 12 stop then [] else
      case read_u16_be c (off + 2) of
        None \<Rightarrow> []
      | Some flags \<Rightarrow>
      if flags AND 0x8000 = 0 then [] else
      case read_u16_be c (off + 4) of
        None \<Rightarrow> []
      | Some qdcount \<Rightarrow>
      if qdcount = 0 then [] else
      case read_u16_be c (off + 6) of
        None \<Rightarrow> []
      | Some count \<Rightarrow>
      if count = 0 then [] else
      let answers = unat count in
      case read_question_name c stop MAX_DNS_LABELS (off + 12) 0 buf of
        None \<Rightarrow> []
      | Some (name_len, position, domain) \<Rightarrow>
      if name_len = 0 \<or> \<not> within position 4 stop then [] else
      let position = position + 4; answers = min answers MAX_DNS_ANSWERS in
      map (\<lambda>a. (domain, name_len, a)) (dns_answers c stop answers MAX_DNS_ANSWERS position 0))"

section \<open>TLS server names\<close>

fun sni_extensions :: "cursor \<Rightarrow> nat \<Rightarrow> nat \<Rightarrow> nat \<Rightarrow> u8 list \<Rightarrow> (nat \<times> u8 list) option" where
  "sni_extensions c extensions_end 0 position buf = None"
| "sni_extensions c extensions_end (Suc rounds) position buf =
     (if \<not> within position 4 extensions_end then None else
      do {
        extension_type \<leftarrow> read_u16_be c position;
        extension_len \<leftarrow> map_option unat (read_u16_be c (position + 2));
        let position = position + 4;
        ensure (within position extension_len extensions_end);
        if extension_type = 0 then do {
          ensure (\<not> extension_len < 5);
          list_len \<leftarrow> map_option unat (read_u16_be c position);
          ensure (\<not> list_len + 2 > extension_len);
          name_type \<leftarrow> read_u8 c (position + 2);
          ensure (\<not> name_type \<noteq> 0);
          name_len \<leftarrow> map_option unat (read_u16_be c (position + 3));
          ensure (\<not> (name_len = 0 \<or> name_len > DOMAIN_MAX_LEN
            \<or> \<not> within (position + 5) name_len extensions_end));
          bytes \<leftarrow> read_bytes c (position + 5) name_len;
          Some (name_len, write_at buf 0 bytes)
        }
        else sni_extensions c extensions_end rounds (position + extension_len) buf
      })"

definition extract_tls_sni :: "cursor \<Rightarrow> nat \<Rightarrow> nat \<Rightarrow> u8 list \<Rightarrow> (nat \<times> u8 list) option" where
  "extract_tls_sni c off stop buf =
     do {
       ensure (within off 5 stop);
       content \<leftarrow> read_u8 c off;
       ensure (\<not> content \<noteq> 0x16);
       record_len \<leftarrow> map_option unat (read_u16_be c (off + 3));
       let position = off + 5;
       ensure (\<not> (\<not> within position record_len stop \<or> \<not> within position 4 stop));
       handshake \<leftarrow> read_u8 c position;
       ensure (\<not> handshake \<noteq> 0x01);
       l2 \<leftarrow> read_u8 c (position + 1);
       l1 \<leftarrow> read_u8 c (position + 2);
       l0 \<leftarrow> read_u8 c (position + 3);
       let handshake_len = unat l2 * 65536 + unat l1 * 256 + unat l0;
       ensure (\<not> (handshake_len < 34 \<or> \<not> within (position + 4) handshake_len stop));
       let position = position + (4 + 2 + 32);
       session_len \<leftarrow> map_option unat (read_u8 c position);
       let position = position + 1;
       ensure (within position session_len stop);
       let position = position + session_len;
       ensure (within position 2 stop);
       cipher_len \<leftarrow> map_option unat (read_u16_be c position);
       let position = position + 2;
       ensure (within position cipher_len stop);
       let position = position + cipher_len;
       ensure (within position 1 stop);
       compression_len \<leftarrow> map_option unat (read_u8 c position);
       let position = position + 1;
       ensure (within position compression_len stop);
       let position = position + compression_len;
       ensure (within position 2 stop);
       extensions_len \<leftarrow> map_option unat (read_u16_be c position);
       let position = position + 2;
       ensure (within position extensions_len stop);
       sni_extensions c (position + extensions_len) MAX_TLS_EXTENSIONS position buf
     }"

section \<open>HTTP hosts\<close>

definition is_http_request :: "cursor \<Rightarrow> nat \<Rightarrow> nat \<Rightarrow> bool" where
  "is_http_request c off stop \<longleftrightarrow>
     within off 4 stop \<and>
     (case (read_u8 c off, read_u8 c (off + 1), read_u8 c (off + 2), read_u8 c (off + 3)) of
        (Some b0, Some b1, Some b2, Some b3) \<Rightarrow>
          [b0, b1, b2, b3] \<in> {[71, 69, 84, 32], [80, 79, 83, 84], [72, 69, 65, 68], [80, 85, 84, 32],
            [68, 69, 76, 69], [79, 80, 84, 73], [80, 65, 84, 67], [67, 79, 78, 78]}
      | _ \<Rightarrow> False)"

definition header_is_host :: "cursor \<Rightarrow> nat \<Rightarrow> nat \<Rightarrow> bool" where
  "header_is_host c position stop \<longleftrightarrow>
     within position 5 stop \<and>
     (case (read_u8 c position, read_u8 c (position + 1), read_u8 c (position + 2),
            read_u8 c (position + 3), read_u8 c (position + 4)) of
        (Some b0, Some b1, Some b2, Some b3, Some b4) \<Rightarrow>
          b0 \<in> {72, 104} \<and> b1 \<in> {79, 111} \<and> b2 \<in> {83, 115} \<and> b3 \<in> {84, 116} \<and> b4 = 58
      | _ \<Rightarrow> False)"

fun find_crlf :: "cursor \<Rightarrow> nat \<Rightarrow> nat \<Rightarrow> nat \<Rightarrow> nat option" where
  "find_crlf c stop 0 position = None"
| "find_crlf c stop (Suc rounds) position =
     (if \<not> within position 2 stop then None else
      do {
        a \<leftarrow> read_u8 c position;
        cr_lf \<leftarrow> (if a = 13 then map_option (\<lambda>b. b = 10) (read_u8 c (position + 1)) else Some False);
        if cr_lf then Some position else find_crlf c stop rounds (position + 1)
      })"

fun skip_blanks :: "cursor \<Rightarrow> nat \<Rightarrow> nat \<Rightarrow> nat \<Rightarrow> nat" where
  "skip_blanks c stop 0 position = position"
| "skip_blanks c stop (Suc rounds) position =
     (if position \<ge> stop then position else
      case read_u8 c position of
        None \<Rightarrow> position
      | Some byte \<Rightarrow> if byte \<noteq> 32 \<and> byte \<noteq> 9 then position else skip_blanks c stop rounds (position + 1))"

fun copy_host :: "cursor \<Rightarrow> nat \<Rightarrow> nat \<Rightarrow> nat \<Rightarrow> nat \<Rightarrow> u8 list \<Rightarrow> nat \<times> nat \<times> u8 list" where
  "copy_host c stop 0 position len buf = (position, len, buf)"
| "copy_host c stop (Suc rounds) position len buf =
     (if position \<ge> stop then (position, len, buf) else
      case read_u8 c position of
        None \<Rightarrow> (position, len, buf)
      | Some byte \<Rightarrow>
          if byte = 13 \<or> byte = 10 \<or> byte = 58 then (position, len, buf)
          else if len < MAX_HTTP_HOST_LEN
          then copy_host c stop rounds (position + 1) (len + 1) (buf[len := byte])
          else copy_host c stop rounds (position + 1) len buf)"

fun trim_blanks :: "u8 list \<Rightarrow> nat \<Rightarrow> nat" where
  "trim_blanks buf 0 = 0"
| "trim_blanks buf (Suc len) = (if buf ! len = 32 \<or> buf ! len = 9 then trim_blanks buf len else Suc len)"

fun host_headers :: "cursor \<Rightarrow> nat \<Rightarrow> nat \<Rightarrow> nat \<Rightarrow> u8 list \<Rightarrow> (nat \<times> u8 list) option" where
  "host_headers c scan_end 0 position buf = None"
| "host_headers c scan_end (Suc rounds) position buf =
     (if \<not> within position 2 scan_end then None else
      do {
        a \<leftarrow> read_u8 c position;
        blank \<leftarrow> (if a = 13 then map_option (\<lambda>b. b = 10) (read_u8 c (position + 1)) else Some False);
        ensure (\<not> blank);
        if header_is_host c position scan_end then
          let value_start = skip_blanks c scan_end MAX_HTTP_SCAN (position + 5);
              (position, len, buf) = copy_host c scan_end MAX_HTTP_SCAN value_start 0 buf;
              len = trim_blanks buf len
          in if position = value_start \<or> len = 0 then None else Some (len, buf)
        else do {
          position \<leftarrow> find_crlf c scan_end MAX_HTTP_SCAN position;
          host_headers c scan_end rounds (position + 2) buf
        }
      })"

definition extract_http_host :: "cursor \<Rightarrow> nat \<Rightarrow> nat \<Rightarrow> u8 list \<Rightarrow> (nat \<times> u8 list) option" where
  "extract_http_host c off stop buf =
     (let scan_end = min stop (off + MAX_HTTP_SCAN) in
      do {
        ensure (is_http_request c off scan_end);
        position \<leftarrow> find_crlf c scan_end MAX_HTTP_SCAN off;
        host_headers c scan_end MAX_HTTP_HEADERS (position + 2) buf
      })"

section \<open>Names and answers stay within their bounds\<close>

context packet_cursor
begin

lemma read_question_name_bounds:
  "read_question_name c stop rounds position len buf = Some (n, p, buf') \<Longrightarrow>
     len \<le> DOMAIN_MAX_LEN \<Longrightarrow> length buf = DOMAIN_MAX_LEN \<Longrightarrow>
     n \<le> DOMAIN_MAX_LEN \<and> length buf' = DOMAIN_MAX_LEN"
proof (induction rounds arbitrary: position len buf)
  case (Suc rounds)
  then show ?case
    by (auto simp: Let_def bind_eq_Some_conv dest!: copy_length [rotated] split: if_splits)
qed simp

lemma sni_extensions_bounds:
  "sni_extensions c stop rounds position buf = Some (n, buf') \<Longrightarrow> length buf = DOMAIN_MAX_LEN \<Longrightarrow>
     0 < n \<and> n \<le> DOMAIN_MAX_LEN \<and> length buf' = DOMAIN_MAX_LEN"
proof (induction rounds arbitrary: position)
  case (Suc rounds)
  then show ?case
    by (auto simp: Let_def bind_eq_Some_conv dest!: copy_length [rotated] split: if_splits)
qed simp

end

lemma dns_answers_length: "length (dns_answers c stop answers rounds position emitted) \<le> rounds"
proof (induction rounds arbitrary: position emitted)
  case (Suc rounds)
  then show ?case by (auto simp: Let_def intro: le_SucI split: option.split)
qed simp

lemma dns_answers_address:
  "a \<in> set (dns_answers c stop answers rounds position emitted) \<Longrightarrow>
     length (da_address a) = 16 \<and> take 12 (da_address a) = replicate 12 0"
proof (induction rounds arbitrary: position emitted)
  case (Suc rounds)
  then show ?case
    by (auto simp: Let_def answer_address_def split: option.splits if_splits)
qed simp

lemma copy_host_bounds:
  "copy_host c stop rounds position len buf = (p, n, buf') \<Longrightarrow> len \<le> MAX_HTTP_HOST_LEN \<Longrightarrow>
     n \<le> MAX_HTTP_HOST_LEN \<and> length buf' = length buf"
proof (induction rounds arbitrary: position len buf)
  case (Suc rounds)
  then show ?case by (auto split: option.splits if_splits)
qed simp

lemma trim_blanks_le: "trim_blanks buf n \<le> n"
  by (induction n) auto

lemma host_headers_bounds:
  "host_headers c stop rounds position buf = Some (n, buf') \<Longrightarrow>
     0 < n \<and> n \<le> MAX_HTTP_HOST_LEN \<and> length buf' = length buf"
proof (induction rounds arbitrary: position)
  case (Suc rounds)
  then show ?case
    by (auto simp: Let_def bind_eq_Some_conv split: if_splits prod.splits
        dest!: copy_host_bounds intro: order_trans [OF trim_blanks_le])
qed simp

definition name_ok :: "u8 list \<Rightarrow> nat \<Rightarrow> bool" where
  "name_ok domain n \<longleftrightarrow> 0 < n \<and> n \<le> DOMAIN_MAX_LEN \<and> length domain = DOMAIN_MAX_LEN"

lemma extract_tls_sni_bounds:
  "extract_tls_sni (memory_cursor data) off stop buf = Some (n, domain) \<Longrightarrow>
     length buf = DOMAIN_MAX_LEN \<Longrightarrow> name_ok domain n"
  using memory.sni_extensions_bounds
  by (auto simp: extract_tls_sni_def Let_def bind_eq_Some_conv name_ok_def split: if_splits)

lemma extract_http_host_bounds:
  "extract_http_host (memory_cursor data) off stop buf = Some (n, domain) \<Longrightarrow>
     length buf = DOMAIN_MAX_LEN \<Longrightarrow> name_ok domain n"
  by (auto simp: extract_http_host_def Let_def bind_eq_Some_conv name_ok_def domain_bounds
      split: if_splits dest!: host_headers_bounds)

lemma parse_dns_response_bounds:
  "(domain, n, a) \<in> set (parse_dns_response (memory_cursor data) off stop buf) \<Longrightarrow>
     length buf = DOMAIN_MAX_LEN \<Longrightarrow>
     name_ok domain n \<and> length (da_address a) = 16 \<and> take 12 (da_address a) = replicate 12 0"
  by (auto simp: parse_dns_response_def Let_def name_ok_def dns_answers_address
      split: option.splits if_splits prod.splits
      dest: memory.read_question_name_bounds [OF sym] memory.read_question_name_bounds)

lemma parse_dns_response_count: "length (parse_dns_response c off stop buf) \<le> MAX_DNS_ANSWERS"
  using dns_answers_length
  by (auto simp: parse_dns_response_def Let_def split: option.split prod.split)

text \<open>
  Whatever the payload, the three extractors stay within their bounds: a DNS response
  yields at most eight answers, each with an IPv4 address in the ABI's zero-extended form, and
  every extracted name is nonempty and fits the 253-byte domain buffer.
\<close>

theorem extracted_names_fit:
  assumes "length buf = DOMAIN_MAX_LEN"
  shows "length (parse_dns_response (memory_cursor data) off stop buf) \<le> 8
    \<and> list_all (\<lambda>(domain, n, a). name_ok domain n \<and> length (da_address a) = 16
        \<and> take 12 (da_address a) = replicate 12 0) (parse_dns_response (memory_cursor data) off stop buf)
    \<and> pred_option (\<lambda>(n, domain). name_ok domain n) (extract_tls_sni (memory_cursor data) off stop buf)
    \<and> pred_option (\<lambda>(n, domain). name_ok domain n) (extract_http_host (memory_cursor data) off stop buf)"
  using parse_dns_response_count [of "memory_cursor data" off stop buf]
    parse_dns_response_bounds [OF _ assms] extract_tls_sni_bounds [OF _ assms]
    extract_http_host_bounds [OF _ assms]
  by (cases "extract_tls_sni (memory_cursor data) off stop buf";
      cases "extract_http_host (memory_cursor data) off stop buf")
    (auto simp: list_all_iff MAX_DNS_ANSWERS_def)

section \<open>Nothing beyond the declared end matters\<close>

context cursor_pair
begin

lemma read_question_name_agree:
  "stop \<le> n \<Longrightarrow> read_question_name c stop rounds position len buf
     = read_question_name c' stop rounds position len buf"
proof (induction rounds arbitrary: position len buf)
  case (Suc rounds)
  then show ?case
    by (simp add: Let_def reads_agree within_def cong: bind_option_cong if_cong)
qed simp

lemma skip_answer_name_agree:
  "stop \<le> n \<Longrightarrow> skip_answer_name c stop rounds position = skip_answer_name c' stop rounds position"
proof (induction rounds arbitrary: position)
  case (Suc rounds)
  then show ?case
    by (simp add: Let_def reads_agree within_def cong: bind_option_cong if_cong)
qed simp

lemma dns_answers_agree:
  "stop \<le> n \<Longrightarrow> dns_answers c stop answers rounds position emitted
     = dns_answers c' stop answers rounds position emitted"
proof (induction rounds arbitrary: position emitted)
  case (Suc rounds)
  show ?case
  proof (cases "\<exists>p. skip_answer_name c stop MAX_DNS_LABELS position = Some p \<and> within p 10 stop")
    case True
    then obtain p where p: "skip_answer_name c stop MAX_DNS_LABELS position = Some p" "within p 10 stop"
      by blast
    have r: "read_u16_be c p = read_u16_be c' p" "read_u16_be c (p + 2) = read_u16_be c' (p + 2)"
      "read_u32_be c (p + 4) = read_u32_be c' (p + 4)" "read_u16_be c (p + 8) = read_u16_be c' (p + 8)"
      using p(2) Suc.prems by (simp_all add: within_def reads_agree)
    have p': "skip_answer_name c' stop MAX_DNS_LABELS position = Some p"
      using p(1) Suc.prems by (simp add: skip_answer_name_agree)
    note step = dns_answers.simps p p' option.case r Let_def Suc.IH [OF Suc.prems]
    show ?thesis
    proof (cases "within (p + 10) 4 stop")
      case True
      then have d: "read_u8 c (p + 10) = read_u8 c' (p + 10)"
        "read_u8 c (p + 10 + 1) = read_u8 c' (p + 10 + 1)" "read_u8 c (p + 10 + 2) = read_u8 c' (p + 10 + 2)"
        "read_u8 c (p + 10 + 3) = read_u8 c' (p + 10 + 3)"
        using Suc.prems by (auto simp: within_def intro: agree)
      show ?thesis unfolding step d by (rule refl)
    next
      case False
      then show ?thesis
        unfolding step by (auto split: option.split)
    qed
  next
    case False
    then show ?thesis
      using Suc.prems by (auto simp: skip_answer_name_agree split: option.split)
  qed
qed simp

lemma parse_dns_response_agree:
  assumes "stop \<le> n"
  shows "parse_dns_response c off stop buf = parse_dns_response c' off stop buf"
proof (cases "within off 12 stop")
  case True
  then have r: "read_u16_be c (off + 2) = read_u16_be c' (off + 2)"
    "read_u16_be c (off + 4) = read_u16_be c' (off + 4)" "read_u16_be c (off + 6) = read_u16_be c' (off + 6)"
    using assms by (simp_all add: within_def reads_agree)
  show ?thesis
    unfolding parse_dns_response_def Let_def r read_question_name_agree [OF assms] dns_answers_agree [OF assms]
    by (rule refl)
qed (simp add: parse_dns_response_def)

lemma sni_extensions_agree:
  "stop \<le> n \<Longrightarrow> sni_extensions c stop rounds position buf = sni_extensions c' stop rounds position buf"
proof (induction rounds arbitrary: position)
  case (Suc rounds)
  then show ?case
    by (simp add: Let_def reads_agree within_def cong: bind_option_cong if_cong)
qed simp

lemma extract_tls_sni_agree:
  assumes "stop \<le> n"
  shows "extract_tls_sni c off stop buf = extract_tls_sni c' off stop buf"
proof (cases "off + 43 < stop \<or> \<not> off + 43 \<le> stop")
  case True
  then show ?thesis
    using assms
    by (auto simp: extract_tls_sni_def Let_def reads_agree within_def sni_extensions_agree
        cong: bind_option_cong if_cong)
next
  case False
  have "extract_tls_sni c off stop buf = None" for c
    using False
    by (auto simp: extract_tls_sni_def Let_def within_def bind_eq_None_conv
        cong: bind_option_cong if_cong)
  then show ?thesis by simp
qed

lemma find_crlf_agree: "stop \<le> n \<Longrightarrow> find_crlf c stop rounds position = find_crlf c' stop rounds position"
proof (induction rounds arbitrary: position)
  case (Suc rounds)
  then show ?case
    by (simp add: Let_def reads_agree within_def cong: bind_option_cong if_cong)
qed simp

lemma skip_blanks_agree: "stop \<le> n \<Longrightarrow> skip_blanks c stop rounds position = skip_blanks c' stop rounds position"
proof (induction rounds arbitrary: position)
  case (Suc rounds)
  then show ?case by (simp add: agree not_le split: option.split)
qed simp

lemma copy_host_agree:
  "stop \<le> n \<Longrightarrow> copy_host c stop rounds position len buf = copy_host c' stop rounds position len buf"
proof (induction rounds arbitrary: position len buf)
  case (Suc rounds)
  then show ?case by (simp add: agree not_le split: option.split)
qed simp

lemma header_is_host_agree:
  assumes "stop \<le> n"
  shows "header_is_host c position stop = header_is_host c' position stop"
proof (cases "within position 5 stop")
  case True
  then have d: "read_u8 c position = read_u8 c' position"
    "read_u8 c (position + 1) = read_u8 c' (position + 1)"
    "read_u8 c (position + 2) = read_u8 c' (position + 2)"
    "read_u8 c (position + 3) = read_u8 c' (position + 3)"
    "read_u8 c (position + 4) = read_u8 c' (position + 4)"
    using assms by (simp_all add: within_def agree)
  show ?thesis unfolding header_is_host_def d by (rule refl)
qed (simp add: header_is_host_def)

lemma is_http_request_agree:
  assumes "stop \<le> n"
  shows "is_http_request c position stop = is_http_request c' position stop"
proof (cases "within position 4 stop")
  case True
  then have d: "read_u8 c position = read_u8 c' position"
    "read_u8 c (position + 1) = read_u8 c' (position + 1)"
    "read_u8 c (position + 2) = read_u8 c' (position + 2)"
    "read_u8 c (position + 3) = read_u8 c' (position + 3)"
    using assms by (simp_all add: within_def agree)
  show ?thesis unfolding is_http_request_def d by (rule refl)
qed (simp add: is_http_request_def)

lemma host_headers_agree:
  "stop \<le> n \<Longrightarrow> host_headers c stop rounds position buf = host_headers c' stop rounds position buf"
proof (induction rounds arbitrary: position)
  case (Suc rounds)
  then show ?case
    by (simp add: Let_def reads_agree within_def skip_blanks_agree copy_host_agree header_is_host_agree
        find_crlf_agree cong: bind_option_cong if_cong)
qed simp

lemma extract_http_host_agree:
  "stop \<le> n \<Longrightarrow> extract_http_host c off stop buf = extract_http_host c' off stop buf"
  by (simp add: extract_http_host_def Let_def is_http_request_agree find_crlf_agree host_headers_agree)

end

text \<open>
  The extractors never depend on bytes past the end the caller declared: parsing a payload
  inside a longer capture gives what parsing the payload alone gives, for DNS, TLS and HTTP.
\<close>

theorem extraction_ignores_trailing_bytes:
  "parse_dns_response (memory_cursor (data @ rest)) off (length data) buf
     = parse_dns_response (memory_cursor data) off (length data) buf
   \<and> extract_tls_sni (memory_cursor (data @ rest)) off (length data) buf
     = extract_tls_sni (memory_cursor data) off (length data) buf
   \<and> extract_http_host (memory_cursor (data @ rest)) off (length data) buf
     = extract_http_host (memory_cursor data) off (length data) buf"
  using extended.parse_dns_response_agree [OF order_refl] extended.extract_tls_sni_agree [OF order_refl]
    extended.extract_http_host_agree [OF order_refl]
  by metis

section \<open>DNS messages\<close>

text \<open>
  A reference encoder: a name is its length-prefixed labels and the root label; an answer's
  owner is a compression pointer or a name; the message is the twelve-byte header, one question,
  and the answers, followed by the resources of the authority and additional sections.
\<close>

type_synonym dns_name = "u8 list list"

definition encode_label :: "u8 list \<Rightarrow> u8 list" where
  "encode_label l = of_nat (length l) # l"

definition encode_name :: "dns_name \<Rightarrow> u8 list" where
  "encode_name ls = concat (map encode_label ls) @ [0]"

fun dotted :: "dns_name \<Rightarrow> u8 list" where
  "dotted [] = []"
| "dotted [l] = l"
| "dotted (l # ls) = l @ 46 # dotted ls"

definition label_ok :: "u8 list \<Rightarrow> bool" where
  "label_ok l \<longleftrightarrow> 0 < length l \<and> length l \<le> 63"

definition name_fits :: "dns_name \<Rightarrow> bool" where
  "name_fits ls \<longleftrightarrow> list_all label_ok ls \<and> length ls < MAX_DNS_LABELS \<and> length (dotted ls) \<le> DOMAIN_MAX_LEN"

datatype owner_name = Pointer u8 u8 | Labels dns_name

fun encode_owner :: "owner_name \<Rightarrow> u8 list" where
  "encode_owner (Pointer hi lo) = [hi, lo]"
| "encode_owner (Labels ls) = encode_name ls"

fun owner_ok :: "owner_name \<Rightarrow> bool" where
  "owner_ok (Pointer hi lo) \<longleftrightarrow> hi AND 0xC0 = 0xC0"
| "owner_ok (Labels ls) \<longleftrightarrow> list_all label_ok ls \<and> length ls < MAX_DNS_LABELS"

record resource =
  res_owner :: owner_name
  res_type :: u16
  res_class :: u16
  res_ttl :: u32
  res_data :: "u8 list"

definition encode_resource :: "resource \<Rightarrow> u8 list" where
  "encode_resource r = encode_owner (res_owner r) @ u16_to_be_bytes (res_type r) @ u16_to_be_bytes (res_class r)
     @ u32_to_be_bytes (res_ttl r) @ u16_to_be_bytes (of_nat (length (res_data r))) @ res_data r"

definition resource_ok :: "resource \<Rightarrow> bool" where
  "resource_ok r \<longleftrightarrow> owner_ok (res_owner r) \<and> length (res_data r) < 65536"

definition resource_answer :: "resource \<Rightarrow> dns_answer option" where
  "resource_answer r =
     (if res_type r = 1 \<and> res_class r = 1 \<and> length (res_data r) = 4
      then Some \<lparr>da_ttl_secs = res_ttl r, da_address = replicate 12 0 @ res_data r\<rparr> else None)"

record dns_response =
  dr_id :: u16
  dr_flags :: u16
  dr_counts :: "u8 list"
  dr_name :: dns_name
  dr_qtype :: "u8 list"
  dr_answers :: "resource list"
  dr_others :: "resource list"

definition encode_response :: "dns_response \<Rightarrow> u8 list" where
  "encode_response m = u16_to_be_bytes (dr_id m) @ u16_to_be_bytes (dr_flags m) @ u16_to_be_bytes 1
     @ u16_to_be_bytes (of_nat (length (dr_answers m))) @ dr_counts m
     @ encode_name (dr_name m) @ dr_qtype m @ concat (map encode_resource (dr_answers m @ dr_others m))"

definition response_ok :: "dns_response \<Rightarrow> bool" where
  "response_ok m \<longleftrightarrow> dr_flags m AND 0x8000 \<noteq> 0 \<and> length (dr_counts m) = 4 \<and> length (dr_qtype m) = 4
     \<and> dr_name m \<noteq> [] \<and> name_fits (dr_name m)
     \<and> dr_answers m \<noteq> [] \<and> length (dr_answers m) < 65536 \<and> list_all resource_ok (dr_answers m @ dr_others m)
     \<and> length (encode_response m) < 2 ^ 63"

text \<open>Reading back one encoded piece at a known position.\<close>

lemma label_byte:
  assumes "label_ok l"
  shows "unat (of_nat (length l) :: u8) = length l" "(of_nat (length l) :: u8) \<noteq> 0"
    "(of_nat (length l) :: u8) AND 0xC0 = 0"
proof -
  show n: "unat (of_nat (length l) :: u8) = length l"
    using assms by (simp add: label_ok_def unat_of_nat)
  then show "(of_nat (length l) :: u8) \<noteq> 0"
    using assms by (auto simp: label_ok_def)
  have "(of_nat (length l) :: u8) = take_bit 6 (of_nat (length l))"
    using assms n by (simp add: label_ok_def take_bit_nat_eq_self word_unat_eq_iff unsigned_take_bit_eq)
  then have "(of_nat (length l) :: u8) AND 0xC0 = (of_nat (length l) AND mask 6) AND 0xC0"
    by (simp only: take_bit_eq_mask)
  also have "\<dots> = of_nat (length l) AND (mask 6 AND 0xC0)" by (simp only: and.assoc)
  also have "(mask 6 AND 0xC0 :: u8) = 0" by (simp add: mask_eq_exp_minus_1)
  finally show "(of_nat (length l) :: u8) AND 0xC0 = 0" by simp
qed

lemma read_bytes_at:
  "data = pre @ bs @ post \<Longrightarrow> i = length pre \<Longrightarrow> n = length bs \<Longrightarrow>
     read_bytes (memory_cursor data) i n = Some bs"
  by (simp add: memory_cursor_def)

definition append_label :: "u8 list \<Rightarrow> u8 list \<Rightarrow> u8 list" where
  "append_label acc l = (if acc = [] then l else acc @ 46 # l)"

lemma append_labels:
  "list_all label_ok ls \<Longrightarrow> foldl append_label acc ls =
     (if ls = [] then acc else if acc = [] then dotted ls else acc @ 46 # dotted ls)"
proof (induction ls arbitrary: acc rule: dotted.induct)
  case (3 l l' ls)
  then show ?case by (simp add: append_label_def label_ok_def)
qed (simp_all add: append_label_def)

lemma append_labels_length: "length acc \<le> length (foldl append_label acc ls)"
proof (induction ls arbitrary: acc)
  case (Cons l ls)
  have "length acc \<le> length (append_label acc l)" by (simp add: append_label_def)
  with Cons [of "append_label acc l"] show ?case by simp
qed simp

lemma length_encode_name: "length (encode_name (l # ls)) = 1 + length l + length (encode_name ls)"
  "length (encode_name []) = 1"
  by (simp_all add: encode_name_def encode_label_def)

lemma encode_name_simps:
  "encode_name [] = [0]" "encode_name (l # ls) = of_nat (length l) # l @ encode_name ls"
  by (simp_all add: encode_name_def encode_label_def)

lemma write_label:
  assumes "length (append_label acc l) \<le> length buf" "l \<noteq> []"
  shows "write_at (if 0 < length acc then (acc @ drop (length acc) buf)[length acc := 46]
        else acc @ drop (length acc) buf)
      (if 0 < length acc then length acc + 1 else length acc) l
    = append_label acc l @ drop (length (append_label acc l)) buf"
proof (cases "acc = []")
  case False
  then have "length acc < length buf" using assms by (simp add: append_label_def)
  then have "drop (length acc) buf = buf ! length acc # drop (Suc (length acc)) buf"
    by (simp add: Cons_nth_drop_Suc)
  then show ?thesis
    using False by (simp add: write_at_def append_label_def list_update_append add.commute)
qed (simp add: write_at_def append_label_def)

lemma read_encoded_name:
  assumes "data = pre @ encode_name ls @ post" "list_all label_ok ls" "length ls < rounds"
    "length pre + length (encode_name ls) \<le> stop" "stop < 2 ^ 64" "length buf = DOMAIN_MAX_LEN"
    "length (foldl append_label acc ls) \<le> DOMAIN_MAX_LEN"
  shows "read_question_name (memory_cursor data) stop rounds (length pre) (length acc)
      (acc @ drop (length acc) buf)
    = (let name = foldl append_label acc ls in
       Some (length name, length pre + length (encode_name ls), name @ drop (length name) buf))"
  using assms
proof (induction ls arbitrary: pre acc rounds)
  case Nil
  then obtain k where k: "rounds = Suc k" by (cases rounds) auto
  have "read_u8 (memory_cursor data) (length pre) = Some 0"
    by (rule read_u8_at) (simp_all add: Nil.prems encode_name_simps)
  then show ?case
    using Nil.prems by (simp add: k within_def encode_name_simps)
next
  case (Cons l ls)
  then obtain k where k: "rounds = Suc k" by (cases rounds) auto
  have l: "label_ok l" "list_all label_ok ls" using Cons.prems by simp_all
  then have ne: "l \<noteq> []" by (auto simp: label_ok_def)
  let ?acc = "append_label acc l"
  have d: "data = pre @ of_nat (length l) # l @ encode_name ls @ post"
    using Cons.prems(1) by (simp add: encode_name_simps)
  have r: "read_u8 (memory_cursor data) (length pre) = Some (of_nat (length l))"
    by (rule read_u8_at [OF d refl])
  have rb: "read_bytes (memory_cursor data) (length pre + 1) (length l) = Some l"
    by (rule read_bytes_at [where pre = "pre @ [of_nat (length l)]"]) (simp_all add: d)
  have fits: "length ?acc \<le> DOMAIN_MAX_LEN"
    using Cons.prems(7) append_labels_length [of ?acc ls] by simp
  have w: "within (length pre) 1 stop" "within (length pre + 1) (length l) stop"
    using Cons.prems(4,5) by (simp_all add: within_def length_encode_name)
  have IH: "read_question_name (memory_cursor data) stop k (length (pre @ of_nat (length l) # l))
      (length ?acc) (?acc @ drop (length ?acc) buf)
    = (let name = foldl append_label ?acc ls in
       Some (length name, length (pre @ of_nat (length l) # l) + length (encode_name ls),
         name @ drop (length name) buf))"
    using Cons.prems l k by (intro Cons.IH) (simp_all add: d length_encode_name)
  have len: "length ?acc = (if 0 < length acc then length acc + 1 else length acc) + length l"
    by (simp add: append_label_def)
  have sep: "\<not> (0 < length acc \<and> DOMAIN_MAX_LEN \<le> length acc + 1)"
    using fits ne len by (cases l) auto
  let ?len = "if 0 < length acc then length acc + 1 else length acc"
  let ?buf = "if 0 < length acc then (acc @ drop (length acc) buf)[length acc := 46]
        else acc @ drop (length acc) buf"
  have "read_question_name (memory_cursor data) stop rounds (length pre) (length acc)
      (acc @ drop (length acc) buf)
    = read_question_name (memory_cursor data) stop k (length pre + 1 + length l) (?len + length l)
        (write_at ?buf ?len l)"
    using l(1) fits w sep rb ne unfolding k len
    by (simp add: r label_byte [OF l(1)] Let_def label_ok_def)
  also have "\<dots> = read_question_name (memory_cursor data) stop k (length (pre @ of_nat (length l) # l))
      (length ?acc) (?acc @ drop (length ?acc) buf)"
    using fits Cons.prems(6) by (subst write_label [OF _ ne]) (simp_all only: len length_append list.size add.assoc add_Suc add_Suc_right add_0_right One_nat_def)
  also note IH
  finally show ?case by (simp only: foldl_Cons Let_def) (simp add: length_encode_name)
qed

lemma max_dns_labels: obtains k where "MAX_DNS_LABELS = Suc k"
  by (rule that [of 15]) (simp add: MAX_DNS_LABELS_def)

lemma not_pointer: "label_ok l \<Longrightarrow> (of_nat (length l) :: u8) AND 0xC0 \<noteq> 0xC0"
  unfolding label_byte(3) by simp

lemma skip_encoded_labels:
  assumes "data = pre @ encode_name ls @ post" "list_all label_ok ls" "length ls < rounds"
    "length pre + length (encode_name ls) \<le> stop" "stop < 2 ^ 64"
  shows "skip_answer_name (memory_cursor data) stop rounds (length pre)
    = Some (length pre + length (encode_name ls))"
  using assms
proof (induction ls arbitrary: pre rounds)
  case Nil
  then obtain k where k: "rounds = Suc k" by (cases rounds) auto
  have "read_u8 (memory_cursor data) (length pre) = Some 0"
    by (rule read_u8_at) (simp_all add: Nil.prems encode_name_simps)
  then show ?case
    using Nil.prems by (simp add: k within_def encode_name_simps)
next
  case (Cons l ls)
  then obtain k where k: "rounds = Suc k" by (cases rounds) auto
  have l: "label_ok l" "list_all label_ok ls" using Cons.prems by simp_all
  have d: "data = pre @ of_nat (length l) # l @ encode_name ls @ post"
    using Cons.prems(1) by (simp add: encode_name_simps)
  have r: "read_u8 (memory_cursor data) (length pre) = Some (of_nat (length l))"
    by (rule read_u8_at [OF d refl])
  have w: "within (length pre) 1 stop" "within (length pre + 1) (length l) stop"
    using Cons.prems(4,5) by (simp_all add: within_def length_encode_name)
  have "skip_answer_name (memory_cursor data) stop k (length (pre @ of_nat (length l) # l))
    = Some (length (pre @ of_nat (length l) # l) + length (encode_name ls))"
    using Cons.prems l k by (intro Cons.IH) (simp_all add: d length_encode_name)
  then show ?case
    using w l(1)
    by (simp add: k r label_byte(1,2) [OF l(1)] not_pointer [OF l(1)] Let_def length_encode_name
        label_ok_def)
qed

lemma skip_encoded_owner:
  assumes d: "data = pre @ encode_owner o1 @ post" and ok: "owner_ok o1"
    and b: "length pre + length (encode_owner o1) \<le> stop" "stop < 2 ^ 64"
  shows "skip_answer_name (memory_cursor data) stop MAX_DNS_LABELS (length pre)
    = Some (length pre + length (encode_owner o1))"
proof (cases o1)
  case (Pointer hi lo)
  then have "read_u8 (memory_cursor data) (length pre) = Some hi"
    by (intro read_u8_at) (simp_all add: d)
  moreover have "hi \<noteq> 0" using ok Pointer by auto
  moreover obtain k where k: "MAX_DNS_LABELS = Suc k" by (rule max_dns_labels)
  ultimately show ?thesis
    using ok b Pointer unfolding k by (simp add: within_def)
next
  case (Labels ls)
  then show ?thesis
    using ok b d by (auto intro: skip_encoded_labels)
qed

lemma read_encoded_answers:
  assumes "data = pre @ concat (map encode_resource rs)" "list_all resource_ok rs"
    "length data < 2 ^ 64" "emitted \<le> answers"
  shows "dns_answers (memory_cursor data) (length data) answers rounds (length pre) emitted
    = take (answers - emitted) (List.map_filter resource_answer (take rounds rs))"
  using assms
proof (induction rounds arbitrary: pre rs emitted)
  case (Suc rounds)
  show ?case
  proof (cases rs)
    case Nil
    moreover obtain k where k: "MAX_DNS_LABELS = Suc k" by (rule max_dns_labels)
    ultimately show ?thesis
      using Suc.prems unfolding k dns_answers.simps by (simp add: within_def map_filter_simps)
  next
    case (Cons r rs')
    let ?o = "encode_owner (res_owner r)" let ?n = "length (res_data r)"
    let ?rest = "concat (map encode_resource rs')"
    let ?p = "length pre + length ?o"
    have d: "data = pre @ ?o @ u16_to_be_bytes (res_type r) @ u16_to_be_bytes (res_class r)
        @ u32_to_be_bytes (res_ttl r) @ u16_to_be_bytes (of_nat ?n) @ res_data r @ ?rest"
      using Suc.prems(1) by (simp add: Cons encode_resource_def [of r])
    have ok: "owner_ok (res_owner r)" "?n < 65536" "list_all resource_ok rs'"
      using Suc.prems(2) by (simp_all add: Cons resource_ok_def [of r])
    have len: "length data = ?p + 10 + ?n + length ?rest" by (simp add: d)
    have sk: "skip_answer_name (memory_cursor data) (length data) MAX_DNS_LABELS (length pre) = Some ?p"
      using Suc.prems(3) by (intro skip_encoded_owner [OF d ok(1)]) (simp_all add: len)
    have rd: "read_u16_be (memory_cursor data) ?p = Some (res_type r)"
      by (rule read_u16_at [where pre = "pre @ ?o"]) (simp_all add: d)
    have rd2: "read_u16_be (memory_cursor data) (?p + 2) = Some (res_class r)"
      by (rule read_u16_at [where pre = "pre @ ?o @ u16_to_be_bytes (res_type r)"]) (simp_all add: d)
    have rd4: "read_u32_be (memory_cursor data) (?p + 4) = Some (res_ttl r)"
      by (rule read_u32_at [where pre = "pre @ ?o @ u16_to_be_bytes (res_type r) @ u16_to_be_bytes (res_class r)"])
        (simp_all add: d)
    have rd8: "read_u16_be (memory_cursor data) (?p + 8) = Some (of_nat ?n)"
      by (rule read_u16_at [where pre = "pre @ ?o @ u16_to_be_bytes (res_type r)
            @ u16_to_be_bytes (res_class r) @ u32_to_be_bytes (res_ttl r)"]) (simp_all add: d)
    have n: "unat (of_nat ?n :: u16) = ?n" using ok(2) by (simp add: unat_of_nat)
    have w: "within ?p 10 (length data)" "within (?p + 10) ?n (length data)"
      using Suc.prems(3) by (simp_all add: within_def len)
    have IH: "dns_answers (memory_cursor data) (length data) answers rounds (?p + 10 + ?n) e
        = take (answers - e) (List.map_filter resource_answer (take rounds rs'))" if "e \<le> answers" for e
      using Suc.IH [of "pre @ encode_resource r" rs' e] Suc.prems(1,3) ok(3) that
      by (simp add: Cons encode_resource_def [of r] ac_simps)
    show ?thesis
    proof (cases "emitted = answers")
      case False
      note step = dns_answers.simps if_not_P [OF False] sk option.case w [THEN eqTrueI] rd rd2 rd4 rd8
        prod.case Let_def n
      show ?thesis
      proof (cases "res_type r = 1 \<and> res_class r = 1 \<and> ?n = 4")
        case True
        then obtain b0 b1 b2 b3 where b: "res_data r = [b0, b1, b2, b3]"
          by (auto simp: length_Suc_conv eval_nat_numeral)
        let ?pre = "pre @ ?o @ u16_to_be_bytes (res_type r) @ u16_to_be_bytes (res_class r)
            @ u32_to_be_bytes (res_ttl r) @ u16_to_be_bytes (of_nat ?n)"
        have r4: "read_u8 (memory_cursor data) (?p + 10) = Some b0"
          "read_u8 (memory_cursor data) (?p + 10 + 1) = Some b1"
          "read_u8 (memory_cursor data) (?p + 10 + 2) = Some b2"
          "read_u8 (memory_cursor data) (?p + 10 + 3) = Some b3"
          by (rule read_u8_at [where pre = ?pre] read_u8_at [where pre = "?pre @ [b0]"]
              read_u8_at [where pre = "?pre @ [b0, b1]"] read_u8_at [where pre = "?pre @ [b0, b1, b2]"],
              simp_all add: d b)+
        obtain m where m: "answers - emitted = Suc m" "answers - (emitted + 1) = m"
          using False Suc.prems(4) by (cases "answers - emitted") auto
        have "emitted + 1 \<le> answers" using False Suc.prems(4) by simp
        then show ?thesis
          unfolding step r4 using True IH [of "emitted + 1"]
          by (simp add: Cons map_filter_simps m m(2) [simplified] b answer_address_def resource_answer_def [of r])
      next
        case no: False
        then have "resource_answer r = None" by (auto simp: resource_answer_def)
        then show ?thesis
          unfolding step if_not_P [OF no] using IH [OF Suc.prems(4)]
          by (simp add: Cons map_filter_simps)
      qed
    qed simp
  qed
qed simp

lemma dotted_append_labels: "list_all label_ok ls \<Longrightarrow> foldl append_label [] ls = dotted ls"
  by (simp add: append_labels)

lemma dotted_nonempty: "list_all label_ok ls \<Longrightarrow> ls \<noteq> [] \<Longrightarrow> dotted ls \<noteq> []"
  by (cases ls rule: dotted.cases) (auto simp: label_ok_def)

definition response_answers :: "dns_response \<Rightarrow> dns_answer list" where
  "response_answers m =
     take (min (length (dr_answers m)) MAX_DNS_ANSWERS)
       (List.map_filter resource_answer (take MAX_DNS_ANSWERS (dr_answers m @ dr_others m)))"

text \<open>
  C5: parsing an encoded DNS response at the offset it was copied to gives, for the dotted
  question name, the addresses and TTLs of the IPv4 address records among the first eight
  records after the question, at most as many as the answer count.
\<close>

theorem parse_encode_response:
  assumes ok: "response_ok m" and buf: "length buf = DOMAIN_MAX_LEN" and pre: "length pre < 2 ^ 63"
  shows "parse_dns_response (memory_cursor (pre @ encode_response m)) (length pre)
      (length (pre @ encode_response m)) buf
    = (let name = dotted (dr_name m) in
       map (\<lambda>a. (name @ drop (length name) buf, length name, a)) (response_answers m))"
proof -
  let ?data = "pre @ encode_response m" let ?c = "memory_cursor ?data" let ?stop = "length ?data"
  let ?name = "encode_name (dr_name m)" let ?rs = "dr_answers m @ dr_others m"
  let ?count = "of_nat (length (dr_answers m)) :: u16"
  let ?head = "u16_to_be_bytes (dr_id m) @ u16_to_be_bytes (dr_flags m) @ u16_to_be_bytes 1
     @ u16_to_be_bytes ?count @ dr_counts m"
  let ?tail = "dr_qtype m @ concat (map encode_resource ?rs)"
  have d: "?data = pre @ ?head @ ?name @ ?tail" by (simp add: encode_response_def)
  have facts: "dr_flags m AND 0x8000 \<noteq> 0" "length (dr_counts m) = 4" "length (dr_qtype m) = 4"
    "list_all label_ok (dr_name m)" "length (dr_name m) < MAX_DNS_LABELS"
    "length (dotted (dr_name m)) \<le> DOMAIN_MAX_LEN" "list_all resource_ok ?rs"
    using ok by (simp_all add: response_ok_def name_fits_def)
  have c: "unat ?count = length (dr_answers m)" "?count \<noteq> 0"
  proof -
    show n: "unat ?count = length (dr_answers m)"
      using ok by (simp add: response_ok_def unat_of_nat)
    then show "?count \<noteq> 0" using ok by (auto simp: response_ok_def)
  qed
  have stop: "?stop < 2 ^ 64"
    using ok pre by (simp add: response_ok_def)
  have head: "length ?head = 12" by (simp add: facts)
  have r2: "read_u16_be ?c (length pre + 2) = Some (dr_flags m)"
    by (rule read_u16_at [where pre = "pre @ u16_to_be_bytes (dr_id m)"]) (simp_all add: d)
  have r4: "read_u16_be ?c (length pre + 4) = Some 1"
    by (rule read_u16_at [where pre = "pre @ u16_to_be_bytes (dr_id m) @ u16_to_be_bytes (dr_flags m)"])
      (simp_all add: d)
  have r6: "read_u16_be ?c (length pre + 6) = Some ?count"
    by (rule read_u16_at [where pre = "pre @ u16_to_be_bytes (dr_id m) @ u16_to_be_bytes (dr_flags m)
          @ u16_to_be_bytes 1"]) (simp_all add: d)
  have nm: "read_question_name ?c ?stop MAX_DNS_LABELS (length pre + 12) 0 buf
      = (let name = dotted (dr_name m) in
         Some (length name, length pre + 12 + length ?name, name @ drop (length name) buf))"
    using read_encoded_name [of ?data "pre @ ?head" "dr_name m" ?tail MAX_DNS_LABELS ?stop buf "[]"]
      facts stop buf head
    by (simp add: d dotted_append_labels)
  have a: "?data = (pre @ ?head @ ?name @ dr_qtype m) @ concat (map encode_resource ?rs)"
    by (simp only: d append_assoc)
  have e: "length pre + 12 + length ?name + 4 = length (pre @ ?head @ ?name @ dr_qtype m)"
    by (simp add: facts)
  have answers: "dns_answers ?c ?stop (min (length (dr_answers m)) MAX_DNS_ANSWERS) MAX_DNS_ANSWERS
      (length pre + 12 + length ?name + 4) 0 = response_answers m"
    unfolding e response_answers_def
    using read_encoded_answers [OF a facts(7) stop, of 0 "min (length (dr_answers m)) MAX_DNS_ANSWERS"
        MAX_DNS_ANSWERS]
    by (simp only: diff_zero le0 True_implies_equals)
  have w: "within (length pre) 12 ?stop" "within (length pre + 12 + length ?name) 4 ?stop"
    using stop head facts by (simp_all add: within_def d)
  have ne: "length (dotted (dr_name m)) \<noteq> 0"
    using ok dotted_nonempty by (simp add: response_ok_def name_fits_def)
  show ?thesis
    unfolding parse_dns_response_def r2 r4 r6 nm Let_def option.case prod.case c(1) answers
    using w ne facts(1) c(2) by simp
qed

text \<open>
  A response to a query for \<^verbatim>\<open>a.bc\<close> whose only answer is an alias, with an address record for
  another name in its additional section: the answer loop counts emitted addresses, not records,
  so it runs on into the additional section.
\<close>

definition sample_response :: dns_response where
  "sample_response = \<lparr>dr_id = 7, dr_flags = 0x8180, dr_counts = [0, 0, 0, 1], dr_name = [[97], [98, 99]],
     dr_qtype = [0, 1, 0, 1],
     dr_answers = [\<lparr>res_owner = Pointer 0xC0 12, res_type = 5, res_class = 1, res_ttl = 60, res_data = [1, 120, 0]\<rparr>],
     dr_others = [\<lparr>res_owner = Labels [[110, 115]], res_type = 1, res_class = 1, res_ttl = 30, res_data = [9, 9, 9, 9]\<rparr>]\<rparr>"

lemma sample_response_ok: "response_ok sample_response"
proof -
  have "length (encode_response sample_response) = 55"
    by (simp add: encode_response_def sample_response_def encode_resource_def encode_name_simps
        u32_to_be_bytes_def)
  then show ?thesis
    by (simp add: response_ok_def) (simp add: sample_response_def name_fits_def resource_ok_def label_ok_def domain_bounds)
qed

theorem glue_taken_for_answer:
  "parse_dns_response (memory_cursor (encode_response sample_response)) 0
     (length (encode_response sample_response)) (replicate DOMAIN_MAX_LEN 0)
   = [([97, 46, 98, 99] @ replicate 249 0, 4, \<lparr>da_ttl_secs = 30, da_address = replicate 12 0 @ [9, 9, 9, 9]\<rparr>)]
   \<and> List.map_filter resource_answer (dr_answers sample_response) = []"
proof -
  have "response_answers sample_response
      = [\<lparr>da_ttl_secs = 30, da_address = replicate 12 0 @ [9, 9, 9, 9]\<rparr>]"
    by (simp add: response_answers_def sample_response_def domain_bounds map_filter_simps resource_answer_def)
  moreover have "dotted (dr_name sample_response) = [97, 46, 98, 99]"
    by (simp add: sample_response_def)
  moreover have "List.map_filter resource_answer (dr_answers sample_response) = []"
    by (simp add: sample_response_def map_filter_simps resource_answer_def)
  ultimately show ?thesis
    using parse_encode_response [OF sample_response_ok, of "replicate DOMAIN_MAX_LEN 0" "[]"]
    by (simp add: DOMAIN_MAX_LEN_def)
qed

lemma extracted_names_fit_witness:
  "length (parse_dns_response (memory_cursor (encode_response sample_response)) 0 55
     (replicate DOMAIN_MAX_LEN 0)) \<le> 8"
  using extracted_names_fit [of "replicate DOMAIN_MAX_LEN 0" "encode_response sample_response" 0 55]
  by simp

section \<open>TLS ClientHello messages\<close>

definition u24_to_be_bytes :: "nat \<Rightarrow> u8 list" where
  "u24_to_be_bytes n = [of_nat (n div 65536), of_nat (n div 256), of_nat n]"

lemma u24_value:
  assumes "n < 2 ^ 24"
  shows "unat (of_nat (n div 65536) :: u8) * 65536 + unat (of_nat (n div 256) :: u8) * 256
    + unat (of_nat n :: u8) = n"
proof -
  have q: "n div 65536 = n div 256 div 256" by (simp add: div_mult2_eq [symmetric])
  have "n div 256 div 256 < 256" using assms by (simp add: div_mult2_eq [symmetric] less_mult_imp_div_less)
  then have "unat (of_nat (n div 256 div 256) :: u8) = n div 256 div 256" by (simp only: unat_of_nat) simp
  moreover have "unat (of_nat (n div 256) :: u8) = n div 256 mod 256" "unat (of_nat n :: u8) = n mod 256"
    by (simp_all add: unat_of_nat)
  moreover have "256 * (n div 256 div 256) + n div 256 mod 256 = n div 256" "256 * (n div 256) + n mod 256 = n"
    by (rule mult_div_mod_eq)+
  ultimately show ?thesis unfolding q by linarith
qed

definition encode_extension :: "u16 \<times> u8 list \<Rightarrow> u8 list" where
  "encode_extension e = u16_to_be_bytes (fst e) @ u16_to_be_bytes (of_nat (length (snd e))) @ snd e"

definition sni_body :: "u8 list \<Rightarrow> u8 list" where
  "sni_body name = u16_to_be_bytes (of_nat (length name + 3)) @ 0 # u16_to_be_bytes (of_nat (length name)) @ name"

record client_hello =
  ch_record_version :: "u8 list"
  ch_version_random :: "u8 list"
  ch_session :: "u8 list"
  ch_ciphers :: "u8 list"
  ch_compression :: "u8 list"
  ch_before :: "(u16 \<times> u8 list) list"
  ch_name :: "u8 list"
  ch_after :: "u8 list"

definition hello_extensions :: "client_hello \<Rightarrow> u8 list" where
  "hello_extensions h = concat (map encode_extension (ch_before h))
     @ encode_extension (0, sni_body (ch_name h)) @ ch_after h"

definition hello_body :: "client_hello \<Rightarrow> u8 list" where
  "hello_body h = ch_version_random h @ of_nat (length (ch_session h)) # ch_session h
     @ u16_to_be_bytes (of_nat (length (ch_ciphers h))) @ ch_ciphers h
     @ of_nat (length (ch_compression h)) # ch_compression h
     @ u16_to_be_bytes (of_nat (length (hello_extensions h))) @ hello_extensions h"

definition encode_hello :: "client_hello \<Rightarrow> u8 list" where
  "encode_hello h = 0x16 # ch_record_version h @ u16_to_be_bytes (of_nat (4 + length (hello_body h)))
     @ 0x01 # u24_to_be_bytes (length (hello_body h)) @ hello_body h"

definition extension_ok :: "u16 \<times> u8 list \<Rightarrow> bool" where
  "extension_ok e \<longleftrightarrow> fst e \<noteq> 0 \<and> length (snd e) < 65536"

definition hello_ok :: "client_hello \<Rightarrow> bool" where
  "hello_ok h \<longleftrightarrow> length (ch_record_version h) = 2 \<and> length (ch_version_random h) = 34
     \<and> length (ch_session h) < 256 \<and> length (ch_compression h) < 256
     \<and> list_all extension_ok (ch_before h) \<and> length (ch_before h) < MAX_TLS_EXTENSIONS
     \<and> 0 < length (ch_name h) \<and> length (ch_name h) \<le> DOMAIN_MAX_LEN
     \<and> length (hello_body h) < 65532"

lemma read_sni_extension:
  assumes d: "data = pre @ encode_extension (0, sni_body name) @ post" and n: "0 < length name" "length name \<le> DOMAIN_MAX_LEN"
    and b: "length pre + length (encode_extension (0, sni_body name)) \<le> stop" "stop < 2 ^ 64"
  shows "sni_extensions (memory_cursor data) stop (Suc rounds) (length pre) buf
    = Some (length name, write_at buf 0 name)"
proof -
  let ?c = "memory_cursor data" let ?n = "length name"
  have d': "data = pre @ u16_to_be_bytes 0 @ u16_to_be_bytes (of_nat (?n + 5))
      @ u16_to_be_bytes (of_nat (?n + 3)) @ 0 # u16_to_be_bytes (of_nat ?n) @ name @ post"
    by (simp add: d encode_extension_def sni_body_def add.commute)
  let ?pre = "pre @ u16_to_be_bytes 0 @ u16_to_be_bytes (of_nat (?n + 5))"
  have r: "read_u16_be ?c (length pre) = Some 0"
    "read_u16_be ?c (length pre + 2) = Some (of_nat (?n + 5))"
    "read_u16_be ?c (length pre + 4) = Some (of_nat (?n + 3))"
    "read_u8 ?c (length pre + 4 + 2) = Some 0"
    "read_u16_be ?c (length pre + 4 + 3) = Some (of_nat ?n)"
    "read_bytes ?c (length pre + 4 + 5) ?n = Some name"
    by (rule read_u16_at, rule d', simp)
       (rule read_u16_at [where pre = "pre @ u16_to_be_bytes 0"], simp add: d', simp,
        rule read_u16_at [where pre = ?pre], simp add: d', simp,
        rule read_u8_at [where pre = "?pre @ u16_to_be_bytes (of_nat (?n + 3))"], simp add: d', simp,
        rule read_u16_at [where pre = "?pre @ u16_to_be_bytes (of_nat (?n + 3)) @ [0]"], simp add: d', simp,
        rule read_bytes_at [where pre = "?pre @ u16_to_be_bytes (of_nat (?n + 3)) @ 0 # u16_to_be_bytes (of_nat ?n)"],
        simp_all add: d')
  have u: "unat (of_nat ?n :: u16) = ?n" "unat (of_nat (?n + 3) :: u16) = ?n + 3"
    "unat (of_nat (?n + 5) :: u16) = ?n + 5"
    using n by (simp_all only: unat_of_nat) (simp_all add: DOMAIN_MAX_LEN_def)
  have w: "within (length pre) 4 stop" "within (length pre + 4) (?n + 5) stop" "within (length pre + 4 + 5) ?n stop"
    using b by (simp_all add: within_def encode_extension_def sni_body_def)
  show ?thesis
    unfolding sni_extensions.simps r u option.map bind.bind_lunit ensure_bind Let_def
    using w n by (simp add: u)
qed

lemma skip_other_extensions:
  assumes "data = pre @ concat (map encode_extension es) @ post" "list_all extension_ok es"
    "length pre + length (concat (map encode_extension es)) \<le> stop" "stop < 2 ^ 64"
  shows "sni_extensions (memory_cursor data) stop (length es + rounds) (length pre) buf
    = sni_extensions (memory_cursor data) stop rounds
        (length pre + length (concat (map encode_extension es))) buf"
  using assms
proof (induction es arbitrary: pre)
  case (Cons e es)
  let ?c = "memory_cursor data" let ?n = "length (snd e)"
  have d: "data = pre @ u16_to_be_bytes (fst e) @ u16_to_be_bytes (of_nat ?n) @ snd e
      @ concat (map encode_extension es) @ post"
    using Cons.prems(1) by (simp add: encode_extension_def [of e])
  have r: "read_u16_be ?c (length pre) = Some (fst e)"
    "read_u16_be ?c (length pre + 2) = Some (of_nat ?n)"
    by (rule read_u16_at, rule d, simp)
      (rule read_u16_at [where pre = "pre @ u16_to_be_bytes (fst e)"], simp_all add: d)
  have ok: "fst e \<noteq> 0" "?n < 65536" "list_all extension_ok es"
    using Cons.prems(2) by (simp_all add: extension_ok_def [of e])
  have u: "unat (of_nat ?n :: u16) = ?n" using ok by (simp add: unat_of_nat)
  have len: "length (encode_extension e) = 4 + ?n" by (simp add: encode_extension_def)
  have w: "within (length pre) 4 stop" "within (length pre + 4) ?n stop"
    using Cons.prems(3,4) by (simp_all add: within_def len)
  have "sni_extensions ?c stop (length (e # es) + rounds) (length pre) buf
      = sni_extensions ?c stop (length es + rounds) (length pre + 4 + ?n) buf"
    using w ok(1)
    by (simp only: list.size add_Suc sni_extensions.simps add_0_right add_Suc_right)
      (simp add: r [simplified] u Let_def)
  also have "\<dots> = sni_extensions ?c stop (length es + rounds) (length (pre @ encode_extension e)) buf"
    by (simp add: len add.assoc)
  also have "\<dots> = sni_extensions ?c stop rounds
      (length (pre @ encode_extension e) + length (concat (map encode_extension es))) buf"
    using Cons.prems ok(3) by (intro Cons.IH) simp_all
  finally show ?case by (simp only: length_append list.map concat.simps add.assoc)
qed simp

lemma length_hello_body:
  "hello_ok h \<Longrightarrow> length (hello_body h) = 40 + length (ch_session h) + length (ch_ciphers h)
     + length (ch_compression h) + length (hello_extensions h)"
  by (simp add: hello_body_def hello_ok_def)

lemma read_hello_extensions:
  assumes ok: "hello_ok h" and d: "data = pre @ hello_extensions h @ post" and b: "length data < 2 ^ 64"
  shows "sni_extensions (memory_cursor data) (length pre + length (hello_extensions h)) MAX_TLS_EXTENSIONS
      (length pre) buf
    = Some (length (ch_name h), write_at buf 0 (ch_name h))"
proof -
  let ?es = "ch_before h" let ?skip = "concat (map encode_extension ?es)"
  let ?stop = "length pre + length (hello_extensions h)"
  obtain k where k: "MAX_TLS_EXTENSIONS = length ?es + Suc k"
    using ok less_imp_Suc_add [of "length ?es" MAX_TLS_EXTENSIONS] by (auto simp: hello_ok_def)
  have d1: "data = pre @ ?skip @ (encode_extension (0, sni_body (ch_name h)) @ ch_after h @ post)"
    by (simp add: d hello_extensions_def)
  have d2: "data = (pre @ ?skip) @ encode_extension (0, sni_body (ch_name h)) @ (ch_after h @ post)"
    by (simp add: d1)
  have stop: "?stop < 2 ^ 64" using b by (simp add: d)
  have "sni_extensions (memory_cursor data) ?stop MAX_TLS_EXTENSIONS (length pre) buf
      = sni_extensions (memory_cursor data) ?stop (Suc k) (length (pre @ ?skip)) buf"
    unfolding k length_append using ok stop
    by (intro skip_other_extensions [OF d1]) (simp_all add: hello_ok_def hello_extensions_def)
  also have "\<dots> = Some (length (ch_name h), write_at buf 0 (ch_name h))"
    using ok stop
    by (intro read_sni_extension [OF d2]) (simp_all add: hello_ok_def hello_extensions_def)
  finally show ?thesis .
qed


definition sample_hello :: client_hello where
  "sample_hello = \<lparr>ch_record_version = [3, 1], ch_version_random = replicate 34 3, ch_session = [1, 2],
     ch_ciphers = [0x13, 0x01], ch_compression = [0], ch_before = [(10, [0, 2, 0, 29])],
     ch_name = [97, 46, 98], ch_after = [0, 43, 0, 0]\<rparr>"


end
