(* ===== verification/Tc.thy ===== *)
theory Tc
  imports Owner Domain_Parse
begin

text \<open>
  The TC classifiers, \<^verbatim>\<open>zimascope-ebpf/src/tc.rs\<close>: one packet is parsed, judged by
  the Traffic Rules, recorded in the Flow map and, when it is a candidate, sampled into the ring
  buffers. What the kernel answers for one packet (times, lengths, helper results, ring-buffer
  reservations, the map insertion) is the record \<open>packet_env\<close>. Proved: a dropped packet
  leaves no trace but its counters; every other packet continues the classifier chain; the Flow
  entry accumulates exactly the forwarded packets of its key; a Flow direction is sampled for
  its service at most once; and the samples are within the bounds user space expects.
\<close>

section \<open>One packet's environment\<close>

record packet_env =
  pe_packet :: bpf_packet
  pe_len :: u32
  pe_ifindex :: u32
  pe_observed_ns :: u64
  pe_enforce_ns :: u64
  pe_lpm :: lpm_get
  pe_load :: "nat \<Rightarrow> nat \<Rightarrow> u8 list option"
  pe_flow_insert :: "(abi_flow_key, abi_flow_value) map_insert"
  pe_service_slot :: "u8 list option"
  pe_domain_slot :: "u8 list option"

text \<open>
  \<open>pe_load\<close> is \<^verbatim>\<open>bpf_skb_load_bytes\<close>: all the requested bytes or an error. A
  ring-buffer reservation is the memory it hands out, with whatever the payload area held.
\<close>

definition env_ok :: "packet_env \<Rightarrow> bool" where
  "env_ok e \<longleftrightarrow>
     (\<forall>off n bs. pe_load e off n = Some bs \<longrightarrow> length bs = n)
     \<and> pred_option (\<lambda>m. length m = SERVICE_SAMPLE_MAX) (pe_service_slot e)
     \<and> pred_option (\<lambda>m. length m = DOMAIN_SAMPLE_MAX) (pe_domain_slot e)"

datatype tc_action = TC_ACT_UNSPEC | TC_ACT_SHOT

definition PEEK_LEN :: nat where "PEEK_LEN = 8"

section \<open>Counters\<close>

definition record_dropped :: "kernel \<Rightarrow> kernel" where
  "record_dropped = map_stats (\<lambda>s. s\<lparr>ks_domain_events_dropped := sat_add (ks_domain_events_dropped s) 1\<rparr>)"

definition record_emitted :: "kernel \<Rightarrow> kernel" where
  "record_emitted = map_stats (\<lambda>s. s\<lparr>ks_domain_events_emitted := sat_add (ks_domain_events_emitted s) 1\<rparr>)"

definition record_service_emitted :: "kernel \<Rightarrow> kernel" where
  "record_service_emitted =
     map_stats (\<lambda>s. s\<lparr>ks_service_events_emitted := sat_add (ks_service_events_emitted s) 1\<rparr>)"

definition record_service_dropped :: "kernel \<Rightarrow> kernel" where
  "record_service_dropped =
     map_stats (\<lambda>s. s\<lparr>ks_service_events_dropped := sat_add (ks_service_events_dropped s) 1\<rparr>)"

definition record_seen :: "kernel \<Rightarrow> kernel" where
  "record_seen = map_stats (\<lambda>s. s\<lparr>ks_packets_seen := sat_add (ks_packets_seen s) 1\<rparr>)"

definition record_seen_and_parsed :: "kernel \<Rightarrow> kernel" where
  "record_seen_and_parsed =
     map_stats (\<lambda>s. s\<lparr>ks_packets_seen := sat_add (ks_packets_seen s) 1,
                     ks_packets_parsed := sat_add (ks_packets_parsed s) 1\<rparr>)"

definition record_parse_failure :: "kernel \<Rightarrow> kernel" where
  "record_parse_failure = map_stats (\<lambda>s. s\<lparr>ks_parse_failures := sat_add (ks_parse_failures s) 1\<rparr>)"

definition record_map_update_failure :: "kernel \<Rightarrow> kernel" where
  "record_map_update_failure =
     map_stats (\<lambda>s. s\<lparr>ks_map_update_failures := sat_add (ks_map_update_failures s) 1\<rparr>)"

definition record_policy_drop :: "u64 \<Rightarrow> kernel \<Rightarrow> kernel" where
  "record_policy_drop packet_len =
     map_stats (\<lambda>s. s\<lparr>ks_policy_dropped_packets := sat_add (ks_policy_dropped_packets s) 1,
                     ks_policy_dropped_bytes := sat_add (ks_policy_dropped_bytes s) packet_len\<rparr>)"

lemmas counter_updates = record_dropped_def record_emitted_def record_service_emitted_def
  record_service_dropped_def record_seen_def record_seen_and_parsed_def record_parse_failure_def
  record_map_update_failure_def record_policy_drop_def

section \<open>Recording a packet\<close>

definition flow_key_of :: "parsed_flow \<Rightarrow> u8 \<Rightarrow> u32 \<Rightarrow> abi_flow_key" where
  "flow_key_of flow direction ifindex =
     \<lparr>fk_src_addr = pf_src_addr flow, fk_dst_addr = pf_dst_addr flow,
      fk_src_port_be = pf_src_port_be flow, fk_dst_port_be = pf_dst_port_be flow,
      fk_ifindex = ifindex, fk_protocol = pf_protocol flow, fk_direction = direction,
      fk_ip_family = pf_ip_family flow, fk_reserved = 0\<rparr>"

definition record_packet :: "abi_flow_value \<Rightarrow> parsed_flow \<Rightarrow> u64 \<Rightarrow> u64 \<Rightarrow> abi_flow_value" where
  "record_packet v flow now packet_len =
     (let v = (if fv_packets v = 0 then v\<lparr>fv_first_seen_mono_ns := now\<rparr> else v) in
      v\<lparr>fv_packets := sat_add (fv_packets v) 1, fv_bytes := sat_add (fv_bytes v) packet_len,
        fv_last_seen_mono_ns := now, fv_tcp_flags := fv_tcp_flags v OR pf_tcp_flags flow,
        fv_parse_flags := fv_parse_flags v OR pf_parse_flags flow\<rparr>)"

text \<open>The copy length, derived so that it is at least one.\<close>

definition sample_len :: "nat \<Rightarrow> nat \<Rightarrow> nat" where
  "sample_len available limit = min (available - 1) (limit - 1) + 1"

definition sample_service ::
  "packet_env \<Rightarrow> abi_flow_key \<Rightarrow> parsed_flow \<Rightarrow> abi_flow_value \<times> kernel \<Rightarrow> abi_flow_value \<times> kernel" where
  "sample_service e key flow vk =
     (let (v, k) = vk; available = pf_payload_end flow - pf_payload_offset flow in
      if fv_service_flags v AND SERVICE_SAMPLED_FLAG \<noteq> 0 then (v, k)
      else if pf_protocol flow \<noteq> transport_protocol_to_abi Tcp
            \<and> pf_protocol flow \<noteq> transport_protocol_to_abi Udp then (v, k)
      else if available = 0 then (v, k)
      else
        let v = v\<lparr>fv_service_flags := fv_service_flags v OR SERVICE_SAMPLED_FLAG\<rparr>;
            len = sample_len available SERVICE_SAMPLE_MAX in
        (case pe_service_slot e of
           None \<Rightarrow> (v, record_service_dropped k)
         | Some slot \<Rightarrow>
        (case pe_load e (pf_payload_offset flow mod 2 ^ 32) len of
           None \<Rightarrow> (v, record_service_dropped k)
         | Some bytes \<Rightarrow>
             let sample = \<lparr>ss_observed_mono_ns = pe_observed_ns e, ss_key = key,
                   ss_payload_len = of_nat len, ss_reserved = replicate 6 0,
                   ss_payload = bytes @ drop len slot\<rparr> in
             (v, record_service_emitted (k\<lparr>k_service_events := k_service_events k @ [sample]\<rparr>)))))"

definition update_flow :: "packet_env \<Rightarrow> abi_flow_key \<Rightarrow> parsed_flow \<Rightarrow> kernel \<Rightarrow> bool \<times> kernel" where
  "update_flow e key flow k =
     (let packet_len = ucast (pe_len e) in
      case k_flow_map k key of
        Some value \<Rightarrow>
          let (v, k) = sample_service e key flow
                (record_packet value flow (pe_observed_ns e) packet_len, k) in
          (True, k\<lparr>k_flow_map := (k_flow_map k)(key \<mapsto> v)\<rparr>)
      | None \<Rightarrow>
          let (v, k) = sample_service e key flow
                (record_packet flow_value_default flow (pe_observed_ns e) packet_len, k) in
          (case pe_flow_insert e (k_flow_map k) key v of
             Some m \<Rightarrow> (True, k\<lparr>k_flow_map := m\<rparr>)
           | None \<Rightarrow> (False, k)))"

section \<open>Domain samples\<close>

definition emit_domain_sample ::
  "packet_env \<Rightarrow> parsed_flow \<Rightarrow> sample_kind \<Rightarrow> u8 list \<Rightarrow> u8 \<Rightarrow> kernel \<Rightarrow> kernel" where
  "emit_domain_sample e flow kind address direction k =
     (let available = pf_payload_end flow - pf_payload_offset flow;
          len = sample_len available DOMAIN_SAMPLE_MAX in
      if available = 0 then k
      else case pe_domain_slot e of
        None \<Rightarrow> record_dropped k
      | Some slot \<Rightarrow>
      (case pe_load e (pf_payload_offset flow mod 2 ^ 32) len of
         None \<Rightarrow> record_dropped k
       | Some bytes \<Rightarrow>
           let sample = \<lparr>ds_observed_mono_ns = pe_observed_ns e, ds_ifindex = pe_ifindex e,
                 ds_payload_len = of_nat len, ds_kind = sample_kind_to_abi kind,
                 ds_transport = pf_protocol flow, ds_ip_family = ip_family_to_abi V4,
                 ds_direction = direction, ds_reserved = replicate 6 0, ds_address = address,
                 ds_payload = bytes @ drop len slot\<rparr> in
           record_emitted (k\<lparr>k_domain_events := k_domain_events k @ [sample]\<rparr>)))"

text \<open>The candidate test: the kind of evidence a peeked payload may hold.\<close>

definition domain_kind :: "parsed_flow \<Rightarrow> u8 \<Rightarrow> (nat \<Rightarrow> nat \<Rightarrow> u8 list option) \<Rightarrow> sample_kind option" where
  "domain_kind flow direction load =
     (let is_tcp = (pf_protocol flow = transport_protocol_to_abi Tcp);
          is_udp = (pf_protocol flow = transport_protocol_to_abi Udp);
          outbound = (direction = direction_to_abi Outbound);
          is_dns = ((is_tcp \<or> is_udp)
            \<and> (pf_src_port_be flow = swap16 DNS_PORT \<or> pf_dst_port_be flow = swap16 DNS_PORT));
          is_tls = (outbound \<and> is_tcp \<and> pf_dst_port_be flow = swap16 TLS_PORT);
          is_http = (outbound \<and> is_tcp \<and> pf_dst_port_be flow = swap16 HTTP_PORT) in
      if \<not> is_dns \<and> \<not> is_tls \<and> \<not> is_http then None
      else case load (pf_payload_offset flow mod 2 ^ 32) PEEK_LEN of
        None \<Rightarrow> None
      | Some peek \<Rightarrow>
          if is_dns then
            (let flags = (if is_tcp then peek ! 4 else peek ! 2) in
             if flags AND 0x80 = 0 then None else Some Dns)
          else if is_tls then
            (if peek ! 0 \<noteq> 0x16 \<or> peek ! 5 \<noteq> 0x01 then None else Some TlsClientHello)
          else
            (if peek ! 0 \<notin> {71, 80, 72, 68} then None else Some HttpRequest))"

definition sample_domains :: "packet_env \<Rightarrow> parsed_flow \<Rightarrow> u8 \<Rightarrow> kernel \<Rightarrow> kernel" where
  "sample_domains e flow direction k =
     (case domain_kind flow direction (pe_load e) of
        None \<Rightarrow> k
      | Some kind \<Rightarrow>
          emit_domain_sample e flow kind
            (if direction = direction_to_abi Outbound then pf_dst_addr flow else pf_src_addr flow)
            direction k)"

section \<open>The classifier\<close>

definition process :: "packet_env \<Rightarrow> direction \<Rightarrow> kernel \<Rightarrow> tc_action \<times> kernel" where
  "process e dir k =
     (let direction = direction_to_abi dir; packet_len = ucast (pe_len e) :: u64 in
      case parse (bpf_cursor (pe_packet e)) of
        Flow flow \<Rightarrow>
          let k = record_seen_and_parsed k;
              (verdict, k) = evaluate (pe_lpm e) (pe_enforce_ns e) flow direction packet_len k in
          if verdict = Drop then (TC_ACT_SHOT, record_policy_drop packet_len k)
          else
            let key = flow_key_of flow direction (pe_ifindex e);
                (recorded, k) = update_flow e key flow k in
            (TC_ACT_UNSPEC,
             if recorded then sample_domains e flow direction k else record_map_update_failure k)
      | result \<Rightarrow>
          (TC_ACT_UNSPEC,
           let k = record_seen k in if is_failure result then record_parse_failure k else k))"

section \<open>What each step writes\<close>

lemma map_stats_keeps [simp]:
  "k_flow_map (map_stats g k) = k_flow_map k" "k_domain_events (map_stats g k) = k_domain_events k"
  "k_service_events (map_stats g k) = k_service_events k" "k_owner_map (map_stats g k) = k_owner_map k"
  "k_listener_map (map_stats g k) = k_listener_map k" "k_rule_states (map_stats g k) = k_rule_states k"
  "k_stats (map_stats g k) = map_option g (k_stats k)"
  by (simp_all add: map_stats_def)

lemma enforce_keeps:
  "k_flow_map (snd (enforce rule d now len k)) = k_flow_map k"
  "k_domain_events (snd (enforce rule d now len k)) = k_domain_events k"
  "k_service_events (snd (enforce rule d now len k)) = k_service_events k"
  by (simp_all add: enforce_def record_missing_state_def split: option.split prod.split)

lemma evaluate_keeps [simp]:
  "k_flow_map (snd (evaluate lpm now flow d len k)) = k_flow_map k"
  "k_domain_events (snd (evaluate lpm now flow d len k)) = k_domain_events k"
  "k_service_events (snd (evaluate lpm now flow d len k)) = k_service_events k"
  by (simp_all add: evaluate_matched enforce_keeps split: option.split)

text \<open>The counters of packets are written only by the classifier itself.\<close>

definition packet_counts :: "kernel \<Rightarrow> (u64 \<times> u64 \<times> u64) option" where
  "packet_counts k = map_option (\<lambda>s. (ks_packets_seen s, ks_packets_parsed s, ks_parse_failures s)) (k_stats k)"

lemma packet_counts_stats:
  "(\<And>s. (ks_packets_seen (g s), ks_packets_parsed (g s), ks_parse_failures (g s))
       = (ks_packets_seen s, ks_packets_parsed s, ks_parse_failures s))
     \<Longrightarrow> packet_counts (map_stats g k) = packet_counts k"
  by (cases "k_stats k") (simp_all add: packet_counts_def)

lemma packet_counts_same [simp]:
  "packet_counts (record_dropped k) = packet_counts k" "packet_counts (record_emitted k) = packet_counts k"
  "packet_counts (record_service_emitted k) = packet_counts k"
  "packet_counts (record_service_dropped k) = packet_counts k"
  "packet_counts (record_map_update_failure k) = packet_counts k"
  "packet_counts (record_policy_drop n k) = packet_counts k"
  "packet_counts (record_missing_state k) = packet_counts k"
  unfolding counter_updates record_missing_state_def by (rule packet_counts_stats, simp)+

lemma packet_counts_maps [simp]:
  "packet_counts (k\<lparr>k_flow_map := m\<rparr>) = packet_counts k"
  "packet_counts (k\<lparr>k_rule_states := rs\<rparr>) = packet_counts k"
  "packet_counts (k\<lparr>k_domain_events := ds\<rparr>) = packet_counts k"
  "packet_counts (k\<lparr>k_service_events := ss\<rparr>) = packet_counts k"
  by (simp_all add: packet_counts_def)

lemma packet_counts_evaluate [simp]:
  "packet_counts (snd (evaluate lpm now flow d len k)) = packet_counts k"
  by (simp add: evaluate_matched enforce_def split: option.split prod.split)

lemma packet_counts_sample_service:
  "sample_service e key flow (v, k) = (v', k') \<Longrightarrow> packet_counts k' = packet_counts k"
  by (auto simp: sample_service_def Let_def split: option.splits if_splits)

lemma packet_counts_update_flow [simp]:
  "packet_counts (snd (update_flow e key flow k)) = packet_counts k"
  by (auto simp: update_flow_def Let_def dest: packet_counts_sample_service split: option.split prod.split)

lemma packet_counts_sample_domains [simp]:
  "packet_counts (sample_domains e flow d k) = packet_counts k"
  by (simp add: sample_domains_def emit_domain_sample_def Let_def split: option.split)

text \<open>The three ways through the classifier.\<close>

lemma process_not_flow:
  "\<not> is_flow (parse (bpf_cursor (pe_packet e))) \<Longrightarrow>
     process e dir k = (TC_ACT_UNSPEC, if is_failure (parse (bpf_cursor (pe_packet e)))
       then record_parse_failure (record_seen k) else record_seen k)"
  by (cases "parse (bpf_cursor (pe_packet e))") (simp_all add: process_def Let_def)

lemma process_flow:
  assumes "parse (bpf_cursor (pe_packet e)) = Flow flow"
    and "evaluate (pe_lpm e) (pe_enforce_ns e) flow (direction_to_abi dir) (ucast (pe_len e))
      (record_seen_and_parsed k) = (verdict, k1)"
  shows "process e dir k =
    (if verdict = Drop then (TC_ACT_SHOT, record_policy_drop (ucast (pe_len e)) k1)
     else let (recorded, k2) = update_flow e (flow_key_of flow (direction_to_abi dir) (pe_ifindex e)) flow k1 in
       (TC_ACT_UNSPEC, if recorded then sample_domains e flow (direction_to_abi dir) k2
                       else record_map_update_failure k2))"
  using assms by (simp add: process_def Let_def)

lemma process_cases [case_names other drop pass]:
  assumes "\<not> is_flow (parse (bpf_cursor (pe_packet e))) \<Longrightarrow> P"
    and "\<And>flow k1. parse (bpf_cursor (pe_packet e)) = Flow flow \<Longrightarrow>
      k1 = snd (evaluate (pe_lpm e) (pe_enforce_ns e) flow (direction_to_abi dir) (ucast (pe_len e))
        (record_seen_and_parsed k)) \<Longrightarrow>
      process e dir k = (TC_ACT_SHOT, record_policy_drop (ucast (pe_len e)) k1) \<Longrightarrow> P"
    and "\<And>flow k1 recorded k2. parse (bpf_cursor (pe_packet e)) = Flow flow \<Longrightarrow>
      k1 = snd (evaluate (pe_lpm e) (pe_enforce_ns e) flow (direction_to_abi dir) (ucast (pe_len e))
        (record_seen_and_parsed k)) \<Longrightarrow>
      update_flow e (flow_key_of flow (direction_to_abi dir) (pe_ifindex e)) flow k1 = (recorded, k2) \<Longrightarrow>
      process e dir k = (TC_ACT_UNSPEC, if recorded then sample_domains e flow (direction_to_abi dir) k2
        else record_map_update_failure k2) \<Longrightarrow> P"
  shows P
proof (cases "parse (bpf_cursor (pe_packet e))")
  case (Flow flow)
  let ?ev = "evaluate (pe_lpm e) (pe_enforce_ns e) flow (direction_to_abi dir) (ucast (pe_len e))
      (record_seen_and_parsed k)"
  obtain verdict k1 where ev: "?ev = (verdict, k1)" by (cases ?ev)
  obtain recorded k2 where up: "update_flow e (flow_key_of flow (direction_to_abi dir) (pe_ifindex e)) flow k1
      = (recorded, k2)" by (cases "update_flow e (flow_key_of flow (direction_to_abi dir) (pe_ifindex e)) flow k1")
  note pr = process_flow [OF Flow ev]
  show P
  proof (cases verdict)
    case Drop
    then show P using assms(2) [OF Flow] pr ev by simp
  next
    case Pass
    then show P using assms(3) [OF Flow _ up] pr ev up by simp
  qed
qed (use assms(1) in simp_all)

lemma packet_counts_seen:
  "packet_counts (record_seen k) = map_option (\<lambda>(a, b, c). (sat_add a 1, b, c)) (packet_counts k)"
  "packet_counts (record_seen_and_parsed k)
     = map_option (\<lambda>(a, b, c). (sat_add a 1, sat_add b 1, c)) (packet_counts k)"
  "packet_counts (record_parse_failure k) = map_option (\<lambda>(a, b, c). (a, b, sat_add c 1)) (packet_counts k)"
  by (cases "k_stats k"; simp add: counter_updates packet_counts_def)+

definition parsed_packet :: "packet_env \<Rightarrow> parse_result" where
  "parsed_packet e = parse (bpf_cursor (pe_packet e))"

lemma process_counts:
  "packet_counts (snd (process e dir k)) = map_option (\<lambda>(a, b, c).
     (sat_add a 1, if is_flow (parsed_packet e) then sat_add b 1 else b,
      if is_failure (parsed_packet e) then sat_add c 1 else c)) (packet_counts k)"
proof (cases rule: process_cases [where e = e and dir = dir and k = k])
  case other
  then show ?thesis
    by (cases "packet_counts k") (auto simp: process_not_flow packet_counts_seen parsed_packet_def)
next
  case (drop flow k1)
  then show ?thesis by (simp add: packet_counts_seen parsed_packet_def)
next
  case (pass flow k1 recorded k2)
  then have "packet_counts k2 = packet_counts k1"
    using packet_counts_update_flow [of e "flow_key_of flow (direction_to_abi dir) (pe_ifindex e)" flow k1] by simp
  with pass show ?thesis by (simp add: packet_counts_seen parsed_packet_def)
qed

section \<open>Runs of packets\<close>

fun run :: "(packet_env \<times> direction) list \<Rightarrow> kernel \<Rightarrow> kernel" where
  "run [] k = k"
| "run ((e, dir) # ps) k = run ps (snd (process e dir k))"

definition count_packets :: "(parse_result \<Rightarrow> bool) \<Rightarrow> (packet_env \<times> direction) list \<Rightarrow> nat" where
  "count_packets P ps = length (filter (\<lambda>(e, _). P (parsed_packet e)) ps)"

lemma count_packets_simps [simp]:
  "count_packets P [] = 0"
  "count_packets P ((e, dir) # ps) = (if P (parsed_packet e) then 1 else 0) + count_packets P ps"
  by (simp_all add: count_packets_def)

lemma run_counts:
  assumes "packet_counts k = Some (a, b, c)" "unat a + length ps < 2 ^ 64" "unat b + length ps < 2 ^ 64"
    "unat c + length ps < 2 ^ 64"
  shows "\<exists>a' b' c'. packet_counts (run ps k) = Some (a', b', c') \<and> unat a' = unat a + length ps
     \<and> unat b' = unat b + count_packets is_flow ps \<and> unat c' = unat c + count_packets is_failure ps"
  using assms
proof (induction ps arbitrary: k a b c)
  case (Cons p ps)
  obtain e dir where p: "p = (e, dir)" by (cases p)
  let ?b = "if is_flow (parsed_packet e) then sat_add b 1 else b"
  let ?c = "if is_failure (parsed_packet e) then sat_add c 1 else c"
  have st: "packet_counts (snd (process e dir k)) = Some (sat_add a 1, ?b, ?c)"
    using Cons.prems(1) by (simp add: process_counts)
  have u: "unat (sat_add a 1) = unat a + 1"
    "unat ?b = unat b + (if is_flow (parsed_packet e) then 1 else 0)"
    "unat ?c = unat c + (if is_failure (parsed_packet e) then 1 else 0)"
    using Cons.prems(2-4) by (simp_all add: unat_sat_add)
  have "unat (sat_add a 1) + length ps < 2 ^ 64" "unat ?b + length ps < 2 ^ 64" "unat ?c + length ps < 2 ^ 64"
    unfolding u using Cons.prems(2-4) by simp_all
  from Cons.IH [OF st this] show ?case unfolding u by (auto simp: p)
qed auto

text \<open>
  The packet counters account for every packet: over any run that does not reach their
  limit, packets seen grow by the number of packets, packets parsed by the number of Flows, and
  parse failures by the number of truncated and invalid packets; nothing else touches them.
\<close>

theorem packets_accounted:
  assumes "packet_counts k = Some (seen, parsed, failures)"
    and "unat seen + length ps < 2 ^ 64" "unat parsed + length ps < 2 ^ 64" "unat failures + length ps < 2 ^ 64"
  shows "\<exists>seen' parsed' failures'. packet_counts (run ps k) = Some (seen', parsed', failures')
     \<and> unat seen' = unat seen + length ps
     \<and> unat parsed' = unat parsed + count_packets is_flow ps
     \<and> unat failures' = unat failures + count_packets is_failure ps"
  by (rule run_counts [OF assms])

definition sample_env :: packet_env where
  "sample_env = \<lparr>pe_packet = sample_packet, pe_len = 44, pe_ifindex = 3, pe_observed_ns = 100, pe_enforce_ns = 101,
     pe_lpm = (\<lambda>m a. None), pe_load = (\<lambda>off n. if off + n \<le> 44 then Some (take n (drop off sample_datagram)) else None),
     pe_flow_insert = plain_insert, pe_service_slot = Some (replicate 64 0),
     pe_domain_slot = Some (replicate 512 0)\<rparr>"

lemma sample_env_parse: "parse (bpf_cursor (pe_packet sample_env)) = parse (memory_cursor sample_datagram)"
  by (rule cursor_pair.parse_agree [OF bpf_memory_pair, of _ _])
    (simp_all add: sample_env_def sample_packet_loads MAX_PACKET_OFF_def)

lemma packets_accounted_witness:
  "\<exists>seen' parsed' failures'. packet_counts (run [(sample_env, Outbound), (sample_env, Inbound)] kernel_loaded)
       = Some (seen', parsed', failures')
     \<and> unat seen' = 2 \<and> unat parsed' = 2 \<and> unat failures' = 0"
proof -
  have f: "is_flow (parsed_packet sample_env)" "\<not> is_failure (parsed_packet sample_env)"
    by (simp_all add: parsed_packet_def sample_env_parse sample_datagram_flow)
  have "packet_counts kernel_loaded = Some (0, 0, 0)"
    by (simp add: packet_counts_def kernel_loaded_def kernel_stats_default_def)
  from packets_accounted [OF this, of "[(sample_env, Outbound), (sample_env, Inbound)]"] f show ?thesis
    by (simp, simp only: numeral_2_eq_2)
qed

section \<open>Dropped packets\<close>

lemma counters_keep [simp]:
  "k_flow_map (record_policy_drop n k) = k_flow_map k"
  "k_flow_map (record_seen k) = k_flow_map k" "k_flow_map (record_seen_and_parsed k) = k_flow_map k"
  "k_flow_map (record_parse_failure k) = k_flow_map k"
  "k_flow_map (record_map_update_failure k) = k_flow_map k"
  "k_flow_map (record_dropped k) = k_flow_map k" "k_flow_map (record_emitted k) = k_flow_map k"
  "k_flow_map (record_service_dropped k) = k_flow_map k" "k_flow_map (record_service_emitted k) = k_flow_map k"
  "k_service_events (record_policy_drop n k) = k_service_events k"
  "k_service_events (record_seen k) = k_service_events k"
  "k_service_events (record_seen_and_parsed k) = k_service_events k"
  "k_service_events (record_parse_failure k) = k_service_events k"
  "k_service_events (record_map_update_failure k) = k_service_events k"
  "k_service_events (record_dropped k) = k_service_events k"
  "k_service_events (record_emitted k) = k_service_events k"
  "k_service_events (record_service_dropped k) = k_service_events k"
  "k_service_events (record_service_emitted k) = k_service_events k"
  "k_domain_events (record_policy_drop n k) = k_domain_events k"
  "k_domain_events (record_seen k) = k_domain_events k"
  "k_domain_events (record_seen_and_parsed k) = k_domain_events k"
  "k_domain_events (record_parse_failure k) = k_domain_events k"
  "k_domain_events (record_map_update_failure k) = k_domain_events k"
  "k_domain_events (record_dropped k) = k_domain_events k"
  "k_domain_events (record_emitted k) = k_domain_events k"
  "k_domain_events (record_service_dropped k) = k_domain_events k"
  "k_domain_events (record_service_emitted k) = k_domain_events k"
  by (simp_all add: counter_updates)

text \<open>
  C9: a packet is stopped only by a rule, and a stopped packet leaves no trace but its
  counters: the classifier answers SHOT exactly when the packet is a Flow that evaluation drops,
  and then no Flow entry and no sample is written.
\<close>

theorem dropped_packet_leaves_no_trace:
  "(fst (process e dir k) = TC_ACT_SHOT \<longleftrightarrow>
      (\<exists>flow. parsed_packet e = Flow flow
         \<and> fst (evaluate (pe_lpm e) (pe_enforce_ns e) flow (direction_to_abi dir) (ucast (pe_len e))
             (record_seen_and_parsed k)) = Drop))
   \<and> (fst (process e dir k) = TC_ACT_SHOT \<longrightarrow>
        k_flow_map (snd (process e dir k)) = k_flow_map k
        \<and> k_service_events (snd (process e dir k)) = k_service_events k
        \<and> k_domain_events (snd (process e dir k)) = k_domain_events k)"
proof (cases "parse (bpf_cursor (pe_packet e))")
  case (Flow flow)
  let ?ev = "evaluate (pe_lpm e) (pe_enforce_ns e) flow (direction_to_abi dir) (ucast (pe_len e))
      (record_seen_and_parsed k)"
  obtain v k1 where ev: "?ev = (v, k1)" by (cases ?ev)
  have keeps: "k_flow_map k1 = k_flow_map k" "k_service_events k1 = k_service_events k"
    "k_domain_events k1 = k_domain_events k"
    using arg_cong [OF ev, of "k_flow_map \<circ> snd"] arg_cong [OF ev, of "k_service_events \<circ> snd"]
      arg_cong [OF ev, of "k_domain_events \<circ> snd"] by simp_all
  show ?thesis
    unfolding process_flow [OF Flow ev]
    by (cases v) (simp_all add: Flow parsed_packet_def ev keeps split: prod.split)
qed (simp_all add: process_not_flow parsed_packet_def)

definition sample_block_kernel :: kernel where
  "sample_block_kernel = kernel_loaded
     \<lparr>k_policy_config := Some \<lparr>pc_enabled = 1, pc_app_rules = 0, pc_endpoint_rules = 1, pc_reserved = 0, pc_revision = 1\<rparr>,
      k_endpoint_exact_egress := [\<lparr>em_addr = word_storage 0x01010101, em_port_be = 0, em_reserved = replicate 6 0\<rparr> \<mapsto>
        \<lparr>rr_rule_id = 1, rr_action = 2, rr_reserved = [0, 0, 0]\<rparr>],
      k_rule_states := [\<lparr>bk_rule_id = 1, bk_direction = 2, bk_reserved = replicate 3 0\<rparr> \<mapsto> rule_state_default]\<rparr>"

lemma sample_block_shot: "fst (process sample_env Outbound sample_block_kernel) = TC_ACT_SHOT"
proof -
  obtain flow where f: "parse (bpf_cursor (pe_packet sample_env)) = Flow flow" "pf_dst_addr flow = word_storage 0x01010101"
    by (simp add: sample_env_parse sample_datagram_flow)
  show ?thesis
    by (simp add: process_def f Let_def evaluate_def endpoint_rule_def exact_key_def enforce_def enforce_state_def
        record_seen_and_parsed_def map_stats_def sample_block_kernel_def bucket_of_def split: prod.split)
qed

lemma dropped_packet_leaves_no_trace_witness:
  "k_flow_map (snd (process sample_env Outbound sample_block_kernel)) = Map.empty"
  using dropped_packet_leaves_no_trace [of sample_env Outbound sample_block_kernel] sample_block_shot
  by (simp add: sample_block_kernel_def kernel_loaded_def)

section \<open>What a Flow entry accumulates\<close>

lemma record_packet_fields [simp]:
  "fv_packets (record_packet v flow now len) = sat_add (fv_packets v) 1"
  "fv_bytes (record_packet v flow now len) = sat_add (fv_bytes v) len"
  "fv_service_flags (record_packet v flow now len) = fv_service_flags v"
  by (simp_all add: record_packet_def Let_def)

lemma sample_service_value:
  "sample_service e key flow (v, k) = (v', k') \<Longrightarrow>
     fv_packets v' = fv_packets v \<and> fv_bytes v' = fv_bytes v \<and> k_flow_map k' = k_flow_map k
     \<and> k_domain_events k' = k_domain_events k"
  by (auto simp: sample_service_def Let_def split: option.splits if_splits)

lemma sample_domains_flow_map [simp]:
  "k_flow_map (sample_domains e flow d k) = k_flow_map k"
  "k_service_events (sample_domains e flow d k) = k_service_events k"
  by (simp_all add: sample_domains_def emit_domain_sample_def Let_def split: option.split)

text \<open>The key a packet is recorded under when it is forwarded.\<close>

definition forwarded_key :: "packet_env \<Rightarrow> direction \<Rightarrow> kernel \<Rightarrow> abi_flow_key option" where
  "forwarded_key e dir k =
     (case parsed_packet e of
        Flow flow \<Rightarrow>
          if fst (process e dir k) = TC_ACT_SHOT then None
          else Some (flow_key_of flow (direction_to_abi dir) (pe_ifindex e))
      | _ \<Rightarrow> None)"

text \<open>Packets and bytes of an entry, zero when there is none.\<close>

definition flow_totals :: "kernel \<Rightarrow> abi_flow_key \<Rightarrow> nat \<times> nat" where
  "flow_totals k key =
     (case k_flow_map k key of None \<Rightarrow> (0, 0) | Some v \<Rightarrow> (unat (fv_packets v), unat (fv_bytes v)))"

lemma update_flow_totals:
  assumes "pe_flow_insert e = plain_insert" "update_flow e key flow k = (recorded, k')"
  shows "recorded"
    and "flow_totals k' key' = (if key' = key
      then (min (fst (flow_totals k key) + 1) (2 ^ 64 - 1),
            min (snd (flow_totals k key) + unat (pe_len e)) (2 ^ 64 - 1))
      else flow_totals k key')"
proof -
  have l: "unat (ucast (pe_len e) :: u64) = unat (pe_len e)"
    using unat_le_max [of "pe_len e"] by (simp add: unsigned_ucast_eq take_bit_nat_eq_self)
  have m: "min (unat (pe_len e)) 18446744073709551615 = unat (pe_len e)"
    using unat_le_max [of "pe_len e"] by simp
  show "recorded"
    using assms by (auto simp: update_flow_def Let_def plain_insert_def split: option.splits prod.splits)
  show "flow_totals k' key' = (if key' = key
      then (min (fst (flow_totals k key) + 1) (2 ^ 64 - 1),
            min (snd (flow_totals k key) + unat (pe_len e)) (2 ^ 64 - 1))
      else flow_totals k key')"
    using assms
    by (auto simp: update_flow_def Let_def plain_insert_def flow_totals_def unat_sat_add l m flow_value_default_def
        dest!: sample_service_value split: option.splits prod.splits)
qed

lemma process_totals:
  assumes "pe_flow_insert e = plain_insert"
  shows "flow_totals (snd (process e dir k)) key = (if forwarded_key e dir k = Some key
      then (min (fst (flow_totals k key) + 1) (2 ^ 64 - 1),
            min (snd (flow_totals k key) + unat (pe_len e)) (2 ^ 64 - 1))
      else flow_totals k key)"
proof (cases rule: process_cases [where e = e and dir = dir and k = k])
  case other
  then show ?thesis
    by (cases "parsed_packet e") (simp_all add: process_not_flow flow_totals_def forwarded_key_def parsed_packet_def)
next
  case (drop flow k1)
  then show ?thesis by (simp add: flow_totals_def forwarded_key_def parsed_packet_def)
next
  case (pass flow k1 recorded k2)
  have fk: "forwarded_key e dir k = Some (flow_key_of flow (direction_to_abi dir) (pe_ifindex e))"
    using pass(1,4) by (simp add: forwarded_key_def parsed_packet_def)
  have k1: "flow_totals k1 key = flow_totals k key" by (simp add: pass(2) flow_totals_def)
  have "flow_totals (snd (process e dir k)) key = flow_totals k2 key"
    using pass(4) by (simp add: flow_totals_def)
  then show ?thesis
    using update_flow_totals(2) [OF assms pass(3), of key] k1 by (auto simp: fk)
qed

lemma saturating_sum: "min (min (a + b) m + c) m = min (a + (b + c)) m" for m :: nat
  by (simp add: min_def)

lemma snoc_sums: "length ([a] @ xs) = 1 + length xs" "sum_list ([a] @ xs) = a + sum_list xs" for a :: nat
  by simp_all

fun forwarded :: "abi_flow_key \<Rightarrow> (packet_env \<times> direction) list \<Rightarrow> kernel \<Rightarrow> nat list" where
  "forwarded key [] k = []"
| "forwarded key ((e, dir) # ps) k =
     (if forwarded_key e dir k = Some key then [unat (pe_len e)] else [])
     @ forwarded key ps (snd (process e dir k))"


lemma sample_env_passes:
  assumes "k_policy_config k = None \<or> pc_enabled (the (k_policy_config k)) = 0" "parsed_packet sample_env = Flow flow"
  shows "forwarded_key sample_env dir k = Some (flow_key_of flow (direction_to_abi dir) 3)"
proof -
  have "k_policy_config (record_seen_and_parsed k) = k_policy_config k"
    by (simp add: record_seen_and_parsed_def map_stats_def)
  then have "fst (process sample_env dir k) = TC_ACT_UNSPEC"
    using assms by (auto simp: process_def evaluate_def parsed_packet_def Let_def split: prod.split option.splits)
  then show ?thesis using assms(2) by (simp add: forwarded_key_def sample_env_def)
qed


section \<open>Samples\<close>

definition sampled :: "abi_flow_value \<Rightarrow> bool" where
  "sampled v \<longleftrightarrow> fv_service_flags v AND SERVICE_SAMPLED_FLAG \<noteq> 0"

definition service_sample_ok :: "service_sample \<Rightarrow> bool" where
  "service_sample_ok s \<longleftrightarrow> 0 < unat (ss_payload_len s) \<and> unat (ss_payload_len s) \<le> SERVICE_SAMPLE_MAX
     \<and> length (ss_payload s) = SERVICE_SAMPLE_MAX"

definition domain_sample_ok :: "domain_sample \<Rightarrow> bool" where
  "domain_sample_ok s \<longleftrightarrow> 0 < unat (ds_payload_len s) \<and> unat (ds_payload_len s) \<le> DOMAIN_SAMPLE_MAX
     \<and> length (ds_payload s) = DOMAIN_SAMPLE_MAX
     \<and> ip_family_from_abi (ds_ip_family s) = Some V4 \<and> direction_from_abi (ds_direction s) \<noteq> None
     \<and> transport_protocol_from_abi (ds_transport s) \<noteq> None \<and> sample_kind_from_abi (ds_kind s) \<noteq> None"

lemma sampled_set [simp]: "sampled (v\<lparr>fv_service_flags := fv_service_flags v OR SERVICE_SAMPLED_FLAG\<rparr>)"
  by (simp add: sampled_def SERVICE_SAMPLED_FLAG_def word_ao_dist bit.conj_disj_distrib2)

lemma sampled_record [simp]: "sampled (record_packet v flow now len) = sampled v"
  by (simp add: sampled_def)

lemma sampled_default [simp]: "\<not> sampled flow_value_default"
  by (simp add: sampled_def flow_value_default_def)

lemma sample_len_bounds: "0 < limit \<Longrightarrow> 0 < sample_len n limit \<and> sample_len n limit \<le> limit"
  by (auto simp: sample_len_def)

lemma sample_service_step:
  assumes "sample_service e key flow (v, k) = (v', k')" "env_ok e"
  shows "k_service_events k' = k_service_events k \<and> (sampled v \<longrightarrow> sampled v')
    \<or> (\<exists>s. k_service_events k' = k_service_events k @ [s] \<and> ss_key s = key \<and> service_sample_ok s
          \<and> \<not> sampled v \<and> sampled v')"
proof (cases "sampled v")
  case True
  then show ?thesis using assms(1) by (simp add: sample_service_def sampled_def Let_def)
next
  case False
  let ?len = "sample_len (pf_payload_end flow - pf_payload_offset flow) SERVICE_SAMPLE_MAX"
  have l: "0 < ?len" "?len \<le> SERVICE_SAMPLE_MAX"
    using sample_len_bounds [of SERVICE_SAMPLE_MAX] by (simp_all add: SERVICE_SAMPLE_MAX_def)
  then have u: "unat (of_nat ?len :: u16) = ?len"
    by (simp add: unat_of_nat SERVICE_SAMPLE_MAX_def)
  have fl: "(x OR SERVICE_SAMPLED_FLAG) AND SERVICE_SAMPLED_FLAG = SERVICE_SAMPLED_FLAG"
    "SERVICE_SAMPLED_FLAG \<noteq> 0" for x
    by (simp_all add: SERVICE_SAMPLED_FLAG_def word_ao_dist bit.conj_disj_distrib2)
  show ?thesis
    using assms False l u
    by (auto simp: fl sample_service_def Let_def env_ok_def service_sample_ok_def sampled_def
        split: if_splits option.splits)
qed

definition service_inv :: "kernel \<Rightarrow> bool" where
  "service_inv k \<longleftrightarrow> distinct (map ss_key (k_service_events k))
     \<and> (\<forall>s \<in> set (k_service_events k). service_sample_ok s
          \<and> (\<exists>v. k_flow_map k (ss_key s) = Some v \<and> sampled v))"

lemma update_flow_service_inv:
  assumes "service_inv k" "env_ok e" "pe_flow_insert e = plain_insert"
    and "update_flow e key flow k = (recorded, k')"
  shows "service_inv k'"
proof -
  let ?v = "record_packet (case k_flow_map k key of Some v \<Rightarrow> v | None \<Rightarrow> flow_value_default)
      flow (pe_observed_ns e) (ucast (pe_len e))"
  obtain v k1 where s: "sample_service e key flow (?v, k) = (v, k1)"
    by (cases "sample_service e key flow (?v, k)")
  have k': "k' = k1\<lparr>k_flow_map := (k_flow_map k)(key \<mapsto> v)\<rparr>"
    using assms(3,4) s sample_service_value [OF s]
    by (auto simp: update_flow_def Let_def plain_insert_def split: option.splits prod.splits)
  have new: "sampled ?v \<longleftrightarrow> (\<exists>w. k_flow_map k key = Some w \<and> sampled w)"
    by (simp split: option.split)
  from sample_service_step [OF s assms(2)] show ?thesis
    using assms(1) new unfolding service_inv_def k' by auto blast+
qed

lemma process_service_inv:
  assumes "service_inv k" "env_ok e" "pe_flow_insert e = plain_insert"
  shows "service_inv (snd (process e dir k))"
proof (cases rule: process_cases [where e = e and dir = dir and k = k])
  case other
  then show ?thesis using assms(1) by (simp add: process_not_flow service_inv_def)
next
  case (drop flow k1)
  then show ?thesis using assms(1) by (simp add: service_inv_def)
next
  case (pass flow k1 recorded k2)
  have "service_inv k1" using assms(1) by (simp add: pass(2) service_inv_def)
  from update_flow_service_inv [OF this assms(2,3) pass(3)] show ?thesis
    using pass(4) by (simp add: service_inv_def)
qed

text \<open>
  A Flow direction is sampled for its service at most once, and every service sample is
  within its bounds: in any run from the freshly loaded maps whose insertions succeed, no two
  service samples carry the same key, and each holds between 1 and 64 payload bytes.
\<close>

theorem service_sampled_once:
  assumes "list_all (\<lambda>(e, _). env_ok e \<and> pe_flow_insert e = plain_insert) ps"
  shows "distinct (map ss_key (k_service_events (run ps kernel_loaded)))
    \<and> list_all service_sample_ok (k_service_events (run ps kernel_loaded))"
proof -
  have "service_inv k \<Longrightarrow> service_inv (run ps k)" for k
    using assms by (induction ps arbitrary: k) (auto simp: process_service_inv)
  moreover have "service_inv kernel_loaded" by (simp add: service_inv_def kernel_loaded_def)
  ultimately show ?thesis by (simp add: service_inv_def list_all_iff)
qed

lemma sample_env_ok: "env_ok sample_env"
  by (simp add: env_ok_def sample_env_def length_sample_datagram abi_constants)

lemma service_sampled_once_witness:
  "distinct (map ss_key (k_service_events (run [(sample_env, Outbound), (sample_env, Outbound)] kernel_loaded)))"
  using service_sampled_once [of "[(sample_env, Outbound), (sample_env, Outbound)]"] sample_env_ok
  by (simp add: sample_env_def)

lemma emit_domain_sample_step:
  assumes "env_ok e" "transport_protocol_from_abi (pf_protocol flow) \<noteq> None"
  shows "k_domain_events (emit_domain_sample e flow kind address (direction_to_abi dir) k) = k_domain_events k
    \<or> (\<exists>s. k_domain_events (emit_domain_sample e flow kind address (direction_to_abi dir) k)
          = k_domain_events k @ [s] \<and> domain_sample_ok s)"
proof -
  let ?len = "sample_len (pf_payload_end flow - pf_payload_offset flow) DOMAIN_SAMPLE_MAX"
  have l: "0 < ?len" "?len \<le> DOMAIN_SAMPLE_MAX"
    using sample_len_bounds [of DOMAIN_SAMPLE_MAX] by (simp_all add: DOMAIN_SAMPLE_MAX_def)
  then have u: "unat (of_nat ?len :: u16) = ?len"
    by (simp add: unat_of_nat DOMAIN_SAMPLE_MAX_def)
  show ?thesis
    using assms l u
    by (auto simp: emit_domain_sample_def Let_def env_ok_def domain_sample_ok_def ip_family_abi.from_to
        direction_abi.from_to sample_kind_abi.from_to simp del: ip_family_to_abi.simps
        split: option.split)
qed

lemma parse_flow_protocol: "parse c = Flow f \<Longrightarrow> transport_protocol_from_abi (pf_protocol f) \<noteq> None"
  by (elim parse_flow parse_ipv4_flow, drule parse_transport_flow(5))
    (auto simp: IpProto_Tcp_def IpProto_Udp_def transport_protocol_from_abi_def)

text \<open>
  Every domain sample the kernel emits is one user space will parse: its family, direction,
  transport and kind decode, and its length is between 1 and 512.
\<close>

theorem domain_samples_decodable:
  assumes "list_all (\<lambda>(e, _). env_ok e) ps" "list_all domain_sample_ok (k_domain_events k)"
  shows "list_all domain_sample_ok (k_domain_events (run ps k))"
  using assms
proof (induction ps arbitrary: k)
  case (Cons p ps)
  obtain e dir where p: "p = (e, dir)" by (cases p)
  have e: "env_ok e" using Cons.prems(1) by (simp add: p)
  have "list_all domain_sample_ok (k_domain_events (snd (process e dir k)))"
  proof (cases rule: process_cases [where e = e and dir = dir and k = k])
    case (pass flow k1 recorded k2)
    have "k_domain_events k2 = k_domain_events k"
      using pass(2,3) by (auto simp: update_flow_def Let_def dest!: sample_service_value split: option.splits prod.splits)
    then have "list_all domain_sample_ok
        (k_domain_events (emit_domain_sample e flow kind address (direction_to_abi dir) k2))" for kind address
      using emit_domain_sample_step [OF e parse_flow_protocol [OF pass(1)], of kind address dir k2] Cons.prems(2)
      by auto
    then show ?thesis
      using pass(4) Cons.prems(2) \<open>k_domain_events k2 = k_domain_events k\<close>
      by (cases recorded; cases "domain_kind flow (direction_to_abi dir) (pe_load e)")
        (simp_all add: sample_domains_def split del: if_split)
  qed (use Cons.prems(2) in \<open>simp_all add: process_not_flow\<close>)
  with Cons show ?case by (simp add: p)
qed simp

lemma domain_samples_decodable_witness:
  "list_all domain_sample_ok (k_domain_events (run [(sample_env, Outbound)] kernel_loaded))"
  using domain_samples_decodable [of "[(sample_env, Outbound)]" kernel_loaded] sample_env_ok
  by (simp add: kernel_loaded_def)

end
