(* ===== verification/Tracker.thy ===== *)
theory Tracker
  imports Owner Tc Model "HOL-Library.AList"
begin

text \<open>
  Flow reconciliation, \<^verbatim>\<open>collector/tracker.rs\<close>: the clock that maps kernel time to
  instants, the merge of the per-CPU values of a map entry, the join with socket owners, and the
  state kept for every flow between polls, from which the reported deltas and lifecycle come.
  Hash maps are association lists with distinct keys; their order is the order of iteration. The
  value of \<^verbatim>\<open>Instant::now()\<close> is an argument.
\<close>

section \<open>Clock\<close>

definition INSTANT_LIMIT :: int where "INSTANT_LIMIT = 2 ^ 63 * 1000000000"

text \<open>\<^verbatim>\<open>checked_add\<close> and \<^verbatim>\<open>checked_sub\<close>: the seconds of an instant are an \<^verbatim>\<open>i64\<close>.\<close>

definition instant_checked :: "instant \<Rightarrow> instant option" where
  "instant_checked t = (if - INSTANT_LIMIT \<le> t \<and> t < INSTANT_LIMIT then Some t else None)"

definition saturating_duration_since :: "instant \<Rightarrow> instant \<Rightarrow> duration" where
  "saturating_duration_since a b = nat (a - b)"

definition DURATION_MAX :: duration where "DURATION_MAX = (2 ^ 64 - 1) * 1000000000 + 999999999"

definition duration_mul :: "duration \<Rightarrow> nat \<Rightarrow> duration" where
  "duration_mul d n = min (d * n) DURATION_MAX"

definition seconds :: "nat \<Rightarrow> duration" where "seconds n = n * 1000000000"

type_synonym mono_clock = "(u64 \<times> instant) option"

definition anchor_if_needed :: "u64 \<Rightarrow> instant \<Rightarrow> mono_clock \<Rightarrow> mono_clock" where
  "anchor_if_needed mono_ns at clock = (if clock = None then Some (mono_ns, at) else clock)"

definition to_instant :: "instant \<Rightarrow> mono_clock \<Rightarrow> u64 \<Rightarrow> instant" where
  "to_instant wall clock mono_ns =
     (case clock of
        None \<Rightarrow> wall
      | Some (base_ns, base) \<Rightarrow>
          if base_ns \<le> mono_ns
          then (case instant_checked (base + int (unat (mono_ns - base_ns))) of Some t \<Rightarrow> t | None \<Rightarrow> base)
          else (case instant_checked (base - int (unat (base_ns - mono_ns))) of Some t \<Rightarrow> t | None \<Rightarrow> base))"

section \<open>State\<close>

record merged_flow =
  mf_key :: flow_key
  mf_total :: traffic_counters
  mf_first_seen_ns :: u64
  mf_last_seen_ns :: u64
  mf_tcp_flags :: u16

record previous_flow =
  pv_total :: traffic_counters
  pv_first_seen :: instant
  pv_last_seen :: instant
  pv_last_seen_ns :: u64
  pv_tcp_flags :: u16
  pv_state :: flow_state
  pv_generation :: u64
  pv_service :: "string option"
  pv_application :: "application_ref option"

record owner_record =
  or_application :: application_ref
  or_observed_at :: instant

definition OWNER_CACHE_CAPACITY :: nat where "OWNER_CACHE_CAPACITY = 65536"
definition TCP_FIN :: u16 where "TCP_FIN = 1"
definition TCP_RST :: u16 where "TCP_RST = 4"

record flow_tracker =
  ft_previous :: "(flow_key \<times> previous_flow) list"
  ft_pending_services :: "(flow_key \<times> string) list"
  ft_owners :: "(abi_owner_key \<times> owner_record) list"
  ft_listeners :: "(abi_owner_key \<times> owner_record) list"
  ft_owner_retention :: duration
  ft_idle_timeout :: duration
  ft_generation :: u64
  ft_clock :: mono_clock
  ft_merged :: "merged_flow list"

definition flow_tracker_new :: "duration \<Rightarrow> flow_tracker" where
  "flow_tracker_new idle_timeout =
     \<lparr>ft_previous = [], ft_pending_services = [], ft_owners = [], ft_listeners = [],
      ft_owner_retention = max (duration_mul idle_timeout 2) (seconds 30),
      ft_idle_timeout = idle_timeout, ft_generation = 0, ft_clock = None, ft_merged = []\<rparr>"

section \<open>Keys and owners\<close>

definition decode_key :: "abi_flow_key \<Rightarrow> flow_key option" where
  "decode_key key =
     (case flow_direction_from_abi (fk_direction key) of None \<Rightarrow> None | Some direction \<Rightarrow>
     (case protocol_from_abi (fk_protocol key) of None \<Rightarrow> None | Some protocol \<Rightarrow>
      if fk_ip_family key \<noteq> ip_family_to_abi V4 then None
      else if fk_ifindex key = 0 then None
      else Some
        \<lparr>key_source = \<lparr>ep_address = IpV4 (ipv4_from_abi (fk_src_addr key)), ep_port = Some (swap16 (fk_src_port_be key))\<rparr>,
         key_destination = \<lparr>ep_address = IpV4 (ipv4_from_abi (fk_dst_addr key)), ep_port = Some (swap16 (fk_dst_port_be key))\<rparr>,
         key_interface_index = fk_ifindex key, key_protocol = protocol, key_direction = direction\<rparr>))"

definition application_ref_of :: "abi_owner_value \<Rightarrow> application_ref option" where
  "application_ref_of value =
     (if ov_tgid value = 0 then None
      else Some \<lparr>app_tgid = ov_tgid value, app_uid = ov_uid value, app_cgroup_id = ov_cgroup_id value,
                 app_comm = comm_text (ov_comm value)\<rparr>)"

definition join_key :: "u8 \<Rightarrow> owner_kind \<Rightarrow> u16 \<Rightarrow> ip_addr \<Rightarrow> u16 option \<Rightarrow> abi_owner_key" where
  "join_key protocol kind local_port remote remote_port =
     (let (remote_addr, ip_family) = ip_storage remote in
      \<lparr>ok_remote_addr = remote_addr,
       ok_remote_port_be = (case remote_port of Some p \<Rightarrow> swap16 p | None \<Rightarrow> 0),
       ok_local_port_be = swap16 local_port, ok_protocol = protocol, ok_kind = owner_kind_to_abi kind,
       ok_ip_family = ip_family_to_abi ip_family, ok_reserved = 0\<rparr>)"

definition record_owner :: "abi_owner_key \<Rightarrow> abi_owner_value \<Rightarrow> instant \<Rightarrow> flow_tracker \<Rightarrow> flow_tracker" where
  "record_owner key value observed_at t =
     (case owner_kind_from_abi (ok_kind key) of
        None \<Rightarrow> t
      | Some kind \<Rightarrow>
     (case application_ref_of value of
        None \<Rightarrow> t
      | Some application \<Rightarrow>
          let entry = \<lparr>or_application = application, or_observed_at = observed_at\<rparr> in
          (case kind of
             Socket \<Rightarrow> t\<lparr>ft_owners := AList.update key entry (ft_owners t)\<rparr>
           | Listener \<Rightarrow> t\<lparr>ft_listeners := AList.update key entry (ft_listeners t)\<rparr>)))"

fun protocol_number :: "protocol \<Rightarrow> u8" where
  "protocol_number ProtoTcp = transport_protocol_to_abi Tcp"
| "protocol_number ProtoUdp = transport_protocol_to_abi Udp"

text \<open>The local port and the remote endpoint of a flow, seen from its direction.\<close>

definition flow_sides :: "flow_key \<Rightarrow> (u16 \<times> ip_addr \<times> u16 option) option" where
  "flow_sides key =
     (case key_direction key of
        FlowOutbound \<Rightarrow> map_option
          (\<lambda>port. (port, ep_address (key_destination key), ep_port (key_destination key))) (ep_port (key_source key))
      | FlowInbound \<Rightarrow> map_option
          (\<lambda>port. (port, ep_address (key_source key), ep_port (key_source key))) (ep_port (key_destination key)))"

definition resolve_application :: "flow_tracker \<Rightarrow> flow_key \<Rightarrow> application_ref option" where
  "resolve_application t key =
     (case flow_sides key of
        None \<Rightarrow> None
      | Some (local_port, remote_address, remote_port) \<Rightarrow>
          let protocol = protocol_number (key_protocol key);
              listener = map_option or_application (map_of (ft_listeners t)
                (join_key protocol Listener local_port (IpV4 (Ipv4 0 0 0 0)) None)) in
          (case map_of (ft_owners t) (join_key protocol Socket local_port remote_address remote_port) of
             Some entry \<Rightarrow> Some (or_application entry)
           | None \<Rightarrow>
               if key_protocol key = ProtoUdp then
                 (case map_of (ft_owners t)
                     (join_key (transport_protocol_to_abi Udp) Socket 0 remote_address remote_port) of
                    Some entry \<Rightarrow> Some (or_application entry)
                  | None \<Rightarrow> listener)
               else listener))"

definition purge_owners :: "instant \<Rightarrow> flow_tracker \<Rightarrow> flow_tracker" where
  "purge_owners now t =
     (let fresh = (\<lambda>(_, entry). saturating_duration_since now (or_observed_at entry) < ft_owner_retention t);
          owners = filter fresh (ft_owners t);
          listeners = filter fresh (ft_listeners t) in
      t\<lparr>ft_owners := if OWNER_CACHE_CAPACITY < length owners then [] else owners,
        ft_listeners := if OWNER_CACHE_CAPACITY < length listeners then [] else listeners\<rparr>)"

definition set_service :: "flow_key \<Rightarrow> string \<Rightarrow> flow_tracker \<Rightarrow> flow_tracker" where
  "set_service key service t =
     (case map_of (ft_previous t) key of
        Some previous \<Rightarrow> t\<lparr>ft_previous := AList.update key (previous\<lparr>pv_service := Some service\<rparr>) (ft_previous t)\<rparr>
      | None \<Rightarrow>
          if length (ft_pending_services t) < 65536
          then t\<lparr>ft_pending_services := AList.update key service (ft_pending_services t)\<rparr>
          else t)"

section \<open>Merging the per-CPU values\<close>

fun merge_values :: "abi_flow_value list \<Rightarrow> u64 \<times> u64 \<times> u64 \<times> u64 \<times> u16 \<Rightarrow> u64 \<times> u64 \<times> u64 \<times> u64 \<times> u16" where
  "merge_values [] acc = acc"
| "merge_values (v # vs) (packets, bytes, first_seen, last_seen, flags) =
     merge_values vs
       (sat_add packets (fv_packets v), sat_add bytes (fv_bytes v),
        if 0 < fv_packets v \<and> (first_seen = 0 \<or> fv_first_seen_mono_ns v < first_seen)
        then fv_first_seen_mono_ns v else first_seen,
        max last_seen (fv_last_seen_mono_ns v), flags OR fv_tcp_flags v)"

definition merge_entry :: "abi_flow_key \<Rightarrow> abi_flow_value list \<Rightarrow> merged_flow option" where
  "merge_entry key values =
     (if values = [] then None else
      let (packets, bytes, first_seen_ns, last_seen_ns, tcp_flags) = merge_values values (0, 0, 0, 0, 0) in
      (case decode_key key of
         None \<Rightarrow> None
       | Some k \<Rightarrow> Some \<lparr>mf_key = k, mf_total = \<lparr>tc_packets = packets, tc_bytes = bytes\<rparr>,
           mf_first_seen_ns = first_seen_ns, mf_last_seen_ns = last_seen_ns, mf_tcp_flags = tcp_flags\<rparr>))"

section \<open>Observation\<close>

definition recreated :: "merged_flow \<Rightarrow> previous_flow \<Rightarrow> bool" where
  "recreated m p \<longleftrightarrow>
     tc_packets (mf_total m) < tc_packets (pv_total p) \<or> tc_bytes (mf_total m) < tc_bytes (pv_total p)"

definition observed_delta :: "merged_flow \<Rightarrow> previous_flow \<Rightarrow> traffic_counters" where
  "observed_delta m p =
     (if recreated m p then mf_total m
      else \<lparr>tc_packets = sat_sub (tc_packets (mf_total m)) (tc_packets (pv_total p)),
            tc_bytes = sat_sub (tc_bytes (mf_total m)) (tc_bytes (pv_total p))\<rparr>)"

definition gained :: "u16 \<Rightarrow> merged_flow \<Rightarrow> previous_flow \<Rightarrow> bool" where
  "gained flag m p \<longleftrightarrow> mf_tcp_flags m AND flag \<noteq> 0 \<and> pv_tcp_flags p AND flag = 0"

definition observed_state :: "merged_flow \<Rightarrow> previous_flow \<Rightarrow> bool \<Rightarrow> flow_state" where
  "observed_state m p idle =
     (if gained TCP_RST m p then Ended TcpReset
      else if gained TCP_FIN m p then Ended TcpFin
      else if idle then Ended IdleTimeout
      else Active)"

definition new_previous ::
  "merged_flow \<Rightarrow> instant \<Rightarrow> instant \<Rightarrow> u64 \<Rightarrow> string option \<Rightarrow> application_ref option \<Rightarrow> previous_flow" where
  "new_previous m first_seen last_seen generation service application =
     \<lparr>pv_total = mf_total m, pv_first_seen = first_seen, pv_last_seen = last_seen,
      pv_last_seen_ns = mf_last_seen_ns m, pv_tcp_flags = mf_tcp_flags m, pv_state = Active,
      pv_generation = generation, pv_service = service, pv_application = application\<rparr>"

definition update_of :: "flow_key \<Rightarrow> traffic_counters \<Rightarrow> previous_flow \<Rightarrow> flow_update" where
  "update_of key delta p =
     \<lparr>fu_key = key, fu_delta = delta, fu_total = pv_total p, fu_first_seen = pv_first_seen p,
      fu_last_seen = pv_last_seen p, fu_state = pv_state p, fu_service = pv_service p,
      fu_application = pv_application p\<rparr>"

definition observe :: "instant \<Rightarrow> merged_flow \<Rightarrow> instant \<Rightarrow> u64 \<Rightarrow> flow_tracker \<Rightarrow> flow_update option \<times> flow_tracker" where
  "observe wall m now generation t =
     (let first_seen = to_instant wall (ft_clock t) (mf_first_seen_ns m);
          last_seen = to_instant wall (ft_clock t) (mf_last_seen_ns m);
          application = resolve_application t (mf_key m) in
      case map_of (ft_previous t) (mf_key m) of
        None \<Rightarrow>
          let service = map_of (ft_pending_services t) (mf_key m);
              p = new_previous m first_seen last_seen generation service application in
          (Some (update_of (mf_key m) (mf_total m) p),
           t\<lparr>ft_pending_services := AList.delete (mf_key m) (ft_pending_services t),
             ft_previous := AList.update (mf_key m) p (ft_previous t)\<rparr>)
      | Some p0 \<Rightarrow>
          let p = p0\<lparr>pv_application := (if pv_application p0 = None then application else pv_application p0),
                    pv_generation := generation\<rparr>;
              active = (recreated m p \<or> pv_last_seen_ns p < mf_last_seen_ns m) in
          if \<not> active \<and> pv_state p \<noteq> Active
          then (None, t\<lparr>ft_previous := AList.update (mf_key m) p (ft_previous t)\<rparr>)
          else
            let delta = observed_delta m p;
                idle = (\<not> active \<and> ft_idle_timeout t \<le> saturating_duration_since now (pv_last_seen p));
                p' = p\<lparr>pv_total := mf_total m,
                      pv_first_seen := (if recreated m p then first_seen else pv_first_seen p),
                      pv_last_seen := last_seen, pv_last_seen_ns := mf_last_seen_ns m,
                      pv_tcp_flags := mf_tcp_flags m, pv_state := observed_state m p idle\<rparr> in
            (Some (update_of (mf_key m) delta p'),
             t\<lparr>ft_previous := AList.update (mf_key m) p' (ft_previous t)\<rparr>))"

fun observe_all :: "instant \<Rightarrow> merged_flow list \<Rightarrow> instant \<Rightarrow> u64 \<Rightarrow> flow_tracker \<Rightarrow> flow_update list \<times> flow_tracker" where
  "observe_all wall [] now generation t = ([], t)"
| "observe_all wall (m # ms) now generation t =
     (let (u, t) = observe wall m now generation t;
          (us, t) = observe_all wall ms now generation t in
      ((case u of None \<Rightarrow> us | Some u \<Rightarrow> u # us), t))"

section \<open>Ageing\<close>

datatype retention = Keep | Forget | CloseFlow

definition retain_flow :: "duration \<Rightarrow> instant \<Rightarrow> u64 \<Rightarrow> previous_flow \<Rightarrow> retention" where
  "retain_flow idle_timeout now generation p =
     (let age = saturating_duration_since now (pv_last_seen p) in
      if pv_generation p = generation then Keep
      else if pv_state p \<noteq> Active then
        (if age < max (duration_mul idle_timeout 4) (seconds 120) then Keep else Forget)
      else if age < idle_timeout then Keep
      else CloseFlow)"

definition closing_update :: "flow_key \<Rightarrow> previous_flow \<Rightarrow> flow_update" where
  "closing_update key p = update_of key traffic_counters_default (p\<lparr>pv_state := Ended EvictedOrUnknown\<rparr>)"

definition reconcile :: "instant \<Rightarrow> instant \<Rightarrow> flow_tracker \<Rightarrow> flow_update list \<times> flow_tracker" where
  "reconcile wall now t =
     (let generation = ft_generation t + 1;
          merged = ft_merged t;
          clock = (if merged = [] then ft_clock t
                   else anchor_if_needed (fold max (map mf_last_seen_ns merged) 0) now (ft_clock t));
          t = t\<lparr>ft_generation := generation, ft_clock := clock, ft_merged := []\<rparr>;
          (updates, t) = observe_all wall merged now generation t;
          verdict = (\<lambda>(_, p). retain_flow (ft_idle_timeout t) now generation p);
          closed = map (\<lambda>(key, p). closing_update key p) (filter (\<lambda>e. verdict e = CloseFlow) (ft_previous t));
          t = t\<lparr>ft_previous := filter (\<lambda>e. verdict e = Keep) (ft_previous t)\<rparr> in
      (updates @ closed, purge_owners now t))"

section \<open>Merged totals\<close>

lemma merge_values_fields:
  "merge_values vs (p, b, f, l, g) = (p', b', f', l', g') \<Longrightarrow>
     unat p' = min (unat p + (\<Sum>v\<leftarrow>vs. unat (fv_packets v))) (2 ^ 64 - 1)
     \<and> unat b' = min (unat b + (\<Sum>v\<leftarrow>vs. unat (fv_bytes v))) (2 ^ 64 - 1)
     \<and> l \<le> l' \<and> (\<forall>v \<in> set vs. fv_last_seen_mono_ns v \<le> l') \<and> (l' = l \<or> l' \<in> fv_last_seen_mono_ns ` set vs)
     \<and> (f' = f \<or> (\<exists>v \<in> set vs. 0 < fv_packets v \<and> f' = fv_first_seen_mono_ns v))
     \<and> ((\<forall>v \<in> set vs. 0 < fv_packets v \<longrightarrow> fv_first_seen_mono_ns v \<noteq> 0) \<longrightarrow>
          (f \<noteq> 0 \<longrightarrow> f' \<noteq> 0 \<and> f' \<le> f) \<and> (\<forall>v \<in> set vs. 0 < fv_packets v \<longrightarrow> f' \<noteq> 0 \<and> f' \<le> fv_first_seen_mono_ns v))"
proof (induction vs arbitrary: p b f l g)
  case Nil
  then show ?case using unat_le_max [of p] unat_le_max [of b] by auto
next
  case (Cons v vs)
  let ?f = "if 0 < fv_packets v \<and> (f = 0 \<or> fv_first_seen_mono_ns v < f) then fv_first_seen_mono_ns v else f"
  have "merge_values vs (sat_add p (fv_packets v), sat_add b (fv_bytes v), ?f, max l (fv_last_seen_mono_ns v),
      g OR fv_tcp_flags v) = (p', b', f', l', g')"
    using Cons.prems by simp
  note IH = Cons.IH [OF this]
  show ?case
  proof (intro conjI)
    show "unat p' = min (unat p + (\<Sum>v\<leftarrow>v # vs. unat (fv_packets v))) (2 ^ 64 - 1)"
      using IH by (auto simp: unat_sat_add)
    show "unat b' = min (unat b + (\<Sum>v\<leftarrow>v # vs. unat (fv_bytes v))) (2 ^ 64 - 1)"
      using IH by (auto simp: unat_sat_add)
    show "l \<le> l'" "\<forall>v \<in> set (v # vs). fv_last_seen_mono_ns v \<le> l'"
      "l' = l \<or> l' \<in> fv_last_seen_mono_ns ` set (v # vs)"
      using IH by (auto simp: max_def split: if_splits)
    show "f' = f \<or> (\<exists>v \<in> set (v # vs). 0 < fv_packets v \<and> f' = fv_first_seen_mono_ns v)"
      using IH by (auto split: if_splits)
    show "(\<forall>v \<in> set (v # vs). 0 < fv_packets v \<longrightarrow> fv_first_seen_mono_ns v \<noteq> 0) \<longrightarrow>
          (f \<noteq> 0 \<longrightarrow> f' \<noteq> 0 \<and> f' \<le> f)
          \<and> (\<forall>v \<in> set (v # vs). 0 < fv_packets v \<longrightarrow> f' \<noteq> 0 \<and> f' \<le> fv_first_seen_mono_ns v)"
      using IH by (auto split: if_splits)
  qed
qed

lemma merge_entry_Some: "decode_key key \<noteq> None \<Longrightarrow> values \<noteq> [] \<Longrightarrow> merge_entry key values \<noteq> None"
  by (auto simp: merge_entry_def Let_def split: prod.split)

text \<open>
  A merged flow has the traffic of all CPUs: its packets and bytes are the sums of the per-CPU
  counters (up to saturation), its last sighting is the latest, and its first sighting is the
  earliest among the CPUs that saw a packet, whatever the untouched slots hold.
\<close>

theorem merged_flow_totals:
  assumes "merge_entry key values = Some m"
    and "\<forall>v \<in> set values. 0 < fv_packets v \<longrightarrow> fv_first_seen_mono_ns v \<noteq> 0"
  shows "unat (tc_packets (mf_total m)) = min (\<Sum>v\<leftarrow>values. unat (fv_packets v)) (2 ^ 64 - 1)
    \<and> unat (tc_bytes (mf_total m)) = min (\<Sum>v\<leftarrow>values. unat (fv_bytes v)) (2 ^ 64 - 1)
    \<and> mf_last_seen_ns m = Max (fv_last_seen_mono_ns ` set values)
    \<and> ((\<exists>v \<in> set values. 0 < fv_packets v) \<longrightarrow>
        mf_first_seen_ns m = Min (fv_first_seen_mono_ns ` {v \<in> set values. 0 < fv_packets v}))"
proof -
  obtain p b f l g where r: "merge_values values (0, 0, 0, 0, 0) = (p, b, f, l, g)" by (metis surj_pair)
  have ne: "values \<noteq> []" and m: "mf_total m = \<lparr>tc_packets = p, tc_bytes = b\<rparr>" "mf_last_seen_ns m = l"
    "mf_first_seen_ns m = f"
    using assms(1) r by (auto simp: merge_entry_def split: if_splits option.splits)
  note F = merge_values_fields [OF r]
  have "l \<in> fv_last_seen_mono_ns ` set values"
  proof (cases "l = 0")
    case True
    obtain v where v: "v \<in> set values" using ne by (cases "values") auto
    then have "fv_last_seen_mono_ns v = l" using F True by auto
    then show ?thesis using v by blast
  qed (use F in auto)
  then have "l = Max (fv_last_seen_mono_ns ` set values)" using F by (intro Max_eqI [symmetric]) auto
  moreover have "f = Min (fv_first_seen_mono_ns ` {v \<in> set values. 0 < fv_packets v})"
    if ex: "\<exists>v \<in> set values. 0 < fv_packets v"
  proof -
    have "f \<noteq> 0" "\<forall>v \<in> set values. 0 < fv_packets v \<longrightarrow> f \<le> fv_first_seen_mono_ns v" using F ex assms(2) by blast+
    moreover from this have "\<exists>v \<in> set values. 0 < fv_packets v \<and> f = fv_first_seen_mono_ns v" using F by blast
    ultimately show ?thesis by (intro Min_eqI [symmetric]) auto
  qed
  ultimately show ?thesis using F m by auto
qed

section \<open>Deltas\<close>

text \<open>What the tracker has accounted for a flow, and what a list of updates reports of it.\<close>

definition account :: "(traffic_counters \<Rightarrow> u64) \<Rightarrow> flow_key \<Rightarrow> flow_tracker \<Rightarrow> nat" where
  "account f key t = (case map_of (ft_previous t) key of None \<Rightarrow> 0 | Some p \<Rightarrow> unat (f (pv_total p)))"

definition reported :: "(traffic_counters \<Rightarrow> u64) \<Rightarrow> flow_key \<Rightarrow> flow_update list \<Rightarrow> nat" where
  "reported f key us = (\<Sum>u\<leftarrow>us. if fu_key u = key then unat (f (fu_delta u)) else 0)"

definition counts_on :: "flow_key \<Rightarrow> flow_tracker \<Rightarrow> merged_flow \<Rightarrow> bool" where
  "counts_on key t m \<longleftrightarrow> account tc_packets key t \<le> unat (tc_packets (mf_total m))
     \<and> account tc_bytes key t \<le> unat (tc_bytes (mf_total m))"

lemma reported_simps [simp]:
  "reported f key [] = 0"
  "reported f key (u # us) = (if fu_key u = key then unat (f (fu_delta u)) else 0) + reported f key us"
  "reported f key (us @ vs) = reported f key us + reported f key vs"
  by (simp_all add: reported_def)

lemma update_of_simps [simp]:
  "fu_key (update_of key d p) = key" "fu_delta (update_of key d p) = d" "fu_total (update_of key d p) = pv_total p"
  "fu_state (update_of key d p) = pv_state p" "fu_application (update_of key d p) = pv_application p"
  "fu_service (update_of key d p) = pv_service p"
  by (simp_all add: update_of_def)

lemma new_previous_simps [simp]:
  "pv_total (new_previous m a b g s ap) = mf_total m" "pv_generation (new_previous m a b g s ap) = g"
  "pv_state (new_previous m a b g s ap) = Active" "pv_last_seen_ns (new_previous m a b g s ap) = mf_last_seen_ns m"
  "pv_application (new_previous m a b g s ap) = ap" "pv_service (new_previous m a b g s ap) = s"
  by (simp_all add: new_previous_def)

lemma observe_frame:
  assumes "observe wall m now g t = (u, t')"
  shows "key \<noteq> mf_key m \<Longrightarrow> map_of (ft_previous t') key = map_of (ft_previous t) key"
    "\<exists>p. map_of (ft_previous t') (mf_key m) = Some p \<and> pv_generation p = g"
    "u = Some u' \<Longrightarrow> fu_key u' = mf_key m"
    "distinct (map fst (ft_previous t)) \<Longrightarrow> distinct (map fst (ft_previous t'))"
    "ft_idle_timeout t' = ft_idle_timeout t" "ft_generation t' = ft_generation t" "ft_clock t' = ft_clock t"
    "ft_owners t' = ft_owners t" "ft_listeners t' = ft_listeners t"
  using assms
  by (auto simp: observe_def Let_def update_conv' distinct_update split: option.splits if_splits)

lemma observe_delta:
  assumes "observe wall m now g t = (u, t')" "counts_on (mf_key m) t m" "f \<in> {tc_packets, tc_bytes}"
  shows "account f (mf_key m) t' = account f (mf_key m) t + (case u of None \<Rightarrow> 0 | Some u \<Rightarrow> unat (f (fu_delta u)))"
    "account f (mf_key m) t' \<le> unat (f (mf_total m))"
proof -
  have "account f (mf_key m) t' = account f (mf_key m) t + (case u of None \<Rightarrow> 0 | Some u \<Rightarrow> unat (f (fu_delta u)))
    \<and> account f (mf_key m) t' \<le> unat (f (mf_total m))"
  proof (cases "map_of (ft_previous t) (mf_key m)")
    case None
    then show ?thesis using assms by (auto simp: observe_def Let_def account_def update_conv')
  next
    case (Some p)
    then have le: "unat (tc_packets (pv_total p)) \<le> unat (tc_packets (mf_total m))"
      "unat (tc_bytes (pv_total p)) \<le> unat (tc_bytes (mf_total m))"
      using assms(2) by (simp_all add: counts_on_def account_def)
    then have nr: "\<not> recreated m (p\<lparr>pv_application := a, pv_generation := g\<rparr>)" for a
      by (simp add: recreated_def word_less_nat_alt)
    show ?thesis
      using assms(1,3) Some le
      by (auto simp: observe_def Let_def account_def update_conv' nr observed_delta_def unat_sat_sub
          split: if_splits)
  qed
  then show "account f (mf_key m) t' = account f (mf_key m) t + (case u of None \<Rightarrow> 0 | Some u \<Rightarrow> unat (f (fu_delta u)))"
    "account f (mf_key m) t' \<le> unat (f (mf_total m))" by blast+
qed

lemma observe_all_frame:
  "observe_all wall ms now g t = (us, t') \<Longrightarrow>
     (key \<notin> mf_key ` set ms \<longrightarrow> map_of (ft_previous t') key = map_of (ft_previous t) key \<and> reported f key us = 0)
     \<and> (distinct (map fst (ft_previous t)) \<longrightarrow> distinct (map fst (ft_previous t')))
     \<and> ft_idle_timeout t' = ft_idle_timeout t \<and> ft_generation t' = ft_generation t \<and> ft_clock t' = ft_clock t
     \<and> ft_owners t' = ft_owners t \<and> ft_listeners t' = ft_listeners t"
proof (induction ms arbitrary: t us)
  case (Cons m ms)
  obtain u t1 where o1: "observe wall m now g t = (u, t1)" by (cases "observe wall m now g t")
  obtain vs t2 where o2: "observe_all wall ms now g t1 = (vs, t2)" by (cases "observe_all wall ms now g t1")
  have r: "t' = t2" "us = (case u of None \<Rightarrow> vs | Some u \<Rightarrow> u # vs)" using Cons.prems o1 o2 by simp_all
  show ?case using Cons.IH [OF o2 [folded r(1)]] observe_frame [OF o1] unfolding r by (auto split: option.split)
qed simp

lemma observe_all_delta:
  assumes "observe_all wall ms now g t = (us, t')" "distinct (map mf_key ms)" "m \<in> set ms"
    and "counts_on (mf_key m) t m" "f \<in> {tc_packets, tc_bytes}"
  shows "account f (mf_key m) t' = account f (mf_key m) t + reported f (mf_key m) us
    \<and> account f (mf_key m) t' \<le> unat (f (mf_total m))
    \<and> (\<exists>p. map_of (ft_previous t') (mf_key m) = Some p \<and> pv_generation p = g)"
  using assms
proof (induction ms arbitrary: t us)
  case (Cons m0 ms)
  obtain u t1 where o1: "observe wall m0 now g t = (u, t1)" by (cases "observe wall m0 now g t")
  obtain vs t2 where o2: "observe_all wall ms now g t1 = (vs, t2)" by (cases "observe_all wall ms now g t1")
  have r: "t' = t2" "us = (case u of None \<Rightarrow> vs | Some u \<Rightarrow> u # vs)" using Cons.prems o1 o2 by simp_all
  show ?case
  proof (cases "m0 = m")
    case True
    then have k: "mf_key m \<notin> mf_key ` set ms" using Cons.prems(2) by force
    have "map_of (ft_previous t') (mf_key m) = map_of (ft_previous t1) (mf_key m)" "reported f (mf_key m) vs = 0"
      using observe_all_frame [OF o2, of "mf_key m"] k r by auto
    then show ?thesis
      using observe_delta [OF o1 [unfolded True] Cons.prems(4,5)] observe_frame(2,3) [OF o1 [unfolded True]] r
      by (auto simp: account_def split: option.splits)
  next
    case False
    then have ne: "mf_key m0 \<noteq> mf_key m" and m: "m \<in> set ms" using Cons.prems(2,3) by force+
    have a: "account h (mf_key m) t1 = account h (mf_key m) t" for h
      using observe_frame(1) [OF o1 ne [symmetric]] by (simp add: account_def)
    have "counts_on (mf_key m) t1 m" using Cons.prems(4) by (simp add: counts_on_def a)
    then show ?thesis
      using Cons.IH [OF o2 [folded r(1)] _ m] Cons.prems(2,5) observe_frame(3) [OF o1] ne r a by (auto split: option.split)
  qed
qed simp

lemma map_of_retain:
  "distinct (map fst m) \<Longrightarrow>
     map_of (filter P m) key = Option.bind (map_of m key) (\<lambda>v. if P (key, v) then Some v else None)"
proof (induction m)
  case (Cons e m)
  then have "map_of m (fst e) = None" by (simp add: map_of_eq_None_iff)
  with Cons show ?case by (cases e) auto
qed simp

lemma purge_owners_frame [simp]:
  "ft_previous (purge_owners now t) = ft_previous t" "ft_idle_timeout (purge_owners now t) = ft_idle_timeout t"
  "ft_pending_services (purge_owners now t) = ft_pending_services t" "ft_clock (purge_owners now t) = ft_clock t"
  "ft_generation (purge_owners now t) = ft_generation t" "ft_merged (purge_owners now t) = ft_merged t"
  by (simp_all add: purge_owners_def Let_def)

lemma account_purge [simp]: "account f key (purge_owners now t) = account f key t"
  by (simp add: account_def)

lemma reconcile_delta:
  assumes "reconcile wall now t = (us, t')" "distinct (map fst (ft_previous t))"
    and "distinct (map mf_key (ft_merged t))" "m \<in> set (ft_merged t)"
    and "counts_on (mf_key m) t m" "f \<in> {tc_packets, tc_bytes}"
  shows "account f (mf_key m) t' = account f (mf_key m) t + reported f (mf_key m) us
    \<and> account f (mf_key m) t' \<le> unat (f (mf_total m)) \<and> distinct (map fst (ft_previous t'))"
proof -
  let ?g = "ft_generation t + 1" let ?key = "mf_key m"
  let ?clock = "if ft_merged t = [] then ft_clock t
     else anchor_if_needed (fold max (map mf_last_seen_ns (ft_merged t)) 0) now (ft_clock t)"
  let ?t = "t\<lparr>ft_generation := ?g, ft_clock := ?clock, ft_merged := []\<rparr>"
  obtain vs t1 where o: "observe_all wall (ft_merged t) now ?g ?t = (vs, t1)"
    by (cases "observe_all wall (ft_merged t) now ?g ?t")
  let ?verdict = "\<lambda>(_, p). retain_flow (ft_idle_timeout t1) now ?g p"
  let ?closed = "filter (\<lambda>e. ?verdict e = CloseFlow) (ft_previous t1)"
  have us: "us = vs @ map (\<lambda>(key, p). closing_update key p) ?closed"
    and t': "t' = purge_owners now (t1\<lparr>ft_previous := filter (\<lambda>e. ?verdict e = Keep) (ft_previous t1)\<rparr>)"
    using assms(1) o by (auto simp: reconcile_def Let_def)
  have c: "counts_on ?key ?t m" using assms(5) by (simp add: counts_on_def account_def)
  have acc: "account h k ?t = account h k t" for h k by (simp add: account_def)
  obtain p where p: "map_of (ft_previous t1) ?key = Some p" "pv_generation p = ?g"
    and a: "account f ?key t1 = account f ?key t + reported f ?key vs" "account f ?key t1 \<le> unat (f (mf_total m))"
    using observe_all_delta [OF o assms(3,4) c assms(6)] acc by auto
  have d: "distinct (map fst (ft_previous t1))" using observe_all_frame [OF o] assms(2) by simp
  have "account f ?key t' = account f ?key t1"
    unfolding t' by (simp add: account_def map_of_retain [OF d] p retain_flow_def Let_def)
  moreover have "reported f ?key (map (\<lambda>(key, p). closing_update key p) es) = 0" for es
    using assms(6) by (induction es) (auto simp: closing_update_def traffic_counters_default_def)
  moreover have "distinct (map fst (ft_previous t'))" unfolding t' using d by (simp add: distinct_map_filter)
  ultimately show ?thesis using a us by simp
qed

text \<open>A sequence of polls: the merged entries of each, and the time it ran.\<close>

fun polls :: "(instant \<times> instant \<times> merged_flow list) list \<Rightarrow> flow_tracker \<Rightarrow> flow_update list \<times> flow_tracker" where
  "polls [] t = ([], t)"
| "polls ((wall, now, ms) # ps) t =
     (let (us, t) = reconcile wall now (t\<lparr>ft_merged := ms\<rparr>); (vs, t) = polls ps t in (us @ vs, t))"

text \<open>The kernel entry of a flow lives on: every poll sees it once, with totals that do not decrease.\<close>

fun entry_lives :: "flow_key \<Rightarrow> (instant \<times> instant \<times> merged_flow list) list \<Rightarrow> u64 \<Rightarrow> u64 \<Rightarrow> bool" where
  "entry_lives key [] p b = True"
| "entry_lives key ((wall, now, ms) # ps) p b =
     (distinct (map mf_key ms) \<and>
      (case List.find (\<lambda>m. mf_key m = key) ms of
         None \<Rightarrow> False
       | Some m \<Rightarrow> p \<le> tc_packets (mf_total m) \<and> b \<le> tc_bytes (mf_total m)
           \<and> entry_lives key ps (tc_packets (mf_total m)) (tc_bytes (mf_total m))))"

lemma polls_account:
  assumes "polls ps t = (us, t')" "distinct (map fst (ft_previous t))" "entry_lives key ps p b"
    and "account tc_packets key t \<le> unat p" "account tc_bytes key t \<le> unat b" "f \<in> {tc_packets, tc_bytes}"
  shows "account f key t' = account f key t + reported f key us"
  using assms
proof (induction ps arbitrary: t us p b)
  case (Cons x ps)
  obtain wall now ms where x: "x = (wall, now, ms)" by (cases x) auto
  let ?t = "t\<lparr>ft_merged := ms\<rparr>"
  obtain us1 t1 where r: "reconcile wall now ?t = (us1, t1)" by (cases "reconcile wall now ?t")
  obtain us2 t2 where q: "polls ps t1 = (us2, t2)" by (cases "polls ps t1")
  have e: "us = us1 @ us2" "t' = t2" using Cons.prems(1) r q by (simp_all add: x)
  obtain m where m: "List.find (\<lambda>m. mf_key m = key) ms = Some m" "distinct (map mf_key ms)"
    "p \<le> tc_packets (mf_total m)" "b \<le> tc_bytes (mf_total m)"
    "entry_lives key ps (tc_packets (mf_total m)) (tc_bytes (mf_total m))"
    using Cons.prems(3) by (auto simp: x split: option.splits)
  have mk: "mf_key m = key" "m \<in> set ms" using m(1) by (auto simp: find_Some_iff)
  have acc: "account h key ?t = account h key t" for h by (simp add: account_def)
  have co: "counts_on (mf_key m) ?t m"
    using Cons.prems(4,5) m(3,4) by (auto simp: counts_on_def acc mk word_le_nat_alt)
  have step: "account h key t1 = account h key t + reported h key us1 \<and> account h key t1 \<le> unat (h (mf_total m))
      \<and> distinct (map fst (ft_previous t1))" if "h \<in> {tc_packets, tc_bytes}" for h
    using reconcile_delta [OF r _ _ _ co that] Cons.prems(2) m(2) mk acc by simp
  show ?case
    using Cons.IH [OF q [folded e(2)] _ m(5) _ _ Cons.prems(6)] step [of tc_packets] step [of tc_bytes] step [OF Cons.prems(6)] e
    by simp
qed simp

text \<open>
  Traffic is reported once: while the kernel keeps a flow's entry, the deltas reported for it
  over any number of polls add up to exactly the total the tracker stands at, for packets and
  for bytes, starting from a flow it did not know; nothing is lost or counted twice in between.
\<close>

theorem deltas_telescope:
  assumes "polls ps t = (us, t')" "distinct (map fst (ft_previous t))"
    and "map_of (ft_previous t) key = None" "entry_lives key ps 0 0" "f \<in> {tc_packets, tc_bytes}"
  shows "reported f key us = account f key t'"
  using polls_account [OF assms(1,2,4) _ _ assms(5)] assms(3) by (simp add: account_def)

section \<open>Attribution\<close>

text \<open>
  Distinct kernel entries are distinct flows: a decoded key determines the kernel key, for the
  keys the packet path writes, so no two map entries are ever merged into one flow.
\<close>

theorem decode_key_injective:
  assumes "decode_key a = Some key" "decode_key b = Some key"
    and "fk_reserved a = fk_reserved b"
    and "{fk_src_addr a, fk_dst_addr a, fk_src_addr b, fk_dst_addr b} \<subseteq> range ipv4_storage"
  shows "a = b"
proof -
  have "fk_src_addr a = fk_src_addr b" "fk_dst_addr a = fk_dst_addr b" "fk_src_port_be a = fk_src_port_be b"
    "fk_dst_port_be a = fk_dst_port_be b" "fk_ifindex a = fk_ifindex b" "fk_protocol a = fk_protocol b"
    "fk_direction a = fk_direction b" "fk_ip_family a = fk_ip_family b"
    using assms
    by (auto simp: decode_key_def protocol_from_abi_Some flow_direction_from_abi_Some split: option.splits if_splits)
  then show ?thesis using assms(3) by simp
qed

text \<open>The tracker's owner tables hold what the kernel's maps hold.\<close>

definition mirrors :: "flow_tracker \<Rightarrow> kernel \<Rightarrow> bool" where
  "mirrors t k \<longleftrightarrow>
     (\<forall>key. map_option or_application (map_of (ft_owners t) key)
        = Option.bind (k_owner_map k key) application_ref_of)
     \<and> (\<forall>key. map_option or_application (map_of (ft_listeners t) key)
        = Option.bind (k_listener_map k key) application_ref_of)
     \<and> (\<forall>key value. k_owner_map k key = Some value \<longrightarrow> ov_tgid value \<noteq> 0)"

lemma mirrors_new: "mirrors (flow_tracker_new timeout) kernel_loaded"
  by (simp add: mirrors_def flow_tracker_new_def kernel_loaded_def)

lemma record_owner_mirrors:
  assumes "mirrors t k" "ov_tgid value \<noteq> 0"
  shows "ok_kind key = owner_kind_to_abi Socket \<Longrightarrow>
      mirrors (record_owner key value now t) (k\<lparr>k_owner_map := (k_owner_map k)(key \<mapsto> value)\<rparr>)"
    "ok_kind key = owner_kind_to_abi Listener \<Longrightarrow>
      mirrors (record_owner key value now t) (k\<lparr>k_listener_map := (k_listener_map k)(key \<mapsto> value)\<rparr>)"
  using assms
  by (auto simp: mirrors_def record_owner_def owner_kind_abi.from_abi_iff application_ref_of_def Let_def
      update_conv' owner_kind_from_abi_def)

lemma decoded_flow_sides:
  assumes "decode_key (flow_key_of flow (direction_to_abi d) ifindex) = Some key"
    and "pf_src_addr flow = ipv4_storage src" "pf_dst_addr flow = ipv4_storage dst"
  shows "flow_sides key = (if d = Outbound
       then Some (swap16 (pf_src_port_be flow), IpV4 dst, Some (swap16 (pf_dst_port_be flow)))
       else Some (swap16 (pf_dst_port_be flow), IpV4 src, Some (swap16 (pf_src_port_be flow))))"
    "pf_protocol flow = protocol_number (key_protocol key)" "pf_ip_family flow = ip_family_to_abi V4"
  using assms
  by (cases d; auto simp: decode_key_def flow_key_of_def flow_sides_def protocol_from_abi_Some
      flow_direction_from_abi_Some split: option.splits if_splits)+


section \<open>Lifecycle\<close>

lemma observe_application:
  assumes "observe wall m now g t = (u, t')" "map_of (ft_previous t) key = Some p" "pv_application p = Some app"
  shows "\<exists>p'. map_of (ft_previous t') key = Some p' \<and> pv_application p' = Some app"
    "u = Some u' \<Longrightarrow> fu_key u' = key \<Longrightarrow> fu_application u' = Some app"
  using assms
  by (cases "key = mf_key m"; auto simp: observe_def Let_def update_conv' split: option.splits if_splits)+

lemma observe_all_application:
  assumes "observe_all wall ms now g t = (us, t')" "map_of (ft_previous t) key = Some p" "pv_application p = Some app"
  shows "(\<exists>p'. map_of (ft_previous t') key = Some p' \<and> pv_application p' = Some app)
    \<and> (\<forall>u \<in> set us. fu_key u = key \<longrightarrow> fu_application u = Some app)"
  using assms
proof (induction ms arbitrary: t us p)
  case (Cons m ms)
  obtain u t1 where o1: "observe wall m now g t = (u, t1)" by (cases "observe wall m now g t")
  obtain vs t2 where o2: "observe_all wall ms now g t1 = (vs, t2)" by (cases "observe_all wall ms now g t1")
  have r: "t' = t2" "us = (case u of None \<Rightarrow> vs | Some u \<Rightarrow> u # vs)" using Cons.prems o1 o2 by simp_all
  obtain p1 where p1: "map_of (ft_previous t1) key = Some p1" "pv_application p1 = Some app"
    using observe_application(1) [OF o1 Cons.prems(2,3)] by blast
  show ?case
    using Cons.IH [OF o2 [folded r(1)] p1] observe_application(2) [OF o1 Cons.prems(2,3)] r
    by (auto split: option.splits)
qed auto

text \<open>What one poll does, in its two phases.\<close>

lemma reconcile_phases:
  assumes "reconcile wall now t = (us, t')"
  obtains vs t1 clock where
    "observe_all wall (ft_merged t) now (ft_generation t + 1)
       (t\<lparr>ft_generation := ft_generation t + 1, ft_clock := clock, ft_merged := []\<rparr>) = (vs, t1)"
    "us = vs @ map (\<lambda>(key, p). closing_update key p)
       (filter (\<lambda>(_, p). retain_flow (ft_idle_timeout t) now (ft_generation t + 1) p = CloseFlow) (ft_previous t1))"
    "ft_previous t' = filter (\<lambda>(_, p). retain_flow (ft_idle_timeout t) now (ft_generation t + 1) p = Keep) (ft_previous t1)"
    "ft_generation t' = ft_generation t + 1" "ft_idle_timeout t' = ft_idle_timeout t"
proof -
  let ?clock = "if ft_merged t = [] then ft_clock t
     else anchor_if_needed (fold max (map mf_last_seen_ns (ft_merged t)) 0) now (ft_clock t)"
  let ?t = "t\<lparr>ft_generation := ft_generation t + 1, ft_clock := ?clock, ft_merged := []\<rparr>"
  obtain vs t1 where o: "observe_all wall (ft_merged t) now (ft_generation t + 1) ?t = (vs, t1)"
    by (cases "observe_all wall (ft_merged t) now (ft_generation t + 1) ?t")
  then have "ft_idle_timeout t1 = ft_idle_timeout t" "ft_generation t1 = ft_generation t + 1"
    using observe_all_frame [OF o] by auto
  then show thesis
    using that [OF o] assms o by (auto simp: reconcile_def Let_def case_prod_unfold)
qed

text \<open>
  An identity never changes under a flow: once an application is attributed to a tracked flow,
  every later update of that flow and the flow's record name the same application, as long as
  the flow is tracked.
\<close>

theorem application_is_stable:
  assumes "reconcile wall now t = (us, t')" "distinct (map fst (ft_previous t))"
    and "map_of (ft_previous t) key = Some p" "pv_application p = Some app"
  shows "(\<forall>u \<in> set us. fu_key u = key \<longrightarrow> fu_application u = Some app)
    \<and> (\<forall>p'. map_of (ft_previous t') key = Some p' \<longrightarrow> pv_application p' = Some app)"
proof -
  obtain vs t1 clock where o: "observe_all wall (ft_merged t) now (ft_generation t + 1)
       (t\<lparr>ft_generation := ft_generation t + 1, ft_clock := clock, ft_merged := []\<rparr>) = (vs, t1)"
    and us: "us = vs @ map (\<lambda>(key, p). closing_update key p)
       (filter (\<lambda>(_, p). retain_flow (ft_idle_timeout t) now (ft_generation t + 1) p = CloseFlow) (ft_previous t1))"
    and t': "ft_previous t' = filter (\<lambda>(_, p). retain_flow (ft_idle_timeout t) now (ft_generation t + 1) p = Keep) (ft_previous t1)"
    using reconcile_phases [OF assms(1)] by metis
  obtain p1 where p1: "map_of (ft_previous t1) key = Some p1" "pv_application p1 = Some app"
    and vs: "\<forall>u \<in> set vs. fu_key u = key \<longrightarrow> fu_application u = Some app"
    using observe_all_application [OF o, of key p app] assms(3,4) by auto
  have d: "distinct (map fst (ft_previous t1))" using observe_all_frame [OF o] assms(2) by simp
  have q: "q = p1" if "(key, q) \<in> set (ft_previous t1)" for q
    using that p1(1) d by (simp add: map_of_is_SomeI)
  have "fu_application u = Some app" if u: "u \<in> set us" "fu_key u = key" for u
  proof (cases "u \<in> set vs")
    case False
    then obtain q where "(key, q) \<in> set (ft_previous t1)" "u = closing_update key q"
      using u unfolding us by (auto simp: closing_update_def)
    then show ?thesis using q p1(2) by (simp add: closing_update_def)
  qed (use vs u in blast)
  moreover have "q = p1" if "map_of (ft_previous t') key = Some q" for q
    using q map_of_SomeD [OF that] unfolding t' by simp
  ultimately show ?thesis using p1(2) by blast
qed

lemma observe_all_keys: "observe_all wall ms now g t = (us, t') \<Longrightarrow> fu_key ` set us \<subseteq> mf_key ` set ms"
proof (induction ms arbitrary: t us)
  case (Cons m ms)
  obtain u t1 where o1: "observe wall m now g t = (u, t1)" by (cases "observe wall m now g t")
  obtain vs t2 where o2: "observe_all wall ms now g t1 = (vs, t2)" by (cases "observe_all wall ms now g t1")
  have r: "t' = t2" "us = (case u of None \<Rightarrow> vs | Some u \<Rightarrow> u # vs)" using Cons.prems o1 o2 by simp_all
  have IH: "fu_key ` set vs \<subseteq> mf_key ` set ms" by (rule Cons.IH [OF o2 [folded r(1)]])
  show ?case
  proof (cases u)
    case None
    then show ?thesis using IH r(2) by auto
  next
    case (Some u')
    have "fu_key u' = mf_key m" by (rule observe_frame(3) [OF o1 Some])
    then show ?thesis using IH r(2) Some by auto
  qed
qed simp

lemma filter_key_distinct:
  "distinct (map fst xs) \<Longrightarrow> filter (\<lambda>e. fst e = key) xs = (case map_of xs key of None \<Rightarrow> [] | Some v \<Rightarrow> [(key, v)])"
proof (induction xs)
  case (Cons x xs)
  moreover have "filter (\<lambda>e. fst e = key) xs = []" if "fst x = key"
    using Cons.prems that by (auto simp: filter_empty_conv image_iff)
  ultimately show ?case by (cases x) auto
qed simp

text \<open>
  A flow that vanishes from the kernel's map is closed exactly when it has been silent for the
  idle timeout: then one final update with a zero delta is reported and the flow is forgotten,
  and before that it is kept as it is and nothing is reported.
\<close>

theorem vanished_flow_closes_on_timeout:
  assumes "reconcile wall now t = (us, t')" "distinct (map fst (ft_previous t))"
    and "key \<notin> mf_key ` set (ft_merged t)" "map_of (ft_previous t) key = Some p"
    and "pv_state p = Active" "pv_generation p \<noteq> ft_generation t + 1"
  shows "if ft_idle_timeout t \<le> saturating_duration_since now (pv_last_seen p)
    then map_of (ft_previous t') key = None \<and> filter (\<lambda>u. fu_key u = key) us = [closing_update key p]
    else map_of (ft_previous t') key = Some p \<and> filter (\<lambda>u. fu_key u = key) us = []"
proof -
  obtain vs t1 clock where o: "observe_all wall (ft_merged t) now (ft_generation t + 1)
       (t\<lparr>ft_generation := ft_generation t + 1, ft_clock := clock, ft_merged := []\<rparr>) = (vs, t1)"
    and us: "us = vs @ map (\<lambda>(key, p). closing_update key p)
       (filter (\<lambda>(_, p). retain_flow (ft_idle_timeout t) now (ft_generation t + 1) p = CloseFlow) (ft_previous t1))"
    and t': "ft_previous t' = filter (\<lambda>(_, p). retain_flow (ft_idle_timeout t) now (ft_generation t + 1) p = Keep) (ft_previous t1)"
    using reconcile_phases [OF assms(1)] by metis
  have p: "map_of (ft_previous t1) key = Some p" and d: "distinct (map fst (ft_previous t1))"
    using observe_all_frame [OF o, of key] assms(2-4) by auto
  have "filter (\<lambda>u. fu_key u = key) vs = []"
    using observe_all_keys [OF o] assms(3) by (auto simp: filter_empty_conv)
  moreover have "filter (\<lambda>u. fu_key u = key) (map (\<lambda>(key, p). closing_update key p) (filter P xs))
      = map (\<lambda>(key, p). closing_update key p) (filter P (filter (\<lambda>e. fst e = key) xs))" for P xs
    by (induction xs) (auto simp: closing_update_def)
  ultimately show ?thesis
    using assms(5,6) unfolding us t' map_of_retain [OF d] filter_append
    by (simp add: filter_key_distinct [OF d] p retain_flow_def Let_def del: filter_filter)
qed

text \<open>
  Memory is bounded by time: after every poll each tracked flow was either seen in this poll, or
  is active and was seen within the idle timeout, or has ended within its retention.
\<close>

theorem tracked_flows_are_recent:
  assumes "reconcile wall now t = (us, t')" "(key, p) \<in> set (ft_previous t')"
  shows "pv_generation p = ft_generation t'
    \<or> (pv_state p = Active \<and> saturating_duration_since now (pv_last_seen p) < ft_idle_timeout t')
    \<or> (pv_state p \<noteq> Active \<and> saturating_duration_since now (pv_last_seen p)
        < max (duration_mul (ft_idle_timeout t') 4) (seconds 120))"
proof -
  obtain vs t1 clock where "observe_all wall (ft_merged t) now (ft_generation t + 1)
       (t\<lparr>ft_generation := ft_generation t + 1, ft_clock := clock, ft_merged := []\<rparr>) = (vs, t1)"
    and t': "ft_previous t' = filter (\<lambda>(_, p). retain_flow (ft_idle_timeout t) now (ft_generation t + 1) p = Keep) (ft_previous t1)"
    and "ft_generation t' = ft_generation t + 1" "ft_idle_timeout t' = ft_idle_timeout t"
    using reconcile_phases [OF assms(1)] by metis
  then show ?thesis using assms(2) unfolding t' by (auto simp: retain_flow_def Let_def split: if_splits)
qed

section \<open>A tracked connection\<close>

definition sample_key :: abi_flow_key where
  "sample_key = \<lparr>fk_src_addr = ipv4_storage (Ipv4 10 0 0 2), fk_dst_addr = ipv4_storage (Ipv4 1 1 1 1),
     fk_src_port_be = 0x1234, fk_dst_port_be = 0x5000, fk_ifindex = 7, fk_protocol = 6, fk_direction = 2,
     fk_ip_family = 4, fk_reserved = 0\<rparr>"

definition sample_value :: "u64 \<Rightarrow> u64 \<Rightarrow> u64 \<Rightarrow> u64 \<Rightarrow> abi_flow_value" where
  "sample_value packets bytes first last_seen =
     \<lparr>fv_packets = packets, fv_bytes = bytes, fv_first_seen_mono_ns = first, fv_last_seen_mono_ns = last_seen,
      fv_tcp_flags = 16, fv_parse_flags = 0, fv_service_flags = 0, fv_reserved = 0\<rparr>"

definition sample_flow_key :: flow_key where
  "sample_flow_key = the (decode_key sample_key)"

definition sample_merged :: "u64 \<Rightarrow> u64 \<Rightarrow> u64 \<Rightarrow> merged_flow" where
  "sample_merged packets bytes last_seen =
     \<lparr>mf_key = sample_flow_key, mf_total = \<lparr>tc_packets = packets, tc_bytes = bytes\<rparr>,
      mf_first_seen_ns = 100, mf_last_seen_ns = last_seen, mf_tcp_flags = 16\<rparr>"

text \<open>Three CPUs, one of them untouched.\<close>

lemma merged_flow_totals_witness:
  "\<exists>m. merge_entry sample_key [sample_value 0 0 0 0, sample_value 3 300 100 200, sample_value 2 200 50 300] = Some m
     \<and> unat (tc_bytes (mf_total m)) = 500 \<and> unat (tc_packets (mf_total m)) = 5"
proof -
  let ?vs = "[sample_value 0 0 0 0, sample_value 3 300 100 200, sample_value 2 200 50 300]"
  have "decode_key sample_key \<noteq> None"
    by (simp add: decode_key_def sample_key_def flow_direction_from_abi_def direction_from_abi_def)
  then have "merge_entry sample_key ?vs \<noteq> None" by (rule merge_entry_Some) simp
  then obtain m where "merge_entry sample_key ?vs = Some m" by blast
  from this merged_flow_totals [OF this] show ?thesis by (auto simp: sample_value_def)
qed

definition sample_polls :: "(instant \<times> instant \<times> merged_flow list) list" where
  "sample_polls = [(0, 1000, [sample_merged 3 300 200]), (0, 2000, [sample_merged 3 300 200]),
     (0, 3000, [sample_merged 5 500 400])]"

lemma deltas_telescope_witness:
  "let (us, t) = polls sample_polls (flow_tracker_new (seconds 30)) in
     reported tc_bytes sample_flow_key us = account tc_bytes sample_flow_key t"
proof -
  let ?t = "flow_tracker_new (seconds 30)"
  have "entry_lives sample_flow_key sample_polls 0 0"
    by (simp add: sample_polls_def sample_merged_def word_le_nat_alt)
  then show ?thesis
    using deltas_telescope [of sample_polls ?t "fst (polls sample_polls ?t)" "snd (polls sample_polls ?t)"
        sample_flow_key tc_bytes]
    by (simp add: flow_tracker_new_def case_prod_unfold)
qed

lemma decode_key_injective_witness: "decode_key sample_key \<noteq> decode_key (sample_key\<lparr>fk_ifindex := 8\<rparr>)"
proof
  assume eq: "decode_key sample_key = decode_key (sample_key\<lparr>fk_ifindex := 8\<rparr>)"
  have "decode_key sample_key = Some sample_flow_key"
    by (simp add: sample_flow_key_def decode_key_def sample_key_def flow_direction_from_abi_def direction_from_abi_def)
  from decode_key_injective [OF this this [unfolded eq]] show False by (simp add: sample_key_def)
qed

definition connection_flow :: parsed_flow where
  "connection_flow = \<lparr>pf_src_addr = ipv4_storage (Ipv4 10 0 0 2), pf_dst_addr = ipv4_storage (Ipv4 1 1 1 1),
     pf_src_port_be = 0x1234, pf_dst_port_be = 0x5000, pf_protocol = 6, pf_ip_family = 4, pf_tcp_flags = 0,
     pf_parse_flags = 0, pf_payload_offset = 54, pf_payload_end = 54\<rparr>"

definition connection_owner :: abi_owner_value where
  "connection_owner = \<lparr>ov_tgid = 42, ov_pid = 42, ov_uid = 0, ov_reserved = 0, ov_cgroup_id = 9,
     ov_comm = replicate 16 0, ov_observed_mono_ns = 5\<rparr>"


text \<open>A tracker with one active, attributed flow, last seen at one second.\<close>

definition sample_app :: application_ref where
  "sample_app = \<lparr>app_tgid = 42, app_uid = 0, app_cgroup_id = 9, app_comm = []\<rparr>"

definition sample_previous :: previous_flow where
  "sample_previous = \<lparr>pv_total = \<lparr>tc_packets = 3, tc_bytes = 300\<rparr>, pv_first_seen = 0, pv_last_seen = 1000000000,
     pv_last_seen_ns = 200, pv_tcp_flags = 16, pv_state = Active, pv_generation = 0, pv_service = None,
     pv_application = Some sample_app\<rparr>"

definition sample_tracker :: flow_tracker where
  "sample_tracker = (flow_tracker_new (seconds 30))\<lparr>ft_previous := [(sample_flow_key, sample_previous)]\<rparr>"

lemma application_is_stable_witness:
  "filter (\<lambda>u. fu_key u = sample_flow_key \<and> fu_application u \<noteq> Some sample_app) (fst (reconcile 0 5 sample_tracker)) = []"
  using application_is_stable [of 0 5 sample_tracker "fst (reconcile 0 5 sample_tracker)" "snd (reconcile 0 5 sample_tracker)"
      sample_flow_key sample_previous sample_app]
  by (auto simp: sample_tracker_def sample_previous_def filter_empty_conv)

lemma vanished_flow_closes_on_timeout_witness:
  "map_of (ft_previous (snd (reconcile 0 31000000000 sample_tracker))) sample_flow_key = None"
  using vanished_flow_closes_on_timeout [of 0 31000000000 sample_tracker "fst (reconcile 0 31000000000 sample_tracker)"
      "snd (reconcile 0 31000000000 sample_tracker)" sample_flow_key sample_previous]
  by (simp add: sample_tracker_def sample_previous_def flow_tracker_new_def seconds_def saturating_duration_since_def)

lemma tracked_flows_are_recent_witness:
  "\<exists>p. (sample_flow_key, p) \<in> set (ft_previous (snd (reconcile 0 1000000001 sample_tracker)))
     \<and> saturating_duration_since 1000000001 (pv_last_seen p) < seconds 30"
proof -
  let ?r = "reconcile 0 1000000001 sample_tracker"
  have m: "(sample_flow_key, sample_previous) \<in> set (ft_previous (snd ?r))"
    and c: "ft_generation (snd ?r) = 1" "ft_idle_timeout (snd ?r) = seconds 30"
    by (simp_all add: reconcile_def Let_def sample_tracker_def sample_previous_def flow_tracker_new_def
        retain_flow_def seconds_def saturating_duration_since_def purge_owners_def)
  from tracked_flows_are_recent [OF prod.collapse [symmetric] m] c
  show ?thesis using m by (auto simp: sample_previous_def)
qed

end
