(* ===== verification/Text.thy ===== *)
theory Text
  imports Model
begin

text \<open>
  What the daemon uses of Rust's strings: characters and their UTF-8 bytes, pieces
  and lines, and the reading of unsigned numbers in a radix. A string is the list of its bytes.
\<close>

section \<open>Characters\<close>

text \<open>The characters of a string; every string of the daemon is well-formed UTF-8.\<close>

definition chars_of :: "string \<Rightarrow> nat list" where
  "chars_of s = (case str_chars s of Some cs \<Rightarrow> cs | None \<Rightarrow> [])"

definition str_of_chars :: "nat list \<Rightarrow> string" where
  "str_of_chars cs = map char_of (concat (map utf8_encode cs))"

lemma ascii_chars: "list_all (\<lambda>c. of_char c < (128 :: nat)) s \<Longrightarrow> chars_of s = map of_char s"
  by (simp add: chars_of_def str_chars_def utf8_decode_ascii list_all_iff)

lemma ascii_str_of_chars: "list_all (\<lambda>c. c < 128) cs \<Longrightarrow> str_of_chars cs = map char_of cs"
  by (simp add: str_of_chars_def utf8_encode_ascii)

text \<open>Strings of visible ASCII, which trimming leaves alone.\<close>

definition plain_text :: "string \<Rightarrow> bool" where
  "plain_text s \<longleftrightarrow> list_all (\<lambda>c. 32 < (of_char c :: nat) \<and> (of_char c :: nat) < 127) s"

lemma trim_plain: "plain_text s \<Longrightarrow> str_trim s = s"
proof -
  assume p: "plain_text s"
  let ?cs = "map of_char s :: nat list"
  have a: "list_all (\<lambda>b. b < 128) ?cs" using p by (auto simp: plain_text_def list_all_iff)
  have v: "\<not> is_white_space c" if "c \<in> set ?cs" for c
    using that p by (auto simp: plain_text_def list_all_iff is_white_space_def)
  have "dropWhile is_white_space xs = xs" if "set xs \<subseteq> set ?cs" for xs
    using that v by (cases xs) auto
  then have "dropWhile is_white_space ?cs = ?cs" "dropWhile is_white_space (rev ?cs) = rev ?cs" by auto
  moreover have "concat (map utf8_encode ?cs) = ?cs" "str_chars s = Some ?cs"
    using a by (simp_all only: utf8_encode_ascii str_chars_def utf8_decode_ascii)
  ultimately show "str_trim s = s" by (simp add: str_trim_def o_def)
qed

lemma from_utf8_plain: "plain_text s \<Longrightarrow> from_utf8 (bytes_of_str s) = Some s"
proof -
  assume p: "plain_text s"
  have u: "unat (of_nat (of_char c) :: u8) = of_char c" for c
    using nat_of_char_less_256 [of c] by (simp add: unsigned_of_nat take_bit_nat_eq_self)
  then have "list_all (\<lambda>b. b < 128) (map unat (bytes_of_str s))"
    using p by (auto simp: bytes_of_str_def plain_text_def list_all_iff)
  then show "from_utf8 (bytes_of_str s) = Some s"
    by (simp add: from_utf8_def utf8_decode_ascii str_of_bytes_def bytes_of_str_def u o_def)
qed

section \<open>Case and trimming\<close>

definition ascii_lower :: "nat \<Rightarrow> nat" where
  "ascii_lower c = (if 65 \<le> c \<and> c \<le> 90 then c + 32 else c)"

definition to_ascii_lowercase :: "string \<Rightarrow> string" where
  "to_ascii_lowercase s = map (\<lambda>c. char_of (ascii_lower (of_char c))) s"

lemma to_ascii_lowercase_simps [simp]:
  "to_ascii_lowercase [] = []" "length (to_ascii_lowercase s) = length s"
  "to_ascii_lowercase (c # s) = char_of (ascii_lower (of_char c)) # to_ascii_lowercase s"
  by (simp_all add: to_ascii_lowercase_def)

lemma ascii_lower_mod [simp]: "ascii_lower (of_char c) mod 256 = ascii_lower (of_char c)"
  using nat_of_char_less_256 [of c] by (auto simp: ascii_lower_def)

lemma lower_idem [simp]: "ascii_lower (ascii_lower c) = ascii_lower c"
  by (auto simp: ascii_lower_def)

lemma to_ascii_lowercase_idem [simp]: "to_ascii_lowercase (to_ascii_lowercase s) = to_ascii_lowercase s"
  by (induction s) simp_all

lemma lower_eq_dot [simp]: "char_of (ascii_lower (of_char c)) = CHR ''.'' \<longleftrightarrow> c = CHR ''.''"
proof -
  have dot: "(of_char CHR ''.'' :: nat) = 46" by simp
  have "char_of (ascii_lower (of_char c)) = CHR ''.'' \<longleftrightarrow> ascii_lower (of_char c) = 46"
    by (metis dot ascii_lower_mod of_char_of of_char_eq_iff)
  also have "\<dots> \<longleftrightarrow> (of_char c :: nat) = 46" by (auto simp: ascii_lower_def)
  also have "\<dots> \<longleftrightarrow> c = CHR ''.''" by (metis dot of_char_eq_iff)
  finally show ?thesis .
qed

text \<open>\<^verbatim>\<open>trim_end_matches\<close> of one character.\<close>

definition trim_end_char :: "char \<Rightarrow> string \<Rightarrow> string" where
  "trim_end_char c s = rev (dropWhile (\<lambda>d. d = c) (rev s))"

text \<open>\<^verbatim>\<open>trim_start_matches\<close> and \<^verbatim>\<open>trim_end_matches\<close> of a nonempty string.\<close>

function trim_start_str :: "string \<Rightarrow> string \<Rightarrow> string" where
  "trim_start_str p s =
     (if p \<noteq> [] \<and> take (length p) s = p then trim_start_str p (drop (length p) s) else s)"
  by auto
termination
proof (relation "measure (\<lambda>(p, s). length s)", goal_cases)
  case (2 p s)
  then show ?case by (cases s) auto
qed simp

declare trim_start_str.simps [simp del]

definition trim_end_str :: "string \<Rightarrow> string \<Rightarrow> string" where
  "trim_end_str p s = rev (trim_start_str (rev p) (rev s))"

section \<open>Pieces\<close>

text \<open>\<^verbatim>\<open>split\<close> on a byte, \<^verbatim>\<open>split_once\<close>, \<^verbatim>\<open>strip_prefix\<close> and \<^verbatim>\<open>strip_suffix\<close>; ASCII separators, so bytes will do.\<close>

fun split_at :: "char \<Rightarrow> string \<Rightarrow> string list" where
  "split_at sep [] = [[]]"
| "split_at sep (c # cs) =
     (if c = sep then [] # split_at sep cs
      else (c # hd (split_at sep cs)) # tl (split_at sep cs))"

definition split_once :: "char \<Rightarrow> string \<Rightarrow> (string \<times> string) option" where
  "split_once sep s =
     (case dropWhile (\<lambda>c. c \<noteq> sep) s of
        [] \<Rightarrow> None
      | _ # rest \<Rightarrow> Some (takeWhile (\<lambda>c. c \<noteq> sep) s, rest))"

definition starts_with :: "'a list \<Rightarrow> 'a list \<Rightarrow> bool" where
  "starts_with s p \<longleftrightarrow> take (length p) s = p"

definition strip_prefix :: "'a list \<Rightarrow> 'a list \<Rightarrow> 'a list option" where
  "strip_prefix s p = (if starts_with s p then Some (drop (length p) s) else None)"

definition strip_suffix :: "'a list \<Rightarrow> 'a list \<Rightarrow> 'a list option" where
  "strip_suffix s p = map_option rev (strip_prefix (rev s) (rev p))"

text \<open>\<^verbatim>\<open>split_whitespace\<close>: the maximal runs of characters that are no white space.\<close>

fun words_of :: "nat list \<Rightarrow> nat list \<Rightarrow> nat list list" where
  "words_of word [] = (if word = [] then [] else [word])"
| "words_of word (c # cs) =
     (if is_white_space c then (if word = [] then words_of [] cs else word # words_of [] cs)
      else words_of (word @ [c]) cs)"

definition split_whitespace :: "string \<Rightarrow> string list" where
  "split_whitespace s = map str_of_chars (words_of [] (chars_of s))"

text \<open>\<^verbatim>\<open>lines\<close>: what a line feed ends, without it and without a carriage return before it.\<close>

fun lines_of :: "string list \<Rightarrow> string list" where
  "lines_of [] = []"
| "lines_of [l] = (if l = [] then [] else [l])"
| "lines_of (l # ls) = (case strip_suffix l [CHR 0x0D] of Some l \<Rightarrow> l | None \<Rightarrow> l) # lines_of ls"

definition lines :: "string \<Rightarrow> string list" where
  "lines s = lines_of (split_at (CHR 0x0A) s)"

lemma split_at_not_Nil [simp]: "split_at sep s \<noteq> []"
  by (cases s) auto

lemma split_at_append: "sep \<notin> set s \<Longrightarrow> split_at sep (s @ sep # t) = s # split_at sep t"
  by (induction s) auto

lemma split_at_none: "sep \<notin> set s \<Longrightarrow> split_at sep s = [s]"
  by (induction s) auto

lemma strip_prefix_append [simp]: "strip_prefix (p @ s) p = Some s"
  by (simp add: strip_prefix_def starts_with_def)

lemma strip_suffix_append [simp]: "strip_suffix (s @ p) p = Some s"
  by (simp add: strip_suffix_def)

lemma split_once_append: "sep \<notin> set s \<Longrightarrow> split_once sep (s @ sep # t) = Some (s, t)"
proof -
  assume s: "sep \<notin> set s"
  then have "dropWhile (\<lambda>c. c \<noteq> sep) (s @ sep # t) = sep # t" "takeWhile (\<lambda>c. c \<noteq> sep) (s @ sep # t) = s"
    by (auto simp: dropWhile_append takeWhile_append)
  then show ?thesis by (simp add: split_once_def)
qed

lemma split_once_Some: "split_once sep s = Some (a, b) \<Longrightarrow> s = a @ sep # b \<and> sep \<notin> set a"
proof -
  assume o: "split_once sep s = Some (a, b)"
  then obtain x where d: "dropWhile (\<lambda>c. c \<noteq> sep) s = x # b" and a: "a = takeWhile (\<lambda>c. c \<noteq> sep) s"
    by (auto simp: split_once_def split: list.splits)
  have "x = sep" using hd_dropWhile [of "\<lambda>c. c \<noteq> sep" s] d by simp
  then show ?thesis using takeWhile_dropWhile_id [of "\<lambda>c. c \<noteq> sep" s] d a by (auto dest: set_takeWhileD)
qed

text \<open>Fields of visible ASCII, separated by spaces.\<close>

definition join_fields :: "string list \<Rightarrow> string" where
  "join_fields fs = concat (map (\<lambda>f. f @ '' '') fs)"

definition field :: "string \<Rightarrow> bool" where
  "field f \<longleftrightarrow> f \<noteq> [] \<and> plain_text f"

lemma visible_char: "32 < c \<Longrightarrow> c < 127 \<Longrightarrow> \<not> is_white_space c" for c :: nat
  by (auto simp: is_white_space_def)

lemma words_of_visible:
  "list_all (\<lambda>c. \<not> is_white_space c) w \<Longrightarrow> words_of acc (w @ 32 # cs) =
     (if acc @ w = [] then words_of [] cs else (acc @ w) # words_of [] cs)"
  by (induction w arbitrary: acc) (auto simp: is_white_space_def)

lemma split_whitespace_join:
  assumes "list_all field fs"
  shows "split_whitespace (join_fields fs) = fs"
proof -
  have vis: "list_all (\<lambda>c. \<not> is_white_space c) (map of_char f)" "f \<noteq> []" if "field f" for f
    using that visible_char by (auto simp: field_def plain_text_def list_all_iff)
  have a: "list_all (\<lambda>c. of_char c < (128 :: nat)) (join_fields fs)"
    using assms by (auto simp: join_fields_def list_all_iff field_def plain_text_def) fastforce
  have "words_of [] (map of_char (join_fields fs)) = map (map of_char) fs"
    using assms
  proof (induction fs)
    case (Cons f fs)
    then show ?case using vis [of f] words_of_visible [of "map of_char f" "[]"] by (simp add: join_fields_def)
  qed (simp add: join_fields_def)
  moreover have "str_of_chars (map of_char f) = f" if "f \<in> set fs" for f
  proof -
    have "list_all (\<lambda>c. c < 128) (map of_char f :: nat list)"
      using that assms by (auto simp: list_all_iff field_def plain_text_def) fastforce
    then show ?thesis by (simp add: ascii_str_of_chars o_def)
  qed
  ultimately show ?thesis
    by (simp add: split_whitespace_def ascii_chars [OF a] o_def map_idI)
qed

text \<open>Lines that each end in a line feed.\<close>

lemma lines_concat:
  "list_all (\<lambda>l. CHR 0x0A \<notin> set l \<and> (l = [] \<or> last l \<noteq> CHR 0x0D)) ls \<Longrightarrow>
     lines (concat (map (\<lambda>l. l @ [CHR 0x0A]) ls)) = ls"
proof (induction ls)
  case (Cons l ls)
  have s: "strip_suffix l [CHR 0x0D] = None"
    using Cons.prems by (cases l rule: rev_cases) (auto simp: strip_suffix_def strip_prefix_def starts_with_def)
  have "lines_of (l # ps) = l # lines_of ps" if "ps \<noteq> []" for ps
    using that s by (cases ps) auto
  with Cons show ?case by (simp add: lines_def split_at_append)
qed (simp add: lines_def)

section \<open>Numbers\<close>

definition digit_of :: "nat \<Rightarrow> nat \<Rightarrow> nat option" where
  "digit_of radix b =
     (let d = (if 48 \<le> b \<and> b \<le> 57 then b - 48
               else if 65 \<le> b \<and> b \<le> 90 then b - 55
               else if 97 \<le> b \<and> b \<le> 122 then b - 87 else radix) in
      if d < radix then Some d else None)"

fun digits_value :: "nat \<Rightarrow> nat \<Rightarrow> nat \<Rightarrow> nat list \<Rightarrow> nat option" where
  "digits_value radix largest acc [] = Some acc"
| "digits_value radix largest acc (b # bs) =
     (case digit_of radix b of
        None \<Rightarrow> None
      | Some d \<Rightarrow> if largest < acc * radix + d then None else digits_value radix largest (acc * radix + d) bs)"

text \<open>
  \<^verbatim>\<open>from_str_radix\<close> of an unsigned type with greatest value \<open>largest\<close>: a leading plus sign is accepted,
  a sign alone and the empty string are not.
\<close>

definition from_str_radix :: "nat \<Rightarrow> nat \<Rightarrow> nat list \<Rightarrow> nat option" where
  "from_str_radix radix largest bs =
     (if bs = [] \<or> bs = [43] \<or> bs = [45] then None
      else digits_value radix largest 0 (if hd bs = 43 then tl bs else bs))"

text \<open>\<^verbatim>\<open>parse\<close> of an unsigned type.\<close>

definition parse_unsigned :: "nat \<Rightarrow> string \<Rightarrow> nat option" where
  "parse_unsigned largest s = from_str_radix 10 largest (map of_char s)"

lemma digit_of_bound: "digit_of radix b = Some d \<Longrightarrow> d < radix"
  by (simp add: digit_of_def Let_def split: if_splits)

lemma digits_value_bound: "digits_value radix largest acc bs = Some v \<Longrightarrow> acc \<le> largest \<Longrightarrow> v \<le> largest"
  by (induction bs arbitrary: acc) (auto split: option.splits if_splits)

lemma from_str_radix_bound: "from_str_radix radix largest bs = Some v \<Longrightarrow> v \<le> largest"
  by (auto simp: from_str_radix_def intro: digits_value_bound split: if_splits)

text \<open>The digit that stands for a number, and its reading.\<close>

definition hex_char :: "nat \<Rightarrow> nat" where
  "hex_char d = (if d < 10 then 48 + d else 87 + d)"

lemma digit_of_hex_char [simp]: "d < 16 \<Longrightarrow> digit_of 16 (hex_char d) = Some d"
  by (auto simp: digit_of_def hex_char_def)

lemma hex_char_plain: "d < 16 \<Longrightarrow> hex_char d \<noteq> 43 \<and> hex_char d \<noteq> 45 \<and> hex_char d < 128 \<and> \<not> is_white_space (hex_char d)"
  by (auto simp: hex_char_def is_white_space_def)

text \<open>The text of a number, as \<^verbatim>\<open>to_string\<close> and \<^verbatim>\<open>format!\<close> write it.\<close>

fun decimal_digits :: "nat \<Rightarrow> nat list" where
  "decimal_digits n = (if n < 10 then [48 + n] else decimal_digits (n div 10) @ [48 + n mod 10])"

declare decimal_digits.simps [simp del]

definition decimal :: "nat \<Rightarrow> string" where
  "decimal n = map char_of (decimal_digits n)"

lemma digits_value_append:
  "digits_value radix largest acc (xs @ ys) =
     (case digits_value radix largest acc xs of None \<Rightarrow> None | Some v \<Rightarrow> digits_value radix largest v ys)"
  by (induction xs arbitrary: acc) (auto split: option.split)

lemma decimal_digits_range: "d \<in> set (decimal_digits n) \<Longrightarrow> 48 \<le> d \<and> d \<le> 57"
proof (induction n rule: decimal_digits.induct)
  case (1 n)
  have "n mod 10 < 10" by simp
  then show ?case using 1 by (subst (asm) decimal_digits.simps) (auto split: if_splits)
qed

lemma decimal_digits_not_Nil [simp]: "decimal_digits n \<noteq> []"
  by (subst decimal_digits.simps) simp

lemma digits_value_decimal: "n \<le> largest \<Longrightarrow> digits_value 10 largest 0 (decimal_digits n) = Some n"
proof (induction n rule: decimal_digits.induct)
  case (1 n)
  have d: "digit_of 10 (48 + m) = Some m" if "m < 10" for m
    using that by (auto simp: digit_of_def)
  have m: "n mod 10 < 10" by simp
  show ?case
  proof (cases "n < 10")
    case True
    then show ?thesis using 1 d by (subst decimal_digits.simps) simp
  next
    case False
    then have "digits_value 10 largest 0 (decimal_digits (n div 10)) = Some (n div 10)"
      using 1 by simp
    then show ?thesis
      using False "1.prems" d [OF m] by (subst decimal_digits.simps) (simp add: digits_value_append)
  qed
qed

lemma decimal_codes [simp]: "map of_char (decimal n) = decimal_digits n"
proof -
  have "of_char (char_of d :: char) = d" if "d \<in> set (decimal_digits n)" for d :: nat
    using decimal_digits_range [OF that] by simp
  then show ?thesis by (simp add: decimal_def map_idI)
qed

lemma parse_decimal: "n \<le> largest \<Longrightarrow> parse_unsigned largest (decimal n) = Some n"
  using decimal_digits_range [of "hd (decimal_digits n)" n] hd_in_set [of "decimal_digits n"]
  by (auto simp: parse_unsigned_def from_str_radix_def digits_value_decimal)

end
