(* ===== verification/Domain_Decoder.thy ===== *)
theory Domain_Decoder
  imports Tracker Domain_Parse Text
begin

text \<open>
  Domain evidence in user space, \<^verbatim>\<open>collector/domain.rs\<close>: the decoding of kernel payload
  samples into observations, the normalisation of names, and the suppression of duplicates until
  they expire. Proved: normalised names are canonical; an observation's lifetime is bounded; while
  an observation is live the same evidence is silent, and purging the table is unobservable.
\<close>

section \<open>Tables with expiry\<close>

text \<open>
  A store whose entries carry an expiry, as a client sees it: what a lookup returns after an
  insertion and after expired entries were dropped.
\<close>

locale expiring_store =
  fixes get :: "'m \<Rightarrow> 'k \<Rightarrow> int option"
    and put :: "'k \<Rightarrow> int \<Rightarrow> 'm \<Rightarrow> 'm"
    and purge :: "int \<Rightarrow> 'm \<Rightarrow> 'm"
    and ok :: "'m \<Rightarrow> bool"
  assumes get_put: "get (put k e m) k' = (if k' = k then Some e else get m k')"
    and get_purge: "ok m \<Longrightarrow> get (purge now m) k = (case get m k of Some e \<Rightarrow> if now < e then Some e else None | None \<Rightarrow> None)"
    and ok_put: "ok m \<Longrightarrow> ok (put k e m)"
    and ok_purge: "ok m \<Longrightarrow> ok (purge now m)"
begin

text \<open>An entry is live when it has not expired yet; purging never changes what is live from then on.\<close>

lemma purge_unobservable:
  assumes "ok m" "now \<le> now'"
  shows "(case get (purge now m) k of Some e \<Rightarrow> now' < e | None \<Rightarrow> False)
    = (case get m k of Some e \<Rightarrow> now' < e | None \<Rightarrow> False)"
  using assms by (auto simp: get_purge split: option.split)

lemma live_after_put:
  "now < e \<Longrightarrow> (case get (put k e m) k of Some e \<Rightarrow> now < e | None \<Rightarrow> False)"
  by (simp add: get_put)

lemma put_keeps_live:
  assumes "(case get m k of Some e \<Rightarrow> now < e | None \<Rightarrow> False)" "k' = k \<Longrightarrow> now < e'"
  shows "(case get (put k' e' m) k of Some e \<Rightarrow> now < e | None \<Rightarrow> False)"
  using assms by (simp add: get_put)

end

section \<open>Observations\<close>

datatype domain_evidence = DnsEvidence | TlsSniEvidence | HttpHostEvidence
datatype association_confidence = Direct | Inferred

record domain_observation =
  do_domain :: string
  do_address :: ip_addr
  do_evidence :: domain_evidence
  do_confidence :: association_confidence
  do_client_context :: u64
  do_observed_at :: instant
  do_expires_at :: instant

definition observation_ifindex :: "domain_observation \<Rightarrow> u32" where
  "observation_ifindex ob = ucast (do_client_context ob)"

record dedupe_key =
  dk_domain :: string
  dk_address :: ip_addr
  dk_evidence :: domain_evidence
  dk_client_context :: u64

type_synonym domain_decoder = "(dedupe_key \<times> instant) list"

definition MIN_DNS_TTL :: duration where "MIN_DNS_TTL = seconds 10"
definition MAX_DNS_TTL :: duration where "MAX_DNS_TTL = seconds 3600"
definition DIRECT_EVIDENCE_TTL :: duration where "DIRECT_EVIDENCE_TTL = seconds 300"
definition DOMAIN_LABEL_MAX_LEN :: nat where "DOMAIN_LABEL_MAX_LEN = 63"

fun confidence_for :: "domain_evidence \<Rightarrow> association_confidence" where
  "confidence_for DnsEvidence = Inferred"
| "confidence_for TlsSniEvidence = Direct"
| "confidence_for HttpHostEvidence = Direct"

definition clamp_dns_ttl :: "u32 \<Rightarrow> duration" where
  "clamp_dns_ttl ttl_secs = max MIN_DNS_TTL (min (seconds (unat ttl_secs)) MAX_DNS_TTL)"

section \<open>Names\<close>

definition strip_dot :: "string \<Rightarrow> string" where
  "strip_dot raw = (if raw \<noteq> [] \<and> last raw = CHR ''.'' then butlast raw else raw)"

fun split_on :: "char \<Rightarrow> string \<Rightarrow> string list" where
  "split_on c [] = [[]]"
| "split_on c (x # xs) =
     (if x = c then [] # split_on c xs
      else case split_on c xs of [] \<Rightarrow> [[x]] | y # ys \<Rightarrow> (x # y) # ys)"

text \<open>\<^verbatim>\<open>char::is_control\<close> is the Unicode category Cc.\<close>

definition is_control :: "nat \<Rightarrow> bool" where
  "is_control c \<longleftrightarrow> c < 32 \<or> (127 \<le> c \<and> c \<le> 159)"

definition bad_label :: "string \<Rightarrow> bool" where
  "bad_label label \<longleftrightarrow> label = [] \<or> DOMAIN_LABEL_MAX_LEN < length label"

definition bad_character :: "nat \<Rightarrow> bool" where
  "bad_character c \<longleftrightarrow> is_control c \<or> c = 32 \<or> c = 47"

definition normalize_domain :: "string \<Rightarrow> string option" where
  "normalize_domain raw =
     (let trimmed = strip_dot raw in
      if trimmed = [] \<or> DOMAIN_MAX_LEN < length trimmed then None
      else if list_ex bad_label (split_on CHR ''.'' trimmed) then None
      else if (case str_chars trimmed of None \<Rightarrow> False | Some cs \<Rightarrow> list_ex bad_character cs) then None
      else Some (to_ascii_lowercase trimmed))"

definition domain_from_buffer :: "u8 list \<Rightarrow> nat \<Rightarrow> string option" where
  "domain_from_buffer buffer len =
     (if len = 0 \<or> DOMAIN_MAX_LEN < len then None
      else Option.bind (from_utf8 (take len buffer)) normalize_domain)"

section \<open>Decoding\<close>

definition live :: "domain_decoder \<Rightarrow> instant \<Rightarrow> dedupe_key \<Rightarrow> bool" where
  "live d now key \<longleftrightarrow> (case map_of d key of Some expiry \<Rightarrow> now < expiry | None \<Rightarrow> False)"

definition push_observation ::
  "string \<Rightarrow> ip_addr \<Rightarrow> u32 \<Rightarrow> domain_evidence \<Rightarrow> instant \<Rightarrow> instant \<Rightarrow> instant
     \<Rightarrow> domain_decoder \<times> domain_observation list \<Rightarrow> domain_decoder \<times> domain_observation list" where
  "push_observation domain address ifindex evidence observed_at expires_at now st =
     (let (d, observations) = st;
          client_context = ucast ifindex;
          key = \<lparr>dk_domain = domain, dk_address = address, dk_evidence = evidence, dk_client_context = client_context\<rparr> in
      if live d now key then (d, observations)
      else (AList.update key expires_at d,
            observations @ [\<lparr>do_domain = domain, do_address = address, do_evidence = evidence,
              do_confidence = confidence_for evidence, do_client_context = client_context,
              do_observed_at = observed_at, do_expires_at = expires_at\<rparr>]))"

definition purge_expired :: "instant \<Rightarrow> domain_decoder \<Rightarrow> domain_decoder" where
  "purge_expired now d = filter (\<lambda>(_, expiry). now < expiry) d"

definition push_answer ::
  "u32 \<Rightarrow> instant \<Rightarrow> instant \<Rightarrow> u8 list \<times> nat \<times> dns_answer
     \<Rightarrow> domain_decoder \<times> domain_observation list \<Rightarrow> domain_decoder \<times> domain_observation list" where
  "push_answer ifindex observed_at now found st =
     (let (buffer, len, answer) = found in
      case domain_from_buffer buffer len of
        None \<Rightarrow> st
      | Some domain \<Rightarrow>
          push_observation domain (IpV4 (ipv4_from_abi (da_address answer))) ifindex DnsEvidence observed_at
            (observed_at + int (clamp_dns_ttl (da_ttl_secs answer))) now st)"

text \<open>The name in a TLS or HTTP sample is evidence for the peer the sample names.\<close>

definition push_direct ::
  "domain_sample \<Rightarrow> domain_evidence \<Rightarrow> instant \<Rightarrow> instant \<Rightarrow> (nat \<times> u8 list) option
     \<Rightarrow> domain_decoder \<times> domain_observation list \<Rightarrow> domain_decoder \<times> domain_observation list" where
  "push_direct sample evidence observed_at now found st =
     (case found of
        None \<Rightarrow> st
      | Some (len, buffer) \<Rightarrow>
     (case domain_from_buffer buffer len of
        None \<Rightarrow> st
      | Some domain \<Rightarrow>
          push_observation domain (IpV4 (ipv4_from_abi (ds_address sample))) (ds_ifindex sample) evidence observed_at
            (observed_at + int DIRECT_EVIDENCE_TTL) now st))"

definition decode ::
  "instant \<Rightarrow> domain_sample \<Rightarrow> mono_clock \<Rightarrow> instant \<Rightarrow> domain_decoder \<times> domain_observation list
     \<Rightarrow> mono_clock \<times> domain_decoder \<times> domain_observation list" where
  "decode wall sample clock now st =
     (if ip_family_from_abi (ds_ip_family sample) \<noteq> Some V4 \<or> direction_from_abi (ds_direction sample) = None
         \<or> transport_protocol_from_abi (ds_transport sample) = None then (clock, st) else
      case sample_kind_from_abi (ds_kind sample) of
        None \<Rightarrow> (clock, st)
      | Some kind \<Rightarrow>
      let len = unat (ds_payload_len sample) in
      if len = 0 \<or> DOMAIN_SAMPLE_MAX < len then (clock, st) else
      let cursor = memory_cursor (take len (ds_payload sample));
          clock = anchor_if_needed (ds_observed_mono_ns sample) now clock;
          observed_at = to_instant wall clock (ds_observed_mono_ns sample);
          buffer = replicate DOMAIN_MAX_LEN 0 in
      (clock,
       (case kind of
          Dns \<Rightarrow>
            let offset = (if ds_transport sample = transport_protocol_to_abi Tcp then 2 else 0) in
            if len \<le> offset then st
            else fold (push_answer (ds_ifindex sample) observed_at now) (parse_dns_response cursor offset len buffer) st
        | TlsClientHello \<Rightarrow>
            push_direct sample TlsSniEvidence observed_at now (extract_tls_sni cursor 0 len buffer) st
        | HttpRequest \<Rightarrow>
            push_direct sample HttpHostEvidence observed_at now (extract_http_host cursor 0 len buffer) st)))"

section \<open>Normalised names\<close>

lemma split_on_not_Nil [simp]: "split_on c s \<noteq> []"
  by (induction s) (auto split: list.split)

lemma split_on_lower: "split_on CHR ''.'' (to_ascii_lowercase s) = map to_ascii_lowercase (split_on CHR ''.'' s)"
  by (induction s) (auto split: list.split)

lemma split_on_single [simp]: "split_on c s = [[]] \<longleftrightarrow> s = []"
  by (cases s) (auto split: list.split)

lemma last_split_on: "last (split_on c s) = [] \<longleftrightarrow> s = [] \<or> last s = c"
proof (induction s)
  case (Cons x xs)
  then show ?case by (cases "split_on c xs") (auto split: if_splits)
qed simp

lemma bad_character_lower [simp]: "bad_character (ascii_lower c) \<longleftrightarrow> bad_character c"
  by (auto simp: bad_character_def is_control_def ascii_lower_def)

lemma bad_label_lower [simp]: "bad_label (to_ascii_lowercase s) \<longleftrightarrow> bad_label s"
  by (cases s) (simp_all add: bad_label_def)

lemma utf8_decode_lower:
  "utf8_decode (map ascii_lower bs) = map_option (map ascii_lower) (utf8_decode bs)"
proof (induction bs rule: utf8_decode.induct)
  case (2 b0 bs)
  have tail: "utf8_tail (ascii_lower b) = utf8_tail b" "utf8_tail b \<Longrightarrow> ascii_lower b = b" for b
    by (auto simp: utf8_tail_def ascii_lower_def)
  have head: "ascii_lower b0 = b0" if "128 \<le> b0" using that by (simp add: ascii_lower_def)
  have big: "ascii_lower n = n" if "90 < n" for n using that by (simp add: ascii_lower_def)
  consider "b0 < 128" | "128 \<le> b0" "b0 < 194" | "194 \<le> b0" "b0 \<le> 223" | "224 \<le> b0" "b0 \<le> 239"
    | "240 \<le> b0" "b0 \<le> 244" | "244 < b0" by linarith
  then show ?case
  proof cases
    case 1
    then have "ascii_lower b0 < 128" by (simp add: ascii_lower_def)
    then show ?thesis using 1 2(1) by (simp add: option.map_comp o_def)
  next
    case 3
    then show ?thesis
      using 2(2) head tail
      by (cases bs) (auto simp: option.map_comp o_def utf8_tail_def big)
  next
    case 4
    then show ?thesis
      using 2(3) head tail
      by (cases bs; cases "tl bs") (auto simp: option.map_comp o_def utf8_tail_def big)
  next
    case 5
    then show ?thesis
      using 2(4) head tail
      by (cases bs; cases "tl bs"; cases "tl (tl bs)") (auto simp: option.map_comp o_def utf8_tail_def big)
  qed (simp_all add: head)
qed simp

lemma str_chars_lower:
  "str_chars (to_ascii_lowercase s) = map_option (map ascii_lower) (str_chars s)"
proof -
  have "map of_char (to_ascii_lowercase s) = map ascii_lower (map of_char s)"
    by (induction s) simp_all
  then show ?thesis by (simp only: str_chars_def utf8_decode_lower)
qed

lemma to_ascii_lowercase_eq_Nil: "to_ascii_lowercase s = [] \<longleftrightarrow> s = []"
  by (cases s) simp_all

text \<open>What a normalised name looks like.\<close>

definition canonical_name :: "string \<Rightarrow> bool" where
  "canonical_name d \<longleftrightarrow> d \<noteq> [] \<and> length d \<le> DOMAIN_MAX_LEN \<and> to_ascii_lowercase d = d
     \<and> list_all (\<lambda>label. label \<noteq> [] \<and> length label \<le> 63) (split_on CHR ''.'' d)
     \<and> pred_option (list_all (\<lambda>c. \<not> bad_character c)) (str_chars d)"

lemma normalize_canonical:
  assumes "normalize_domain raw = Some d"
  shows "canonical_name d"
proof -
  let ?t = "strip_dot raw"
  have t: "?t \<noteq> []" "length ?t \<le> DOMAIN_MAX_LEN" "\<not> list_ex bad_label (split_on CHR ''.'' ?t)"
    "\<not> (case str_chars ?t of None \<Rightarrow> False | Some cs \<Rightarrow> list_ex bad_character cs)" and d: "d = to_ascii_lowercase ?t"
    using assms by (simp_all add: normalize_domain_def Let_def split: if_splits)
  have "d \<noteq> []" "length d \<le> DOMAIN_MAX_LEN" "to_ascii_lowercase d = d"
    unfolding d using t(1,2) to_ascii_lowercase_idem [of ?t] by (simp_all add: to_ascii_lowercase_eq_Nil)
  moreover have "list_all (\<lambda>label. label \<noteq> [] \<and> length label \<le> 63) (split_on CHR ''.'' d)"
    unfolding d split_on_lower list_all_iff set_map
  proof (rule ballI)
    fix label
    assume "label \<in> to_ascii_lowercase ` set (split_on CHR ''.'' ?t)"
    then obtain l where "l \<in> set (split_on CHR ''.'' ?t)" "label = to_ascii_lowercase l" by blast
    moreover from this have "\<not> bad_label l" using t(3) by (auto simp: list_ex_iff)
    ultimately show "label \<noteq> [] \<and> length label \<le> 63"
      by (simp add: bad_label_def DOMAIN_LABEL_MAX_LEN_def to_ascii_lowercase_eq_Nil)
  qed
  moreover have "pred_option (list_all (\<lambda>c. \<not> bad_character c)) (str_chars d)"
    using t(4) by (cases "str_chars ?t") (auto simp: d str_chars_lower list_all_iff list_ex_iff)
  ultimately show ?thesis by (simp add: canonical_name_def)
qed

lemma canonical_last: "canonical_name d \<Longrightarrow> last d \<noteq> CHR ''.''"
  using last_split_on [of "CHR ''.''" d] last_in_set [of "split_on CHR ''.'' d"]
  by (auto simp: canonical_name_def list_all_iff)

text \<open>
  Normalisation is canonical: whatever was captured, a normalised name is non-empty and fits 253
  bytes, has labels of 1 to 63 bytes, no upper-case ASCII, control character, space or slash,
  and normalising it again gives the same name, so equal names have one spelling.
\<close>

theorem normalized_name_canonical:
  assumes "normalize_domain raw = Some d"
  shows "canonical_name d \<and> normalize_domain d = Some d"
proof -
  note c = normalize_canonical [OF assms]
  have "strip_dot d = d" using canonical_last [OF c] by (simp add: strip_dot_def)
  then show ?thesis
    using c by (cases "str_chars d")
      (auto simp: normalize_domain_def Let_def canonical_name_def bad_label_def DOMAIN_LABEL_MAX_LEN_def
        list_all_iff list_ex_iff)
qed

lemma normalized_name_canonical_witness: "normalize_domain ''Example.COM.'' = Some ''example.com'' \<and> canonical_name ''example.com''"
proof -
  have "normalize_domain ''Example.COM.'' = Some ''example.com''" by code_simp
  from this normalized_name_canonical [OF this] show ?thesis by blast
qed

section \<open>Duplicates\<close>

interpretation dedupe: expiring_store map_of AList.update purge_expired "\<lambda>d. distinct (map fst d)"
proof
  show "map_of (AList.update k e d) k' = (if k' = k then Some e else map_of d k')" for k k' e and d :: domain_decoder
    by (simp add: update_conv')
  show "distinct (map fst (AList.update k e d))" if "distinct (map fst d)" for k e and d :: domain_decoder
    using that by (rule distinct_update)
  show "distinct (map fst (purge_expired now d))" if "distinct (map fst d)" for now d
    using that by (simp add: purge_expired_def distinct_map_filter)
  show "map_of (purge_expired now d) k = (case map_of d k of Some e \<Rightarrow> if now < e then Some e else None | None \<Rightarrow> None)"
    if "distinct (map fst d)" for now k d
    using that by (simp add: purge_expired_def map_of_retain split: option.split)
qed

lemmas live_purge = dedupe.purge_unobservable [folded live_def]
lemmas live_put = dedupe.live_after_put [folded live_def]

definition key_of :: "domain_observation \<Rightarrow> dedupe_key" where
  "key_of ob = \<lparr>dk_domain = do_domain ob, dk_address = do_address ob, dk_evidence = do_evidence ob,
     dk_client_context = do_client_context ob\<rparr>"

text \<open>
  Emissions are observations with the time they were emitted. The table covers them when each is
  live in it until its expiry; they are spaced when an emission with the same key comes only
  after the expiry of the one before.
\<close>

definition covers :: "instant \<Rightarrow> domain_decoder \<Rightarrow> (instant \<times> domain_observation) list \<Rightarrow> bool" where
  "covers now d es \<longleftrightarrow> distinct (map fst d)
     \<and> (\<forall>(t, ob) \<in> set es. \<forall>t' \<ge> now. t' < do_expires_at ob \<longrightarrow> live d t' (key_of ob))"

definition spaced :: "(instant \<times> domain_observation) list \<Rightarrow> bool" where
  "spaced = sorted_wrt (\<lambda>(_, a) (t, b). key_of a = key_of b \<longrightarrow> do_expires_at a \<le> t)"

text \<open>What every stage of decoding does to the table and the observations.\<close>

definition emits ::
  "instant \<Rightarrow> (domain_observation \<Rightarrow> bool) \<Rightarrow> domain_decoder \<times> domain_observation list
     \<Rightarrow> domain_decoder \<times> domain_observation list \<Rightarrow> bool" where
  "emits now P st st' \<longleftrightarrow> (\<exists>new. snd st' = snd st @ new \<and> list_all P new
     \<and> (\<forall>es. covers now (fst st) es \<longrightarrow> spaced es \<longrightarrow>
          covers now (fst st') (es @ map (Pair now) new) \<and> spaced (es @ map (Pair now) new)))"

lemma emits_refl: "emits now P st st"
  by (auto simp: emits_def intro: exI [of _ "[]"])

lemma emits_trans:
  assumes "emits now P a b" "emits now P b c"
  shows "emits now P a c"
proof -
  obtain x y where "snd b = snd a @ x" "list_all P x" "snd c = snd b @ y" "list_all P y"
    and x: "\<And>es. covers now (fst a) es \<Longrightarrow> spaced es \<Longrightarrow>
      covers now (fst b) (es @ map (Pair now) x) \<and> spaced (es @ map (Pair now) x)"
    and y: "\<And>es. covers now (fst b) es \<Longrightarrow> spaced es \<Longrightarrow>
      covers now (fst c) (es @ map (Pair now) y) \<and> spaced (es @ map (Pair now) y)"
    using assms unfolding emits_def by blast
  moreover have "covers now (fst c) (es @ map (Pair now) (x @ y)) \<and> spaced (es @ map (Pair now) (x @ y))"
    if "covers now (fst a) es" "spaced es" for es
    using x [OF that] y [of "es @ map (Pair now) x"] by simp
  ultimately show ?thesis unfolding emits_def by (intro exI [of _ "x @ y"]) simp
qed

lemma emits_fold: "(\<And>x st. x \<in> set xs \<Longrightarrow> emits now P st (f x st)) \<Longrightarrow> emits now P st (fold f xs st)"
proof (induction xs arbitrary: st)
  case (Cons x xs)
  have "emits now P st (f x st)" "emits now P (f x st) (fold f xs (f x st))"
    using Cons.prems by (auto intro: Cons.IH)
  then show ?case by (auto intro: emits_trans)
qed (simp add: emits_refl)

lemma push_emits:
  assumes "P \<lparr>do_domain = domain, do_address = address, do_evidence = evidence,
      do_confidence = confidence_for evidence, do_client_context = ucast ifindex,
      do_observed_at = observed_at, do_expires_at = expires_at\<rparr>"
  shows "emits now P st (push_observation domain address ifindex evidence observed_at expires_at now st)"
proof -
  obtain d os where st: "st = (d, os)" by (cases st)
  let ?ob = "\<lparr>do_domain = domain, do_address = address, do_evidence = evidence,
      do_confidence = confidence_for evidence, do_client_context = ucast ifindex :: u64,
      do_observed_at = observed_at, do_expires_at = expires_at\<rparr>"
  have key: "\<lparr>dk_domain = domain, dk_address = address, dk_evidence = evidence, dk_client_context = ucast ifindex\<rparr>
      = key_of ?ob" by (simp add: key_of_def)
  show ?thesis
  proof (cases "live d now (key_of ?ob)")
    case True
    then show ?thesis using emits_refl by (simp add: push_observation_def st key)
  next
    case False
    have "covers now (AList.update (key_of ?ob) expires_at d) (es @ [(now, ?ob)]) \<and> spaced (es @ [(now, ?ob)])"
      if c: "covers now d es" and s: "spaced es" for es
    proof
      have old: "do_expires_at ob \<le> now" if "(t, ob) \<in> set es" "key_of ob = key_of ?ob" for t ob
        using c False that by (auto simp: covers_def not_less [symmetric])
      then show "spaced (es @ [(now, ?ob)])"
        using s by (auto simp: spaced_def sorted_wrt_append)
      show "covers now (AList.update (key_of ?ob) expires_at d) (es @ [(now, ?ob)])"
        unfolding covers_def
      proof (intro conjI ballI)
        show "distinct (map fst (AList.update (key_of ?ob) expires_at d))"
          using c by (auto simp: covers_def intro: dedupe.ok_put)
        show "case e of (t, ob) \<Rightarrow> \<forall>t' \<ge> now. t' < do_expires_at ob \<longrightarrow>
            live (AList.update (key_of ?ob) expires_at d) t' (key_of ob)"
          if "e \<in> set (es @ [(now, ?ob)])" for e
        proof (cases "e \<in> set es \<and> key_of (snd e) \<noteq> key_of ?ob")
          case True
          then show ?thesis using c by (auto simp: covers_def live_def dedupe.get_put)
        next
          case False
          then show ?thesis using that old [of "fst e" "snd e"]
            by (cases e) (auto simp: live_def dedupe.get_put)
        qed
      qed
    qed
    moreover have "push_observation domain address ifindex evidence observed_at expires_at now st
        = (AList.update (key_of ?ob) expires_at d, os @ [?ob])"
      using False by (simp add: push_observation_def st key Let_def)
    ultimately show ?thesis
      using assms by (auto simp: st emits_def intro!: exI [of _ "[?ob]"])
  qed
qed

section \<open>Decoding a stream of samples\<close>

text \<open>What every observation promises.\<close>

definition well_formed :: "u32 \<Rightarrow> domain_observation \<Rightarrow> bool" where
  "well_formed ifindex ob \<longleftrightarrow>
     canonical_name (do_domain ob) \<and> do_confidence ob = confidence_for (do_evidence ob)
     \<and> observation_ifindex ob = ifindex \<and> \<not> is_ipv6 (do_address ob)
     \<and> do_observed_at ob + int (seconds 10) \<le> do_expires_at ob
     \<and> do_expires_at ob \<le> do_observed_at ob + int (seconds 3600)"

lemma ucast_ucast_u32 [simp]: "(ucast (ucast (w :: u32) :: u64) :: u32) = w"
  by (simp add: ucast_down_ucast_id is_down)

lemma clamp_dns_ttl_bounds: "seconds 10 \<le> clamp_dns_ttl ttl" "clamp_dns_ttl ttl \<le> seconds 3600"
  by (simp_all add: clamp_dns_ttl_def MIN_DNS_TTL_def MAX_DNS_TTL_def seconds_def)

lemma push_answer_emits: "emits now (well_formed ifindex) st (push_answer ifindex observed_at now found st)"
  using clamp_dns_ttl_bounds
  by (auto simp: push_answer_def domain_from_buffer_def bind_eq_Some_conv well_formed_def observation_ifindex_def
      emits_refl normalize_canonical split: prod.split option.split if_splits intro!: push_emits)

lemma push_direct_emits:
  "emits now (well_formed (ds_ifindex sample)) st (push_direct sample evidence observed_at now found st)"
  by (auto simp: push_direct_def domain_from_buffer_def bind_eq_Some_conv well_formed_def observation_ifindex_def
      emits_refl normalize_canonical DIRECT_EVIDENCE_TTL_def seconds_def
      split: prod.split option.split if_splits intro!: push_emits)

lemma decode_emits: "emits now (well_formed (ds_ifindex sample)) st (snd (decode wall sample clock now st))"
  by (auto simp: decode_def Let_def emits_refl push_direct_emits push_answer_emits
      intro!: emits_fold split: option.split sample_kind.split)

text \<open>
  Evidence is well formed: whatever bytes a sample holds, every observation it yields has a
  canonical name, an IPv4 address, the interface of the sample, the confidence of its kind of
  evidence, and a lifetime between ten seconds and one hour.
\<close>

theorem observations_well_formed:
  "\<exists>new. snd (snd (decode wall sample clock now (d, observations))) = observations @ new
     \<and> list_all (well_formed (ds_ifindex sample)) new"
  using decode_emits [of now sample "(d, observations)" wall clock] by (auto simp: emits_def)

text \<open>A run of the decoder: samples and purges at the times they happen.\<close>

datatype decoder_event = SampleEvent instant domain_sample | PurgeEvent

fun decoder_run ::
  "(instant \<times> decoder_event) list \<Rightarrow> mono_clock \<Rightarrow> domain_decoder \<Rightarrow> (instant \<times> domain_observation) list" where
  "decoder_run [] clock d = []"
| "decoder_run ((now, PurgeEvent) # es) clock d = decoder_run es clock (purge_expired now d)"
| "decoder_run ((now, SampleEvent wall sample) # es) clock d =
     (let (clock, d, new) = decode wall sample clock now (d, []) in
      map (Pair now) new @ decoder_run es clock d)"

lemma covers_later: "covers now d es \<Longrightarrow> now \<le> now' \<Longrightarrow> covers now' d es"
  by (auto simp: covers_def)

lemma covers_purge: "covers now d es \<Longrightarrow> covers now (purge_expired now d) es"
  using live_purge by (fastforce simp: covers_def dedupe.ok_purge)

lemma decoder_run_spaced:
  "sorted (map fst events) \<Longrightarrow> list_all (\<lambda>(t, _). now \<le> t) events \<Longrightarrow> covers now d es \<Longrightarrow> spaced es \<Longrightarrow>
     spaced (es @ decoder_run events clock d)"
proof (induction events clock d arbitrary: now es rule: decoder_run.induct)
  case (2 t events clock d)
  have "covers t (purge_expired t d) es"
    using 2(3,4) by (auto intro: covers_purge covers_later)
  moreover have "list_all (\<lambda>(t', _). t \<le> t') events" using 2(2) by (auto simp: list_all_iff)
  ultimately show ?case using 2(1) [of t es] 2(2,5) by simp
next
  case (3 t wall sample events clock d)
  obtain clock' d' new where dec: "decode wall sample clock t (d, []) = (clock', d', new)" by (metis surj_pair)
  have c: "covers t d es" using 3(3,4) by (auto intro: covers_later)
  have "covers t d' (es @ map (Pair t) new) \<and> spaced (es @ map (Pair t) new)"
    using decode_emits [of t sample "(d, [])" wall clock] c 3(5) by (auto simp: dec emits_def)
  then have "spaced ((es @ map (Pair t) new) @ decoder_run events clock' d')"
    using 3(2) by (intro 3(1) [OF dec [symmetric] refl, where now = t]) (auto simp: list_all_iff)
  then show ?case by (simp add: dec)
qed simp


definition get_request :: domain_sample where
  "get_request = \<lparr>ds_observed_mono_ns = 5, ds_ifindex = 7, ds_payload_len = 27, ds_kind = 3, ds_transport = 6,
     ds_ip_family = 4, ds_direction = 2, ds_reserved = [], ds_address = ipv4_storage (Ipv4 1 1 1 1),
     ds_payload = bytes_of_str (''GET / HTTP/1.1'' @ [CHR 0x0D, CHR 0x0A] @ ''Host: A.B'' @ [CHR 0x0D, CHR 0x0A]) @ replicate 485 0\<rparr>"


end
