(* ===== verification/Health.thy ===== *)
theory Health
  imports Tracker
begin

text \<open>
  Observation gaps and health, \<^verbatim>\<open>collector/health.rs\<close>: a gap opens with the first failure of
  what it stands for and closes with the next success; closed gaps are handed out once, with the
  next snapshot; kernel counters are reported as the difference since the last poll. Proved: the
  table implements the plain specification of gaps, each closed gap is reported exactly once,
  and counter differences add up.
\<close>

section \<open>State\<close>

type_synonym system_time = int

datatype gap_reason = InterfaceDetachedGap u32 | MapReadFailed

record observation_gap =
  og_started_at :: system_time
  og_ended_at :: "system_time option"
  og_reason :: gap_reason

datatype gap_key =
  FlowMapReadFailed
| OwnerMapReadFailed
| KernelStatsReadFailed
| DomainEventsReadFailed
| ServiceEventsReadFailed
| InterfaceDetached u32

datatype collector_state = Running | Degraded | Stopped

record interface_health =
  ih_ifindex :: u32
  ih_name :: string
  ih_ingress_attached :: bool
  ih_egress_attached :: bool
  ih_last_error :: "string option"

record application_health =
  ah_attached :: bool
  ah_udp_attached :: bool
  ah_last_error :: "string option"

record collector_health =
  ch_state :: collector_state
  ch_attached_interfaces :: "interface_health list"
  ch_map_entries :: nat
  ch_map_capacity :: nat
  ch_kernel :: kernel_counters
  ch_gaps :: "observation_gap list"
  ch_application :: application_health

record health_tracker =
  ht_open_gaps :: "(gap_key \<times> observation_gap) list"
  ht_closed_gaps :: "observation_gap list"
  ht_last_kernel :: kernel_counters
  ht_kernel_seen :: bool
  ht_last_delta :: kernel_counters

definition health_tracker_new :: health_tracker where
  "health_tracker_new =
     \<lparr>ht_open_gaps = [], ht_closed_gaps = [], ht_last_kernel = kernel_counters_default,
      ht_kernel_seen = False, ht_last_delta = kernel_counters_default\<rparr>"

section \<open>Operations\<close>

fun gap_reason_of :: "gap_key \<Rightarrow> gap_reason" where
  "gap_reason_of (InterfaceDetached ifindex) = InterfaceDetachedGap ifindex"
| "gap_reason_of _ = MapReadFailed"

definition open_gap :: "gap_key \<Rightarrow> system_time \<Rightarrow> health_tracker \<Rightarrow> health_tracker" where
  "open_gap key at h =
     (if map_of (ht_open_gaps h) key \<noteq> None then h
      else h\<lparr>ht_open_gaps := AList.update key
             \<lparr>og_started_at = at, og_ended_at = None, og_reason = gap_reason_of key\<rparr> (ht_open_gaps h)\<rparr>)"

definition close_gap :: "gap_key \<Rightarrow> system_time \<Rightarrow> health_tracker \<Rightarrow> health_tracker" where
  "close_gap key at h =
     (case map_of (ht_open_gaps h) key of
        None \<Rightarrow> h
      | Some gap \<Rightarrow> h\<lparr>ht_open_gaps := AList.delete key (ht_open_gaps h),
                      ht_closed_gaps := ht_closed_gaps h @ [gap\<lparr>og_ended_at := Some at\<rparr>]\<rparr>)"

text \<open>\<open>None\<close> stands for the error of a read, whose text only reaches the log.\<close>

definition observe_read :: "'a option \<Rightarrow> gap_key \<Rightarrow> system_time \<Rightarrow> health_tracker \<Rightarrow> 'a option \<times> health_tracker" where
  "observe_read result key at h =
     (case result of
        Some v \<Rightarrow> (Some v, close_gap key at h)
      | None \<Rightarrow> (None, open_gap key at h))"

definition close_all :: "system_time \<Rightarrow> health_tracker \<Rightarrow> health_tracker" where
  "close_all at h = fold (\<lambda>key. close_gap key at) (map fst (ht_open_gaps h)) h"

definition has_open_gaps :: "health_tracker \<Rightarrow> bool" where
  "has_open_gaps h \<longleftrightarrow> ht_open_gaps h \<noteq> []"

definition record_kernel :: "kernel_stats \<Rightarrow> health_tracker \<Rightarrow> kernel_counters \<times> health_tracker" where
  "record_kernel stats h =
     (let current = kernel_counters_from stats;
          delta = (if ht_kernel_seen h \<and> is_monotonic_from current (ht_last_kernel h)
                   then delta_from current (ht_last_kernel h) else current) in
      (delta, h\<lparr>ht_last_kernel := current, ht_kernel_seen := True, ht_last_delta := delta\<rparr>))"

definition snapshot ::
  "collector_state \<Rightarrow> interface_health list \<Rightarrow> nat \<Rightarrow> nat \<Rightarrow> application_health \<Rightarrow> health_tracker
     \<Rightarrow> collector_health \<times> health_tracker" where
  "snapshot state interfaces map_entries map_capacity application h =
     (\<lparr>ch_state = state, ch_attached_interfaces = interfaces, ch_map_entries = map_entries,
       ch_map_capacity = map_capacity, ch_kernel = ht_last_delta h,
       ch_gaps = map snd (ht_open_gaps h) @ ht_closed_gaps h, ch_application = application\<rparr>,
      h\<lparr>ht_closed_gaps := []\<rparr>)"

section \<open>Gaps against their specification\<close>

text \<open>
  What happens to the tracker between two polls: the outcome of something observed, or a snapshot.
  The specification of one key is the time since which it fails, and the intervals it failed.
\<close>

datatype gap_event = Outcome gap_key bool system_time | Report

definition gap_step :: "gap_event \<Rightarrow> health_tracker \<Rightarrow> observation_gap list \<times> health_tracker" where
  "gap_step e h =
     (case e of
        Outcome key good at \<Rightarrow> ([], if good then close_gap key at h else open_gap key at h)
      | Report \<Rightarrow> (ht_closed_gaps h, h\<lparr>ht_closed_gaps := []\<rparr>))"

fun gap_run :: "gap_event list \<Rightarrow> health_tracker \<Rightarrow> observation_gap list \<times> health_tracker" where
  "gap_run [] h = ([], h)"
| "gap_run (e # es) h = (let (r, h) = gap_step e h; (rs, h) = gap_run es h in (r @ rs, h))"

fun failing_since :: "gap_key \<Rightarrow> gap_event list \<Rightarrow> system_time option \<Rightarrow> system_time option" where
  "failing_since key [] s = s"
| "failing_since key (Outcome k good at # es) s =
     failing_since key es (if k \<noteq> key then s else if good then None else if s = None then Some at else s)"
| "failing_since key (Report # es) s = failing_since key es s"

fun failed_intervals :: "gap_event list \<Rightarrow> (gap_key \<Rightarrow> system_time option) \<Rightarrow> observation_gap list" where
  "failed_intervals [] s = []"
| "failed_intervals (Outcome k good at # es) s =
     (if good
      then (case s k of None \<Rightarrow> [] | Some t \<Rightarrow>
              [\<lparr>og_started_at = t, og_ended_at = Some at, og_reason = gap_reason_of k\<rparr>])
           @ failed_intervals es (s(k := None))
      else failed_intervals es (s(k := if s k = None then Some at else s k)))"
| "failed_intervals (Report # es) s = failed_intervals es s"

definition tracks :: "(gap_key \<Rightarrow> system_time option) \<Rightarrow> health_tracker \<Rightarrow> bool" where
  "tracks s h \<longleftrightarrow> distinct (map fst (ht_open_gaps h))
     \<and> (\<forall>key. map_of (ht_open_gaps h) key
          = map_option (\<lambda>t. \<lparr>og_started_at = t, og_ended_at = None, og_reason = gap_reason_of key\<rparr>) (s key))"

lemma tracks_open: "tracks s h \<Longrightarrow> tracks (s(key := if s key = None then Some at else s key)) (open_gap key at h)"
  by (auto simp: tracks_def open_gap_def update_conv' distinct_update split: option.splits)

lemma tracks_close: "tracks s h \<Longrightarrow> tracks (s(key := None)) (close_gap key at h)"
  by (auto simp: tracks_def close_gap_def delete_conv' distinct_delete split: option.splits)

lemma closed_by_close: "tracks s h \<Longrightarrow> ht_closed_gaps (close_gap key at h) = ht_closed_gaps h
     @ (case s key of None \<Rightarrow> [] | Some t \<Rightarrow> [\<lparr>og_started_at = t, og_ended_at = Some at, og_reason = gap_reason_of key\<rparr>])"
  by (auto simp: tracks_def close_gap_def split: option.splits)

lemma closed_by_open: "ht_closed_gaps (open_gap key at h) = ht_closed_gaps h"
  by (simp add: open_gap_def)

lemma gap_run_spec:
  "gap_run es h = (handed, h') \<Longrightarrow> tracks s h \<Longrightarrow>
     handed @ ht_closed_gaps h' = ht_closed_gaps h @ failed_intervals es s
     \<and> tracks (\<lambda>key. failing_since key es (s key)) h'"
proof (induction es arbitrary: h s handed)
  case (Cons e es)
  obtain r1 h1 where s1: "gap_step e h = (r1, h1)" by (cases "gap_step e h")
  obtain rs h2 where r: "gap_run es h1 = (rs, h')" "handed = r1 @ rs"
    using Cons.prems(1) s1 by (auto split: prod.splits)
  show ?case
  proof (cases e)
    case (Outcome key good at)
    let ?s = "s(key := if good then None else if s key = None then Some at else s key)"
    have t: "tracks ?s h1" and r1: "r1 = []"
      using s1 Outcome tracks_close [OF Cons.prems(2), of key at] tracks_open [OF Cons.prems(2), of key at]
      by (cases good; simp add: gap_step_def)+
    have f: "failing_since key' (e # es) (s key') = failing_since key' es (?s key')" for key'
      by (simp add: Outcome)
    show ?thesis
      using Cons.IH [OF r(1) t] r(2) r1 s1 closed_by_close [OF Cons.prems(2), of key at] closed_by_open [of key at h]
      unfolding f by (cases good; auto simp: Outcome gap_step_def fun_upd_def split: option.splits)
  next
    case Report
    then have "r1 = ht_closed_gaps h" "h1 = h\<lparr>ht_closed_gaps := []\<rparr>" using s1 by (simp_all add: gap_step_def)
    moreover from this have "tracks s h1" using Cons.prems(2) by (simp add: tracks_def)
    ultimately show ?thesis using Cons.IH [OF r(1)] r(2) Report by auto
  qed
qed simp



section \<open>Counters\<close>

fun kernel_run :: "kernel_stats list \<Rightarrow> health_tracker \<Rightarrow> kernel_counters list \<times> health_tracker" where
  "kernel_run [] h = ([], h)"
| "kernel_run (s # ss) h = (let (d, h) = record_kernel s h; (ds, h) = kernel_run ss h in (d # ds, h))"

text \<open>Counters that never decrease from one reading to the next.\<close>

fun monotonic_readings :: "kernel_counters \<Rightarrow> kernel_stats list \<Rightarrow> bool" where
  "monotonic_readings p [] = True"
| "monotonic_readings p (s # ss) =
     (is_monotonic_from (kernel_counters_from s) p \<and> monotonic_readings (kernel_counters_from s) ss)"

lemma monotonic_default: "is_monotonic_from k kernel_counters_default"
  by (simp add: is_monotonic_from_def kernel_counters_default_def)

lemma delta_default: "delta_from k kernel_counters_default = k"
  by (simp add: delta_from_def kernel_counters_default_def)

lemma length_counter_values [simp]: "length (counter_values k) = 14"
  by (simp add: counter_values_def)

lemma kernel_run_sums:
  "kernel_run ss h = (ds, h') \<Longrightarrow> monotonic_readings (ht_last_kernel h) ss \<Longrightarrow>
     ht_kernel_seen h \<or> ht_last_kernel h = kernel_counters_default \<Longrightarrow> i < 14 \<Longrightarrow>
     (\<Sum>d\<leftarrow>ds. counter_values d ! i) + counter_values (ht_last_kernel h) ! i = counter_values (ht_last_kernel h') ! i"
proof (induction ss arbitrary: h ds)
  case (Cons s ss)
  let ?c = "kernel_counters_from s"
  obtain d h1 where k: "record_kernel s h = (d, h1)" by (cases "record_kernel s h")
  obtain ds1 where r: "kernel_run ss h1 = (ds1, h')" "ds = d # ds1"
    using Cons.prems(1) k by (auto split: prod.splits)
  have m: "is_monotonic_from ?c (ht_last_kernel h)" "monotonic_readings ?c ss" using Cons.prems(2) by simp_all
  have d: "d = delta_from ?c (ht_last_kernel h)" and h1: "ht_last_kernel h1 = ?c" "ht_kernel_seen h1"
    using k m(1) Cons.prems(3) by (auto simp: record_kernel_def Let_def delta_default)
  have "counter_values d ! i + counter_values (ht_last_kernel h) ! i = counter_values ?c ! i"
    using counter_values_mono [OF m(1)] Cons.prems(4)
    by (simp add: d counter_values_delta [OF m(1)] list_all2_conv_all_nth)
  then show ?case using Cons.IH [OF r(1)] m(2) h1 Cons.prems(4) r(2) by simp
qed simp

text \<open>
  Counter intervals add up: while the kernel object keeps counting, the differences reported by
  the polls add up, counter by counter, to what the last reading shows, so every kernel event
  since the start is in exactly one interval.
\<close>

theorem counter_intervals_add_up:
  assumes "kernel_run ss health_tracker_new = (ds, h)" "monotonic_readings kernel_counters_default ss" "i < 14"
  shows "(\<Sum>d\<leftarrow>ds. counter_values d ! i) = counter_values (ht_last_kernel h) ! i"
proof -
  have "counter_values kernel_counters_default ! i = 0"
    using assms(3) by (simp add: counter_values_def kernel_counters_default_def nth_Cons' split: if_splits)
  then show ?thesis
    using kernel_run_sums [OF assms(1) _ _ assms(3)] assms(2) by (simp add: health_tracker_new_def)
qed

lemma counter_intervals_add_up_witness:
  "\<exists>ds. length ds = 2 \<and> (\<Sum>d\<leftarrow>ds. counter_values d ! 0) = 8"
proof -
  let ?a = "kernel_stats_default\<lparr>ks_packets_seen := 5\<rparr>" let ?b = "kernel_stats_default\<lparr>ks_packets_seen := 8\<rparr>"
  let ?r = "kernel_run [?a, ?b] health_tracker_new"
  have "monotonic_readings kernel_counters_default [?a, ?b]"
    by (simp add: monotonic_default) (simp add: is_monotonic_from_def kernel_counters_from_def kernel_stats_default_def
        word_le_nat_alt)
  from counter_intervals_add_up [OF prod.collapse [symmetric] this, of 0]
  have "(\<Sum>d\<leftarrow>fst ?r. counter_values d ! 0) = counter_values (ht_last_kernel (snd ?r)) ! 0" by simp
  also have "\<dots> = 8"
    by (simp add: record_kernel_def Let_def counter_values_def kernel_counters_from_def)
  finally show ?thesis by (intro exI [of _ "fst ?r"]) (simp add: record_kernel_def Let_def)
qed

end
