(* ===== verification/Selector.thy ===== *)
theory Selector
  imports Text "HOL-Library.List_Lexorder"
begin

text \<open>
  The query language of the control plane: \<^verbatim>\<open>query/selector.rs\<close> (what an action
  targets, its validation and its kernel capability), \<^verbatim>\<open>query/lower.rs\<close> (lowering
  an observation query to a selector) and \<^verbatim>\<open>query/resolver.rs\<close> (a selector's
  kernel-matchable targets). The cgroup index and the applications table are parameters.
  Messages are values of a datatype of reasons. Proved: lowering never keeps an observation
  filter it lists, yields a valid result exactly for one address or one application, and ignores
  exactly the fields it does not list; resolution gives sorted targets without duplicates.
\<close>

section \<open>Reasons\<close>

datatype reason =
  Ipv6Later
| PortZero
| PrefixOutOfRange
| IdentityEmpty
| NotMatchable ipv4
| UnknownPrefix
| EmptyComm
| NoCgroup string
| NoStoredComm string
| NoKnownPrefix string
| RateOutOfRange
| BurstZero
| TooManyRules nat
| TierOverflow nat nat
| ResolverUnavailable string

section \<open>Selectors\<close>

datatype selector =
  SelEndpoint ip_addr "u16 option"
| SelCidr ip_addr u8
| SelApplication string

datatype refresh = ContainerIndex | ApplicationsTable | Evidence

datatype kernel_plan =
  PlanDirect
| PlanResolved refresh bool
| PlanUnsupported reason

fun plan_name :: "kernel_plan \<Rightarrow> string" where
  "plan_name PlanDirect = ''direct''"
| "plan_name (PlanResolved _ _) = ''resolved''"
| "plan_name (PlanUnsupported _) = ''unsupported''"

fun selector_kind :: "selector \<Rightarrow> string" where
  "selector_kind (SelEndpoint _ _) = ''endpoint''"
| "selector_kind (SelCidr _ _) = ''cidr''"
| "selector_kind (SelApplication _) = ''application''"

fun validate_address :: "ip_addr \<Rightarrow> reason + unit" where
  "validate_address (IpV6 _) = Inl Ipv6Later"
| "validate_address (IpV4 address) =
     (if v4_is_unspecified address \<or> v4_is_multicast address \<or> v4_is_broadcast address
      then Inl (NotMatchable address) else Inr ())"

fun validate_selector :: "selector \<Rightarrow> reason + unit" where
  "validate_selector (SelEndpoint address port) =
     (case validate_address address of
        Inl e \<Rightarrow> Inl e
      | Inr _ \<Rightarrow> if port = Some 0 then Inl PortZero else Inr ())"
| "validate_selector (SelCidr address prefix_len) =
     (case validate_address address of
        Inl e \<Rightarrow> Inl e
      | Inr _ \<Rightarrow> if \<not> (1 \<le> prefix_len \<and> prefix_len \<le> 32) then Inl PrefixOutOfRange else Inr ())"
| "validate_selector (SelApplication ident) =
     (if str_trim ident = [] then Inl IdentityEmpty else Inr ())"

fun selector_plan :: "selector \<Rightarrow> kernel_plan" where
  "selector_plan (SelEndpoint address _) = (if is_ipv6 address then PlanUnsupported Ipv6Later else PlanDirect)"
| "selector_plan (SelCidr address _) = (if is_ipv6 address then PlanUnsupported Ipv6Later else PlanDirect)"
| "selector_plan (SelApplication ident) =
     (if starts_with ident ''proc:comm:'' then PlanDirect
      else if starts_with ident ''cont:'' then PlanResolved ContainerIndex False
      else if starts_with ident ''proc:'' then PlanResolved ApplicationsTable False
      else PlanUnsupported UnknownPrefix)"

section \<open>Lowering an observation query\<close>

text \<open>
  The fields of \<^verbatim>\<open>FlowQuery\<close>; those whose values lowering never looks at carry only
  what the test of presence needs.
\<close>

record flow_query =
  fq_q :: "string option"
  fq_range :: "string option"
  fq_start :: "int option"
  fq_end :: "int option"
  fq_direction :: "flow_direction option"
  fq_protocol :: "protocol option"
  fq_interface :: "string option"
  fq_service :: "string option"
  fq_ip :: "ip_addr option"
  fq_src_ip :: "ip_addr option"
  fq_dst_ip :: "ip_addr option"
  fq_port :: "u16 option"
  fq_domain :: "string option"
  fq_application_id :: "string option"
  fq_country :: "string option"
  fq_asn :: "u32 option"
  fq_organization :: "string option"
  fq_scope :: "address_scope list"
  fq_exclude_scope :: "address_scope list"
  fq_state :: "string option"
  fq_has_domain :: "bool option"
  fq_evidence :: "string option"
  fq_confidence :: "string option"
  fq_hide_noise :: "bool option"
  fq_sort :: "string option"
  fq_limit :: "nat option"
  fq_offset :: "nat option"

datatype lower_reason = NotProvable | OneAddressOnly | PortNeedsAddress | CannotCompose | NothingEnforceable

record unsupported_query =
  uq_fields :: "string list"
  uq_reason :: lower_reason

definition unsupported_fields :: "flow_query \<Rightarrow> string list" where
  "unsupported_fields query = map fst (filter snd
     [(''range'', fq_range query \<noteq> None), (''protocol'', fq_protocol query \<noteq> None),
      (''interface'', fq_interface query \<noteq> None), (''domain'', fq_domain query \<noteq> None),
      (''country'', fq_country query \<noteq> None), (''asn'', fq_asn query \<noteq> None),
      (''organization'', fq_organization query \<noteq> None), (''scope'', fq_scope query \<noteq> []),
      (''exclude_scope'', fq_exclude_scope query \<noteq> []), (''state'', fq_state query \<noteq> None),
      (''has_domain'', fq_has_domain query \<noteq> None), (''evidence'', fq_evidence query \<noteq> None),
      (''confidence'', fq_confidence query \<noteq> None), (''hide_noise'', fq_hide_noise query \<noteq> None),
      (''q'', fq_q query \<noteq> None), (''sort'', fq_sort query \<noteq> None),
      (''limit'', fq_limit query \<noteq> None), (''offset'', fq_offset query \<noteq> None)])"

definition query_addresses :: "flow_query \<Rightarrow> ip_addr list" where
  "query_addresses query = List.map_filter id [fq_ip query, fq_src_ip query, fq_dst_ip query]"

definition lower :: "flow_query \<Rightarrow> unsupported_query + selector" where
  "lower query =
     (let unsupported = unsupported_fields query in
      if unsupported \<noteq> [] then Inl \<lparr>uq_fields = unsupported, uq_reason = NotProvable\<rparr> else
      let addresses = query_addresses query in
      if length addresses > 1
      then Inl \<lparr>uq_fields = [''ip'', ''src_ip'', ''dst_ip''], uq_reason = OneAddressOnly\<rparr> else
      let address = (case addresses of [] \<Rightarrow> None | a # _ \<Rightarrow> Some a) in
      if fq_port query \<noteq> None \<and> address = None
      then Inl \<lparr>uq_fields = [''port''], uq_reason = PortNeedsAddress\<rparr> else
      let endpoint = map_option (\<lambda>a. SelEndpoint a (fq_port query)) address;
          application = map_option SelApplication (fq_application_id query) in
      (case (endpoint, application) of
         (Some selector, None) \<Rightarrow> Inr selector
       | (None, Some selector) \<Rightarrow> Inr selector
       | (Some _, Some _) \<Rightarrow> Inl \<lparr>uq_fields = [''ip'', ''application_id''], uq_reason = CannotCompose\<rparr>
       | (None, None) \<Rightarrow> Inl \<lparr>uq_fields = [], uq_reason = NothingEnforceable\<rparr>))"

section \<open>Resolution\<close>

datatype match_target =
  TargetEndpoint ipv4 "u16 option"
| TargetCidr ipv4 u8
| TargetAppCgroup u64
| TargetAppComm "u8 list"

text \<open>
  The derived order: by variant, then field by field; an absent port sorts first.
\<close>

fun target_key :: "match_target \<Rightarrow> nat list" where
  "target_key (TargetEndpoint a port) =
     0 # map unat (ipv4_octets a) @ [case port of None \<Rightarrow> 0 | Some p \<Rightarrow> Suc (unat p)]"
| "target_key (TargetCidr a len) = 1 # map unat (ipv4_octets a) @ [unat len]"
| "target_key (TargetAppCgroup c) = [2, unat c]"
| "target_key (TargetAppComm comm) = 3 # map unat comm"

lemma ipv4_octets_inject: "ipv4_octets a = ipv4_octets b \<longleftrightarrow> a = b"
  by (cases a; cases b) simp

lemma map_unat_inject: "map unat xs = map unat ys \<longleftrightarrow> xs = ys" for xs ys :: "'a::len word list"
  by (rule inj_map_eq_map) (simp add: inj_def word_unat_eq_iff)

lemma target_key_inject: "target_key a = target_key b \<longleftrightarrow> a = b"
  by (cases a; cases b) (auto simp: map_unat_inject ipv4_octets_inject word_unat_eq_iff split: option.splits)

instantiation match_target :: linorder
begin

definition less_eq_match_target :: "match_target \<Rightarrow> match_target \<Rightarrow> bool" where
  "less_eq_match_target a b \<longleftrightarrow> target_key a \<le> target_key b"

definition less_match_target :: "match_target \<Rightarrow> match_target \<Rightarrow> bool" where
  "less_match_target a b \<longleftrightarrow> target_key a < target_key b"

instance
  by standard (auto simp: less_eq_match_target_def less_match_target_def target_key_inject [symmetric])

end

datatype coverage = Complete | Unresolved reason

record resolution =
  rn_targets :: "match_target list"
  rn_coverage :: coverage
  rn_expires_at :: "instant option"

definition complete_resolution :: "match_target list \<Rightarrow> resolution" where
  "complete_resolution targets =
     \<lparr>rn_targets = remdups_adj (sort targets), rn_coverage = Complete, rn_expires_at = None\<rparr>"

definition unresolved_resolution :: "reason \<Rightarrow> resolution" where
  "unresolved_resolution r = \<lparr>rn_targets = [], rn_coverage = Unresolved r, rn_expires_at = None\<rparr>"

text \<open>
  The evidence: the cgroup inodes of a container and the stored process name of an executable.
\<close>

record evidence =
  ev_inodes :: "string \<Rightarrow> u64 list"
  ev_comm :: "string \<Rightarrow> string option"

definition application_resolution :: "evidence \<Rightarrow> string \<Rightarrow> resolution" where
  "application_resolution ev ident =
     (case strip_prefix ident ''proc:comm:'' of
        Some comm \<Rightarrow>
          if comm = [] then unresolved_resolution EmptyComm
          else complete_resolution [TargetAppComm (comm_bytes comm)]
      | None \<Rightarrow>
     (case strip_prefix ident ''cont:'' of
        Some container \<Rightarrow>
          let inodes = ev_inodes ev container in
          if inodes = [] then unresolved_resolution (NoCgroup container)
          else complete_resolution (map TargetAppCgroup inodes)
      | None \<Rightarrow>
          if starts_with ident ''proc:'' then
            (case ev_comm ev ident of
               None \<Rightarrow> unresolved_resolution (NoStoredComm ident)
             | Some comm \<Rightarrow> complete_resolution [TargetAppComm (comm_bytes comm)])
          else unresolved_resolution (NoKnownPrefix ident)))"

fun resolve :: "evidence \<Rightarrow> selector \<Rightarrow> resolution" where
  "resolve ev (SelEndpoint (IpV4 address) port) = complete_resolution [TargetEndpoint address port]"
| "resolve ev (SelEndpoint (IpV6 _) _) = unresolved_resolution Ipv6Later"
| "resolve ev (SelCidr (IpV4 address) prefix_len) = complete_resolution [TargetCidr address prefix_len]"
| "resolve ev (SelCidr (IpV6 _) _) = unresolved_resolution Ipv6Later"
| "resolve ev (SelApplication ident) = application_resolution ev ident"

section \<open>What lowering and resolution guarantee\<close>

text \<open>
  An observation query lowers to a selector exactly when none of the listed filters is set
  and it names one address (then the selector is that endpoint with the query's port) or no
  address, no port and one application.
\<close>

theorem lower_ok_iff:
  "lower query = Inr selector \<longleftrightarrow>
     unsupported_fields query = []
     \<and> ((\<exists>a. query_addresses query = [a] \<and> fq_application_id query = None
            \<and> selector = SelEndpoint a (fq_port query))
        \<or> (\<exists>ident. query_addresses query = [] \<and> fq_port query = None
            \<and> fq_application_id query = Some ident \<and> selector = SelApplication ident))"
  by (cases "query_addresses query" rule: remdups_adj.cases)
    (auto simp: lower_def Let_def not_less less_Suc_eq_le split: option.splits list.splits)

text \<open>
  Lowering looks at no time bounds and no service filter: a query for one address narrowed
  to a fingerprint service or to an absolute window lowers to the same selector as without them,
  so the action covers traffic the view did not show.
\<close>

theorem lower_ignores_service_and_window:
  "lower (query\<lparr>fq_start := a, fq_end := b, fq_service := c, fq_direction := d\<rparr>) = lower query"
proof -
  let ?q = "query\<lparr>fq_start := a, fq_end := b, fq_service := c, fq_direction := d\<rparr>"
  have "unsupported_fields ?q = unsupported_fields query" "query_addresses ?q = query_addresses query"
    "fq_port ?q = fq_port query" "fq_application_id ?q = fq_application_id query"
    by (simp_all add: unsupported_fields_def query_addresses_def)
  then show ?thesis by (simp only: lower_def)
qed

lemma distinct_remdups_adj_sorted: "sorted xs \<Longrightarrow> distinct (remdups_adj xs)"
  by (induction xs rule: remdups_adj.induct) (auto simp: remdups_adj_set)

lemma sorted_remdups_adj_sort:
  "sorted (remdups_adj (sort xs)) \<and> distinct (remdups_adj (sort xs)) \<and> set (remdups_adj (sort xs)) = set xs"
  by (simp add: sorted_remdups_adj distinct_remdups_adj_sorted)

definition resolution_ok :: "resolution \<Rightarrow> bool" where
  "resolution_ok r \<longleftrightarrow> sorted (rn_targets r) \<and> distinct (rn_targets r)
     \<and> (rn_targets r = [] \<longleftrightarrow> rn_coverage r \<noteq> Complete)"

lemma complete_resolution_ok: "targets \<noteq> [] \<Longrightarrow> resolution_ok (complete_resolution targets)"
  using sorted_remdups_adj_sort [of targets]
  by (auto simp: resolution_ok_def complete_resolution_def simp flip: set_empty2)

lemma unresolved_resolution_ok: "resolution_ok (unresolved_resolution r)"
  by (simp add: resolution_ok_def unresolved_resolution_def)

text \<open>
  A resolution is usable exactly when it has targets, and the targets are in strictly
  ascending order, whatever the evidence sources return.
\<close>

theorem resolve_ok: "resolution_ok (resolve ev selector)"
  by (cases "(ev, selector)" rule: resolve.cases)
    (auto simp: complete_resolution_ok unresolved_resolution_ok application_resolution_def Let_def
      split: option.split)

text \<open>
  The capability matrix is honest: the targets of a selector whose plan is direct do not
  depend on the evidence, and a selector that validates and is not unsupported is never left
  unresolved for its address family or an unknown prefix.
\<close>

theorem plan_sound:
  "(if selector_plan selector = PlanDirect then resolve ev selector = resolve ev' selector else True)
   \<and> (case rn_coverage (resolve ev selector) of
        Unresolved Ipv6Later \<Rightarrow> selector_plan selector = PlanUnsupported Ipv6Later
      | Unresolved (NoKnownPrefix _) \<Rightarrow> selector_plan selector = PlanUnsupported UnknownPrefix
      | _ \<Rightarrow> True)"
proof (cases "(ev, selector)" rule: resolve.cases)
  case (5 ev ident)
  then show ?thesis
    by (auto simp: application_resolution_def strip_prefix_def Let_def complete_resolution_def
        unresolved_resolution_def starts_with_def split: option.splits)
qed (simp_all add: complete_resolution_def unresolved_resolution_def)

end
