(* ===== verification/Policy_Compile.thy ===== *)
theory Policy_Compile
  imports Selector
begin

text \<open>
  The compiled Traffic Rule model, \<^verbatim>\<open>policy/mod.rs\<close>: rules in product terms, their
  validation, and compilation to the match entries and token buckets the kernel maps accept.
  The evidence resolver is a stateful parameter. Proved: names round-trip; every enabled rule is
  either compiled or reported, in order; a compiled rule has exactly the buckets of its
  directions, its matches are its resolved targets in those directions, and its rate is one the
  packet path's arithmetic can represent; and an accepted program fits the kernel maps.
\<close>

section \<open>Rules\<close>

definition MAX_TRAFFIC_RULES :: nat where "MAX_TRAFFIC_RULES = DEFAULT_TRAFFIC_RULE_CAPACITY"
definition MIN_RATE_BYTES_PER_S :: u64 where "MIN_RATE_BYTES_PER_S = 4096"
definition MAX_RATE_BYTES_PER_S :: u64 where "MAX_RATE_BYTES_PER_S = 10 * 1024 * 1024 * 1024"

datatype rule_direction = RuleInbound | RuleOutbound | RuleBoth

fun directions :: "rule_direction \<Rightarrow> direction list" where
  "directions RuleInbound = [Inbound]"
| "directions RuleOutbound = [Outbound]"
| "directions RuleBoth = [Inbound, Outbound]"

fun direction_as_str :: "rule_direction \<Rightarrow> string" where
  "direction_as_str RuleInbound = ''inbound''"
| "direction_as_str RuleOutbound = ''outbound''"
| "direction_as_str RuleBoth = ''both''"

definition direction_from_name :: "string \<Rightarrow> rule_direction option" where
  "direction_from_name name =
     (if name = ''inbound'' then Some RuleInbound
      else if name = ''outbound'' then Some RuleOutbound
      else if name = ''both'' then Some RuleBoth
      else None)"

fun action_name :: "rule_action \<Rightarrow> string" where
  "action_name Limit = ''limit''"
| "action_name Block = ''block''"

definition action_from_name :: "string \<Rightarrow> rule_action option" where
  "action_from_name name =
     (if name = ''limit'' then Some Limit else if name = ''block'' then Some Block else None)"

datatype action_spec = LimitSpec (spec_rate: u64) (spec_burst: u64) | BlockSpec

fun spec_action :: "action_spec \<Rightarrow> rule_action" where
  "spec_action (LimitSpec _ _) = Limit"
| "spec_action BlockSpec = Block"

fun spec_rates :: "action_spec \<Rightarrow> u64 \<times> u64" where
  "spec_rates (LimitSpec rate burst) = (rate, burst)"
| "spec_rates BlockSpec = (0, 0)"

fun validate_action :: "action_spec \<Rightarrow> reason + unit" where
  "validate_action (LimitSpec rate burst) =
     (if \<not> (MIN_RATE_BYTES_PER_S \<le> rate \<and> rate \<le> MAX_RATE_BYTES_PER_S) then Inl RateOutOfRange
      else if burst = 0 then Inl BurstZero
      else Inr ())"
| "validate_action BlockSpec = Inr ()"

record traffic_rule =
  tr_id :: u32
  tr_action :: action_spec
  tr_direction :: rule_direction
  tr_selector :: selector
  tr_enabled :: bool

record unresolved_rule =
  ur_rule_id :: u32
  ur_reason :: reason

section \<open>The compiled program\<close>

datatype match_entry =
  AppCgroup (entry_direction: direction) u64
| AppComm (entry_direction: direction) "u8 list"
| EndpointExact (entry_direction: direction) endpoint_match_key
| EndpointCidr (entry_direction: direction) u32 "u8 list"

record compiled_state =
  cs_key :: bucket_key
  cs_rate_bytes_per_s :: u64
  cs_burst_bytes :: u64

record compiled_rule =
  cr_id :: u32
  cr_action :: rule_action
  cr_matches :: "match_entry list"
  cr_states :: "compiled_state list"

record compiled_policy =
  cp_revision :: u64
  cp_enabled :: bool
  cp_rules :: "compiled_rule list"

record compiled_program =
  pg_policy :: compiled_policy
  pg_unresolved :: "unresolved_rule list"

definition compiled_policy_default :: compiled_policy where
  "compiled_policy_default = \<lparr>cp_revision = 0, cp_enabled = False, cp_rules = []\<rparr>"

section \<open>Compilation\<close>

text \<open>\<^verbatim>\<open>?\<close> on a result.\<close>

fun and_then :: "'e + 'a \<Rightarrow> ('a \<Rightarrow> 'e + 'b) \<Rightarrow> 'e + 'b" where
  "and_then (Inl e) f = Inl e"
| "and_then (Inr a) f = f a"

lemma and_then_Inr: "and_then r f = Inr b \<longleftrightarrow> (\<exists>a. r = Inr a \<and> f a = Inr b)"
  by (cases r) auto

definition validate_rule :: "traffic_rule \<Rightarrow> reason + unit" where
  "validate_rule rule =
     and_then (validate_selector (tr_selector rule)) (\<lambda>_.
       case selector_plan (tr_selector rule) of
         PlanUnsupported r \<Rightarrow> Inl r
       | _ \<Rightarrow> validate_action (tr_action rule))"

fun target_entry :: "direction \<Rightarrow> match_target \<Rightarrow> match_entry" where
  "target_entry d (TargetEndpoint address port) =
     EndpointExact d \<lparr>em_addr = ipv4_storage address,
       em_port_be = (case port of None \<Rightarrow> 0 | Some p \<Rightarrow> swap16 p), em_reserved = replicate 6 0\<rparr>"
| "target_entry d (TargetCidr address prefix_len) = EndpointCidr d (ucast prefix_len) (ipv4_octets address)"
| "target_entry d (TargetAppCgroup cgroup_id) = AppCgroup d cgroup_id"
| "target_entry d (TargetAppComm comm) = AppComm d comm"

definition matches_from_targets :: "match_target list \<Rightarrow> rule_direction \<Rightarrow> match_entry list" where
  "matches_from_targets targets direction =
     concat (map (\<lambda>d. map (target_entry d) targets) (directions direction))"

text \<open>
  A resolver takes its own state and a selector, and answers with a resolution or the reason it
  is unavailable.
\<close>

type_synonym 's resolver = "'s \<Rightarrow> selector \<Rightarrow> (string + resolution) \<times> 's"

definition compiled_states :: "traffic_rule \<Rightarrow> compiled_state list" where
  "compiled_states rule =
     (let (rate, burst) = spec_rates (tr_action rule) in
      map (\<lambda>d. \<lparr>cs_key = \<lparr>bk_rule_id = tr_id rule, bk_direction = direction_to_abi d,
                  bk_reserved = replicate 3 0\<rparr>,
                cs_rate_bytes_per_s = rate, cs_burst_bytes = burst\<rparr>)
        (directions (tr_direction rule)))"

definition compile_rule :: "'s resolver \<Rightarrow> 's \<Rightarrow> traffic_rule \<Rightarrow> (reason + compiled_rule) \<times> 's" where
  "compile_rule resolver s rule =
     (case validate_rule rule of
        Inl r \<Rightarrow> (Inl r, s)
      | Inr _ \<Rightarrow>
          let (answer, s) = resolver s (tr_selector rule) in
          (case answer of
             Inl text \<Rightarrow> (Inl (ResolverUnavailable text), s)
           | Inr resolution \<Rightarrow>
          (case rn_coverage resolution of
             Unresolved r \<Rightarrow> (Inl r, s)
           | Complete \<Rightarrow>
               (Inr \<lparr>cr_id = tr_id rule, cr_action = spec_action (tr_action rule),
                     cr_matches = matches_from_targets (rn_targets resolution) (tr_direction rule),
                     cr_states = compiled_states rule\<rparr>, s))))"

fun compile_rules ::
  "'s resolver \<Rightarrow> 's \<Rightarrow> traffic_rule list \<Rightarrow> compiled_rule list \<times> unresolved_rule list \<times> 's" where
  "compile_rules resolver s [] = ([], [], s)"
| "compile_rules resolver s (rule # rules) =
     (if \<not> tr_enabled rule then compile_rules resolver s rules else
      let (result, s) = compile_rule resolver s rule;
          (compiled, unresolved, s) = compile_rules resolver s rules in
      case result of
        Inr c \<Rightarrow> (c # compiled, unresolved, s)
      | Inl r \<Rightarrow> (compiled, \<lparr>ur_rule_id = tr_id rule, ur_reason = r\<rparr> # unresolved, s))"

fun tier_index :: "match_entry \<Rightarrow> nat" where
  "tier_index (AppCgroup Inbound _) = 0"
| "tier_index (AppCgroup Outbound _) = 1"
| "tier_index (AppComm Inbound _) = 2"
| "tier_index (AppComm Outbound _) = 3"
| "tier_index (EndpointExact Inbound _) = 4"
| "tier_index (EndpointExact Outbound _) = 5"
| "tier_index (EndpointCidr Inbound _ _) = 6"
| "tier_index (EndpointCidr Outbound _ _) = 7"

definition tier_size :: "match_entry list \<Rightarrow> nat \<Rightarrow> nat" where
  "tier_size entries tier = length (remdups (filter (\<lambda>e. tier_index e = tier) entries))"

definition check_capacity_tiers :: "match_entry list \<Rightarrow> reason + unit" where
  "check_capacity_tiers entries =
     (case List.find (\<lambda>tier. tier_size entries tier > MAX_TRAFFIC_RULES) [0..<8] of
        Some overflow \<Rightarrow> Inl (TierOverflow overflow (tier_size entries overflow))
      | None \<Rightarrow> Inr ())"

definition check_target_capacity :: "match_target list \<Rightarrow> rule_direction \<Rightarrow> reason + unit" where
  "check_target_capacity targets direction = check_capacity_tiers (matches_from_targets targets direction)"

definition check_capacity :: "compiled_rule list \<Rightarrow> reason + unit" where
  "check_capacity rules = check_capacity_tiers (concat (map cr_matches rules))"

definition compile ::
  "traffic_rule list \<Rightarrow> 's resolver \<Rightarrow> 's \<Rightarrow> u64 \<Rightarrow> bool \<Rightarrow> (reason + compiled_program) \<times> 's" where
  "compile rules resolver s revision enabled =
     (let (compiled, unresolved, s) = compile_rules resolver s rules in
      if length compiled > MAX_TRAFFIC_RULES then (Inl (TooManyRules (length compiled)), s)
      else
        (and_then (check_capacity compiled) (\<lambda>_. Inr
           \<lparr>pg_policy = \<lparr>cp_revision = revision, cp_enabled = enabled, cp_rules = compiled\<rparr>,
            pg_unresolved = unresolved\<rparr>), s))"

section \<open>Names\<close>

lemma direction_names: "direction_from_name (direction_as_str d) = Some d"
  by (cases d) (simp_all add: direction_from_name_def)

lemma action_names: "action_from_name (action_name a) = Some a"
  by (cases a) (simp_all add: action_from_name_def)

section \<open>Compiled rules\<close>

text \<open>What the packet path and the reconciliation rely on in a compiled rule.\<close>

definition rule_ok :: "compiled_rule \<Rightarrow> bool" where
  "rule_ok r \<longleftrightarrow>
     list_all (\<lambda>s. bk_rule_id (cs_key s) = cr_id r \<and> bk_reserved (cs_key s) = replicate 3 0
        \<and> cs_rate_bytes_per_s s \<le> MAX_RATE_BYTES_PER_S) (cr_states r)
     \<and> length (cr_states r) \<le> 2 \<and> distinct (map (bk_direction \<circ> cs_key) (cr_states r))
     \<and> list_all (\<lambda>e. direction_to_abi (entry_direction e) \<in> set (map (bk_direction \<circ> cs_key) (cr_states r)))
          (cr_matches r)"

lemma compiled_states_keys:
  "map (bk_direction \<circ> cs_key) (compiled_states rule) = map direction_to_abi (directions (tr_direction rule))"
  by (simp add: compiled_states_def Let_def split: prod.split)

lemma entry_direction_matches:
  "e \<in> set (matches_from_targets targets d) \<Longrightarrow> entry_direction e \<in> set (directions d)"
  by (auto simp: matches_from_targets_def) (metis match_entry.sel target_entry.elims)

lemma compile_rule_ok:
  assumes "compile_rule resolver s rule = (Inr c, s')"
  shows "rule_ok c" "cr_id c = tr_id rule" "cr_action c = spec_action (tr_action rule)"
    "cr_states c = compiled_states rule"
    "\<exists>resolution s''. resolver s (tr_selector rule) = (Inr resolution, s'') \<and> rn_coverage resolution = Complete
       \<and> cr_matches c = matches_from_targets (rn_targets resolution) (tr_direction rule)"
    "validate_rule rule = Inr ()"
proof -
  obtain resolution s'' where v: "validate_rule rule = Inr ()"
    and r: "resolver s (tr_selector rule) = (Inr resolution, s'')" "rn_coverage resolution = Complete"
    and c: "c = \<lparr>cr_id = tr_id rule, cr_action = spec_action (tr_action rule),
                     cr_matches = matches_from_targets (rn_targets resolution) (tr_direction rule),
                     cr_states = compiled_states rule\<rparr>"
    using assms by (auto simp: compile_rule_def split: sum.splits prod.splits coverage.splits)
  have "fst (spec_rates (tr_action rule)) \<le> MAX_RATE_BYTES_PER_S"
    using v by (cases "tr_action rule")
      (auto simp: validate_rule_def and_then_Inr split: kernel_plan.splits if_splits)
  then have "list_all (\<lambda>s. bk_rule_id (cs_key s) = tr_id rule \<and> bk_reserved (cs_key s) = replicate 3 0
      \<and> cs_rate_bytes_per_s s \<le> MAX_RATE_BYTES_PER_S) (compiled_states rule)"
    by (cases "tr_action rule") (auto simp: compiled_states_def list_all_iff)
  moreover have "distinct (map direction_to_abi (directions (tr_direction rule)))"
    by (cases "tr_direction rule") simp_all
  moreover have "length (compiled_states rule) \<le> 2"
    by (cases "tr_direction rule") (simp_all add: compiled_states_def split: prod.split)
  ultimately show "rule_ok c"
    using entry_direction_matches
    by (auto simp: rule_ok_def c compiled_states_keys list_all_iff simp del: map_map)
  show "cr_id c = tr_id rule" "cr_action c = spec_action (tr_action rule)" "cr_states c = compiled_states rule"
    "validate_rule rule = Inr ()"
    "\<exists>resolution s''. resolver s (tr_selector rule) = (Inr resolution, s'') \<and> rn_coverage resolution = Complete
       \<and> cr_matches c = matches_from_targets (rn_targets resolution) (tr_direction rule)"
    using v r by (simp_all add: c)
qed

lemma compile_rules_shuffle:
  "compile_rules resolver s rules = (compiled, unresolved, s') \<Longrightarrow>
     map tr_id (filter tr_enabled rules) \<in> shuffles (map cr_id compiled) (map ur_rule_id unresolved)
     \<and> list_all rule_ok compiled"
proof (induction rules arbitrary: s compiled unresolved s')
  case (Cons rule rules)
  show ?case
  proof (cases "tr_enabled rule")
    case True
    obtain result s1 where c: "compile_rule resolver s rule = (result, s1)"
      by (cases "compile_rule resolver s rule")
    obtain cs us s2 where r: "compile_rules resolver s1 rules = (cs, us, s2)"
      by (cases "compile_rules resolver s1 rules") auto
    note IH = Cons.IH [OF r]
    show ?thesis
    proof (cases result)
      case (Inl x)
      then show ?thesis
        using Cons.prems True c r IH by (auto simp: Let_def intro: Cons_in_shuffles_rightI)
    next
      case (Inr x)
      note x = compile_rule_ok [OF c [unfolded Inr]]
      show ?thesis
        using Cons.prems True c r IH Inr x(1,2) by (auto simp: Let_def intro: Cons_in_shuffles_leftI)
    qed
  next
    case False
    then show ?thesis using Cons by simp
  qed
qed simp

lemma compile_ok_cases:
  assumes "compile rules resolver s revision enabled = (Inr program, s')"
  shows "compile_rules resolver s rules = (cp_rules (pg_policy program), pg_unresolved program, s')"
    "length (cp_rules (pg_policy program)) \<le> MAX_TRAFFIC_RULES"
    "check_capacity (cp_rules (pg_policy program)) = Inr ()"
    "cp_revision (pg_policy program) = revision" "cp_enabled (pg_policy program) = enabled"
  using assms
  by (auto simp: compile_def Let_def and_then_Inr split: prod.splits if_splits)

lemma compile_shuffle:
  assumes "compile rules resolver s revision enabled = (Inr program, s')"
  shows "map tr_id (filter tr_enabled rules)
    \<in> shuffles (map cr_id (cp_rules (pg_policy program))) (map ur_rule_id (pg_unresolved program))"
  using compile_rules_shuffle [OF compile_ok_cases(1) [OF assms]] by simp

text \<open>
  Compilation loses no rule: every enabled rule is either compiled or reported as
  unresolved, each once and in the stored order, and disabled rules appear in neither list.
\<close>

theorem compile_partitions_enabled:
  assumes "compile rules resolver s revision enabled = (Inr program, s')"
  shows "map tr_id (filter tr_enabled rules)
    \<in> shuffles (map cr_id (cp_rules (pg_policy program))) (map ur_rule_id (pg_unresolved program))"
  by (rule compile_shuffle [OF assms])

lemma check_capacity_tiers_ok:
  "check_capacity_tiers entries = Inr () \<Longrightarrow> tier < 8 \<Longrightarrow> tier_size entries tier \<le> MAX_TRAFFIC_RULES"
  by (auto simp: check_capacity_tiers_def find_None_iff split: option.splits)

text \<open>
  C14: an accepted program fits the kernel: at most 64 rules and 128 buckets, at most 64 distinct
  entries in each of the eight match maps; and every rule's buckets are its own, one per
  direction, with a rate the packet path can multiply, and its matches are in those directions.
\<close>

theorem compiled_program_fits:
  assumes "compile rules resolver s revision enabled = (Inr program, s')"
  shows "length (cp_rules (pg_policy program)) \<le> 64
    \<and> length (concat (map cr_states (cp_rules (pg_policy program)))) \<le> 128
    \<and> (\<forall>tier < 8. tier_size (concat (map cr_matches (cp_rules (pg_policy program)))) tier \<le> 64)
    \<and> list_all rule_ok (cp_rules (pg_policy program))"
proof -
  let ?rules = "cp_rules (pg_policy program)"
  note c = compile_ok_cases [OF assms]
  have ok: "list_all rule_ok ?rules" using compile_rules_shuffle [OF c(1)] by simp
  have "length (concat (map cr_states rs)) \<le> 2 * length rs" if "list_all rule_ok rs" for rs
    using that by (induction rs) (auto simp: rule_ok_def)
  from this [OF ok] have "length (concat (map cr_states ?rules)) \<le> 128"
    using c(2) by (simp add: MAX_TRAFFIC_RULES_def DEFAULT_TRAFFIC_RULE_CAPACITY_def)
  then show ?thesis
    using ok c(2) check_capacity_tiers_ok [OF c(3) [unfolded check_capacity_def]]
    by (simp add: MAX_TRAFFIC_RULES_def DEFAULT_TRAFFIC_RULE_CAPACITY_def)
qed

text \<open>A block for one address, a disabled rule, and a rule that cannot be enforced.\<close>

definition no_evidence :: "unit resolver" where
  "no_evidence s selector = (Inr (resolve \<lparr>ev_inodes = (\<lambda>_. []), ev_comm = (\<lambda>_. None)\<rparr> selector), s)"

definition sample_rules :: "traffic_rule list" where
  "sample_rules =
     [\<lparr>tr_id = 1, tr_action = BlockSpec, tr_direction = RuleOutbound,
       tr_selector = SelEndpoint (IpV4 (Ipv4 1 1 1 1)) None, tr_enabled = True\<rparr>,
      \<lparr>tr_id = 2, tr_action = BlockSpec, tr_direction = RuleBoth,
       tr_selector = SelCidr (IpV4 (Ipv4 10 0 0 0)) 8, tr_enabled = False\<rparr>,
      \<lparr>tr_id = 3, tr_action = LimitSpec 8192 65536, tr_direction = RuleBoth,
       tr_selector = SelEndpoint (IpV6 (Ipv6 (replicate 16 1))) None, tr_enabled = True\<rparr>]"

definition sample_program :: compiled_program where
  "sample_program = \<lparr>pg_policy = \<lparr>cp_revision = 9, cp_enabled = True, cp_rules =
       [\<lparr>cr_id = 1, cr_action = Block,
         cr_matches = [EndpointExact Outbound \<lparr>em_addr = ipv4_storage (Ipv4 1 1 1 1), em_port_be = 0, em_reserved = replicate 6 0\<rparr>],
         cr_states = [\<lparr>cs_key = \<lparr>bk_rule_id = 1, bk_direction = 2, bk_reserved = replicate 3 0\<rparr>,
           cs_rate_bytes_per_s = 0, cs_burst_bytes = 0\<rparr>]\<rparr>]\<rparr>,
     pg_unresolved = [\<lparr>ur_rule_id = 3, ur_reason = Ipv6Later\<rparr>]\<rparr>"

lemma sample_compiled: "compile sample_rules no_evidence () 9 True = (Inr sample_program, ())"
proof -
  have "tier_size [EndpointExact Outbound x] t \<le> 64" for x t
    by (simp add: tier_size_def)
  then have "check_capacity_tiers [EndpointExact Outbound x] = Inr ()" for x
    by (auto simp: check_capacity_tiers_def MAX_TRAFFIC_RULES_def DEFAULT_TRAFFIC_RULE_CAPACITY_def
        find_Some_iff not_less [symmetric] split: option.split)
  moreover have "\<not> (224 :: u8) \<le> 1" by (simp add: word_le_nat_alt)
  ultimately show ?thesis
    by (simp add: compile_def sample_rules_def sample_program_def compile_rule_def validate_rule_def no_evidence_def
        complete_resolution_def matches_from_targets_def compiled_states_def check_capacity_def
        MAX_TRAFFIC_RULES_def DEFAULT_TRAFFIC_RULE_CAPACITY_def)
qed

lemma compile_partitions_enabled_witness: "[1, 3] \<in> shuffles [1] [3 :: u32]"
  using compile_partitions_enabled [OF sample_compiled] by (simp add: sample_rules_def sample_program_def)

lemma compiled_program_fits_witness: "list_all rule_ok (cp_rules (pg_policy sample_program))"
  using compiled_program_fits [OF sample_compiled] by simp

end
