(* ===== verification/Policy_Diff.thy ===== *)
theory Policy_Diff
  imports Policy_Compile Policy_Kernel
begin

text \<open>
  Reconciliation of the kernel maps with a compiled policy: \<^verbatim>\<open>diff\<close> of
  \<^verbatim>\<open>policy/mod.rs\<close> and the application of its operations, \<^verbatim>\<open>apply_policy\<close>
  and \<^verbatim>\<open>apply_policy_op\<close> of \<^verbatim>\<open>collector/aya.rs\<close>. What the kernel does
  with a write is a parameter: whether it accepts it, and which longest-prefix keys it
  identifies. A removal of an absent key is an error, as the kernel's maps answer it. Proved: in
  maps that represent the previous policy the operations succeed one by one, never leave a match
  entry without its bucket, and end in maps that represent the next policy.
\<close>

section \<open>Operations\<close>

datatype policy_op =
  SetEnabled bool bool bool u32
| UpsertState bucket_key u64 u64
| RemoveState bucket_key
| UpsertMatch match_entry rule_ref
| RemoveMatch match_entry

record apply_summary =
  as_revision :: u64
  as_operations :: nat
  as_rules :: nat

definition find_rule :: "compiled_policy \<Rightarrow> u32 \<Rightarrow> compiled_rule option" where
  "find_rule p ident = List.find (\<lambda>rule. cr_id rule = ident) (cp_rules p)"

fun is_app_entry :: "match_entry \<Rightarrow> bool" where
  "is_app_entry (AppCgroup _ _) = True"
| "is_app_entry (AppComm _ _) = True"
| "is_app_entry _ = False"

definition has_app_rules :: "compiled_policy \<Rightarrow> bool" where
  "has_app_rules p = list_ex (\<lambda>rule. list_ex is_app_entry (cr_matches rule)) (cp_rules p)"

definition has_endpoint_rules :: "compiled_policy \<Rightarrow> bool" where
  "has_endpoint_rules p = list_ex (\<lambda>rule. list_ex (\<lambda>e. \<not> is_app_entry e) (cr_matches rule)) (cp_rules p)"

definition config_op :: "compiled_policy \<Rightarrow> bool \<Rightarrow> policy_op" where
  "config_op p enabled =
     SetEnabled enabled (has_app_rules p) (has_endpoint_rules p) (ucast (min (cp_revision p) 0xFFFFFFFF))"

definition rule_ref_of :: "compiled_rule \<Rightarrow> rule_ref" where
  "rule_ref_of rule =
     \<lparr>rr_rule_id = cr_id rule, rr_action = rule_action_to_abi (cr_action rule), rr_reserved = replicate 3 0\<rparr>"

definition removed_rule_ops :: "compiled_rule \<Rightarrow> policy_op list" where
  "removed_rule_ops rule = map RemoveMatch (cr_matches rule) @ map (RemoveState \<circ> cs_key) (cr_states rule)"

definition state_unchanged :: "compiled_rule option \<Rightarrow> compiled_state \<Rightarrow> bool" where
  "state_unchanged before state =
     (case before of
        None \<Rightarrow> False
      | Some previous \<Rightarrow>
          (case List.find (\<lambda>s. cs_key s = cs_key state) (cr_states previous) of
             None \<Rightarrow> False
           | Some s \<Rightarrow> cs_rate_bytes_per_s s = cs_rate_bytes_per_s state
               \<and> cs_burst_bytes s = cs_burst_bytes state))"

definition match_unchanged :: "compiled_rule option \<Rightarrow> compiled_rule \<Rightarrow> match_entry \<Rightarrow> bool" where
  "match_unchanged before rule entry =
     (case before of
        None \<Rightarrow> False
      | Some previous \<Rightarrow> cr_action previous = cr_action rule \<and> entry \<in> set (cr_matches previous))"

definition kept_rule_ops :: "compiled_rule option \<Rightarrow> compiled_rule \<Rightarrow> policy_op list" where
  "kept_rule_ops before rule =
     map (\<lambda>s. UpsertState (cs_key s) (cs_rate_bytes_per_s s) (cs_burst_bytes s))
       (filter (\<lambda>s. \<not> state_unchanged before s) (cr_states rule))
     @ map (\<lambda>e. UpsertMatch e (rule_ref_of rule))
         (filter (\<lambda>e. \<not> match_unchanged before rule e) (cr_matches rule))
     @ (case before of
          None \<Rightarrow> []
        | Some previous \<Rightarrow> map RemoveMatch (filter (\<lambda>e. e \<notin> set (cr_matches rule)) (cr_matches previous)))"

definition diff :: "compiled_policy \<Rightarrow> compiled_policy \<Rightarrow> policy_op list" where
  "diff previous next_policy =
     (let disabling = (cp_enabled previous \<and> \<not> cp_enabled next_policy) in
      (if disabling then [config_op next_policy False] else [])
      @ concat (map removed_rule_ops
          (filter (\<lambda>rule. find_rule next_policy (cr_id rule) = None) (cp_rules previous)))
      @ concat (map (\<lambda>rule. kept_rule_ops (find_rule previous (cr_id rule)) rule) (cp_rules next_policy))
      @ (if cp_enabled next_policy \<or> \<not> disabling
         then [config_op next_policy (cp_enabled next_policy)] else []))"

definition flag :: "bool \<Rightarrow> u8" where "flag b = (if b then 1 else 0)"

definition config_value :: "bool \<Rightarrow> bool \<Rightarrow> bool \<Rightarrow> u32 \<Rightarrow> policy_config" where
  "config_value enabled app_rules endpoint_rules revision =
     \<lparr>pc_enabled = flag enabled, pc_app_rules = flag app_rules, pc_endpoint_rules = flag endpoint_rules,
      pc_reserved = 0, pc_revision = revision\<rparr>"

section \<open>Application to the kernel maps\<close>

type_synonym lpm_canon = "nat \<times> u8 list \<Rightarrow> nat \<times> u8 list"

fun lookup_match :: "lpm_canon \<Rightarrow> kernel \<Rightarrow> match_entry \<Rightarrow> rule_ref option" where
  "lookup_match canon k (AppCgroup Inbound c) = k_app_cgroup_ingress k c"
| "lookup_match canon k (AppCgroup Outbound c) = k_app_cgroup_egress k c"
| "lookup_match canon k (AppComm Inbound c) = k_app_comm_ingress k c"
| "lookup_match canon k (AppComm Outbound c) = k_app_comm_egress k c"
| "lookup_match canon k (EndpointExact Inbound key) = k_endpoint_exact_ingress k key"
| "lookup_match canon k (EndpointExact Outbound key) = k_endpoint_exact_egress k key"
| "lookup_match canon k (EndpointCidr Inbound len a) = k_endpoint_cidr_ingress k (canon (unat len, a))"
| "lookup_match canon k (EndpointCidr Outbound len a) = k_endpoint_cidr_egress k (canon (unat len, a))"

fun set_match :: "lpm_canon \<Rightarrow> match_entry \<Rightarrow> rule_ref option \<Rightarrow> kernel \<Rightarrow> kernel" where
  "set_match canon (AppCgroup Inbound c) v k = k\<lparr>k_app_cgroup_ingress := (k_app_cgroup_ingress k)(c := v)\<rparr>"
| "set_match canon (AppCgroup Outbound c) v k = k\<lparr>k_app_cgroup_egress := (k_app_cgroup_egress k)(c := v)\<rparr>"
| "set_match canon (AppComm Inbound c) v k = k\<lparr>k_app_comm_ingress := (k_app_comm_ingress k)(c := v)\<rparr>"
| "set_match canon (AppComm Outbound c) v k = k\<lparr>k_app_comm_egress := (k_app_comm_egress k)(c := v)\<rparr>"
| "set_match canon (EndpointExact Inbound key) v k =
     k\<lparr>k_endpoint_exact_ingress := (k_endpoint_exact_ingress k)(key := v)\<rparr>"
| "set_match canon (EndpointExact Outbound key) v k =
     k\<lparr>k_endpoint_exact_egress := (k_endpoint_exact_egress k)(key := v)\<rparr>"
| "set_match canon (EndpointCidr Inbound len a) v k =
     k\<lparr>k_endpoint_cidr_ingress := (k_endpoint_cidr_ingress k)(canon (unat len, a) := v)\<rparr>"
| "set_match canon (EndpointCidr Outbound len a) v k =
     k\<lparr>k_endpoint_cidr_egress := (k_endpoint_cidr_egress k)(canon (unat len, a) := v)\<rparr>"

text \<open>The entry a state update writes: the live bucket with new parameters, or a full new one.\<close>

definition upserted_state :: "rule_state option \<Rightarrow> u64 \<Rightarrow> u64 \<Rightarrow> rule_state" where
  "upserted_state existing rate burst =
     (let st = (case existing of Some st \<Rightarrow> st | None \<Rightarrow> rule_state_default);
          st = st\<lparr>rs_rate_bytes_per_s := rate, rs_burst_bytes := burst\<rparr> in
      if existing = None then st\<lparr>rs_tokens := burst\<rparr> else st)"

text \<open>
  \<open>accepts\<close> is whether the kernel accepts a write (it refuses one when the map is full).
\<close>

fun apply_policy_op ::
  "lpm_canon \<Rightarrow> (kernel \<Rightarrow> policy_op \<Rightarrow> bool) \<Rightarrow> policy_op \<Rightarrow> kernel \<Rightarrow> kernel option" where
  "apply_policy_op canon accepts (SetEnabled enabled app ep revision) k =
     (if accepts k (SetEnabled enabled app ep revision)
      then Some (k\<lparr>k_policy_config := Some (config_value enabled app ep revision)\<rparr>) else None)"
| "apply_policy_op canon accepts (UpsertState key rate burst) k =
     (if accepts k (UpsertState key rate burst)
      then Some (k\<lparr>k_rule_states := (k_rule_states k)
             (key \<mapsto> upserted_state (k_rule_states k key) rate burst)\<rparr>) else None)"
| "apply_policy_op canon accepts (RemoveState key) k =
     (if k_rule_states k key = None then None
      else Some (k\<lparr>k_rule_states := (k_rule_states k)(key := None)\<rparr>))"
| "apply_policy_op canon accepts (UpsertMatch entry rule) k =
     (if accepts k (UpsertMatch entry rule) then Some (set_match canon entry (Some rule) k) else None)"
| "apply_policy_op canon accepts (RemoveMatch entry) k =
     (if lookup_match canon k entry = None then None else Some (set_match canon entry None k))"

text \<open>The loop stops at the first error; the maps keep what was written before it.\<close>

fun apply_policy ::
  "lpm_canon \<Rightarrow> (kernel \<Rightarrow> policy_op \<Rightarrow> bool) \<Rightarrow> policy_op list \<Rightarrow> kernel \<Rightarrow> bool \<times> kernel" where
  "apply_policy canon accepts [] k = (True, k)"
| "apply_policy canon accepts (op # ops) k =
     (case apply_policy_op canon accepts op k of
        None \<Rightarrow> (False, k)
      | Some k \<Rightarrow> apply_policy canon accepts ops k)"

section \<open>The maps as one lookup\<close>

text \<open>
  Entries whose prefix is in the kernel's own form: for them reading and writing the match maps
  is reading and writing one function of entries.
\<close>

fun canonical :: "lpm_canon \<Rightarrow> match_entry \<Rightarrow> bool" where
  "canonical canon (EndpointCidr _ len a) \<longleftrightarrow> canon (unat len, a) = (unat len, a)"
| "canonical canon _ \<longleftrightarrow> True"

lemma lookup_set_match:
  "canonical canon e \<Longrightarrow> canonical canon e' \<Longrightarrow>
     lookup_match canon (set_match canon e v k) e' = (if e' = e then v else lookup_match canon k e')"
  by (cases "(canon, e, v, k)" rule: set_match.cases; cases "(canon, k, e')" rule: lookup_match.cases)
    (auto simp: word_unat_eq_iff)

lemma set_match_states [simp]:
  "k_rule_states (set_match canon e v k) = k_rule_states k"
  "k_policy_config (set_match canon e v k) = k_policy_config k"
  by (cases "(canon, e, v, k)" rule: set_match.cases; simp)+

lemma lookup_match_states [simp]:
  "lookup_match canon (k\<lparr>k_rule_states := s\<rparr>) e = lookup_match canon k e"
  "lookup_match canon (k\<lparr>k_policy_config := c\<rparr>) e = lookup_match canon k e"
  by (cases "(canon, k, e)" rule: lookup_match.cases; simp)+

text \<open>The effect of an operation that succeeds.\<close>

fun effect :: "lpm_canon \<Rightarrow> policy_op \<Rightarrow> kernel \<Rightarrow> kernel" where
  "effect canon (SetEnabled enabled app ep revision) k =
     k\<lparr>k_policy_config := Some (config_value enabled app ep revision)\<rparr>"
| "effect canon (UpsertState key rate burst) k =
     k\<lparr>k_rule_states := (k_rule_states k)(key \<mapsto> upserted_state (k_rule_states k key) rate burst)\<rparr>"
| "effect canon (RemoveState key) k = k\<lparr>k_rule_states := (k_rule_states k)(key := None)\<rparr>"
| "effect canon (UpsertMatch entry rule) k = set_match canon entry (Some rule) k"
| "effect canon (RemoveMatch entry) k = set_match canon entry None k"

definition entry_bucket :: "rule_ref \<Rightarrow> match_entry \<Rightarrow> bucket_key" where
  "entry_bucket rule e = bucket_of rule (direction_to_abi (entry_direction e))"

text \<open>No match entry may lead the packet path to a missing bucket.\<close>

definition no_dangling :: "lpm_canon \<Rightarrow> kernel \<Rightarrow> bool" where
  "no_dangling canon k \<longleftrightarrow>
     (\<forall>e r. canonical canon e \<longrightarrow> lookup_match canon k e = Some r \<longrightarrow> k_rule_states k (entry_bucket r e) \<noteq> None)"

text \<open>When an operation both succeeds and keeps that promise.\<close>

fun op_safe :: "lpm_canon \<Rightarrow> kernel \<Rightarrow> policy_op \<Rightarrow> bool" where
  "op_safe canon k (RemoveState key) \<longleftrightarrow> k_rule_states k key \<noteq> None
     \<and> (\<forall>e r. canonical canon e \<longrightarrow> lookup_match canon k e = Some r \<longrightarrow> entry_bucket r e \<noteq> key)"
| "op_safe canon k (UpsertMatch e rule) \<longleftrightarrow> canonical canon e \<and> k_rule_states k (entry_bucket rule e) \<noteq> None"
| "op_safe canon k (RemoveMatch e) \<longleftrightarrow> canonical canon e \<and> lookup_match canon k e \<noteq> None"
| "op_safe canon k _ \<longleftrightarrow> True"

fun safe_run :: "lpm_canon \<Rightarrow> policy_op list \<Rightarrow> kernel \<Rightarrow> bool" where
  "safe_run canon [] k \<longleftrightarrow> True"
| "safe_run canon (op # ops) k \<longleftrightarrow> op_safe canon k op \<and> safe_run canon ops (effect canon op k)"

abbreviation effects :: "lpm_canon \<Rightarrow> policy_op list \<Rightarrow> kernel \<Rightarrow> kernel" where
  "effects canon ops k \<equiv> fold (effect canon) ops k"

lemma safe_run_append: "safe_run canon (xs @ ys) k \<longleftrightarrow> safe_run canon xs k \<and> safe_run canon ys (effects canon xs k)"
  by (induction xs arbitrary: k) auto

lemma op_safe_no_dangling: "no_dangling canon k \<Longrightarrow> op_safe canon k op \<Longrightarrow> no_dangling canon (effect canon op k)"
  by (cases op) (auto simp: no_dangling_def lookup_set_match)

lemma op_safe_applies:
  "\<forall>k. accepts k op \<Longrightarrow> op_safe canon k op \<Longrightarrow>
     apply_policy_op canon accepts op k = Some (effect canon op k)"
  by (cases op) auto

lemma safe_run_applies:
  "safe_run canon ops k \<Longrightarrow> \<forall>op \<in> set ops. \<forall>k. accepts k op \<Longrightarrow>
     apply_policy canon accepts ops k = (True, effects canon ops k)"
  by (induction ops arbitrary: k) (auto simp: op_safe_applies)

lemma safe_run_no_dangling:
  "safe_run canon ops k \<Longrightarrow> no_dangling canon k \<Longrightarrow> no_dangling canon (effects canon (take n ops) k)"
  by (induction ops arbitrary: k n) (auto simp: take_Cons' op_safe_no_dangling)

lemma safe_run_take: "safe_run canon ops k \<Longrightarrow> safe_run canon (take n ops) k"
  using safe_run_append [of canon "take n ops" "drop n ops" k] by simp

section \<open>The segments of a difference\<close>

lemma remove_matches:
  assumes "distinct es" "list_all (canonical canon) es" "list_all (\<lambda>e. lookup_match canon k e \<noteq> None) es"
  shows "safe_run canon (map RemoveMatch es) k"
    "canonical canon e \<Longrightarrow> lookup_match canon (effects canon (map RemoveMatch es) k) e
       = (if e \<in> set es then None else lookup_match canon k e)"
    "k_rule_states (effects canon (map RemoveMatch es) k) = k_rule_states k"
    "k_policy_config (effects canon (map RemoveMatch es) k) = k_policy_config k"
proof -
  have "safe_run canon (map RemoveMatch es) k
    \<and> (canonical canon e \<longrightarrow> lookup_match canon (effects canon (map RemoveMatch es) k) e
       = (if e \<in> set es then None else lookup_match canon k e))
    \<and> k_rule_states (effects canon (map RemoveMatch es) k) = k_rule_states k
    \<and> k_policy_config (effects canon (map RemoveMatch es) k) = k_policy_config k" for e
    using assms
  proof (induction es arbitrary: k)
    case (Cons x es)
    have "list_all (\<lambda>e. lookup_match canon (set_match canon x None k) e \<noteq> None) es"
      using Cons.prems by (auto simp: list_all_iff lookup_set_match)
    with Cons show ?case by (auto simp: lookup_set_match)
  qed simp
  then show "safe_run canon (map RemoveMatch es) k"
    "canonical canon e \<Longrightarrow> lookup_match canon (effects canon (map RemoveMatch es) k) e
       = (if e \<in> set es then None else lookup_match canon k e)"
    "k_rule_states (effects canon (map RemoveMatch es) k) = k_rule_states k"
    "k_policy_config (effects canon (map RemoveMatch es) k) = k_policy_config k" by blast+
qed

lemma upsert_matches:
  assumes "list_all (canonical canon) es" "list_all (\<lambda>e. k_rule_states k (entry_bucket r e) \<noteq> None) es"
  shows "safe_run canon (map (\<lambda>e. UpsertMatch e r) es) k"
    "canonical canon e \<Longrightarrow> lookup_match canon (effects canon (map (\<lambda>e. UpsertMatch e r) es) k) e
       = (if e \<in> set es then Some r else lookup_match canon k e)"
    "k_rule_states (effects canon (map (\<lambda>e. UpsertMatch e r) es) k) = k_rule_states k"
    "k_policy_config (effects canon (map (\<lambda>e. UpsertMatch e r) es) k) = k_policy_config k"
proof -
  have "safe_run canon (map (\<lambda>e. UpsertMatch e r) es) k
    \<and> (canonical canon e \<longrightarrow> lookup_match canon (effects canon (map (\<lambda>e. UpsertMatch e r) es) k) e
       = (if e \<in> set es then Some r else lookup_match canon k e))
    \<and> k_rule_states (effects canon (map (\<lambda>e. UpsertMatch e r) es) k) = k_rule_states k
    \<and> k_policy_config (effects canon (map (\<lambda>e. UpsertMatch e r) es) k) = k_policy_config k" for e
    using assms by (induction es arbitrary: k) (auto simp: lookup_set_match)
  then show "safe_run canon (map (\<lambda>e. UpsertMatch e r) es) k"
    "canonical canon e \<Longrightarrow> lookup_match canon (effects canon (map (\<lambda>e. UpsertMatch e r) es) k) e
       = (if e \<in> set es then Some r else lookup_match canon k e)"
    "k_rule_states (effects canon (map (\<lambda>e. UpsertMatch e r) es) k) = k_rule_states k"
    "k_policy_config (effects canon (map (\<lambda>e. UpsertMatch e r) es) k) = k_policy_config k" by blast+
qed

lemma remove_states:
  assumes "distinct keys" "list_all (\<lambda>key. k_rule_states k key \<noteq> None) keys"
    "\<And>e r. canonical canon e \<Longrightarrow> lookup_match canon k e = Some r \<Longrightarrow> entry_bucket r e \<notin> set keys"
  shows "safe_run canon (map RemoveState keys) k"
    "lookup_match canon (effects canon (map RemoveState keys) k) e = lookup_match canon k e"
    "k_rule_states (effects canon (map RemoveState keys) k) key = (if key \<in> set keys then None else k_rule_states k key)"
    "k_policy_config (effects canon (map RemoveState keys) k) = k_policy_config k"
proof -
  have "safe_run canon (map RemoveState keys) k
    \<and> lookup_match canon (effects canon (map RemoveState keys) k) e = lookup_match canon k e
    \<and> k_rule_states (effects canon (map RemoveState keys) k) key = (if key \<in> set keys then None else k_rule_states k key)
    \<and> k_policy_config (effects canon (map RemoveState keys) k) = k_policy_config k" for e key
    using assms
  proof (induction keys arbitrary: k)
    case (Cons x keys)
    let ?k = "k\<lparr>k_rule_states := (k_rule_states k)(x := None)\<rparr>"
    have "list_all (\<lambda>key. k_rule_states ?k key \<noteq> None) keys"
      using Cons.prems by (auto simp: list_all_iff)
    moreover have "entry_bucket r e \<notin> set keys" if "canonical canon e" "lookup_match canon ?k e = Some r" for e r
      using that Cons.prems(3) [of e r] by simp
    moreover have "entry_bucket r e \<noteq> x" if "canonical canon e" "lookup_match canon k e = Some r" for e r
      using that Cons.prems(3) [of e r] by simp
    ultimately show ?case using Cons.prems(1,2) Cons.IH [of ?k] by auto
  qed simp
  then show "safe_run canon (map RemoveState keys) k"
    "lookup_match canon (effects canon (map RemoveState keys) k) e = lookup_match canon k e"
    "k_rule_states (effects canon (map RemoveState keys) k) key = (if key \<in> set keys then None else k_rule_states k key)"
    "k_policy_config (effects canon (map RemoveState keys) k) = k_policy_config k" by blast+
qed

abbreviation state_op :: "compiled_state \<Rightarrow> policy_op" where
  "state_op s \<equiv> UpsertState (cs_key s) (cs_rate_bytes_per_s s) (cs_burst_bytes s)"

definition has_bucket :: "kernel \<Rightarrow> compiled_state \<Rightarrow> bool" where
  "has_bucket k s \<longleftrightarrow> (\<exists>st. k_rule_states k (cs_key s) = Some st
     \<and> rs_rate_bytes_per_s st = cs_rate_bytes_per_s s \<and> rs_burst_bytes st = cs_burst_bytes s)"

lemma upserted_state_params [simp]:
  "rs_rate_bytes_per_s (upserted_state st rate burst) = rate"
  "rs_burst_bytes (upserted_state st rate burst) = burst"
  by (simp_all add: upserted_state_def Let_def)

lemma upsert_states:
  assumes "distinct (map cs_key ss)"
  shows "safe_run canon (map state_op ss) k"
    "lookup_match canon (effects canon (map state_op ss) k) e = lookup_match canon k e"
    "s \<in> set ss \<Longrightarrow> has_bucket (effects canon (map state_op ss) k) s"
    "key \<notin> cs_key ` set ss \<Longrightarrow> k_rule_states (effects canon (map state_op ss) k) key = k_rule_states k key"
    "k_policy_config (effects canon (map state_op ss) k) = k_policy_config k"
proof -
  have "safe_run canon (map state_op ss) k
    \<and> lookup_match canon (effects canon (map state_op ss) k) e = lookup_match canon k e
    \<and> (\<forall>s \<in> set ss. has_bucket (effects canon (map state_op ss) k) s)
    \<and> (key \<notin> cs_key ` set ss \<longrightarrow> k_rule_states (effects canon (map state_op ss) k) key = k_rule_states k key)
    \<and> k_policy_config (effects canon (map state_op ss) k) = k_policy_config k" for e key
    using assms
  proof (induction ss arbitrary: k key)
    case (Cons x ss)
    let ?k = "effect canon (state_op x) k"
    have "k_rule_states (effects canon (map state_op ss) ?k) (cs_key x) = k_rule_states ?k (cs_key x)"
      using Cons.IH [of ?k "cs_key x"] Cons.prems by simp
    then have "has_bucket (effects canon (map state_op ss) ?k) x" by (simp add: has_bucket_def)
    then show ?case using Cons.IH [of ?k key] Cons.prems by simp
  qed simp
  then show "safe_run canon (map state_op ss) k"
    "lookup_match canon (effects canon (map state_op ss) k) e = lookup_match canon k e"
    "s \<in> set ss \<Longrightarrow> has_bucket (effects canon (map state_op ss) k) s"
    "key \<notin> cs_key ` set ss \<Longrightarrow> k_rule_states (effects canon (map state_op ss) k) key = k_rule_states k key"
    "k_policy_config (effects canon (map state_op ss) k) = k_policy_config k" by blast+
qed

section \<open>Rules represented in the maps\<close>

lemma find_SomeD: "List.find P xs = Some x \<Longrightarrow> P x \<and> x \<in> set xs"
  by (induction xs) (auto split: if_splits)

definition represented :: "lpm_canon \<Rightarrow> kernel \<Rightarrow> compiled_rule set \<Rightarrow> bool" where
  "represented canon k R \<longleftrightarrow>
     (\<forall>e r. canonical canon e \<longrightarrow>
        (lookup_match canon k e = Some r \<longleftrightarrow> (\<exists>A \<in> R. e \<in> set (cr_matches A) \<and> r = rule_ref_of A)))
     \<and> (\<forall>A \<in> R. \<forall>s \<in> set (cr_states A). has_bucket k s)"

definition rule_fine :: "lpm_canon \<Rightarrow> compiled_rule \<Rightarrow> bool" where
  "rule_fine canon r \<longleftrightarrow> rule_ok r \<and> distinct (cr_matches r) \<and> list_all (canonical canon) (cr_matches r)"

lemma rule_keys_distinct: "rule_ok r \<Longrightarrow> distinct (map cs_key (cr_states r))"
  by (auto simp: rule_ok_def distinct_map intro: inj_on_imageI2)

lemma rule_entry_bucket:
  assumes "rule_ok r" "e \<in> set (cr_matches r)"
  shows "\<exists>s \<in> set (cr_states r). cs_key s = entry_bucket (rule_ref_of r) e"
proof -
  obtain s where s: "s \<in> set (cr_states r)" "bk_direction (cs_key s) = direction_to_abi (entry_direction e)"
    using assms by (fastforce simp: rule_ok_def list_all_iff)
  moreover have "bk_rule_id (cs_key s) = cr_id r" "bk_reserved (cs_key s) = replicate 3 0"
    using assms(1) s(1) by (auto simp: rule_ok_def list_all_iff)
  ultimately have "cs_key s = entry_bucket (rule_ref_of r) e"
    using s(2) by (cases "cs_key s") (simp add: entry_bucket_def bucket_of_def rule_ref_of_def)
  with s(1) show ?thesis by blast
qed

lemma represented_no_dangling:
  assumes "represented canon k R" "\<And>A. A \<in> R \<Longrightarrow> rule_ok A"
  shows "no_dangling canon k"
  unfolding no_dangling_def
proof (intro allI impI)
  fix e r
  assume "canonical canon e" "lookup_match canon k e = Some r"
  then obtain A where A: "A \<in> R" "e \<in> set (cr_matches A)" "r = rule_ref_of A"
    using assms(1) by (auto simp: represented_def)
  then obtain s where "s \<in> set (cr_states A)" "cs_key s = entry_bucket r e"
    using rule_entry_bucket assms(2) by blast
  then show "k_rule_states k (entry_bucket r e) \<noteq> None"
    using assms(1) A(1) by (force simp: represented_def has_bucket_def)
qed

lemma removed_rule_step:
  assumes rep: "represented canon k (insert A X)"
    and fine: "rule_fine canon A" "\<And>C. C \<in> X \<Longrightarrow> rule_ok C"
    and dis: "\<And>C e. C \<in> X \<Longrightarrow> e \<in> set (cr_matches C) \<Longrightarrow> e \<notin> set (cr_matches A)"
    and ids: "\<And>C. C \<in> X \<Longrightarrow> cr_id C \<noteq> cr_id A"
  shows "safe_run canon (removed_rule_ops A) k"
    "represented canon (effects canon (removed_rule_ops A) k) X"
    "k_policy_config (effects canon (removed_rule_ops A) k) = k_policy_config k"
proof -
  let ?es = "cr_matches A" let ?keys = "map cs_key (cr_states A)"
  let ?k1 = "effects canon (map RemoveMatch ?es) k" let ?k2 = "effects canon (map RemoveState ?keys) ?k1"
  have a: "rule_ok A" "distinct ?es" "list_all (canonical canon) ?es" using fine(1) by (simp_all add: rule_fine_def)
  have present: "list_all (\<lambda>e. lookup_match canon k e \<noteq> None) ?es"
    using rep a(3) by (fastforce simp: represented_def list_all_iff)
  note m = remove_matches [OF a(2,3) present]
  have own: "bk_rule_id (cs_key s) = cr_id C" if "C \<in> insert A X" "s \<in> set (cr_states C)" for C s
    using that a(1) fine(2) by (auto simp: rule_ok_def list_all_iff)
  have l1: "lookup_match canon ?k1 e = Some r \<longleftrightarrow> (\<exists>C \<in> X. e \<in> set (cr_matches C) \<and> r = rule_ref_of C)"
    if "canonical canon e" for e r
    using that m(2) [OF that] rep dis by (auto simp: represented_def)
  have keys: "list_all (\<lambda>key. k_rule_states ?k1 key \<noteq> None) ?keys"
    using rep m(3) by (auto simp: represented_def has_bucket_def list_all_iff)
  have free: "entry_bucket r e \<notin> set ?keys" if e: "canonical canon e" "lookup_match canon ?k1 e = Some r" for e r
  proof -
    obtain C where C: "C \<in> X" "r = rule_ref_of C" using iffD1 [OF l1 [OF e(1)] e(2)] by blast
    then have "bk_rule_id (entry_bucket r e) \<noteq> cr_id A"
      using ids by (simp add: entry_bucket_def bucket_of_def rule_ref_of_def)
    then show ?thesis using own [of A] by auto
  qed
  have s: "safe_run canon (map RemoveState ?keys) ?k1"
    "\<And>e. lookup_match canon ?k2 e = lookup_match canon ?k1 e"
    "\<And>key. k_rule_states ?k2 key = (if key \<in> set ?keys then None else k_rule_states ?k1 key)"
    "k_policy_config ?k2 = k_policy_config ?k1"
    using remove_states [OF rule_keys_distinct [OF a(1)] keys, of canon] free by blast+
  have ops: "removed_rule_ops A = map RemoveMatch ?es @ map RemoveState ?keys"
    by (simp add: removed_rule_ops_def)
  show "safe_run canon (removed_rule_ops A) k"
    unfolding ops safe_run_append using m(1) s(1) by simp
  show "k_policy_config (effects canon (removed_rule_ops A) k) = k_policy_config k"
    using m(4) s(4) by (simp add: ops)
  have bk: "has_bucket ?k2 t" if "C \<in> X" "t \<in> set (cr_states C)" for C t
  proof -
    have "bk_rule_id (cs_key t) \<noteq> cr_id A" using own [of C t] that ids by simp
    then have "cs_key t \<notin> set ?keys" using own [of A] by auto
    then show ?thesis
      using s(3) m(3) rep that by (auto simp: has_bucket_def represented_def)
  qed
  show "represented canon (effects canon (removed_rule_ops A) k) X"
    unfolding represented_def using l1 s(2) bk by (simp add: ops)
qed

lemma kept_rule_step:
  assumes rep: "represented canon k (X \<union> set_option before)"
    and fine: "rule_fine canon B" "\<And>C. C \<in> X \<Longrightarrow> rule_ok C" "\<And>A. before = Some A \<Longrightarrow> rule_fine canon A"
    and disB: "\<And>C e. C \<in> X \<Longrightarrow> e \<in> set (cr_matches C) \<Longrightarrow> e \<notin> set (cr_matches B)"
    and disA: "\<And>A C e. before = Some A \<Longrightarrow> C \<in> X \<Longrightarrow> e \<in> set (cr_matches C) \<Longrightarrow> e \<notin> set (cr_matches A)"
    and ids: "\<And>C. C \<in> X \<Longrightarrow> cr_id C \<noteq> cr_id B" and same: "\<And>A. before = Some A \<Longrightarrow> cr_id A = cr_id B"
  shows "safe_run canon (kept_rule_ops before B) k"
    "represented canon (effects canon (kept_rule_ops before B) k) (insert B X)"
    "k_policy_config (effects canon (kept_rule_ops before B) k) = k_policy_config k"
proof -
  let ?ss = "filter (\<lambda>s. \<not> state_unchanged before s) (cr_states B)"
  let ?es = "filter (\<lambda>e. \<not> match_unchanged before B e) (cr_matches B)"
  let ?rs = "case before of None \<Rightarrow> [] | Some A \<Rightarrow> filter (\<lambda>e. e \<notin> set (cr_matches B)) (cr_matches A)"
  let ?ref = "rule_ref_of B"
  let ?k1 = "effects canon (map state_op ?ss) k" let ?k2 = "effects canon (map (\<lambda>e. UpsertMatch e ?ref) ?es) ?k1"
  let ?k3 = "effects canon (map RemoveMatch ?rs) ?k2"
  have b: "rule_ok B" "list_all (canonical canon) (cr_matches B)" using fine(1) by (simp_all add: rule_fine_def)
  have dk: "distinct (map cs_key (cr_states B))" by (rule rule_keys_distinct [OF b(1)])
  have own: "bk_rule_id (cs_key s) = cr_id C" if "rule_ok C" "s \<in> set (cr_states C)" for C s
    using that by (auto simp: rule_ok_def list_all_iff)
  note s = upsert_states [OF distinct_map_filter [OF dk], where canon = canon and k = k]
  have bk1: "has_bucket ?k1 t" if "t \<in> set (cr_states B)" for t
  proof (cases "state_unchanged before t")
    case True
    then obtain A u where A: "before = Some A" "List.find (\<lambda>s. cs_key s = cs_key t) (cr_states A) = Some u"
      "cs_rate_bytes_per_s u = cs_rate_bytes_per_s t" "cs_burst_bytes u = cs_burst_bytes t"
      by (auto simp: state_unchanged_def split: option.splits)
    from find_SomeD [OF this(2)] have "cs_key u = cs_key t" "u \<in> set (cr_states A)" by simp_all
    note A = A this
    then have "has_bucket k t" using rep by (fastforce simp: represented_def has_bucket_def)
    moreover have "cs_key t \<notin> cs_key ` set ?ss"
      using dk that True by (auto simp: distinct_map dest: inj_onD)
    ultimately show ?thesis using s(4) by (simp add: has_bucket_def)
  qed (use that s(3) in auto)
  have bkX: "has_bucket ?k1 t" if "C \<in> X" "t \<in> set (cr_states C)" for C t
  proof -
    have "cs_key t \<notin> cs_key ` set ?ss"
      using own [OF fine(2)] own [OF b(1)] that ids by force
    then show ?thesis using s(4) rep that by (auto simp: has_bucket_def represented_def)
  qed
  have ces: "list_all (canonical canon) ?es" using b(2) by (auto simp: list_all_iff)
  have bes: "list_all (\<lambda>e. k_rule_states ?k1 (entry_bucket ?ref e) \<noteq> None) ?es"
    using rule_entry_bucket [OF b(1)] bk1 by (fastforce simp: list_all_iff has_bucket_def)
  note m = upsert_matches [OF ces bes]
  have rs: "distinct ?rs" "list_all (canonical canon) ?rs"
    using fine(3) by (auto simp: rule_fine_def list_all_iff split: option.split)
  have r_sub: "e \<notin> set (cr_matches B)" "\<exists>A. before = Some A \<and> e \<in> set (cr_matches A)" if "e \<in> set ?rs" for e
    using that by (auto split: option.splits)
  have pr: "list_all (\<lambda>e. lookup_match canon ?k2 e \<noteq> None) ?rs"
  proof (unfold list_all_iff, rule ballI)
    fix e
    assume e: "e \<in> set ?rs"
    then have c: "canonical canon e" using rs(2) by (simp add: list_all_iff)
    obtain A where A: "before = Some A" "e \<in> set (cr_matches A)" using r_sub(2) [OF e] by blast
    then have "lookup_match canon k e = Some (rule_ref_of A)" using rep c by (auto simp: represented_def)
    then show "lookup_match canon ?k2 e \<noteq> None"
      using m(2) [OF c] s(2) r_sub(1) [OF e] by simp
  qed
  note d = remove_matches [OF rs pr]
  have ops: "kept_rule_ops before B = map state_op ?ss @ map (\<lambda>e. UpsertMatch e ?ref) ?es @ map RemoveMatch ?rs"
    by (simp add: kept_rule_ops_def split: option.split)
  show "safe_run canon (kept_rule_ops before B) k"
    unfolding ops safe_run_append using s(1) m(1) d(1) by simp
  show "k_policy_config (effects canon (kept_rule_ops before B) k) = k_policy_config k"
    using s(5) m(4) d(4) by (simp add: ops)
  have l3: "lookup_match canon ?k3 e = (if e \<in> set ?rs then None else if e \<in> set ?es then Some ?ref
      else lookup_match canon k e)" if "canonical canon e" for e
    unfolding d(2) [OF that] m(2) [OF that] s(2) by (rule refl)
  have keep: "lookup_match canon ?k3 e = Some r \<longleftrightarrow> (\<exists>C \<in> insert B X. e \<in> set (cr_matches C) \<and> r = rule_ref_of C)"
    if c: "canonical canon e" for e r
  proof (cases "e \<in> set (cr_matches B)")
    case True
    then have "e \<notin> set ?rs" "\<And>C. C \<in> X \<Longrightarrow> e \<notin> set (cr_matches C)" using disB by (auto split: option.splits)
    moreover have "lookup_match canon k e = Some ?ref" if mu: "match_unchanged before B e"
    proof -
      obtain A where A: "before = Some A" "cr_action A = cr_action B" "e \<in> set (cr_matches A)"
        using mu by (auto simp: match_unchanged_def split: option.splits)
      then have "rule_ref_of A = ?ref" using same by (simp add: rule_ref_of_def)
      then show ?thesis using A rep c by (auto simp: represented_def)
    qed
    ultimately show ?thesis unfolding l3 [OF c] using True by auto
  next
    case False
    then have nes: "e \<notin> set ?es" by simp
    show ?thesis
    proof (cases "e \<in> set ?rs")
      case True
      then obtain A where "before = Some A" "e \<in> set (cr_matches A)" using r_sub(2) by blast
      then have "\<And>C. C \<in> X \<Longrightarrow> e \<notin> set (cr_matches C)" using disA by blast
      then show ?thesis unfolding l3 [OF c] using True False by auto
    next
      case nrs: False
      then have "\<And>A. before = Some A \<Longrightarrow> e \<notin> set (cr_matches A)" using False by auto
      then show ?thesis unfolding l3 [OF c] using nes nrs False rep c by (auto simp: represented_def)
    qed
  qed
  show "represented canon (effects canon (kept_rule_ops before B) k) (insert B X)"
    unfolding represented_def using keep bk1 bkX d(3) m(3) by (auto simp: ops has_bucket_def)
qed

section \<open>A whole difference\<close>

definition policy_ok :: "lpm_canon \<Rightarrow> compiled_policy \<Rightarrow> bool" where
  "policy_ok canon p \<longleftrightarrow>
     distinct (map cr_id (cp_rules p)) \<and> list_all (rule_fine canon) (cp_rules p)"

text \<open>Rules with different ids share no match entry.\<close>

definition exclusive :: "compiled_rule list \<Rightarrow> compiled_rule list \<Rightarrow> bool" where
  "exclusive ps qs \<longleftrightarrow>
     list_all (\<lambda>p. list_all (\<lambda>q. cr_id p = cr_id q
       \<or> list_all (\<lambda>e. e \<notin> set (cr_matches q)) (cr_matches p)) qs) ps"

definition surviving :: "compiled_policy \<Rightarrow> compiled_policy \<Rightarrow> compiled_rule list" where
  "surviving previous next_policy =
     filter (\<lambda>rule. find_rule next_policy (cr_id rule) \<noteq> None) (cp_rules previous)"

definition policy_config_of :: "compiled_policy \<Rightarrow> policy_config" where
  "policy_config_of p =
     config_value (cp_enabled p) (has_app_rules p) (has_endpoint_rules p) (ucast (min (cp_revision p) 0xFFFFFFFF))"

lemma exclusiveD:
  "exclusive ps qs \<Longrightarrow> p \<in> set ps \<Longrightarrow> q \<in> set qs \<Longrightarrow> cr_id p \<noteq> cr_id q \<Longrightarrow>
     e \<in> set (cr_matches p) \<Longrightarrow> e \<notin> set (cr_matches q)"
  by (auto simp: exclusive_def list_all_iff)

lemma find_ruleD: "find_rule p i = Some r \<Longrightarrow> cr_id r = i \<and> r \<in> set (cp_rules p)"
  unfolding find_rule_def by (rule find_SomeD)

lemma find_rule_iff:
  assumes "distinct (map cr_id (cp_rules p))"
  shows "find_rule p i = Some r \<longleftrightarrow> r \<in> set (cp_rules p) \<and> cr_id r = i"
proof -
  have "distinct (map cr_id rs) \<Longrightarrow>
      List.find (\<lambda>rule. cr_id rule = i) rs = Some r \<longleftrightarrow> r \<in> set rs \<and> cr_id r = i" for rs
    by (induction rs) (auto simp: image_iff)
  then show ?thesis using assms by (simp add: find_rule_def)
qed

lemma removed_rules_run:
  assumes "represented canon k (set rs \<union> S)"
    and "list_all (rule_fine canon) rs" "\<And>C. C \<in> S \<Longrightarrow> rule_ok C"
    and "distinct (map cr_id rs)" "cr_id ` set rs \<inter> cr_id ` S = {}"
    and "\<And>A C e. A \<in> set rs \<Longrightarrow> C \<in> set rs \<union> S \<Longrightarrow> cr_id A \<noteq> cr_id C \<Longrightarrow> e \<in> set (cr_matches A)
      \<Longrightarrow> e \<notin> set (cr_matches C)"
  shows "safe_run canon (concat (map removed_rule_ops rs)) k
    \<and> represented canon (effects canon (concat (map removed_rule_ops rs)) k) S"
  using assms
proof (induction rs arbitrary: k)
  case (Cons A rs)
  have ne: "cr_id C \<noteq> cr_id A" if "C \<in> set rs \<union> S" for C
    using that Cons.prems(4,5) by (force simp: image_iff)
  have dis: "e \<notin> set (cr_matches A)" if "C \<in> set rs \<union> S" "e \<in> set (cr_matches C)" for C e
    using Cons.prems(6) [of A C e] ne [OF that(1)] that by auto
  have ok: "rule_fine canon A" "\<And>C. C \<in> set rs \<union> S \<Longrightarrow> rule_ok C"
    using Cons.prems(2,3) by (auto simp: rule_fine_def list_all_iff)
  have rep: "represented canon k (insert A (set rs \<union> S))" using Cons.prems(1) by simp
  note step = removed_rule_step [OF rep ok dis ne]
  have "safe_run canon (concat (map removed_rule_ops rs)) (effects canon (removed_rule_ops A) k)
    \<and> represented canon (effects canon (concat (map removed_rule_ops rs)) (effects canon (removed_rule_ops A) k)) S"
    using Cons.prems(2-6) by (intro Cons.IH [OF step(2)]) auto
  then show ?case using step(1) by (simp add: safe_run_append)
qed simp

lemma kept_rules_run:
  fixes f :: "u32 \<Rightarrow> compiled_rule option"
  assumes "represented canon k (D \<union> (\<Union>B \<in> set ns. set_option (f (cr_id B))))"
    and fine: "\<And>C. C \<in> D \<union> set ns \<Longrightarrow> rule_fine canon C" "\<And>i A. f i = Some A \<Longrightarrow> rule_fine canon A"
    and ids: "distinct (map cr_id ns)" "cr_id ` D \<inter> cr_id ` set ns = {}" "\<And>i A. f i = Some A \<Longrightarrow> cr_id A = i"
    and dis: "\<And>A B e. A \<in> D \<union> set ns \<Longrightarrow> B \<in> D \<union> set ns \<Longrightarrow> cr_id A \<noteq> cr_id B
        \<Longrightarrow> e \<in> set (cr_matches A) \<Longrightarrow> e \<notin> set (cr_matches B)"
      "\<And>A B i e. f i = Some A \<Longrightarrow> B \<in> D \<union> set ns \<Longrightarrow> i \<in> cr_id ` (D \<union> set ns) \<Longrightarrow> cr_id A \<noteq> cr_id B
        \<Longrightarrow> e \<in> set (cr_matches A) \<Longrightarrow> e \<notin> set (cr_matches B)"
      "\<And>i j A B e. f i = Some A \<Longrightarrow> f j = Some B \<Longrightarrow> i \<noteq> j \<Longrightarrow> e \<in> set (cr_matches A) \<Longrightarrow> e \<notin> set (cr_matches B)"
  shows "safe_run canon (concat (map (\<lambda>r. kept_rule_ops (f (cr_id r)) r) ns)) k
    \<and> represented canon (effects canon (concat (map (\<lambda>r. kept_rule_ops (f (cr_id r)) r) ns)) k) (D \<union> set ns)"
  using assms
proof (induction ns arbitrary: k D)
  case (Cons B ns)
  let ?X = "D \<union> (\<Union>B \<in> set ns. set_option (f (cr_id B)))" and ?ops = "kept_rule_ops (f (cr_id B)) B"
  have X: "C \<in> D \<or> (\<exists>B' \<in> set ns. f (cr_id B') = Some C)" if "C \<in> ?X" for C
    using that by auto
  have ne: "cr_id C \<noteq> cr_id B" if "C \<in> ?X" for C
    using X [OF that] Cons.prems(4,5,6) by (force simp: image_iff)
  have disB: "e \<notin> set (cr_matches B)" if "C \<in> ?X" "e \<in> set (cr_matches C)" for C e
    using X [OF that(1)] Cons.prems(7) [of C B e] Cons.prems(8) [of _ C B e] ne [OF that(1)] that(2) by auto
  have disA: "e \<notin> set (cr_matches A)" if "f (cr_id B) = Some A" "C \<in> ?X" "e \<in> set (cr_matches C)" for A C e
  proof -
    have "cr_id A = cr_id B" using Cons.prems(6) that(1) by simp
    then show ?thesis
      using X [OF that(2)] Cons.prems(8) [OF that(1), of C e] Cons.prems(9) [OF _ that(1), of _ C e]
        Cons.prems(6) ne [OF that(2)] that(3) by auto
  qed
  have ok: "rule_ok C" if "C \<in> ?X" for C
    using X [OF that] Cons.prems(2,3) by (auto simp: rule_fine_def)
  have rep: "represented canon k (?X \<union> set_option (f (cr_id B)))"
    using Cons.prems(1) by (simp add: Un_ac)
  have fineB: "rule_fine canon B" using Cons.prems(2) by simp
  have fA: "\<And>A. f (cr_id B) = Some A \<Longrightarrow> rule_fine canon A" "\<And>A. f (cr_id B) = Some A \<Longrightarrow> cr_id A = cr_id B"
    using Cons.prems(3,6) by blast+
  have step: "safe_run canon ?ops k" "represented canon (effects canon ?ops k) (insert B ?X)"
    by (rule kept_rule_step; fact rep fineB ok fA disB disA ne)+
  have eq: "insert B D \<union> set ns = D \<union> set (B # ns)" by simp
  have rep': "represented canon (effects canon ?ops k) (insert B D \<union> (\<Union>B \<in> set ns. set_option (f (cr_id B))))"
    using step(2) by (simp only: Un_insert_left)
  have ids: "distinct (map cr_id ns)" "cr_id ` insert B D \<inter> cr_id ` set ns = {}"
    using Cons.prems(4,5) by auto
  have run: "safe_run canon (concat (map (\<lambda>r. kept_rule_ops (f (cr_id r)) r) ns)) (effects canon ?ops k)
    \<and> represented canon (effects canon (concat (map (\<lambda>r. kept_rule_ops (f (cr_id r)) r) ns)) (effects canon ?ops k))
        (D \<union> set (B # ns))"
    by (rule Cons.IH [where D = "insert B D", unfolded eq]; fact rep' Cons.prems(2,3) ids Cons.prems(6-9))
  show ?case using step(1) run by (simp only: list.map concat.simps safe_run_append fold_append o_apply simp_thms)
qed simp

definition represents :: "lpm_canon \<Rightarrow> kernel \<Rightarrow> compiled_policy \<Rightarrow> bool" where
  "represents canon k p \<longleftrightarrow>
     represented canon k (set (cp_rules p)) \<and> k_policy_config k = Some (policy_config_of p)"

text \<open>What a change of policy needs: each program is well formed, rules do not share entries, and no
  entry moves between two rules that are in both programs.\<close>

definition diff_ok :: "lpm_canon \<Rightarrow> compiled_policy \<Rightarrow> compiled_policy \<Rightarrow> bool" where
  "diff_ok canon previous next_policy \<longleftrightarrow>
     policy_ok canon previous \<and> policy_ok canon next_policy
     \<and> exclusive (cp_rules previous) (cp_rules previous) \<and> exclusive (cp_rules next_policy) (cp_rules next_policy)
     \<and> exclusive (surviving previous next_policy) (cp_rules next_policy)"

definition diff_body :: "compiled_policy \<Rightarrow> compiled_policy \<Rightarrow> policy_op list" where
  "diff_body previous next_policy =
     concat (map removed_rule_ops (filter (\<lambda>rule. find_rule next_policy (cr_id rule) = None) (cp_rules previous)))
     @ concat (map (\<lambda>rule. kept_rule_ops (find_rule previous (cr_id rule)) rule) (cp_rules next_policy))"

lemma diff_eq:
  "diff previous next_policy =
     (if cp_enabled previous \<and> \<not> cp_enabled next_policy
      then config_op next_policy False # diff_body previous next_policy
      else diff_body previous next_policy @ [config_op next_policy (cp_enabled next_policy)])"
  by (simp add: diff_def diff_body_def Let_def)

lemma diff_body_run:
  assumes "represented canon k (set (cp_rules previous))" and ok: "diff_ok canon previous next_policy"
  shows "safe_run canon (diff_body previous next_policy) k
    \<and> represented canon (effects canon (diff_body previous next_policy) k) (set (cp_rules next_policy))"
proof -
  let ?gone = "filter (\<lambda>rule. find_rule next_policy (cr_id rule) = None) (cp_rules previous)"
  let ?stay = "surviving previous next_policy" and ?f = "find_rule previous" and ?new = "cp_rules next_policy"
  let ?ops = "concat (map removed_rule_ops ?gone)"
  have p: "distinct (map cr_id (cp_rules previous))" "\<And>A. A \<in> set (cp_rules previous) \<Longrightarrow> rule_fine canon A"
    and n: "distinct (map cr_id ?new)" "\<And>A. A \<in> set ?new \<Longrightarrow> rule_fine canon A"
    and ex: "exclusive (cp_rules previous) (cp_rules previous)" "exclusive ?new ?new" "exclusive ?stay ?new"
    using ok by (auto simp: diff_ok_def policy_ok_def list_all_iff)
  have split: "set ?gone \<union> set ?stay = set (cp_rules previous)" by (auto simp: surviving_def)
  have "safe_run canon ?ops k \<and> represented canon (effects canon ?ops k) (set ?stay)"
  proof (rule removed_rules_run)
    show "represented canon k (set ?gone \<union> set ?stay)" using assms(1) split by simp
    show "list_all (rule_fine canon) ?gone" using p(2) by (simp add: list_all_iff)
    show "rule_ok C" if "C \<in> set ?stay" for C using that p(2) by (auto simp: surviving_def rule_fine_def)
    show "distinct (map cr_id ?gone)" using p(1) by (simp add: distinct_map_filter)
    show "cr_id ` set ?gone \<inter> cr_id ` set ?stay = {}" by (auto simp: surviving_def)
    show "e \<notin> set (cr_matches C)"
      if "A \<in> set ?gone" "C \<in> set ?gone \<union> set ?stay" "cr_id A \<noteq> cr_id C" "e \<in> set (cr_matches A)" for A C e
      using exclusiveD [OF ex(1), of A C e] that split by auto
  qed
  moreover have "set ?stay = (\<Union>B \<in> set ?new. set_option (?f (cr_id B)))"
  proof -
    have "A \<in> set ?stay \<longleftrightarrow> (\<exists>B \<in> set ?new. ?f (cr_id B) = Some A)" for A
      unfolding surviving_def using find_rule_iff [OF p(1)] find_rule_iff [OF n(1)] by (auto intro: sym)
    then show ?thesis by (auto simp: set_eq_iff)
  qed
  ultimately have gone: "safe_run canon ?ops k"
    and rep: "represented canon (effects canon ?ops k) ({} \<union> (\<Union>B \<in> set ?new. set_option (?f (cr_id B))))"
    by simp_all
  note f = find_rule_iff [OF p(1), THEN iffD1]
  have stay: "A \<in> set ?stay" if "?f i = Some A" "i \<in> cr_id ` ({} \<union> set ?new)" for A i
    using f [OF that(1)] that(2) find_rule_iff [OF n(1)] by (auto simp: surviving_def)
  have "safe_run canon (concat (map (\<lambda>r. kept_rule_ops (?f (cr_id r)) r) ?new)) (effects canon ?ops k)
    \<and> represented canon (effects canon (concat (map (\<lambda>r. kept_rule_ops (?f (cr_id r)) r) ?new)) (effects canon ?ops k))
        ({} \<union> set ?new)"
  proof (rule kept_rules_run [OF rep])
    show "rule_fine canon C" if "C \<in> {} \<union> set ?new" for C using that n(2) by simp
    show "rule_fine canon A" if "?f i = Some A" for i A using f [OF that] p(2) by simp
    show "distinct (map cr_id ?new)" by (rule n(1))
    show "cr_id ` {} \<inter> cr_id ` set ?new = {}" by simp
    show "cr_id A = i" if "?f i = Some A" for i A using f [OF that] by simp
    show "e \<notin> set (cr_matches B)"
      if "A \<in> {} \<union> set ?new" "B \<in> {} \<union> set ?new" "cr_id A \<noteq> cr_id B" "e \<in> set (cr_matches A)" for A B e
      using exclusiveD [OF ex(2)] that by simp
    show "e \<notin> set (cr_matches B)"
      if "?f i = Some A" "B \<in> {} \<union> set ?new" "i \<in> cr_id ` ({} \<union> set ?new)" "cr_id A \<noteq> cr_id B"
        "e \<in> set (cr_matches A)" for A B i e
      using exclusiveD [OF ex(3) stay] that by simp
    show "e \<notin> set (cr_matches B)"
      if "?f i = Some A" "?f j = Some B" "i \<noteq> j" "e \<in> set (cr_matches A)" for A B i j e
      using exclusiveD [OF ex(1), of A B e] f [OF that(1)] f [OF that(2)] that(3,4) by auto
  qed
  then show ?thesis using gone by (simp add: diff_body_def safe_run_append)
qed

lemma represented_config [simp]:
  "represented canon (k\<lparr>k_policy_config := c\<rparr>) R \<longleftrightarrow> represented canon k R"
  by (simp add: represented_def has_bucket_def)

fun is_config_op :: "policy_op \<Rightarrow> bool" where
  "is_config_op (SetEnabled _ _ _ _) = True"
| "is_config_op _ = False"

lemma effects_config:
  "list_all (\<lambda>op. \<not> is_config_op op) ops \<Longrightarrow> k_policy_config (effects canon ops k) = k_policy_config k"
proof (induction ops arbitrary: k)
  case (Cons op ops)
  then show ?case by (cases op) auto
qed simp

lemma diff_body_no_config: "list_all (\<lambda>op. \<not> is_config_op op) (diff_body previous next_policy)"
  by (auto simp: diff_body_def removed_rule_ops_def kept_rule_ops_def list_all_iff split: option.splits)

lemma diff_run:
  assumes "represented canon k (set (cp_rules previous))" "diff_ok canon previous next_policy"
  shows "safe_run canon (diff previous next_policy) k"
    "represents canon (effects canon (diff previous next_policy) k) next_policy"
proof -
  let ?body = "diff_body previous next_policy" and ?c = "Some (policy_config_of next_policy)"
  have op: "effect canon (config_op next_policy (cp_enabled next_policy)) k' = k'\<lparr>k_policy_config := ?c\<rparr>" for k'
    by (simp add: config_op_def policy_config_of_def)
  have safe: "op_safe canon k' (config_op next_policy en)" for k' en by (simp add: config_op_def)
  have rep': "represented canon (k\<lparr>k_policy_config := ?c\<rparr>) (set (cp_rules previous))" using assms(1) by simp
  note body = diff_body_run [OF assms] diff_body_run [OF rep' assms(2)]
  note cfg = effects_config [OF diff_body_no_config]
  have "safe_run canon (diff previous next_policy) k
    \<and> represents canon (effects canon (diff previous next_policy) k) next_policy"
  proof (cases "cp_enabled previous \<and> \<not> cp_enabled next_policy")
    case True
    then have "effect canon (config_op next_policy False) k = k\<lparr>k_policy_config := ?c\<rparr>" using op by simp
    then show ?thesis using True body(2) cfg by (simp add: diff_eq represents_def safe)
  next
    case False
    then show ?thesis using body(1) by (simp only: diff_eq if_False safe_run_append)
      (simp add: represents_def op safe)
  qed
  then show "safe_run canon (diff previous next_policy) k"
    "represents canon (effects canon (diff previous next_policy) k) next_policy" by simp_all
qed

section \<open>Properties of reconciliation\<close>


lemma apply_policy_prefix: "\<exists>m. snd (apply_policy canon accepts ops k) = effects canon (take m ops) k"
proof (induction ops arbitrary: k)
  case (Cons op ops)
  show ?case
  proof (cases "apply_policy_op canon accepts op k")
    case None
    then show ?thesis by (intro exI [of _ 0]) simp
  next
    case (Some k')
    then have k': "k' = effect canon op k" by (cases op) (auto split: if_splits)
    obtain m where "snd (apply_policy canon accepts ops k') = effects canon (take m ops) k'" using Cons by blast
    then show ?thesis using Some k' by (intro exI [of _ "Suc m"]) simp
  qed
qed simp


text \<open>
  Half-installed programs are not enforced: when the switch is off in the previous or in the
  next program, no packet is dropped between the first operation of the change and the last,
  wherever it stops.
\<close>

theorem partial_program_not_enforced:
  assumes "k_policy_config k = Some config" "pc_enabled config = flag (cp_enabled previous)"
    and "\<not> (cp_enabled previous \<and> cp_enabled next_policy)"
    and "0 < n" "n < length (diff previous next_policy)"
  shows "fst (evaluate lpm now flow direction len (effects canon (take n (diff previous next_policy)) k)) = Pass"
proof -
  let ?k = "effects canon (take n (diff previous next_policy)) k"
  obtain m where n: "n = Suc m" using assms(4) by (cases n) auto
  have "list_all (\<lambda>op. \<not> is_config_op op) (take m' (diff_body previous next_policy))" for m'
    using diff_body_no_config [of previous next_policy] by (auto simp: list_all_iff dest: in_set_takeD)
  note cfg = effects_config [OF this]
  have "\<exists>c. k_policy_config ?k = Some c \<and> pc_enabled c = 0"
  proof (cases "cp_enabled previous")
    case True
    then show ?thesis
      using assms(3) cfg by (simp add: n diff_eq config_op_def config_value_def flag_def)
  next
    case False
    then have "take n (diff previous next_policy) = take n (diff_body previous next_policy)"
      using assms(5) by (simp add: diff_eq)
    then show ?thesis using cfg assms(1,2) False by (simp add: flag_def)
  qed
  then show ?thesis by (auto simp: evaluate_def)
qed

lemma removed_state_in_diff:
  assumes "RemoveState key \<in> set (diff previous next_policy)"
  shows "\<exists>A \<in> set (cp_rules previous). find_rule next_policy (cr_id A) = None \<and> key \<in> cs_key ` set (cr_states A)"
  using assms
  by (auto simp: diff_eq diff_body_def removed_rule_ops_def kept_rule_ops_def config_op_def split: if_splits option.splits)

lemma effects_keep_bucket:
  "RemoveState key \<notin> set ops \<Longrightarrow> k_rule_states k key = Some st \<Longrightarrow>
     \<exists>st'. k_rule_states (effects canon ops k) key = Some st' \<and> rs_tokens st' = rs_tokens st
       \<and> rs_last_refill_mono_ns st' = rs_last_refill_mono_ns st
       \<and> rs_matched_bytes st' = rs_matched_bytes st \<and> rs_dropped_bytes st' = rs_dropped_bytes st"
proof (induction ops arbitrary: k st)
  case (Cons op ops)
  let ?k = "effect canon op k"
  have "\<exists>st'. k_rule_states ?k key = Some st' \<and> rs_tokens st' = rs_tokens st
       \<and> rs_last_refill_mono_ns st' = rs_last_refill_mono_ns st
       \<and> rs_matched_bytes st' = rs_matched_bytes st \<and> rs_dropped_bytes st' = rs_dropped_bytes st"
    using Cons.prems by (cases op) (auto simp: upserted_state_def Let_def)
  then obtain st1 where st1: "k_rule_states ?k key = Some st1" "rs_tokens st1 = rs_tokens st"
    "rs_last_refill_mono_ns st1 = rs_last_refill_mono_ns st"
    "rs_matched_bytes st1 = rs_matched_bytes st" "rs_dropped_bytes st1 = rs_dropped_bytes st" by blast
  show ?case using Cons.IH [OF _ st1(1)] Cons.prems(1) st1 by auto
qed auto


text \<open>
  A block reaches the packet path: once the maps represent an enabled program with an exact
  endpoint block and no application rule, every packet to or from that endpoint in the rule's
  direction is dropped.
\<close>

theorem blocked_endpoint_dropped:
  assumes "represents canon k p" "cp_enabled p" "\<not> has_app_rules p"
    and "B \<in> set (cp_rules p)" "rule_ok B" "cr_action B = Block"
    and "EndpointExact d (exact_key flow (d = Outbound)) \<in> set (cr_matches B)"
  shows "fst (evaluate lpm now flow (direction_to_abi d) len k) = Drop"
proof -
  let ?e = "EndpointExact d (exact_key flow (d = Outbound))" and ?r = "rule_ref_of B"
  have rep: "represented canon k (set (cp_rules p))" "k_policy_config k = Some (policy_config_of p)"
    using assms(1) by (simp_all add: represents_def)
  have ep: "has_endpoint_rules p" using assms(4,7) by (force simp: has_endpoint_rules_def list_ex_iff)
  have "lookup_match canon k ?e = Some ?r" using rep(1) assms(4,7) by (auto simp: represented_def)
  then have "endpoint_rule lpm k flow (d = Outbound) = Some ?r"
    by (cases d) (simp_all add: endpoint_rule_def Let_def)
  moreover have "(direction_to_abi d = direction_to_abi Outbound) = (d = Outbound)" by (cases d) simp_all
  ultimately have "matched_rule lpm k flow (direction_to_abi d) = Some ?r"
    using rep(2) assms(2,3) ep
    by (simp add: matched_rule_def policy_config_of_def config_value_def flag_def)
  moreover have "k_rule_states k (bucket_of ?r (direction_to_abi d)) \<noteq> None"
  proof -
    obtain s where "s \<in> set (cr_states B)" "cs_key s = entry_bucket ?r ?e"
      using rule_entry_bucket [OF assms(5,7)] by blast
    then show ?thesis using rep(1) assms(4) by (force simp: represented_def has_bucket_def entry_bucket_def)
  qed
  ultimately show ?thesis
    using assms(6) by (auto simp: evaluate_matched enforce_drop_iff rule_ref_of_def)
qed

section \<open>Concrete reconciliations\<close>

definition block_entry :: "u8 \<Rightarrow> match_entry" where
  "block_entry host = EndpointExact Outbound
     \<lparr>em_addr = ipv4_storage (Ipv4 10 0 0 host), em_port_be = 0x5000, em_reserved = replicate 6 0\<rparr>"

definition block_rule :: "u32 \<Rightarrow> match_entry list \<Rightarrow> compiled_rule" where
  "block_rule ident entries =
     \<lparr>cr_id = ident, cr_action = Block, cr_matches = entries,
      cr_states = [\<lparr>cs_key = \<lparr>bk_rule_id = ident, bk_direction = 2, bk_reserved = replicate 3 0\<rparr>,
        cs_rate_bytes_per_s = 0, cs_burst_bytes = 0\<rparr>]\<rparr>"

definition block_program :: "u64 \<Rightarrow> bool \<Rightarrow> compiled_rule list \<Rightarrow> compiled_policy" where
  "block_program revision enabled rules = \<lparr>cp_revision = revision, cp_enabled = enabled, cp_rules = rules\<rparr>"

definition first_program :: compiled_policy where
  "first_program = block_program 1 True [block_rule 1 [block_entry 1], block_rule 2 [block_entry 2]]"

text \<open>Loading the first program into the maps the daemon starts with.\<close>

definition first_kernel :: kernel where
  "first_kernel = effects id (diff compiled_policy_default first_program) kernel_loaded"

lemma block_rule_fine: "distinct entries \<Longrightarrow> set entries \<subseteq> range block_entry \<Longrightarrow> rule_fine canon (block_rule ident entries)"
  by (auto simp: rule_fine_def rule_ok_def block_rule_def list_all_iff block_entry_def)

lemma block_entry_inj [simp]: "block_entry a = block_entry b \<longleftrightarrow> a = b"
  by (simp add: block_entry_def ipv4_storage_def)

lemma kernel_loaded_represents: "represented canon kernel_loaded (set (cp_rules compiled_policy_default))"
proof -
  have "lookup_match canon kernel_loaded e = None" for e
    by (cases "(canon, kernel_loaded, e)" rule: lookup_match.cases) (simp_all add: kernel_loaded_def)
  then show ?thesis by (simp add: represented_def compiled_policy_default_def)
qed

lemma first_diff_ok: "diff_ok canon compiled_policy_default first_program"
  by (simp add: diff_ok_def policy_ok_def exclusive_def surviving_def compiled_policy_default_def first_program_def
      block_program_def block_rule_fine) (simp add: block_rule_def)



lemma first_kernel_represents: "represents id first_kernel first_program"
  unfolding first_kernel_def by (rule diff_run(2) [OF kernel_loaded_represents first_diff_ok])

definition second_flow :: parsed_flow where
  "second_flow = \<lparr>pf_src_addr = ipv4_storage (Ipv4 192 168 1 2), pf_dst_addr = ipv4_storage (Ipv4 10 0 0 2),
     pf_src_port_be = 0x1234, pf_dst_port_be = 0x5000, pf_protocol = 6, pf_ip_family = 4, pf_tcp_flags = 0,
     pf_parse_flags = 0, pf_payload_offset = 54, pf_payload_end = 54\<rparr>"

lemma blocked_endpoint_dropped_witness:
  "fst (evaluate (\<lambda>_ _. None) 0 second_flow 2 64 first_kernel) = Drop"
proof -
  have "rule_ok (block_rule 2 [block_entry 2])"
    using block_rule_fine [of "[block_entry 2]" id 2] by (simp add: rule_fine_def)
  then show ?thesis
    using blocked_endpoint_dropped [OF first_kernel_represents, where B = "block_rule 2 [block_entry 2]" and d = Outbound
        and flow = second_flow and lpm = "\<lambda>_ _. None" and now = 0 and len = 64]
    by (simp add: first_program_def block_program_def block_rule_def has_app_rules_def block_entry_def exact_key_def
        second_flow_def)
qed

lemma partial_program_not_enforced_witness:
  "fst (evaluate (\<lambda>_ _. None) 0 second_flow 2 64
     (effects id (take 4 (diff compiled_policy_default first_program)) kernel_loaded)) = Pass"
  by (rule partial_program_not_enforced [where config = "the (k_policy_config kernel_loaded)"])
    (simp_all add: kernel_loaded_def flag_def compiled_policy_default_def diff_eq diff_body_def first_program_def
      block_program_def kept_rule_ops_def find_rule_def block_rule_def state_unchanged_def match_unchanged_def)

lemma first_policy_ok: "policy_ok id first_program"
  using first_diff_ok [of id] by (simp add: diff_ok_def)

text \<open>Rule 2 moves to another address; the kernel still holds its bucket.\<close>

definition edited_program :: compiled_policy where
  "edited_program = block_program 2 True [block_rule 2 [block_entry 3]]"


definition swapped_program :: compiled_policy where
  "swapped_program = block_program 2 True [block_rule 1 [block_entry 2], block_rule 2 [block_entry 3]]"

text \<open>
  The condition that no entry moves between two rules that stay is needed. Giving rule 1 the
  address of rule 2 while rule 2 gets another one succeeds, and the address is then blocked by
  neither: the write for rule 1 is undone by the removal for rule 2.
\<close>

theorem moved_entry_is_lost:
  "let (done, k) = apply_policy id (\<lambda>_ _. True) (diff first_program swapped_program) first_kernel in
     done \<and> block_entry 2 \<in> set (cr_matches (hd (cp_rules swapped_program))) \<and> lookup_match id k (block_entry 2) = None
     \<and> fst (evaluate (\<lambda>_ _. None) 0 second_flow 2 64 k) = Pass"
  by code_simp

text \<open>
  An edit that narrows a rule's direction leaves the dropped direction's bucket in the map,
  which the packet path can no longer reach.
\<close>

definition narrowed_program :: "rule_direction \<Rightarrow> compiled_policy" where
  "narrowed_program direction = block_program 1 True
     [\<lparr>cr_id = 1, cr_action = Block, cr_matches = [],
       cr_states = map (\<lambda>d. \<lparr>cs_key = \<lparr>bk_rule_id = 1, bk_direction = direction_to_abi d, bk_reserved = replicate 3 0\<rparr>,
         cs_rate_bytes_per_s = 0, cs_burst_bytes = 0\<rparr>) (directions direction)\<rparr>]"

lemma narrowed_bucket_remains:
  "let k = effects id (diff compiled_policy_default (narrowed_program RuleBoth)) kernel_loaded;
       (done, k) = apply_policy id (\<lambda>_ _. True) (diff (narrowed_program RuleBoth) (narrowed_program RuleOutbound)) k;
       (done', k) = apply_policy id (\<lambda>_ _. True) (diff (narrowed_program RuleOutbound) compiled_policy_default) k in
     done \<and> done' \<and> k_rule_states k \<lparr>bk_rule_id = 1, bk_direction = 1, bk_reserved = replicate 3 0\<rparr> \<noteq> None"
  by code_simp

end
