(* ===== verification/Collector_Core.thy ===== *)
theory Collector_Core
  imports Domain_Decoder Health Policy_Diff
begin

text \<open>
  The collection worker, \<^verbatim>\<open>collector/mod.rs\<close>: one poll reads flows, service samples, owners,
  domain samples and counters from the kernel source, reconciles them and accounts every failed
  read as a gap; commands apply policies, read rule states and replace the boundary. What the
  source answers in a poll is an argument: the entries it visited and whether the read succeeded.
  The worker is the loop over its events. Proved: when a batch is healthy, what a failed read may
  and may not lose, what an applied policy leaves in the kernel, and that every command is
  answered and every batch numbered in order.
\<close>

section \<open>State\<close>

datatype interface_selector = DefaultRoute | ByName string | ByIndex u32

definition selectors_from_names :: "string list \<Rightarrow> interface_selector list" where
  "selectors_from_names names = (if names = [] then [DefaultRoute] else map ByName names)"

record collector_config =
  cfg_interfaces :: "interface_selector list"
  cfg_idle_timeout :: duration
  cfg_collection_interval :: duration
  cfg_reconcile_interval :: duration

definition collector_config_default :: collector_config where
  "collector_config_default =
     \<lparr>cfg_interfaces = [DefaultRoute], cfg_idle_timeout = seconds 30,
      cfg_collection_interval = seconds 1, cfg_reconcile_interval = seconds 5\<rparr>"

definition LISTENER_SEED_INTERVAL :: duration where "LISTENER_SEED_INTERVAL = seconds 20"

record collector_core =
  cc_tracker :: flow_tracker
  cc_domains :: domain_decoder
  cc_health :: health_tracker
  cc_boundary :: "interface_selector list"
  cc_reconcile_interval :: duration
  cc_last_reconcile :: instant
  cc_sequence :: u64
  cc_last_poll :: instant
  cc_map_entries :: nat
  cc_map_capacity :: nat
  cc_owner_entries :: nat
  cc_applied_policy :: compiled_policy
  cc_listener_seed :: "instant option"
  cc_shutdown_complete :: bool

definition collector_core_new :: "collector_config \<Rightarrow> instant \<Rightarrow> collector_core" where
  "collector_core_new config now =
     \<lparr>cc_tracker = flow_tracker_new (cfg_idle_timeout config), cc_domains = [],
      cc_health = health_tracker_new, cc_boundary = cfg_interfaces config,
      cc_reconcile_interval = cfg_reconcile_interval config, cc_last_reconcile = now, cc_sequence = 0,
      cc_last_poll = now, cc_map_entries = 0, cc_map_capacity = DEFAULT_FLOW_CAPACITY,
      cc_owner_entries = 0, cc_applied_policy = compiled_policy_default, cc_listener_seed = None,
      cc_shutdown_complete = False\<rparr>"

record collection_batch =
  cb_sequence :: u64
  cb_collected_at :: system_time
  cb_interval :: duration
  cb_flows :: "flow_update list"
  cb_domains :: "domain_observation list"
  cb_health :: collector_health

section \<open>One poll\<close>

text \<open>
  The clocks at the start of the poll and at a later \<^verbatim>\<open>Instant::now()\<close>, what the source visits and
  answers, and what a \<^verbatim>\<open>/proc\<close> sweep for listeners finds.
\<close>

record poll_input =
  pi_started :: instant
  pi_wall :: instant
  pi_collected_at :: system_time
  pi_seed :: "(abi_owner_key \<times> abi_owner_value) list"
  pi_flows :: "(abi_flow_key \<times> abi_flow_value list) list"
  pi_flow_result :: "nat option"
  pi_services :: "service_sample list"
  pi_service_result :: "unit option"
  pi_owners :: "(abi_owner_key \<times> abi_owner_value) list"
  pi_owner_result :: "nat option"
  pi_domains :: "domain_sample list"
  pi_domain_result :: "unit option"
  pi_stats :: "kernel_stats option"
  pi_interfaces :: "interface_health list"
  pi_application :: application_health

type_synonym classifier = "u8 list \<Rightarrow> string option"

text \<open>\<^verbatim>\<open>listeners::seed\<close>, and the visit of the owner maps.\<close>

definition record_owners :: "(abi_owner_key \<times> abi_owner_value) list \<Rightarrow> instant \<Rightarrow> flow_tracker \<Rightarrow> flow_tracker" where
  "record_owners entries at = fold (\<lambda>(key, value). record_owner key value at) entries"

definition begin_poll :: "poll_input \<Rightarrow> collector_core \<Rightarrow> duration \<times> collector_core" where
  "begin_poll inp c =
     (saturating_duration_since (pi_started inp) (cc_last_poll c),
      c\<lparr>cc_last_poll := pi_started inp, cc_sequence := cc_sequence c + 1\<rparr>)"

definition reconcile_due :: "poll_input \<Rightarrow> collector_core \<Rightarrow> bool" where
  "reconcile_due inp c \<longleftrightarrow> cc_reconcile_interval c \<noteq> 0
     \<and> cc_reconcile_interval c \<le> saturating_duration_since (pi_started inp) (cc_last_reconcile c)"

definition poll_boundary :: "poll_input \<Rightarrow> collector_core \<Rightarrow> bool \<times> collector_core" where
  "poll_boundary inp c =
     (if reconcile_due inp c then (True, c\<lparr>cc_last_reconcile := pi_started inp\<rparr>) else (False, c))"

definition poll_seed :: "poll_input \<Rightarrow> collector_core \<Rightarrow> collector_core" where
  "poll_seed inp c =
     (case cc_listener_seed c of
        None \<Rightarrow> c
      | Some last_seed \<Rightarrow>
          if LISTENER_SEED_INTERVAL \<le> saturating_duration_since (pi_started inp) last_seed
          then c\<lparr>cc_tracker := record_owners (pi_seed inp) (pi_started inp) (cc_tracker c),
                 cc_listener_seed := Some (pi_started inp)\<rparr>
          else c)"

definition poll_flows :: "poll_input \<Rightarrow> collector_core \<Rightarrow> collector_core" where
  "poll_flows inp c =
     c\<lparr>cc_tracker := (cc_tracker c)\<lparr>ft_merged :=
         List.map_filter (\<lambda>(key, values). merge_entry key values) (pi_flows inp)\<rparr>\<rparr>"

definition apply_service :: "classifier \<Rightarrow> service_sample \<Rightarrow> flow_tracker \<Rightarrow> flow_tracker" where
  "apply_service fingerprint sample t =
     (let len = min (unat (ss_payload_len sample)) SERVICE_SAMPLE_MAX in
      case fingerprint (take len (ss_payload sample)) of
        None \<Rightarrow> t
      | Some service \<Rightarrow>
     (case decode_key (ss_key sample) of
        None \<Rightarrow> t
      | Some key \<Rightarrow> set_service key service t))"

definition poll_services :: "classifier \<Rightarrow> poll_input \<Rightarrow> collector_core \<Rightarrow> bool \<times> collector_core" where
  "poll_services fingerprint inp c =
     (let t = fold (apply_service fingerprint) (pi_services inp) (cc_tracker c);
          (r, h) = observe_read (pi_service_result inp) ServiceEventsReadFailed (pi_collected_at inp) (cc_health c) in
      (r = None, c\<lparr>cc_tracker := t, cc_health := h\<rparr>))"

definition poll_owners :: "poll_input \<Rightarrow> collector_core \<Rightarrow> bool \<times> collector_core" where
  "poll_owners inp c =
     (let t = record_owners (pi_owners inp) (pi_started inp) (cc_tracker c);
          (r, h) = observe_read (pi_owner_result inp) OwnerMapReadFailed (pi_collected_at inp) (cc_health c);
          c = c\<lparr>cc_tracker := t, cc_health := h\<rparr> in
      case r of
        Some entries \<Rightarrow> (False, c\<lparr>cc_owner_entries := entries\<rparr>)
      | None \<Rightarrow> (True, c))"

definition poll_reconcile :: "poll_input \<Rightarrow> collector_core \<Rightarrow> bool \<times> flow_update list \<times> collector_core" where
  "poll_reconcile inp c =
     (let (r, h) = observe_read (pi_flow_result inp) FlowMapReadFailed (pi_collected_at inp) (cc_health c);
          c = c\<lparr>cc_health := h\<rparr> in
      case r of
        Some entries \<Rightarrow>
          let (updates, t) = reconcile (pi_wall inp) (pi_started inp) (cc_tracker c) in
          (False, updates, c\<lparr>cc_map_entries := entries, cc_tracker := t\<rparr>)
      | None \<Rightarrow> (True, [], c))"

fun decode_all ::
  "instant \<Rightarrow> domain_sample list \<Rightarrow> mono_clock \<Rightarrow> instant \<Rightarrow> domain_decoder \<times> domain_observation list
     \<Rightarrow> mono_clock \<times> domain_decoder \<times> domain_observation list" where
  "decode_all wall [] clock now st = (clock, st)"
| "decode_all wall (s # ss) clock now st =
     (let (clock, st) = decode wall s clock now st in decode_all wall ss clock now st)"

definition poll_domains :: "poll_input \<Rightarrow> collector_core \<Rightarrow> bool \<times> domain_observation list \<times> collector_core" where
  "poll_domains inp c =
     (let (clock, d, observations) =
            decode_all (pi_wall inp) (pi_domains inp) (ft_clock (cc_tracker c)) (pi_started inp) (cc_domains c, []);
          (r, h) = observe_read (pi_domain_result inp) DomainEventsReadFailed (pi_collected_at inp) (cc_health c) in
      (r = None, observations,
       c\<lparr>cc_tracker := (cc_tracker c)\<lparr>ft_clock := clock\<rparr>, cc_health := h,
         cc_domains := purge_expired (pi_started inp) d\<rparr>))"

definition poll_stats :: "poll_input \<Rightarrow> collector_core \<Rightarrow> bool \<times> collector_core" where
  "poll_stats inp c =
     (let (r, h) = observe_read (pi_stats inp) KernelStatsReadFailed (pi_collected_at inp) (cc_health c) in
      case r of
        Some stats \<Rightarrow> (False, c\<lparr>cc_health := snd (record_kernel stats h)\<rparr>)
      | None \<Rightarrow> (True, c\<lparr>cc_health := h\<rparr>))"

fun poll_interfaces :: "system_time \<Rightarrow> interface_health list \<Rightarrow> health_tracker \<Rightarrow> bool \<times> health_tracker" where
  "poll_interfaces at [] h = (False, h)"
| "poll_interfaces at (i # is) h =
     (let key = InterfaceDetached (ih_ifindex i) in
      if ih_ingress_attached i \<and> ih_egress_attached i then poll_interfaces at is (close_gap key at h)
      else let (_, h) = poll_interfaces at is (open_gap key at h) in (True, h))"

text \<open>The first component is whether the boundary was re-resolved in this poll.\<close>

definition poll_once :: "classifier \<Rightarrow> poll_input \<Rightarrow> collector_core \<Rightarrow> bool \<times> collection_batch \<times> collector_core" where
  "poll_once fingerprint inp c =
     (let (interval, c) = begin_poll inp c;
          (resolved, c) = poll_boundary inp c;
          c = poll_flows inp (poll_seed inp c);
          (bad_services, c) = poll_services fingerprint inp c;
          (bad_owners, c) = poll_owners inp c;
          (bad_flows, flows, c) = poll_reconcile inp c;
          (bad_domains, domains, c) = poll_domains inp c;
          (bad_stats, c) = poll_stats inp c;
          (bad_interfaces, h) = poll_interfaces (pi_collected_at inp) (pi_interfaces inp) (cc_health c);
          degraded = (bad_services \<or> bad_owners \<or> bad_flows \<or> bad_domains \<or> bad_stats \<or> bad_interfaces);
          state = (if degraded \<or> has_open_gaps h then Degraded else Running);
          (health, h) = snapshot state (pi_interfaces inp) (cc_map_entries c) (cc_map_capacity c) (pi_application inp) h;
          c = c\<lparr>cc_health := h\<rparr> in
      (resolved,
       \<lparr>cb_sequence = cc_sequence c, cb_collected_at = pi_collected_at inp, cb_interval = interval,
        cb_flows = flows, cb_domains = domains, cb_health = health\<rparr>, c))"

section \<open>Commands and shutdown\<close>

definition core_apply ::
  "lpm_canon \<Rightarrow> (kernel \<Rightarrow> policy_op \<Rightarrow> bool) \<Rightarrow> compiled_policy \<Rightarrow> collector_core \<times> kernel
     \<Rightarrow> apply_summary option \<times> collector_core \<times> kernel" where
  "core_apply canon accepts program st =
     (let (c, k) = st;
          operations = diff (cc_applied_policy c) program;
          (done, k) = apply_policy canon accepts operations k in
      if \<not> done then (None, c, k)
      else (Some \<lparr>as_revision = cp_revision program, as_operations = length operations,
                  as_rules = length (cp_rules program)\<rparr>,
            c\<lparr>cc_applied_policy := program\<rparr>, k))"

text \<open>\<^verbatim>\<open>read_rule_states\<close> of the source; \<open>good\<close> is whether the kernel could be read.\<close>

definition core_rule_states :: "bucket_key list \<Rightarrow> bool \<Rightarrow> kernel \<Rightarrow> rule_state option list option" where
  "core_rule_states keys good k = (if good then Some (map (k_rule_states k) keys) else None)"

definition core_set_boundary :: "interface_selector list \<Rightarrow> instant \<Rightarrow> collector_core \<Rightarrow> collector_core" where
  "core_set_boundary selectors now c = c\<lparr>cc_boundary := selectors, cc_last_reconcile := now\<rparr>"

definition core_shutdown ::
  "bool \<Rightarrow> interface_health list \<Rightarrow> application_health \<Rightarrow> system_time \<Rightarrow> collector_core
     \<Rightarrow> collector_health option \<times> collector_core" where
  "core_shutdown detached interfaces application now c =
     (let (health, h) = snapshot Stopped interfaces (cc_map_entries c) (cc_map_capacity c) application
            (close_all now (cc_health c)) in
      (if detached then Some health else None, c\<lparr>cc_shutdown_complete := detached, cc_health := h\<rparr>))"

section \<open>The worker\<close>

text \<open>
  What the worker's select sees: cancellation, the end of the command channel, a command, or the
  ticker. After a command or a tick it polls and hands the batch over; that ends in cancellation,
  in success, or because the receiver is gone.
\<close>

datatype policy_command =
  ApplyCommand compiled_policy
| RuleStatesCommand "bucket_key list" bool
| SetBoundaryCommand "interface_selector list" instant bool

datatype wakeup = Cancelled | ChannelClosed | CommandReceived policy_command | Tick

datatype delivery = Delivered | ReceiverGone | CancelledWhileSending

datatype reply =
  ApplyReply "apply_summary option"
| RuleStatesReply "rule_state option list option"
| BoundaryReply bool

definition handle_command ::
  "lpm_canon \<Rightarrow> (kernel \<Rightarrow> policy_op \<Rightarrow> bool) \<Rightarrow> policy_command \<Rightarrow> collector_core \<times> kernel
     \<Rightarrow> reply \<times> collector_core \<times> kernel" where
  "handle_command canon accepts command st =
     (case command of
        ApplyCommand program \<Rightarrow>
          let (r, st) = core_apply canon accepts program st in (ApplyReply r, st)
      | RuleStatesCommand keys good \<Rightarrow> (RuleStatesReply (core_rule_states keys good (snd st)), st)
      | SetBoundaryCommand selectors now good \<Rightarrow>
          (BoundaryReply good, core_set_boundary selectors now (fst st), snd st))"

text \<open>One turn: the replies sent, and whether the loop goes on.\<close>

definition worker_wake ::
  "lpm_canon \<Rightarrow> (kernel \<Rightarrow> policy_op \<Rightarrow> bool) \<Rightarrow> wakeup \<Rightarrow> collector_core \<times> kernel
     \<Rightarrow> bool \<times> reply list \<times> collector_core \<times> kernel" where
  "worker_wake canon accepts w st =
     (case w of
        Cancelled \<Rightarrow> (False, [], st)
      | ChannelClosed \<Rightarrow> (False, [], st)
      | CommandReceived command \<Rightarrow> let (r, st) = handle_command canon accepts command st in (True, [r], st)
      | Tick \<Rightarrow> (True, [], st))"

text \<open>The turns of the loop; the batches that were delivered and the replies, in order.\<close>

fun worker ::
  "lpm_canon \<Rightarrow> (kernel \<Rightarrow> policy_op \<Rightarrow> bool) \<Rightarrow> classifier \<Rightarrow> (wakeup \<times> poll_input \<times> delivery) list
     \<Rightarrow> collector_core \<times> kernel \<Rightarrow> collection_batch list \<times> reply list \<times> collector_core \<times> kernel" where
  "worker canon accepts fingerprint [] st = ([], [], st)"
| "worker canon accepts fingerprint ((w, inp, delivery) # turns) st =
     (let (on, replies, st) = worker_wake canon accepts w st in
      if \<not> on then ([], replies, st) else
      let (_, batch, c) = poll_once fingerprint inp (fst st) in
      if delivery = Delivered
      then (let (bs, rs, st) = worker canon accepts fingerprint turns (c, snd st) in (batch # bs, replies @ rs, st))
      else ([], replies, c, snd st))"

section \<open>Polls\<close>

lemma record_owner_frame [simp]:
  "ft_previous (record_owner key value at t) = ft_previous t" "ft_merged (record_owner key value at t) = ft_merged t"
  "ft_idle_timeout (record_owner key value at t) = ft_idle_timeout t"
  by (auto simp: record_owner_def Let_def split: option.split owner_kind.split)

lemma record_owners_frame [simp]:
  "ft_previous (record_owners entries at t) = ft_previous t" "ft_merged (record_owners entries at t) = ft_merged t"
  by (induction entries arbitrary: t) (auto simp: record_owners_def)

lemma set_service_account: "account f key (set_service k s t) = account f key t"
  by (auto simp: account_def set_service_def update_conv' split: option.split)

lemma apply_services_account: "account f key (fold (apply_service fingerprint) ss t) = account f key t"
proof (induction ss arbitrary: t)
  case (Cons s ss)
  have "account f key (apply_service fingerprint s t) = account f key t"
    by (simp add: apply_service_def Let_def set_service_account split: option.split)
  then show ?case using Cons by simp
qed simp

text \<open>The polls are the stages in order; the facts each proof needs of them.\<close>

lemma poll_once_stages:
  assumes "poll_once fingerprint inp c = (resolved, batch, c')"
  obtains c1 c2 c3 c4 c5 c6 bs bo bf bd bt bi flows domains h where
    "c1 = poll_flows inp (poll_seed inp (snd (poll_boundary inp (snd (begin_poll inp c)))))"
    "poll_services fingerprint inp c1 = (bs, c2)" "poll_owners inp c2 = (bo, c3)"
    "poll_reconcile inp c3 = (bf, flows, c4)" "poll_domains inp c4 = (bd, domains, c5)"
    "poll_stats inp c5 = (bt, c6)"
    "poll_interfaces (pi_collected_at inp) (pi_interfaces inp) (cc_health c6) = (bi, h)"
    "cb_flows batch = flows" "cb_domains batch = domains"
    "ch_state (cb_health batch) = (if bs \<or> bo \<or> bf \<or> bd \<or> bt \<or> bi \<or> has_open_gaps h then Degraded else Running)"
    "c' = c6\<lparr>cc_health := h\<lparr>ht_closed_gaps := []\<rparr>\<rparr>" "cb_sequence batch = cc_sequence c6"
    "ch_gaps (cb_health batch) = map snd (ht_open_gaps h) @ ht_closed_gaps h"
proof -
  let ?c1 = "poll_flows inp (poll_seed inp (snd (poll_boundary inp (snd (begin_poll inp c)))))"
  obtain bs c2 where s: "poll_services fingerprint inp ?c1 = (bs, c2)" by fastforce
  obtain bo c3 where o: "poll_owners inp c2 = (bo, c3)" by fastforce
  obtain bf flows c4 where r: "poll_reconcile inp c3 = (bf, flows, c4)" by (metis surj_pair)
  obtain bd domains c5 where d: "poll_domains inp c4 = (bd, domains, c5)" by (metis surj_pair)
  obtain bt c6 where t: "poll_stats inp c5 = (bt, c6)" by fastforce
  obtain bi h where i: "poll_interfaces (pi_collected_at inp) (pi_interfaces inp) (cc_health c6) = (bi, h)" by fastforce
  show thesis
    by (rule that [OF refl s o r d t i])
      (use assms s o r d t i in \<open>auto simp: poll_once_def Let_def snapshot_def case_prod_unfold\<close>)
qed

definition failing :: "health_tracker \<Rightarrow> gap_key \<Rightarrow> bool" where
  "failing h key \<longleftrightarrow> map_of (ht_open_gaps h) key \<noteq> None"

lemma has_open_gaps_iff: "has_open_gaps h \<longleftrightarrow> (\<exists>key. failing h key)"
  by (cases "ht_open_gaps h") (auto simp: has_open_gaps_def failing_def)

lemma failing_open [simp]: "failing (open_gap key at h) key' \<longleftrightarrow> key' = key \<or> failing h key'"
  by (auto simp: failing_def open_gap_def update_conv')

lemma failing_close [simp]: "failing (close_gap key at h) key' \<longleftrightarrow> key' \<noteq> key \<and> failing h key'"
  by (auto simp: failing_def close_gap_def delete_conv' split: option.split)

lemma observe_read_simps [simp]:
  "fst (observe_read r key at h) = r"
  "failing (snd (observe_read r key at h)) key' \<longleftrightarrow> (if key' = key then r = None else failing h key')"
  by (auto simp: observe_read_def split: option.split)

lemma record_kernel_failing [simp]: "failing (snd (record_kernel stats h)) = failing h"
  by (simp add: failing_def record_kernel_def Let_def fun_eq_iff)

lemma poll_interfaces_failing:
  "poll_interfaces at is h = (bad, h') \<Longrightarrow>
     (bad \<longleftrightarrow> \<not> list_all (\<lambda>i. ih_ingress_attached i \<and> ih_egress_attached i) is)
     \<and> ((\<forall>i. key \<noteq> InterfaceDetached i) \<longrightarrow> failing h' key = failing h key)
     \<and> (i \<notin> ih_ifindex ` set is \<longrightarrow> failing h' (InterfaceDetached i) = failing h (InterfaceDetached i))
     \<and> (\<not> bad \<longrightarrow> i \<in> ih_ifindex ` set is \<longrightarrow> \<not> failing h' (InterfaceDetached i))"
proof (induction "is" arbitrary: h bad)
  case (Cons x xs)
  show ?case
  proof (cases "ih_ingress_attached x \<and> ih_egress_attached x")
    case True
    then have "poll_interfaces at xs (close_gap (InterfaceDetached (ih_ifindex x)) at h) = (bad, h')"
      using Cons.prems by simp
    from Cons.IH [OF this] True show ?thesis by auto
  next
    case False
    obtain b where "poll_interfaces at xs (open_gap (InterfaceDetached (ih_ifindex x)) at h) = (b, h')" "bad"
      using Cons.prems False by (auto simp: Let_def split: prod.splits)
    from Cons.IH [OF this(1)] this(2) False show ?thesis by auto
  qed
qed simp

lemma poll_stage_frames:
  "cc_health (poll_flows inp c) = cc_health c" "cc_health (poll_seed inp c) = cc_health c"
  "cc_health (snd (poll_boundary inp c)) = cc_health c" "cc_health (snd (begin_poll inp c)) = cc_health c"
  "account f key (cc_tracker (poll_flows inp c)) = account f key (cc_tracker c)"
  "account f key (cc_tracker (poll_seed inp c)) = account f key (cc_tracker c)"
  "cc_tracker (snd (poll_boundary inp c)) = cc_tracker c" "cc_tracker (snd (begin_poll inp c)) = cc_tracker c"
  "cc_sequence (poll_flows inp c) = cc_sequence c" "cc_sequence (poll_seed inp c) = cc_sequence c"
  "cc_sequence (snd (poll_boundary inp c)) = cc_sequence c" "cc_sequence (snd (begin_poll inp c)) = cc_sequence c + 1"
  by (simp_all add: poll_flows_def poll_seed_def poll_boundary_def begin_poll_def account_def split: option.split)

lemma poll_services_stage:
  assumes "poll_services fingerprint inp c = (bad, c')"
  shows "bad \<longleftrightarrow> pi_service_result inp = None"
    "failing (cc_health c') key \<longleftrightarrow> (if key = ServiceEventsReadFailed then bad else failing (cc_health c) key)"
    "account f k (cc_tracker c') = account f k (cc_tracker c)" "cc_sequence c' = cc_sequence c"
  using assms
  by (auto simp: case_prod_unfold poll_services_def Let_def apply_services_account split: prod.splits)

lemma poll_owners_stage:
  assumes "poll_owners inp c = (bad, c')"
  shows "bad \<longleftrightarrow> pi_owner_result inp = None"
    "failing (cc_health c') key \<longleftrightarrow> (if key = OwnerMapReadFailed then bad else failing (cc_health c) key)"
    "account f k (cc_tracker c') = account f k (cc_tracker c)" "cc_sequence c' = cc_sequence c"
  using assms
  by (auto simp: case_prod_unfold poll_owners_def Let_def account_def split: prod.splits option.splits)

lemma poll_reconcile_stage:
  assumes "poll_reconcile inp c = (bad, flows, c')"
  shows "bad \<longleftrightarrow> pi_flow_result inp = None"
    "failing (cc_health c') key \<longleftrightarrow> (if key = FlowMapReadFailed then bad else failing (cc_health c) key)"
    "bad \<Longrightarrow> flows = [] \<and> cc_tracker c' = cc_tracker c" "cc_sequence c' = cc_sequence c"
  using assms
  by (auto simp: case_prod_unfold poll_reconcile_def Let_def split: prod.splits option.splits)

lemma poll_domains_stage:
  assumes "poll_domains inp c = (bad, domains, c')"
  shows "bad \<longleftrightarrow> pi_domain_result inp = None"
    "failing (cc_health c') key \<longleftrightarrow> (if key = DomainEventsReadFailed then bad else failing (cc_health c) key)"
    "account f k (cc_tracker c') = account f k (cc_tracker c)" "cc_sequence c' = cc_sequence c"
  using assms
  by (auto simp: case_prod_unfold poll_domains_def Let_def account_def split: prod.splits)

lemma poll_stats_stage:
  assumes "poll_stats inp c = (bad, c')"
  shows "bad \<longleftrightarrow> pi_stats inp = None"
    "failing (cc_health c') key \<longleftrightarrow> (if key = KernelStatsReadFailed then bad else failing (cc_health c) key)"
    "cc_tracker c' = cc_tracker c" "cc_sequence c' = cc_sequence c"
  using assms
  by (auto simp: case_prod_unfold poll_stats_def Let_def split: prod.splits option.splits)

text \<open>The keys that fail before the interfaces are looked at.\<close>

definition read_fails :: "poll_input \<Rightarrow> gap_key \<Rightarrow> bool" where
  "read_fails inp key =
     (case key of
        FlowMapReadFailed \<Rightarrow> pi_flow_result inp = None
      | OwnerMapReadFailed \<Rightarrow> pi_owner_result inp = None
      | KernelStatsReadFailed \<Rightarrow> pi_stats inp = None
      | DomainEventsReadFailed \<Rightarrow> pi_domain_result inp = None
      | ServiceEventsReadFailed \<Rightarrow> pi_service_result inp = None
      | InterfaceDetached _ \<Rightarrow> False)"

lemma poll_once_failing:
  fixes c inp fingerprint
  assumes "poll_once fingerprint inp c = (resolved, batch, c')"
  shows "ch_state (cb_health batch) = Running \<longleftrightarrow> (\<forall>key. \<not> read_fails inp key)
      \<and> list_all (\<lambda>i. ih_ingress_attached i \<and> ih_egress_attached i) (pi_interfaces inp)
      \<and> (\<forall>i. failing (cc_health c) (InterfaceDetached i) \<longrightarrow> i \<in> ih_ifindex ` set (pi_interfaces inp))"
    "ch_state (cb_health batch) \<noteq> Running \<Longrightarrow> ch_state (cb_health batch) = Degraded"
    "i \<notin> ih_ifindex ` set (pi_interfaces inp) \<Longrightarrow>
       failing (cc_health c') (InterfaceDetached i) = failing (cc_health c) (InterfaceDetached i)"
    "(\<forall>i. key \<noteq> InterfaceDetached i) \<Longrightarrow> failing (cc_health c') key = read_fails inp key"
    "cc_sequence c' = cc_sequence c + 1" "cb_sequence batch = cc_sequence c + 1"
    "pi_flow_result inp = None \<Longrightarrow> cb_flows batch = [] \<and> account f k (cc_tracker c') = account f k (cc_tracker c)"
proof -
  obtain c1 c2 c3 c4 c5 c6 bs bo bf bd bt bi flows domains h where
    c1: "c1 = poll_flows inp (poll_seed inp (snd (poll_boundary inp (snd (begin_poll inp c)))))"
    and s: "poll_services fingerprint inp c1 = (bs, c2)" and o: "poll_owners inp c2 = (bo, c3)"
    and r: "poll_reconcile inp c3 = (bf, flows, c4)" and d: "poll_domains inp c4 = (bd, domains, c5)"
    and t: "poll_stats inp c5 = (bt, c6)"
    and i: "poll_interfaces (pi_collected_at inp) (pi_interfaces inp) (cc_health c6) = (bi, h)"
    and b: "cb_flows batch = flows" "cb_sequence batch = cc_sequence c6"
      "ch_state (cb_health batch) = (if bs \<or> bo \<or> bf \<or> bd \<or> bt \<or> bi \<or> has_open_gaps h then Degraded else Running)"
      "c' = c6\<lparr>cc_health := h\<lparr>ht_closed_gaps := []\<rparr>\<rparr>"
    by (rule poll_once_stages [OF assms])
  note bad = poll_services_stage(1) [OF s] poll_owners_stage(1) [OF o] poll_reconcile_stage(1) [OF r]
    poll_domains_stage(1) [OF d] poll_stats_stage(1) [OF t]
  have f6: "failing (cc_health c6) key \<longleftrightarrow>
      (case key of InterfaceDetached _ \<Rightarrow> failing (cc_health c) key | _ \<Rightarrow> read_fails inp key)" for key
    using bad
    by (cases key; simp add: poll_stats_stage(2) [OF t] poll_domains_stage(2) [OF d] poll_reconcile_stage(2) [OF r]
        poll_owners_stage(2) [OF o] poll_services_stage(2) [OF s] c1 poll_stage_frames read_fails_def)
  have fh: "failing (cc_health c') = failing h" by (simp add: b(4) failing_def fun_eq_iff)
  note pi = poll_interfaces_failing [OF i]
  show "(\<forall>i. key \<noteq> InterfaceDetached i) \<Longrightarrow> failing (cc_health c') key = read_fails inp key" for key
    using pi [of key] f6 [of key] by (auto simp: fh split: gap_key.splits)
  show "failing (cc_health c') (InterfaceDetached i) = failing (cc_health c) (InterfaceDetached i)"
    if "i \<notin> ih_ifindex ` set (pi_interfaces inp)" for i
    using pi f6 [of "InterfaceDetached i"] that by (simp add: fh)
  show "ch_state (cb_health batch) \<noteq> Running \<Longrightarrow> ch_state (cb_health batch) = Degraded"
    by (simp add: b(3) split: if_splits)
  have sq: "cc_sequence c6 = cc_sequence c + 1"
    using poll_stats_stage(4) [OF t] poll_domains_stage(4) [OF d] poll_reconcile_stage(4) [OF r]
      poll_owners_stage(4) [OF o] poll_services_stage(4) [OF s] by (simp add: c1 poll_stage_frames)
  then show "cc_sequence c' = cc_sequence c + 1" "cb_sequence batch = cc_sequence c + 1" by (simp_all add: b)
  show "cb_flows batch = [] \<and> account f k (cc_tracker c') = account f k (cc_tracker c)" if "pi_flow_result inp = None"
    using poll_reconcile_stage(1,3) [OF r] that poll_stats_stage(3) [OF t] poll_domains_stage(3) [OF d]
      poll_owners_stage(3) [OF o] poll_services_stage(3) [OF s] by (simp add: b c1 poll_stage_frames)
  have reads: "(\<forall>key. \<not> read_fails inp key) \<longleftrightarrow> \<not> (bs \<or> bo \<or> bf \<or> bd \<or> bt)"
    unfolding bad by (auto simp: read_fails_def split: gap_key.split; metis gap_key.simps)
  have "failing h (InterfaceDetached i) \<longleftrightarrow> i \<notin> ih_ifindex ` set (pi_interfaces inp) \<and> failing (cc_health c) (InterfaceDetached i)"
    if "\<not> bi" for i
    using pi that f6 [of "InterfaceDetached i"] by (auto simp: image_iff)
  moreover have "\<not> failing h key" if "\<not> read_fails inp key" "\<forall>i. key \<noteq> InterfaceDetached i" for key
    using pi [of key] f6 [of key] that by (auto split: gap_key.splits)
  ultimately have open_iff: "has_open_gaps h \<longleftrightarrow> (\<exists>i. i \<notin> ih_ifindex ` set (pi_interfaces inp) \<and> failing (cc_health c) (InterfaceDetached i))"
    if "\<not> bi" "\<forall>key. \<not> read_fails inp key"
    using that unfolding has_open_gaps_iff by metis
  show "ch_state (cb_health batch) = Running \<longleftrightarrow> (\<forall>key. \<not> read_fails inp key)
      \<and> list_all (\<lambda>i. ih_ingress_attached i \<and> ih_egress_attached i) (pi_interfaces inp)
      \<and> (\<forall>i. failing (cc_health c) (InterfaceDetached i) \<longrightarrow> i \<in> ih_ifindex ` set (pi_interfaces inp))"
    using open_iff reads pi unfolding b(3) by (auto split: if_splits)
qed

section \<open>Health of a batch\<close>

text \<open>
  A batch is healthy exactly when every read of the poll succeeded, every interface of the
  boundary has both hooks, and every interface whose hooks were ever missing is still listed;
  otherwise it is degraded, and its number follows the last one.
\<close>

theorem batch_state_iff:
  "let (_, batch, c') = poll_once fingerprint inp c in
     ch_state (cb_health batch) =
       (if {key. read_fails inp key} = {} \<and> list_all (\<lambda>i. ih_ingress_attached i \<and> ih_egress_attached i) (pi_interfaces inp)
           \<and> {i. failing (cc_health c) (InterfaceDetached i)} \<subseteq> ih_ifindex ` set (pi_interfaces inp)
        then Running else Degraded)
     \<and> cb_sequence batch = cc_sequence c + 1 \<and> cc_sequence c' = cc_sequence c + 1"
proof -
  obtain resolved batch c' where p: "poll_once fingerprint inp c = (resolved, batch, c')" by (metis surj_pair)
  note f = poll_once_failing [OF p]
  show ?thesis using f(1,2) by (auto simp: p f(5,6))
qed

fun poll_run :: "classifier \<Rightarrow> poll_input list \<Rightarrow> collector_core \<Rightarrow> collection_batch list \<times> collector_core" where
  "poll_run fingerprint [] c = ([], c)"
| "poll_run fingerprint (inp # inps) c =
     (let (_, batch, c) = poll_once fingerprint inp c; (bs, c) = poll_run fingerprint inps c in (batch # bs, c))"

text \<open>
  An interface that left the boundary while its hooks were missing is never looked at again:
  its gap stays open, and every later batch is degraded, whatever else recovers.
\<close>

theorem vanished_interface_stays_degraded:
  assumes "failing (cc_health c) (InterfaceDetached i)"
    and "\<forall>inp \<in> set inps. i \<notin> ih_ifindex ` set (pi_interfaces inp)"
    and "poll_run fingerprint inps c = (bs, c')"
  shows "list_all (\<lambda>b. ch_state (cb_health b) = Degraded) bs \<and> failing (cc_health c') (InterfaceDetached i)"
  using assms
proof (induction inps arbitrary: c bs)
  case (Cons inp inps)
  obtain resolved b c1 where p: "poll_once fingerprint inp c = (resolved, b, c1)" by (metis surj_pair)
  obtain bs1 where q: "poll_run fingerprint inps c1 = (bs1, c')" "bs = b # bs1"
    using Cons.prems(3) by (auto simp: p split: prod.splits)
  have i: "i \<notin> ih_ifindex ` set (pi_interfaces inp)" using Cons.prems(2) by simp
  have f: "failing (cc_health c1) (InterfaceDetached i)" using poll_once_failing(3) [OF p i] Cons.prems(1) by simp
  have "ch_state (cb_health b) = Degraded" using poll_once_failing(1,2) [OF p] Cons.prems(1) i by blast
  with Cons.IH [OF f _ q(1)] Cons.prems(2) q(2) show ?case by simp
qed simp

section \<open>Failed flow reads\<close>

text \<open>What the tracker keeps in its books, which only \<^const>\<open>poll_reconcile\<close> changes.\<close>

definition merged_of :: "poll_input \<Rightarrow> merged_flow list" where
  "merged_of inp = List.map_filter (\<lambda>(key, values). merge_entry key values) (pi_flows inp)"

abbreviation tracked_keys :: "flow_tracker \<Rightarrow> flow_key list" where
  "tracked_keys t \<equiv> map fst (ft_previous t)"

lemma apply_services_frame:
  "ft_merged (fold (apply_service fingerprint) ss t) = ft_merged t
   \<and> (distinct (tracked_keys t) \<longrightarrow> distinct (tracked_keys (fold (apply_service fingerprint) ss t)))"
proof (induction ss arbitrary: t)
  case (Cons s ss)
  have "ft_merged (set_service key v t) = ft_merged t
      \<and> (distinct (tracked_keys t) \<longrightarrow> distinct (tracked_keys (set_service key v t)))" for key v
    by (auto simp: set_service_def distinct_update split: option.split)
  then have "ft_merged (apply_service fingerprint s t) = ft_merged t
      \<and> (distinct (tracked_keys t) \<longrightarrow> distinct (tracked_keys (apply_service fingerprint s t)))"
    by (simp add: apply_service_def Let_def split: option.split)
  with Cons.IH [of "apply_service fingerprint s t"] show ?case by simp
qed simp

lemma poll_once_reconciles:
  assumes "poll_once fingerprint inp c = (resolved, batch, c')"
  obtains t t' where "ft_merged t = merged_of inp"
    "distinct (tracked_keys (cc_tracker c)) \<longrightarrow> distinct (tracked_keys t)"
    "\<forall>f k. account f k t = account f k (cc_tracker c)"
    "if pi_flow_result inp = None then cb_flows batch = [] \<and> t' = t
     else reconcile (pi_wall inp) (pi_started inp) t = (cb_flows batch, t')"
    "ft_previous (cc_tracker c') = ft_previous t'"
proof -
  obtain c1 c2 c3 c4 c5 c6 bs bo bf bd bt bi flows domains h where
    c1: "c1 = poll_flows inp (poll_seed inp (snd (poll_boundary inp (snd (begin_poll inp c)))))"
    and s: "poll_services fingerprint inp c1 = (bs, c2)" and o: "poll_owners inp c2 = (bo, c3)"
    and r: "poll_reconcile inp c3 = (bf, flows, c4)" and d: "poll_domains inp c4 = (bd, domains, c5)"
    and t: "poll_stats inp c5 = (bt, c6)"
    and i: "poll_interfaces (pi_collected_at inp) (pi_interfaces inp) (cc_health c6) = (bi, h)"
    and b: "cb_flows batch = flows" "c' = c6\<lparr>cc_health := h\<lparr>ht_closed_gaps := []\<rparr>\<rparr>"
    by (rule poll_once_stages [OF assms])
  have d1: "ft_previous (cc_tracker c1) = ft_previous (cc_tracker c)" "ft_merged (cc_tracker c1) = merged_of inp"
    by (simp_all add: c1 poll_flows_def poll_seed_def poll_boundary_def begin_poll_def merged_of_def split: option.split)
  have d2: "ft_merged (cc_tracker c2) = merged_of inp"
    "distinct (tracked_keys (cc_tracker c)) \<Longrightarrow> distinct (tracked_keys (cc_tracker c2))"
    using s apply_services_frame [of fingerprint "pi_services inp" "cc_tracker c1"]
    by (auto simp: poll_services_def Let_def d1 case_prod_unfold)
  have d3: "ft_merged (cc_tracker c3) = ft_merged (cc_tracker c2)" "ft_previous (cc_tracker c3) = ft_previous (cc_tracker c2)"
    using o by (auto simp: poll_owners_def Let_def case_prod_unfold split: option.splits)
  have "account f k (cc_tracker c3) = account f k (cc_tracker c)" for f k
    using poll_owners_stage(3) [OF o] poll_services_stage(3) [OF s] by (simp add: c1 poll_stage_frames)
  moreover have "ft_previous (cc_tracker c') = ft_previous (cc_tracker c4)"
    using d poll_stats_stage(3) [OF t] by (auto simp: b poll_domains_def Let_def case_prod_unfold)
  moreover have "if pi_flow_result inp = None then cb_flows batch = [] \<and> cc_tracker c4 = cc_tracker c3
     else reconcile (pi_wall inp) (pi_started inp) (cc_tracker c3) = (cb_flows batch, cc_tracker c4)"
    using r by (auto simp: poll_reconcile_def Let_def case_prod_unfold b observe_read_simps(1) split: option.splits)
  ultimately show thesis using that [of "cc_tracker c3" "cc_tracker c4"] d2 d3 by simp
qed

text \<open>The polls that could read the flow maps, as the tracker sees them.\<close>

definition flow_reads :: "poll_input list \<Rightarrow> (instant \<times> instant \<times> merged_flow list) list" where
  "flow_reads inps =
     map (\<lambda>inp. (pi_wall inp, pi_started inp, merged_of inp)) (filter (\<lambda>inp. pi_flow_result inp \<noteq> None) inps)"

lemma flow_reads_simps [simp]:
  "flow_reads [] = []"
  "flow_reads (inp # inps) = (if pi_flow_result inp = None then flow_reads inps
     else (pi_wall inp, pi_started inp, merged_of inp) # flow_reads inps)"
  by (simp_all add: flow_reads_def)

lemma poll_run_account:
  assumes "poll_run fingerprint inps c = (bs, c')" "distinct (tracked_keys (cc_tracker c))"
    and "entry_lives key (flow_reads inps) p b" "account tc_packets key (cc_tracker c) \<le> unat p"
    and "account tc_bytes key (cc_tracker c) \<le> unat b" "f \<in> {tc_packets, tc_bytes}"
  shows "account f key (cc_tracker c') = account f key (cc_tracker c) + reported f key (concat (map cb_flows bs))"
  using assms
proof (induction inps arbitrary: c bs p b)
  case (Cons inp inps)
  obtain resolved b1 c1 where p1: "poll_once fingerprint inp c = (resolved, b1, c1)" by (metis surj_pair)
  obtain bs1 where q: "poll_run fingerprint inps c1 = (bs1, c')" "bs = b1 # bs1"
    using Cons.prems(1) by (auto simp: p1 split: prod.splits)
  obtain t t' where ts: "ft_merged t = merged_of inp"
    "distinct (tracked_keys (cc_tracker c)) \<longrightarrow> distinct (tracked_keys t)"
    "\<forall>f k. account f k t = account f k (cc_tracker c)"
    "if pi_flow_result inp = None then cb_flows b1 = [] \<and> t' = t
     else reconcile (pi_wall inp) (pi_started inp) t = (cb_flows b1, t')"
    "ft_previous (cc_tracker c1) = ft_previous t'"
    by (rule poll_once_reconciles [OF p1])
  have acc: "account h k (cc_tracker c1) = account h k t'" for h k by (simp add: account_def ts(5))
  show ?case
  proof (cases "pi_flow_result inp = None")
    case True
    then have "t' = t" "cb_flows b1 = []" using ts(4) by auto
    then show ?thesis
      using Cons.IH [OF q(1) _ _ _ _ Cons.prems(6), of p b] Cons.prems ts True by (simp add: acc q(2))
  next
    case False
    then obtain m where m: "List.find (\<lambda>m. mf_key m = key) (merged_of inp) = Some m" "distinct (map mf_key (merged_of inp))"
      "p \<le> tc_packets (mf_total m)" "b \<le> tc_bytes (mf_total m)"
      "entry_lives key (flow_reads inps) (tc_packets (mf_total m)) (tc_bytes (mf_total m))"
      using Cons.prems(3) by (auto split: option.splits)
    have mk: "mf_key m = key" "m \<in> set (merged_of inp)" using m(1) by (auto simp: find_Some_iff)
    have r: "reconcile (pi_wall inp) (pi_started inp) t = (cb_flows b1, t')" using ts(4) False by simp
    have co: "counts_on (mf_key m) t m"
      using Cons.prems(4,5) m(3,4) by (auto simp: counts_on_def ts(3) mk word_le_nat_alt)
    have step: "account h key t' = account h key t + reported h key (cb_flows b1) \<and> account h key t' \<le> unat (h (mf_total m))
        \<and> distinct (tracked_keys t')" if "h \<in> {tc_packets, tc_bytes}" for h
      using reconcile_delta [OF r _ _ _ co that] ts(1,2) Cons.prems(2) m(2) mk by simp
    show ?thesis
      using Cons.IH [OF q(1) _ m(5) _ _ Cons.prems(6)] step [of tc_packets] step [of tc_bytes]
        step [OF Cons.prems(6)] ts(3,5) by (simp add: acc q(2))
  qed
qed simp

text \<open>
  C16: no traffic is lost to a failed read: over any run of polls of which some cannot read the
  flow maps, the deltas of the batches add up to exactly the total the tracker stands at, as long
  as the kernel keeps the flow's entry; the polls that failed report nothing and the next good one
  reports what they missed.
\<close>

theorem failed_reads_lose_nothing:
  assumes "poll_run fingerprint inps c = (bs, c')" "distinct (tracked_keys (cc_tracker c))"
    and "map_of (ft_previous (cc_tracker c)) key = None" "entry_lives key (flow_reads inps) 0 0"
    and "f \<in> {tc_packets, tc_bytes}"
  shows "reported f key (concat (map cb_flows bs)) = account f key (cc_tracker c')"
  using poll_run_account [OF assms(1,2,4) _ _ assms(5)] assms(3) by (simp add: account_def)

section \<open>Policies in the kernel\<close>

text \<open>The maps hold the program the collector believes is applied.\<close>

definition synced :: "lpm_canon \<Rightarrow> collector_core \<times> kernel \<Rightarrow> bool" where
  "synced canon st \<longleftrightarrow> represented canon (snd st) (set (cp_rules (cc_applied_policy (fst st))))"

fun changes_ok :: "lpm_canon \<Rightarrow> compiled_policy \<Rightarrow> compiled_policy list \<Rightarrow> bool" where
  "changes_ok canon p [] = True"
| "changes_ok canon p (q # qs) = (diff_ok canon p q \<and> changes_ok canon q qs)"

definition commands_of :: "wakeup list \<Rightarrow> policy_command list" where
  "commands_of = List.map_filter (\<lambda>w. case w of CommandReceived command \<Rightarrow> Some command | _ \<Rightarrow> None)"

definition programs_of :: "policy_command list \<Rightarrow> compiled_policy list" where
  "programs_of = List.map_filter (\<lambda>command. case command of ApplyCommand program \<Rightarrow> Some program | _ \<Rightarrow> None)"

fun answers :: "policy_command \<Rightarrow> reply \<Rightarrow> bool" where
  "answers (ApplyCommand program) (ApplyReply r) = (\<forall>s. r = Some s \<longrightarrow> as_revision s = cp_revision program)"
| "answers (RuleStatesCommand keys good) (RuleStatesReply r) = ((r = None) = (\<not> good) \<and> (\<forall>l. r = Some l \<longrightarrow> length l = length keys))"
| "answers (SetBoundaryCommand selectors now good) (BoundaryReply r) = (r = good)"
| "answers _ _ = False"

lemma filter_of_simps [simp]:
  "commands_of [] = []"
  "commands_of (w # ws) = (case w of CommandReceived command \<Rightarrow> command # commands_of ws | _ \<Rightarrow> commands_of ws)"
  "programs_of [] = []"
  "programs_of (c # cs) = (case c of ApplyCommand program \<Rightarrow> program # programs_of cs | _ \<Rightarrow> programs_of cs)"
  by (simp_all add: commands_of_def programs_of_def List.map_filter_def split: wakeup.split policy_command.split)

lemma core_apply_accepted:
  assumes "synced canon (c, k)" "diff_ok canon (cc_applied_policy c) program" "\<forall>k op. accepts k op"
    and "core_apply canon accepts program (c, k) = (r, c', k')"
  shows "r \<noteq> None" "c' = c\<lparr>cc_applied_policy := program\<rparr>" "represents canon k' program" "synced canon (c', k')"
proof -
  note d = diff_run [OF assms(1) [unfolded synced_def fst_conv snd_conv] assms(2)]
  have "apply_policy canon accepts (diff (cc_applied_policy c) program) k
      = (True, effects canon (diff (cc_applied_policy c) program) k)"
    using safe_run_applies [OF d(1), where accepts = accepts] assms(3) by simp
  then show "r \<noteq> None" "c' = c\<lparr>cc_applied_policy := program\<rparr>" "represents canon k' program"
    using assms(4) d(2) by (auto simp: core_apply_def Let_def)
  then show "synced canon (c', k')" by (simp add: synced_def represents_def)
qed

lemma handle_command_frame:
  "cc_sequence (fst (snd (handle_command canon accepts command st))) = cc_sequence (fst st)"
  "answers command (fst (handle_command canon accepts command st))"
  by (cases command; cases st;
      auto simp: handle_command_def core_apply_def core_rule_states_def core_set_boundary_def Let_def split: prod.splits)+

lemma poll_stage_policy:
  "cc_applied_policy (poll_flows inp c) = cc_applied_policy c" "cc_applied_policy (poll_seed inp c) = cc_applied_policy c"
  "cc_applied_policy (snd (poll_boundary inp c)) = cc_applied_policy c"
  "cc_applied_policy (snd (begin_poll inp c)) = cc_applied_policy c"
  "poll_services fingerprint inp c = (bs, c1) \<Longrightarrow> cc_applied_policy c1 = cc_applied_policy c"
  "poll_owners inp c = (bs, c1) \<Longrightarrow> cc_applied_policy c1 = cc_applied_policy c"
  "poll_reconcile inp c = (bs, us, c1) \<Longrightarrow> cc_applied_policy c1 = cc_applied_policy c"
  "poll_domains inp c = (bs, ds, c1) \<Longrightarrow> cc_applied_policy c1 = cc_applied_policy c"
  "poll_stats inp c = (bs, c1) \<Longrightarrow> cc_applied_policy c1 = cc_applied_policy c"
  by (auto simp: begin_poll_def poll_boundary_def poll_flows_def poll_seed_def poll_services_def poll_owners_def
      poll_reconcile_def poll_domains_def poll_stats_def Let_def case_prod_unfold split: option.splits)

lemma poll_once_policy:
  assumes "poll_once fingerprint inp c = (resolved, batch, c')"
  shows "cc_applied_policy c' = cc_applied_policy c"
  by (rule poll_once_stages [OF assms]) (simp add: poll_stage_policy)

text \<open>What one turn of the loop does, for the proofs by induction over the turns.\<close>

lemma worker_wake_cases:
  assumes "worker_wake canon accepts w st = (on, replies, st')"
  obtains (stop) "\<not> on" "replies = []" "st' = st" "commands_of [w] = []"
  | (tick) "on" "replies = []" "st' = st" "commands_of [w] = []"
  | (command) command r where "on" "replies = [r]" "w = CommandReceived command"
      "handle_command canon accepts command st = (r, st')"
  using assms by (cases w) (auto simp: worker_wake_def Let_def split: prod.splits)

text \<open>
  C18: the worker answers every command it takes, once and in order: an accepted program with its
  revision, a request for rule states with one answer per key, a boundary with the result of its
  reconciliation. The batches it delivers are numbered without a gap.
\<close>

theorem worker_answers_in_order:
  fixes st :: "collector_core \<times> kernel"
  assumes "worker canon accepts fingerprint turns st = (bs, rs, st')"
  shows "\<exists>n. length bs \<le> n \<and> n \<le> length bs + 1 \<and> n \<le> length turns
    \<and> list_all2 answers (commands_of (map fst (take n turns))) rs
    \<and> map cb_sequence bs = map (\<lambda>i. cc_sequence (fst st) + of_nat i) [1..<length bs + 1]"
  using assms
proof (induction turns arbitrary: st bs rs)
  case (Cons turn turns)
  obtain w inp delivery where turn: "turn = (w, inp, delivery)" by (cases turn)
  obtain on replies st1 where w: "worker_wake canon accepts w st = (on, replies, st1)" by (metis surj_pair)
  have "cc_sequence (fst st1) = cc_sequence (fst st) \<and> list_all2 answers (commands_of [w]) replies"
    using w
  proof (cases rule: worker_wake_cases)
    case (command command r)
    then show ?thesis using handle_command_frame [where canon = canon and accepts = accepts and command = command and st = st] by simp
  qed simp_all
  then have sq: "cc_sequence (fst st1) = cc_sequence (fst st)" "list_all2 answers (commands_of [w]) replies" by auto
  obtain resolved b c where p: "poll_once fingerprint inp (fst st1) = (resolved, b, c)" by (metis surj_pair)
  note b = poll_once_failing(5,6) [OF p]
  show ?case
  proof (cases "on \<and> delivery = Delivered")
    case True
    obtain bs1 rs1 where q: "worker canon accepts fingerprint turns (c, snd st1) = (bs1, rs1, st')"
      "bs = b # bs1" "rs = replies @ rs1"
      using Cons.prems w p True by (auto simp: turn split: prod.splits)
    obtain n where n: "length bs1 \<le> n" "n \<le> length bs1 + 1" "n \<le> length turns"
      "list_all2 answers (commands_of (map fst (take n turns))) rs1"
      "map cb_sequence bs1 = map (\<lambda>i. cc_sequence c + of_nat i) [1..<length bs1 + 1]"
      using Cons.IH [OF q(1)] by auto
    have "map cb_sequence bs = map (\<lambda>i. cc_sequence (fst st) + of_nat i) [1..<length bs + 1]"
      using n(5) by (simp add: q b sq upt_conv_Cons map_Suc_upt [symmetric] del: upt_Suc)
    moreover have "commands_of (map fst (take (Suc n) (turn # turns))) = commands_of [w] @ commands_of (map fst (take n turns))"
      by (simp add: turn split: wakeup.split)
    then have "list_all2 answers (commands_of (map fst (take (Suc n) (turn # turns)))) rs"
      using list_all2_appendI [OF sq(2) n(4)] by (simp only: q(3))
    ultimately show ?thesis using n(1-3) by (intro exI [of _ "Suc n"]) (simp add: q(2))
  next
    case False
    then have "bs = []" "rs = replies" using Cons.prems w p by (auto simp: turn Let_def split: if_splits)
    with sq(2) show ?thesis by (intro exI [of _ 1]) (simp add: turn)
  qed
qed simp


text \<open>A poll in which everything is read, and one that cannot read the flows.\<close>

definition good_poll :: "instant \<Rightarrow> u64 \<Rightarrow> u64 \<Rightarrow> poll_input" where
  "good_poll at packets bytes =
     \<lparr>pi_started = at, pi_wall = at, pi_collected_at = at, pi_seed = [],
      pi_flows = [(sample_key, [sample_value packets bytes 100 200])], pi_flow_result = Some 1,
      pi_services = [], pi_service_result = Some (), pi_owners = [], pi_owner_result = Some 0,
      pi_domains = [], pi_domain_result = Some (), pi_stats = Some kernel_stats_default,
      pi_interfaces = [], pi_application = \<lparr>ah_attached = True, ah_udp_attached = True, ah_last_error = None\<rparr>\<rparr>"

definition blind_poll :: "instant \<Rightarrow> poll_input" where
  "blind_poll at = (good_poll at 0 0)\<lparr>pi_flows := [], pi_flow_result := None\<rparr>"

definition fresh_core :: collector_core where
  "fresh_core = collector_core_new collector_config_default 0"

definition stuck_core :: "collector_core \<times> kernel" where
  "stuck_core = (fresh_core\<lparr>cc_applied_policy := first_program\<rparr>, first_kernel)"

definition grown_program :: compiled_policy where
  "grown_program = block_program 3 True [block_rule 2 [block_entry 2, block_entry 4]]"

definition refuses_fourth :: "kernel \<Rightarrow> policy_op \<Rightarrow> bool" where
  "refuses_fourth k op \<longleftrightarrow> op \<noteq> UpsertMatch (block_entry 4) (rule_ref_of (block_rule 2 [block_entry 2, block_entry 4]))"

lemma refused_runs:
  "let (d1, k1) = apply_policy id refuses_fourth (diff first_program grown_program) first_kernel;
       (d2, k2) = apply_policy id (\<lambda>_ _. True) (diff first_program grown_program) k1;
       (d3, k3) = apply_policy id (\<lambda>_ _. True) (diff first_program first_program) k2 in
     \<not> d1 \<and> \<not> d2 \<and> d3 \<and> lookup_match id k3 (block_entry 1) = None"
  by code_simp


section \<open>Witnesses\<close>

lemma merged_of_good: "0 < packets \<Longrightarrow> merged_of (good_poll at packets bytes) = [sample_merged packets bytes 200]"
proof -
  assume "0 < packets"
  moreover have "decode_key sample_key = Some sample_flow_key"
    by (simp add: sample_flow_key_def decode_key_def sample_key_def flow_direction_from_abi_def direction_from_abi_def)
  ultimately show "merged_of (good_poll at packets bytes) = [sample_merged packets bytes 200]"
    by (simp add: merged_of_def good_poll_def List.map_filter_def merge_entry_def sample_merged_def sample_value_def)
qed

lemma failed_reads_lose_nothing_witness:
  "let (bs, c) = poll_run (\<lambda>_. None) [good_poll 1000 3 300, blind_poll 2000, good_poll 3000 5 500] fresh_core in
     reported tc_bytes sample_flow_key (concat (map cb_flows bs)) = account tc_bytes sample_flow_key (cc_tracker c)"
proof -
  let ?inps = "[good_poll 1000 3 300, blind_poll 2000, good_poll 3000 5 500]"
  let ?r = "poll_run (\<lambda>_. None) ?inps fresh_core"
  have g: "flow_reads ?inps = [(1000, 1000, [sample_merged 3 300 200]), (3000, 3000, [sample_merged 5 500 200])]"
    using merged_of_good by (simp add: blind_poll_def good_poll_def [of _ _ _, THEN arg_cong [where f = pi_flow_result]]
       good_poll_def [of _ _ _, THEN arg_cong [where f = pi_wall]] good_poll_def [of _ _ _, THEN arg_cong [where f = pi_started]])
  have "entry_lives sample_flow_key (flow_reads ?inps) 0 0"
    unfolding g by (simp add: sample_merged_def word_le_nat_alt)
  then show ?thesis
    using failed_reads_lose_nothing [of "\<lambda>_. None" ?inps fresh_core "fst ?r" "snd ?r" sample_flow_key tc_bytes]
    by (simp add: fresh_core_def collector_core_new_def flow_tracker_new_def case_prod_unfold)
qed

definition wounded_core :: collector_core where
  "wounded_core = fresh_core\<lparr>cc_health := open_gap (InterfaceDetached 7) 1000 health_tracker_new\<rparr>"

lemma vanished_interface_stays_degraded_witness:
  "let (bs, c) = poll_run (\<lambda>_. None) [good_poll 2000 3 300, good_poll 3000 3 300] wounded_core in
     map (ch_state \<circ> cb_health) bs = [Degraded, Degraded]"
proof -
  let ?inps = "[good_poll 2000 3 300, good_poll 3000 3 300]"
  obtain bs c' where r: "poll_run (\<lambda>_. None) ?inps wounded_core = (bs, c')" by fastforce
  have "failing (cc_health wounded_core) (InterfaceDetached 7)" by (simp add: wounded_core_def)
  then have "list_all (\<lambda>b. ch_state (cb_health b) = Degraded) bs"
    using vanished_interface_stays_degraded [OF _ _ r, of 7] by (simp add: good_poll_def)
  moreover obtain b1 b2 where "bs = [b1, b2]" using r by (auto split: prod.splits)
  ultimately show ?thesis unfolding r by simp
qed

definition applying_turns :: "(wakeup \<times> poll_input \<times> delivery) list" where
  "applying_turns =
     [(Tick, blind_poll 1000, Delivered), (CommandReceived (ApplyCommand first_program), blind_poll 2000, Delivered),
      (CommandReceived (RuleStatesCommand [] True), blind_poll 3000, ReceiverGone)]"

lemma worker_answers_in_order_witness:
  "\<exists>n. list_all2 answers (commands_of (map fst (take n applying_turns)))
     (fst (snd (worker id (\<lambda>_ _. True) (\<lambda>_. None) applying_turns (fresh_core, kernel_loaded))))"
proof -
  let ?r = "worker id (\<lambda>_ _. True) (\<lambda>_. None) applying_turns (fresh_core, kernel_loaded)"
  have "?r = (fst ?r, fst (snd ?r), snd (snd ?r))" by simp
  from worker_answers_in_order [OF this] show ?thesis by blast
qed

end
