(* ===== verification/Fingerprint.thy ===== *)
theory Fingerprint
  imports Text "HOL-Library.List_Lexorder" "HOL-Library.Char_ord"
begin

text \<open>
  Service fingerprints, \<^verbatim>\<open>collector/fingerprint.rs\<close>: the rules a library document may contain,
  their validation and compilation, and the matcher over the first payload of a Flow. Reading JSON
  is the argument \<open>parse\<close>, from the text to the document. The library shipped as
  \<^verbatim>\<open>fingerprints.json\<close> is written out as the document it stands for. Proved: an accepted library
  is within its limits, hex literals round trip, integers are read in the order they say, the DNS
  test accepts exactly well-formed question sections, and the shipped library is valid.
\<close>

section \<open>Documents\<close>

definition MAX_OFFSET :: nat where "MAX_OFFSET = 4096"
definition MAX_RULES :: nat where "MAX_RULES = 512"
definition MAX_PREDICATES_PER_RULE :: nat where "MAX_PREDICATES_PER_RULE = 16"
definition MAX_SERVICE_NAME :: nat where "MAX_SERVICE_NAME = 32"

datatype endian = Be | Le

record compare =
  cmp_eq :: "u64 option"
  cmp_ne :: "u64 option"
  cmp_lt :: "u64 option"
  cmp_lte :: "u64 option"
  cmp_gt :: "u64 option"
  cmp_gte :: "u64 option"
  cmp_in :: "u64 list option"

definition compare_default :: compare where
  "compare_default = \<lparr>cmp_eq = None, cmp_ne = None, cmp_lt = None, cmp_lte = None, cmp_gt = None,
     cmp_gte = None, cmp_in = None\<rparr>"

datatype builtin = DnsQuery

datatype predicate_spec =
  MinLenSpec nat
| PrefixTextSpec string
| PrefixTextAnySpec "string list"
| BytesSpec nat string
| ByteSpec nat "u8 option" compare
| IntSpec nat u8 endian compare
| BuiltinSpec builtin

record rule_spec =
  rs_service :: string
  rs_predicates :: "predicate_spec list"

record library_document =
  ld_version :: u32
  ld_rules :: "rule_spec list"

section \<open>Compiled rules\<close>

datatype predicate =
  MinLen nat
| PrefixText "u8 list"
| PrefixTextAny "u8 list list"
| BytesAt nat "u8 list"
| ByteAt nat "u8 option" compare
| IntAt nat u8 endian compare
| Builtin builtin

record compiled_fingerprint =
  fr_service :: string
  fr_predicates :: "predicate list"

record fingerprint_library =
  fl_rules :: "compiled_fingerprint list"
  fl_raw :: string
  fl_custom :: bool

section \<open>Matching\<close>

definition compare_matches :: "compare \<Rightarrow> u64 \<Rightarrow> bool" where
  "compare_matches c value \<longleftrightarrow>
     (case cmp_eq c of Some x \<Rightarrow> value = x | None \<Rightarrow> True)
     \<and> (case cmp_ne c of Some x \<Rightarrow> value \<noteq> x | None \<Rightarrow> True)
     \<and> (case cmp_lt c of Some x \<Rightarrow> \<not> x \<le> value | None \<Rightarrow> True)
     \<and> (case cmp_lte c of Some x \<Rightarrow> \<not> x < value | None \<Rightarrow> True)
     \<and> (case cmp_gt c of Some x \<Rightarrow> \<not> value \<le> x | None \<Rightarrow> True)
     \<and> (case cmp_gte c of Some x \<Rightarrow> \<not> value < x | None \<Rightarrow> True)
     \<and> (case cmp_in c of Some choices \<Rightarrow> value \<in> set choices | None \<Rightarrow> True)"

text \<open>\<^verbatim>\<open>payload.get(offset..offset + len)\<close>.\<close>

definition window :: "u8 list \<Rightarrow> nat \<Rightarrow> nat \<Rightarrow> u8 list option" where
  "window payload off len =
     (if off + len \<le> length payload then Some (take len (drop off payload)) else None)"

fun read_be :: "u64 \<Rightarrow> u8 list \<Rightarrow> u64" where
  "read_be value [] = value"
| "read_be value (byte # bytes) = read_be (push_bit 8 value OR ucast byte) bytes"

fun read_le :: "nat \<Rightarrow> u64 \<Rightarrow> u8 list \<Rightarrow> u64" where
  "read_le shift value [] = value"
| "read_le shift value (byte # bytes) = read_le (Suc shift) (value OR push_bit (8 * shift) (ucast byte)) bytes"

definition read_int :: "u8 list \<Rightarrow> nat \<Rightarrow> u8 \<Rightarrow> endian \<Rightarrow> u64 option" where
  "read_int payload off width endian =
     (case window payload off (unat width) of
        None \<Rightarrow> None
      | Some bytes \<Rightarrow> Some (case endian of Be \<Rightarrow> read_be 0 bytes | Le \<Rightarrow> read_le 0 0 bytes))"

text \<open>The loop over the labels of a question; \<^const>\<open>None\<close> is its \<^verbatim>\<open>return false\<close>.\<close>

function question_end :: "u8 list \<Rightarrow> nat \<Rightarrow> nat \<Rightarrow> nat option" where
  "question_end payload position labels =
     (if length payload \<le> position then None
      else let len = payload ! position; position = position + 1 in
      if len = 0 then Some position
      else if 63 < len then None
      else let position = position + unat len; labels = labels + 1 in
      if 20 < labels \<or> length payload < position then None
      else question_end payload position labels)"
  by auto

termination by (relation "measure (\<lambda>(payload, position, _). length payload - position)") auto

declare question_end.simps [simp del]

definition is_dns_query :: "u8 list \<Rightarrow> bool" where
  "is_dns_query payload =
     (if length payload < 13 then False
      else let flags = u16_from_be_bytes (payload ! 2) (payload ! 3) in
      if flags AND 0x7800 \<noteq> 0 then False
      else let questions = u16_from_be_bytes (payload ! 4) (payload ! 5) in
      if questions = 0 \<or> 4 < questions then False
      else case question_end payload 12 0 of
        None \<Rightarrow> False
      | Some position \<Rightarrow>
          if length payload < position + 4 then False
          else let cls = u16_from_be_bytes (payload ! (position + 2)) (payload ! (position + 3)) in
            cls = 1 \<or> cls = 255)"

fun predicate_matches :: "predicate \<Rightarrow> u8 list \<Rightarrow> bool" where
  "predicate_matches (MinLen minimum) payload = (minimum \<le> length payload)"
| "predicate_matches (PrefixText prefix) payload = starts_with payload prefix"
| "predicate_matches (PrefixTextAny prefixes) payload = list_ex (starts_with payload) prefixes"
| "predicate_matches (BytesAt off bytes) payload = (window payload off (length bytes) = Some bytes)"
| "predicate_matches (ByteAt off bits cmp) payload =
     (if length payload \<le> off then False
      else let byte = payload ! off in
        compare_matches cmp (case bits of None \<Rightarrow> ucast byte | Some bits \<Rightarrow> ucast (byte AND bits)))"
| "predicate_matches (IntAt off width endian cmp) payload =
     (case read_int payload off width endian of None \<Rightarrow> False | Some value \<Rightarrow> compare_matches cmp value)"
| "predicate_matches (Builtin DnsQuery) payload = is_dns_query payload"

definition rule_matches :: "compiled_fingerprint \<Rightarrow> u8 list \<Rightarrow> bool" where
  "rule_matches rule payload \<longleftrightarrow> list_all (\<lambda>p. predicate_matches p payload) (fr_predicates rule)"

text \<open>\<^verbatim>\<open>classify\<close> of the source: the service of the first rule that matches.\<close>

definition classify_payload :: "fingerprint_library \<Rightarrow> u8 list \<Rightarrow> string option" where
  "classify_payload library payload =
     map_option fr_service (List.find (\<lambda>rule. rule_matches rule payload) (fl_rules library))"

definition services :: "fingerprint_library \<Rightarrow> string list" where
  "services library = remdups_adj (sort (map fr_service (fl_rules library)))"

section \<open>Validation\<close>

datatype fingerprint_error =
  InvalidJson
| NoRules
| TooManyRules nat
| EmptyService nat
| LongService nat
| NoPredicates nat
| TooManyPredicates nat
| BadMinLen nat
| EmptyPrefixAny nat
| BadText nat
| BadOffset nat
| OddHex nat
| InvalidHex nat
| BadByteCount nat
| BadSize nat
| EmptyCompare nat

definition compare_validate :: "nat \<Rightarrow> compare \<Rightarrow> fingerprint_error + unit" where
  "compare_validate index c =
     (if cmp_eq c = None \<and> cmp_ne c = None \<and> cmp_lt c = None \<and> cmp_lte c = None \<and> cmp_gt c = None
         \<and> cmp_gte c = None \<and> cmp_in c = None
      then Inl (EmptyCompare index) else Inr ())"

definition check_offset :: "nat \<Rightarrow> nat \<Rightarrow> fingerprint_error + unit" where
  "check_offset index off = (if MAX_OFFSET < off then Inl (BadOffset index) else Inr ())"

definition check_text :: "nat \<Rightarrow> string \<Rightarrow> fingerprint_error + unit" where
  "check_text index value = (if value = [] \<or> 64 < length value then Inl (BadText index) else Inr ())"

fun parse_pairs :: "nat \<Rightarrow> nat list \<Rightarrow> fingerprint_error + u8 list" where
  "parse_pairs index [] = Inr []"
| "parse_pairs index [c] = (case from_str_radix 16 255 (utf8_encode c) of
     None \<Rightarrow> Inl (InvalidHex index) | Some byte \<Rightarrow> Inr [of_nat byte])"
| "parse_pairs index (c # d # cs) = (case from_str_radix 16 255 (utf8_encode c @ utf8_encode d) of
     None \<Rightarrow> Inl (InvalidHex index)
   | Some byte \<Rightarrow> (case parse_pairs index cs of Inl e \<Rightarrow> Inl e | Inr bytes \<Rightarrow> Inr (of_nat byte # bytes)))"

definition parse_hex :: "nat \<Rightarrow> string \<Rightarrow> fingerprint_error + u8 list" where
  "parse_hex index value =
     (let compact = filter (\<lambda>c. \<not> is_white_space c) (chars_of value) in
      if length (concat (map utf8_encode compact)) mod 2 \<noteq> 0 then Inl (OddHex index)
      else parse_pairs index compact)"

fun check_texts :: "nat \<Rightarrow> string list \<Rightarrow> fingerprint_error + unit" where
  "check_texts index [] = Inr ()"
| "check_texts index (v # vs) = (case check_text index v of Inl e \<Rightarrow> Inl e | Inr _ \<Rightarrow> check_texts index vs)"

fun compile_predicate :: "nat \<Rightarrow> predicate_spec \<Rightarrow> fingerprint_error + predicate" where
  "compile_predicate index (MinLenSpec value) =
     (if value = 0 \<or> MAX_OFFSET < value then Inl (BadMinLen index) else Inr (MinLen value))"
| "compile_predicate index (PrefixTextSpec value) =
     (case check_text index value of Inl e \<Rightarrow> Inl e | Inr _ \<Rightarrow> Inr (PrefixText (bytes_of_str value)))"
| "compile_predicate index (PrefixTextAnySpec values') =
     (if values' = [] then Inl (EmptyPrefixAny index)
      else case check_texts index values' of
        Inl e \<Rightarrow> Inl e | Inr _ \<Rightarrow> Inr (PrefixTextAny (map bytes_of_str values')))"
| "compile_predicate index (BytesSpec off hex) =
     (case check_offset index off of Inl e \<Rightarrow> Inl e | Inr _ \<Rightarrow>
      case parse_hex index hex of Inl e \<Rightarrow> Inl e | Inr bytes \<Rightarrow>
      if bytes = [] \<or> 64 < length bytes then Inl (BadByteCount index) else Inr (BytesAt off bytes))"
| "compile_predicate index (ByteSpec off bits cmp) =
     (case check_offset index off of Inl e \<Rightarrow> Inl e | Inr _ \<Rightarrow>
      case compare_validate index cmp of Inl e \<Rightarrow> Inl e | Inr _ \<Rightarrow> Inr (ByteAt off bits cmp))"
| "compile_predicate index (IntSpec off width endian cmp) =
     (case check_offset index off of Inl e \<Rightarrow> Inl e | Inr _ \<Rightarrow>
      if \<not> (1 \<le> width \<and> width \<le> 4) then Inl (BadSize index)
      else case compare_validate index cmp of Inl e \<Rightarrow> Inl e | Inr _ \<Rightarrow> Inr (IntAt off width endian cmp))"
| "compile_predicate index (BuiltinSpec name) = Inr (Builtin name)"

fun compile_predicates :: "nat \<Rightarrow> predicate_spec list \<Rightarrow> fingerprint_error + predicate list" where
  "compile_predicates index [] = Inr []"
| "compile_predicates index (s # ss) =
     (case compile_predicate index s of Inl e \<Rightarrow> Inl e | Inr p \<Rightarrow>
      case compile_predicates index ss of Inl e \<Rightarrow> Inl e | Inr ps \<Rightarrow> Inr (p # ps))"

text \<open>\<^verbatim>\<open>compile_rule\<close> of the source.\<close>

definition compile_fingerprint :: "nat \<Rightarrow> rule_spec \<Rightarrow> fingerprint_error + compiled_fingerprint" where
  "compile_fingerprint index spec =
     (let service = str_trim (rs_service spec) in
      if service = [] then Inl (EmptyService index)
      else if MAX_SERVICE_NAME < length service then Inl (LongService index)
      else if rs_predicates spec = [] then Inl (NoPredicates index)
      else if MAX_PREDICATES_PER_RULE < length (rs_predicates spec) then Inl (TooManyPredicates index)
      else case compile_predicates index (rs_predicates spec) of
        Inl e \<Rightarrow> Inl e
      | Inr ps \<Rightarrow> Inr \<lparr>fr_service = service, fr_predicates = ps\<rparr>)"

fun compile_fingerprints :: "nat \<Rightarrow> rule_spec list \<Rightarrow> fingerprint_error + compiled_fingerprint list" where
  "compile_fingerprints index [] = Inr []"
| "compile_fingerprints index (s # ss) =
     (case compile_fingerprint index s of Inl e \<Rightarrow> Inl e | Inr r \<Rightarrow>
      case compile_fingerprints (Suc index) ss of Inl e \<Rightarrow> Inl e | Inr rs \<Rightarrow> Inr (r # rs))"

definition from_json :: "(string \<Rightarrow> library_document option) \<Rightarrow> string \<Rightarrow> fingerprint_error + fingerprint_library" where
  "from_json parse raw =
     (case parse raw of
        None \<Rightarrow> Inl InvalidJson
      | Some document \<Rightarrow>
          if ld_rules document = [] then Inl NoRules
          else if MAX_RULES < length (ld_rules document) then Inl (TooManyRules (length (ld_rules document)))
          else case compile_fingerprints 0 (ld_rules document) of
            Inl e \<Rightarrow> Inl e
          | Inr rules \<Rightarrow> Inr \<lparr>fl_rules = rules, fl_raw = raw, fl_custom = True\<rparr>)"

text \<open>\<open>shipped\<close> is the text of the embedded file; \<^const>\<open>None\<close> is the panic of \<^verbatim>\<open>expect\<close>.\<close>

definition default_library :: "(string \<Rightarrow> library_document option) \<Rightarrow> string \<Rightarrow> fingerprint_library option" where
  "default_library parse shipped =
     (case from_json parse shipped of Inl _ \<Rightarrow> None | Inr library \<Rightarrow> Some (library\<lparr>fl_custom := False\<rparr>))"

text \<open>The outcome of reading the file: its text, its absence, or another error.\<close>

datatype file_read = FileText string | FileMissing | FileUnreadable

definition load_or_default ::
  "(string \<Rightarrow> library_document option) \<Rightarrow> string \<Rightarrow> file_read \<Rightarrow> fingerprint_library option" where
  "load_or_default parse shipped file =
     (case file of
        FileText raw \<Rightarrow> (case from_json parse raw of
            Inr library \<Rightarrow> Some library
          | Inl _ \<Rightarrow> default_library parse shipped)
      | FileMissing \<Rightarrow> default_library parse shipped
      | FileUnreadable \<Rightarrow> default_library parse shipped)"

section \<open>Integers\<close>

text \<open>The value of a byte sequence, most or least significant byte first.\<close>

fun le_value :: "u8 list \<Rightarrow> nat" where
  "le_value [] = 0"
| "le_value (b # bs) = unat b + 256 * le_value bs"

definition be_value :: "u8 list \<Rightarrow> nat" where
  "be_value bs = le_value (rev bs)"

lemma le_value_append [simp]: "le_value (xs @ ys) = le_value xs + 256 ^ length xs * le_value ys"
  by (induction xs) (auto simp: algebra_simps)

lemma le_value_bound: "le_value bs < 256 ^ length bs"
proof (induction bs)
  case (Cons b bs)
  have "unat b < 256" using unat_u8_le [of b] by simp
  then have "unat b + 256 * le_value bs < 256 * (le_value bs + 1)" by simp
  also have "\<dots> \<le> 256 * 256 ^ length bs" using Cons by (intro mult_le_mono2) simp
  finally show ?case by simp
qed simp

lemma be_value_Cons [simp]: "be_value (b # bs) = 256 ^ length bs * unat b + be_value bs" "be_value [] = 0"
  by (simp_all add: be_value_def)

lemma bit_u8: "bit (b :: u8) n \<Longrightarrow> n < 8"
  using bit_imp_le_length [of b n] by simp

lemma or_is_plus: "(\<And>n. bit a n \<Longrightarrow> bit b n \<Longrightarrow> False) \<Longrightarrow> a OR b = a + b" for a b :: u64
  by (rule disjunctive_add_eq_or [symmetric]) (auto simp: bit_eq_iff bit_simps)

lemma push_byte: "push_bit n (ucast b :: u64) = of_nat (2 ^ n * unat b)" for b :: u8
proof -
  have "(ucast b :: u64) = of_nat (unat b)" by simp
  then show ?thesis by (simp add: push_bit_eq_mult mult.commute del: of_nat_unat)
qed

lemma read_be_value: "read_be v bs = v * 256 ^ length bs + of_nat (be_value bs)"
proof (induction bs arbitrary: v)
  case (Cons b bs)
  have "push_bit 8 v OR ucast b = push_bit 8 v + ucast b"
    by (rule or_is_plus) (auto simp: bit_simps dest: bit_u8)
  also have "\<dots> = v * 256 + of_nat (unat b)" by (simp add: push_bit_eq_mult)
  finally show ?case using Cons by (simp add: algebra_simps)
qed simp

lemma read_le_value:
  "(\<And>n. bit v n \<Longrightarrow> n < 8 * shift) \<Longrightarrow> read_le shift v bs = v + of_nat (256 ^ shift * le_value bs)"
proof (induction bs arbitrary: shift v)
  case (Cons b bs)
  have p: "v OR push_bit (8 * shift) (ucast b) = v + of_nat (256 ^ shift * unat b)"
  proof -
    have "v OR push_bit (8 * shift) (ucast b) = v + push_bit (8 * shift) (ucast b)"
      by (rule or_is_plus) (auto simp: bit_simps dest: Cons.prems)
    then show ?thesis by (simp add: push_byte power_mult)
  qed
  have "n < 8 * Suc shift" if "bit (v OR push_bit (8 * shift) (ucast b)) n" for n
    using that by (auto simp: bit_simps dest!: bit_u8 Cons.prems)
  from Cons.IH [OF this] have "read_le (Suc shift) (v + of_nat (256 ^ shift * unat b)) bs
      = v + of_nat (256 ^ shift * unat b) + of_nat (256 ^ Suc shift * le_value bs)" by (simp only: p)
  then show ?case by (simp only: read_le.simps p) (simp add: algebra_simps)
qed simp

text \<open>
  C1: an integer predicate reads the number its byte order says: of the four bytes or fewer that an
  accepted rule may name, the first is the most significant one for \<^verbatim>\<open>be\<close> and the least for \<^verbatim>\<open>le\<close>.
\<close>

theorem read_int_value:
  assumes "read_int payload off width endian = Some value" "width \<le> 8"
  shows "off + unat width \<le> length payload
    \<and> unat value = (let bytes = take (unat width) (drop off payload) in
         case endian of Be \<Rightarrow> be_value bytes | Le \<Rightarrow> le_value bytes)"
proof -
  let ?bs = "take (unat width) (drop off payload)"
  have w: "unat width \<le> 8" using assms(2) by (simp add: word_le_nat_alt)
  have le: "off + unat width \<le> length payload"
    and v: "value = (case endian of Be \<Rightarrow> read_be 0 ?bs | Le \<Rightarrow> read_le 0 0 ?bs)"
    using assms(1) by (auto simp: read_int_def window_def split: if_splits)
  then have len: "length ?bs \<le> 8" using w by simp
  have small: "unat (of_nat n :: u64) = n" if "n < 256 ^ length ?bs" for n
  proof -
    have "256 ^ length ?bs \<le> (256 :: nat) ^ 8" using len by (intro power_increasing) auto
    with that have "n < 2 ^ 64" by simp
    then show ?thesis by (simp add: unsigned_of_nat take_bit_nat_eq_self)
  qed
  have "unat value = (case endian of Be \<Rightarrow> be_value ?bs | Le \<Rightarrow> le_value ?bs)"
    using small [OF le_value_bound [of ?bs]] small [of "be_value ?bs"] le_value_bound [of "rev ?bs"]
      read_le_value [of 0 0 ?bs]
    by (cases endian) (simp_all add: v read_be_value be_value_def)
  with le show ?thesis by (simp only: Let_def)
qed

section \<open>Accepted libraries\<close>

fun predicate_ok :: "predicate \<Rightarrow> bool" where
  "predicate_ok (MinLen n) \<longleftrightarrow> 1 \<le> n \<and> n \<le> 4096"
| "predicate_ok (PrefixText t) \<longleftrightarrow> t \<noteq> [] \<and> length t \<le> 64"
| "predicate_ok (PrefixTextAny ts) \<longleftrightarrow> ts \<noteq> [] \<and> list_all (\<lambda>t. t \<noteq> [] \<and> length t \<le> 64) ts"
| "predicate_ok (BytesAt off bytes) \<longleftrightarrow> off \<le> 4096 \<and> bytes \<noteq> [] \<and> length bytes \<le> 64"
| "predicate_ok (ByteAt off bits cmp) \<longleftrightarrow> off \<le> 4096 \<and> cmp \<noteq> compare_default"
| "predicate_ok (IntAt off width endian cmp) \<longleftrightarrow> off \<le> 4096 \<and> 1 \<le> width \<and> width \<le> 4 \<and> cmp \<noteq> compare_default"
| "predicate_ok (Builtin b) \<longleftrightarrow> True"

definition fingerprint_ok :: "compiled_fingerprint \<Rightarrow> bool" where
  "fingerprint_ok r \<longleftrightarrow> fr_service r \<noteq> [] \<and> length (fr_service r) \<le> 32 \<and> fr_predicates r \<noteq> []
     \<and> length (fr_predicates r) \<le> 16 \<and> list_all predicate_ok (fr_predicates r)"

lemma check_texts_Inr: "check_texts index vs = Inr u \<Longrightarrow> list_all (\<lambda>v. v \<noteq> [] \<and> length v \<le> 64) vs"
  by (induction index vs rule: check_texts.induct) (auto simp: check_text_def split: sum.splits if_splits)

lemma length_bytes_of_str [simp]: "length (bytes_of_str s) = length s" "bytes_of_str s = [] \<longleftrightarrow> s = []"
  by (auto simp: bytes_of_str_def)

lemma compile_predicate_ok: "compile_predicate index s = Inr p \<Longrightarrow> predicate_ok p"
  by (cases s)
    (auto simp: check_text_def check_offset_def compare_validate_def compare_default_def MAX_OFFSET_def list_all_iff
      dest!: check_texts_Inr split: sum.splits if_splits)

lemma compile_predicates_ok:
  "compile_predicates index ss = Inr ps \<Longrightarrow> list_all predicate_ok ps \<and> length ps = length ss"
  by (induction index ss arbitrary: ps rule: compile_predicates.induct)
    (auto split: sum.splits dest: compile_predicate_ok)

lemma compile_fingerprint_ok: "compile_fingerprint index s = Inr r \<Longrightarrow> fingerprint_ok r"
  by (auto simp: compile_fingerprint_def Let_def fingerprint_ok_def MAX_SERVICE_NAME_def MAX_PREDICATES_PER_RULE_def
      dest!: compile_predicates_ok split: sum.splits if_splits)

lemma compile_fingerprints_ok:
  "compile_fingerprints index ss = Inr rs \<Longrightarrow> list_all fingerprint_ok rs \<and> length rs = length ss"
  by (induction index ss arbitrary: rs rule: compile_fingerprints.induct)
    (auto split: sum.splits dest: compile_fingerprint_ok)

text \<open>
  An accepted library is within its limits: 1 to 512 rules, each with a name of 1 to 32 bytes
  and 1 to 16 predicates, whose texts are 1 to 64 bytes, whose offsets are at most 4096, whose
  integers are 1 to 4 bytes and whose comparisons compare something.
\<close>

theorem accepted_library_limits:
  assumes "from_json parse raw = Inr library"
  shows "fl_rules library \<noteq> [] \<and> length (fl_rules library) \<le> 512 \<and> list_all fingerprint_ok (fl_rules library)"
  using assms
  by (auto simp: from_json_def MAX_RULES_def dest!: compile_fingerprints_ok split: option.splits sum.splits if_splits)

section \<open>Hexadecimal literals\<close>

text \<open>Bytes as two digits each, with a space after every pair.\<close>

definition hex_text :: "u8 list \<Rightarrow> string" where
  "hex_text bytes = concat (map (\<lambda>b. map char_of [hex_char (unat b div 16), hex_char (unat b mod 16), 32]) bytes)"

definition hex_digits :: "u8 list \<Rightarrow> nat list" where
  "hex_digits bytes = concat (map (\<lambda>b. [hex_char (unat b div 16), hex_char (unat b mod 16)]) bytes)"

lemma byte_nibbles: "unat b div 16 < 16" "unat b mod 16 < 16" for b :: u8
  using unat_u8_le [of b] by auto

lemma hex_text_chars: "chars_of (hex_text bytes) = concat (map (\<lambda>b. [hex_char (unat b div 16), hex_char (unat b mod 16), 32]) bytes)"
proof -
  have m: "hex_char d mod 256 = hex_char d" "hex_char d < 128" if "d < 16" for d
    using hex_char_plain [OF that] by auto
  have "list_all (\<lambda>c. of_char c < (128 :: nat)) (hex_text bytes)"
    by (auto simp: hex_text_def list_all_iff m byte_nibbles)
  then have "chars_of (hex_text bytes) = map of_char (hex_text bytes)" by (rule ascii_chars)
  moreover have "map of_char (hex_text bytes)
      = concat (map (\<lambda>b. [hex_char (unat b div 16), hex_char (unat b mod 16), 32]) bytes)"
    by (induction bytes) (simp_all add: hex_text_def m byte_nibbles)
  ultimately show ?thesis by simp
qed

lemma parse_pairs_hex: "parse_pairs index (hex_digits bytes) = Inr bytes"
proof (induction bytes)
  case (Cons b bs)
  let ?h = "hex_char (unat b div 16)" and ?l = "hex_char (unat b mod 16)"
  note h = hex_char_plain [OF byte_nibbles(1), of b] hex_char_plain [OF byte_nibbles(2), of b]
  have "unat b div 16 * 16 + unat b mod 16 = unat b" by simp
  then have "from_str_radix 16 255 [?h, ?l] = Some (unat b)"
    using h unat_u8_le [of b] byte_nibbles [of b] by (simp add: from_str_radix_def)
  with Cons h show ?case by (simp add: hex_digits_def utf8_encode_def)
qed (simp add: hex_digits_def)

text \<open>A hexadecimal literal, written with its bytes apart, reads back as exactly its bytes.\<close>

theorem parse_hex_roundtrip: "parse_hex index (hex_text bytes) = Inr bytes"
proof -
  have f: "filter (\<lambda>c. \<not> is_white_space c) (chars_of (hex_text bytes)) = hex_digits bytes"
    using hex_char_plain [OF byte_nibbles(1)] hex_char_plain [OF byte_nibbles(2)]
    unfolding hex_text_chars by (induction bytes) (simp_all add: hex_digits_def is_white_space_def)
  have "list_all (\<lambda>c. c < 128) (hex_digits bytes)"
    using hex_char_plain byte_nibbles by (auto simp: hex_digits_def list_all_iff)
  then have "concat (map utf8_encode (hex_digits bytes)) = hex_digits bytes" by (rule utf8_encode_ascii)
  moreover have "even (length (hex_digits bytes))" by (induction bytes) (simp_all add: hex_digits_def)
  ultimately show ?thesis
    by (simp add: parse_hex_def f parse_pairs_hex even_iff_mod_2_eq_zero)
qed

section \<open>The DNS test\<close>

text \<open>A question as the wire has it: length-prefixed labels, a zero byte, type and class.\<close>

definition label_ok :: "u8 list \<Rightarrow> bool" where
  "label_ok l \<longleftrightarrow> l \<noteq> [] \<and> length l \<le> 63"

definition wire_labels :: "u8 list list \<Rightarrow> u8 list" where
  "wire_labels ls = concat (map (\<lambda>l. of_nat (length l) # l) ls)"

lemma wire_labels_simps [simp]:
  "wire_labels [] = []" "wire_labels (l # ls) = of_nat (length l) # l @ wire_labels ls"
  by (simp_all add: wire_labels_def)

lemma drop_Cons_nth: "n < length xs \<Longrightarrow> drop n xs = xs ! n # drop (n + 1) xs"
  by (simp add: Cons_nth_drop_Suc)

lemma question_end_complete:
  "list_all label_ok ls \<Longrightarrow> labels + length ls \<le> 20 \<Longrightarrow> drop position payload = wire_labels ls @ 0 # rest
     \<Longrightarrow> question_end payload position labels = Some (position + length (wire_labels ls) + 1)"
proof (induction ls arbitrary: position labels)
  case Nil
  then have "position < length payload" "payload ! position = 0"
    using nth_via_drop [of position payload 0 rest] by (auto simp: not_le [symmetric])
  then show ?case by (subst question_end.simps) simp
next
  case (Cons l ls)
  then have l: "label_ok l" "length l < 256" by (auto simp: label_ok_def)
  have d: "drop position payload = of_nat (length l) # l @ wire_labels ls @ 0 # rest" using Cons.prems(3) by simp
  have len: "position < length payload" using d by (auto simp: not_le [symmetric])
  have b: "payload ! position = of_nat (length l)" using nth_via_drop [OF d [symmetric, THEN sym]] by simp
  have u: "unat (of_nat (length l) :: u8) = length l" using l(2) by (simp add: unsigned_of_nat take_bit_nat_eq_self)
  have d2: "drop (position + 1 + length l) payload = wire_labels ls @ 0 # rest"
    using arg_cong [OF d, of "drop (1 + length l)"] by (simp add: ac_simps)
  have "drop (position + 1 + length l) payload \<noteq> []" unfolding d2 by simp
  then have fits: "\<not> length payload < position + 1 + length l" by simp
  have nz: "(of_nat (length l) :: u8) \<noteq> 0" "\<not> 63 < (of_nat (length l) :: u8)"
    using l u by (auto simp: label_ok_def word_less_nat_alt unat_eq_zero [symmetric] simp del: unat_eq_zero)
  have "question_end payload (position + 1 + length l) (labels + 1)
      = Some (position + 1 + length l + length (wire_labels ls) + 1)"
    using Cons.prems by (intro Cons.IH [OF _ _ d2]) auto
  then show ?case
    using len nz fits Cons.prems(2) by (subst question_end.simps) (simp add: b u Let_def)
qed

lemma question_end_sound:
  "question_end payload position labels = Some e \<Longrightarrow>
     \<exists>ls rest. list_all label_ok ls \<and> (ls = [] \<or> labels + length ls \<le> 20)
       \<and> drop position payload = wire_labels ls @ 0 # rest \<and> e = position + length (wire_labels ls) + 1
       \<and> length rest = length payload - e \<and> e \<le> length payload"
proof (induction payload position labels rule: question_end.induct)
  case (1 payload position labels)
  let ?n = "payload ! position"
  have len: "position < length payload" using 1(2) by (subst (asm) question_end.simps) (auto split: if_splits)
  note d = drop_Cons_nth [OF len]
  show ?case
  proof (cases "?n = 0")
    case True
    then have "e = position + 1" using 1(2) len by (subst (asm) question_end.simps) simp
    then show ?thesis using d True len by (intro exI [of _ "[]"] exI [of _ "drop (position + 1) payload"]) simp
  next
    case False
    let ?p = "position + 1 + unat ?n"
    have "\<not> 63 < ?n \<and> \<not> 20 < labels + 1 \<and> \<not> length payload < ?p \<and> question_end payload ?p (labels + 1) = Some e"
      using 1(2) [unfolded question_end.simps [of payload position labels]] False len
      by (simp add: Let_def split: if_splits)
    then have c: "\<not> 63 < ?n" "\<not> 20 < labels + 1" "\<not> length payload < ?p"
      and q: "question_end payload ?p (labels + 1) = Some e" by auto
    obtain ls rest where ls: "list_all label_ok ls" "ls = [] \<or> labels + 1 + length ls \<le> 20"
      "drop ?p payload = wire_labels ls @ 0 # rest" "e = ?p + length (wire_labels ls) + 1"
      "length rest = length payload - e" "e \<le> length payload"
      using 1(1) [OF _ refl refl False c(1) refl refl _ q] len c(2,3) by auto
    let ?l = "take (unat ?n) (drop (position + 1) payload)"
    have l: "length ?l = unat ?n" using c(3) by simp
    have "of_nat (length ?l) = ?n" by (simp only: l) simp
    moreover have "drop (position + 1) payload = ?l @ wire_labels ls @ 0 # rest"
      using ls(3) append_take_drop_id [of "unat ?n" "drop (position + 1) payload", symmetric] by (simp add: ac_simps)
    ultimately have "drop position payload = of_nat (length ?l) # ?l @ wire_labels ls @ 0 # rest"
      using d by simp
    moreover have "label_ok ?l"
      using l c(1) False unat_gt_0 [of ?n] by (simp add: label_ok_def word_less_nat_alt flip: length_greater_0_conv)
    ultimately show ?thesis
      using ls c(2) by (intro exI [of _ "?l # ls"] exI [of _ rest]) (auto simp: l)
  qed
qed

lemma question_count_iff: "q \<in> {1, 2, 3, 4} \<longleftrightarrow> \<not> (q = 0 \<or> 4 < q)" for q :: u16
proof -
  have "q \<in> {1, 2, 3, 4} \<longleftrightarrow> unat q \<in> {1, 2, 3, 4}" by (auto simp: word_unat_eq_iff)
  also have "\<dots> \<longleftrightarrow> \<not> (unat q = 0 \<or> 4 < unat q)" by auto
  finally show ?thesis by (simp add: word_less_nat_alt word_unat_eq_iff)
qed

lemma question_class_iff:
  "[a, b] \<in> {[0, 1], [0, 255]} \<longleftrightarrow> u16_from_be_bytes a b = 1 \<or> u16_from_be_bytes a b = 255" for a b :: u8
proof -
  have digits: "256 * x + y = 1 \<or> 256 * x + y = 255 \<longleftrightarrow> x = 0 \<and> (y = 1 \<or> y = 255)" if "y \<le> 255" for x y :: nat
    using that by (cases x) auto
  have "u16_from_be_bytes a b = 1 \<or> u16_from_be_bytes a b = 255 \<longleftrightarrow> unat a = 0 \<and> (unat b = 1 \<or> unat b = 255)"
    unfolding word_unat_eq_iff [of "u16_from_be_bytes a b"] using digits [OF unat_u8_le] by simp
  also have "\<dots> \<longleftrightarrow> [a, b] \<in> {[0, 1], [0, 255]}" by (auto simp: word_unat_eq_iff)
  finally show ?thesis by simp
qed

lemma is_dns_query_unfold:
  "is_dns_query payload \<longleftrightarrow> 13 \<le> length payload \<and> u16_from_be_bytes (payload ! 2) (payload ! 3) AND 0x7800 = 0
     \<and> u16_from_be_bytes (payload ! 4) (payload ! 5) \<in> {1, 2, 3, 4}
     \<and> (\<exists>e. question_end payload 12 0 = Some e \<and> e + 4 \<le> length payload
          \<and> [payload ! (e + 2), payload ! (e + 3)] \<in> {[0, 1], [0, 255]})"
  unfolding question_count_iff question_class_iff is_dns_query_def Let_def by (auto split: option.split)

text \<open>
  C23: the DNS test accepts exactly the payloads that are twelve header bytes with opcode QUERY and one
  to four questions, at most twenty labels of 1 to 63 bytes, the root label, a type, and the class
  IN or ANY; what follows does not matter.
\<close>

theorem is_dns_query_iff:
  "is_dns_query payload \<longleftrightarrow>
     (\<exists>header ls qtype qclass rest. payload = header @ wire_labels ls @ 0 # qtype @ qclass @ rest
        \<and> length header = 12 \<and> u16_from_be_bytes (header ! 2) (header ! 3) AND 0x7800 = 0
        \<and> u16_from_be_bytes (header ! 4) (header ! 5) \<in> {1, 2, 3, 4}
        \<and> list_all label_ok ls \<and> length ls \<le> 20 \<and> length qtype = 2 \<and> qclass \<in> {[0, 1], [0, 255]})"
    (is "_ \<longleftrightarrow> (\<exists>header ls qtype qclass rest. ?P header ls qtype qclass rest)")
proof
    assume q: "is_dns_query payload"
    then obtain e where e: "13 \<le> length payload" "u16_from_be_bytes (payload ! 2) (payload ! 3) AND 0x7800 = 0"
      "u16_from_be_bytes (payload ! 4) (payload ! 5) \<in> {1, 2, 3, 4}" "question_end payload 12 0 = Some e"
      "e + 4 \<le> length payload" "[payload ! (e + 2), payload ! (e + 3)] \<in> {[0, 1], [0, 255]}"
      unfolding is_dns_query_unfold by blast
    obtain ls rest where ls: "list_all label_ok ls" "ls = [] \<or> 0 + length ls \<le> 20" "drop 12 payload = wire_labels ls @ 0 # rest"
      "e = 12 + length (wire_labels ls) + 1" "length rest = length payload - e"
      using question_end_sound [OF e(4)] by blast
    then have l20: "length ls \<le> 20" by auto
    obtain a b c d r where rest: "rest = a # b # c # d # r"
      using ls(5) e(5) by (cases rest; cases "tl rest"; cases "tl (tl rest)"; cases "tl (tl (tl rest))") auto
    have p: "payload = take 12 payload @ wire_labels ls @ 0 # [a, b] @ [c, d] @ r"
      using append_take_drop_id [of 12 payload] ls(3) rest by simp
    have "drop e payload = rest"
      using arg_cong [OF ls(3), of "drop (length (wire_labels ls) + 1)"] by (simp add: ls(4) ac_simps)
    then have "payload ! (e + 2) = c" "payload ! (e + 3) = d"
      using nth_drop [of e payload 2] nth_drop [of e payload 3] e(5) by (simp_all add: rest)
    with e ls l20 have "?P (take 12 payload) ls [a, b] [c, d] r" using p by simp
    then show "\<exists>header ls qtype qclass rest. ?P header ls qtype qclass rest" by blast
  next
    assume "\<exists>header ls qtype qclass rest. ?P header ls qtype qclass rest"
    then obtain header ls qtype qclass rest where P: "?P header ls qtype qclass rest" by blast
    obtain c d where cd: "qclass = [c, d]" "[c, d] \<in> {[0, 1], [0, 255]}" using P by auto
    obtain a b where ab: "qtype = [a, b]" using P by (auto simp: length_Suc_conv numeral_2_eq_2)
    let ?e = "12 + length (wire_labels ls) + 1"
    have h: "payload ! i = header ! i" if "i < 12" for i using P that by (simp add: nth_append)
    have "drop 12 payload = wire_labels ls @ 0 # qtype @ qclass @ rest" using P by simp
    then have q: "question_end payload 12 0 = Some ?e" using P by (intro question_end_complete) auto
    have "payload = (header @ wire_labels ls @ [0]) @ a # b # c # d # rest" "length (header @ wire_labels ls @ [0]) = ?e"
      using P by (simp_all add: ab cd)
    then have cls: "payload ! (?e + 2) = c" "payload ! (?e + 3) = d" "?e + 4 \<le> length payload"
      by (simp_all add: nth_append)
    have hs: "payload ! 2 = header ! 2" "payload ! 3 = header ! 3" "payload ! 4 = header ! 4" "payload ! 5 = header ! 5"
      by (simp_all add: h)
    have "13 \<le> length payload" using cls(3) by simp
    moreover have "[payload ! (?e + 2), payload ! (?e + 3)] \<in> {[0, 1], [0, 255]}" unfolding cls(1,2) by (rule cd(2))
    ultimately show "is_dns_query payload"
      unfolding is_dns_query_unfold hs using P q cls(3) by blast
qed

section \<open>The shipped library\<close>

abbreviation only_eq :: "u64 \<Rightarrow> compare" where
  "only_eq value \<equiv> compare_default\<lparr>cmp_eq := Some value\<rparr>"

definition default_document :: library_document where
  "default_document = \<lparr>ld_version = 1, ld_rules =
     [\<lparr>rs_service = ''SSH'', rs_predicates = [PrefixTextSpec ''SSH-'']\<rparr>,
      \<lparr>rs_service = ''TLS'', rs_predicates = [MinLenSpec 3, ByteSpec 0 None (only_eq 22), ByteSpec 1 None (only_eq 3),
         ByteSpec 2 None (compare_default\<lparr>cmp_lte := Some 4\<rparr>)]\<rparr>,
      \<lparr>rs_service = ''HTTP'', rs_predicates = [PrefixTextAnySpec [''GET '', ''POST '', ''HEAD '', ''PUT '', ''DELETE '',
         ''OPTIONS '', ''PATCH '', ''CONNECT '', ''TRACE '']]\<rparr>,
      \<lparr>rs_service = ''HTTP'', rs_predicates = [PrefixTextSpec ''HTTP/1.'']\<rparr>,
      \<lparr>rs_service = ''DNS'', rs_predicates = [BuiltinSpec DnsQuery]\<rparr>,
      \<lparr>rs_service = ''SMTP'', rs_predicates = [PrefixTextAnySpec [''EHLO '', ''HELO '']]\<rparr>,
      \<lparr>rs_service = ''FTP'', rs_predicates = [PrefixTextAnySpec [''USER '', ''PASS '', ''RETR '', ''STOR '']]\<rparr>,
      \<lparr>rs_service = ''MySQL'', rs_predicates = [MinLenSpec 5, ByteSpec 3 None (only_eq 0), ByteSpec 4 None (only_eq 10),
         IntSpec 0 3 Le (compare_default\<lparr>cmp_gt := Some 0\<rparr>)]\<rparr>,
      \<lparr>rs_service = ''PostgreSQL'', rs_predicates = [MinLenSpec 8, IntSpec 0 4 Be (only_eq 8),
         IntSpec 4 4 Be (only_eq 80877103)]\<rparr>,
      \<lparr>rs_service = ''PostgreSQL'', rs_predicates = [MinLenSpec 8, IntSpec 4 4 Be (only_eq 196608)]\<rparr>,
      \<lparr>rs_service = ''Redis'', rs_predicates = [MinLenSpec 2, ByteSpec 0 None (only_eq 42),
         ByteSpec 1 None (compare_default\<lparr>cmp_gte := Some 48, cmp_lte := Some 57\<rparr>)]\<rparr>,
      \<lparr>rs_service = ''Redis'', rs_predicates = [PrefixTextAnySpec [''+PONG'', ''+OK'', ''-ERR '', ''-NOAUTH'', ''PING'',
         ''ECHO '', ''AUTH '', ''SELECT '', ''CLIENT '', ''HELLO '', ''INFO'', ''SUBSCRIBE '', ''GET '', ''SET '']]\<rparr>,
      \<lparr>rs_service = ''MongoDB'', rs_predicates = [MinLenSpec 16, IntSpec 0 4 Le (compare_default\<lparr>cmp_gte := Some 16\<rparr>),
         IntSpec 12 4 Le (compare_default\<lparr>cmp_in :=
           Some [2002, 2003, 2004, 2005, 2006, 2007, 2010, 2011, 2012, 2013]\<rparr>)]\<rparr>,
      \<lparr>rs_service = ''RDP'', rs_predicates = [MinLenSpec 6, ByteSpec 0 None (only_eq 3), ByteSpec 1 None (only_eq 0),
         ByteSpec 5 None (compare_default\<lparr>cmp_in := Some [208, 224]\<rparr>)]\<rparr>,
      \<lparr>rs_service = ''QUIC'', rs_predicates = [MinLenSpec 7, ByteSpec 0 (Some 192) (only_eq 192),
         IntSpec 1 4 Be (compare_default\<lparr>cmp_in := Some [0, 1, 1797354991]\<rparr>)]\<rparr>,
      \<lparr>rs_service = ''WireGuard'', rs_predicates = [MinLenSpec 8,
         IntSpec 0 4 Le (compare_default\<lparr>cmp_in := Some [1, 2, 3, 4]\<rparr>), IntSpec 4 4 Le (only_eq 0)]\<rparr>]\<rparr>"

definition default_rules :: "compiled_fingerprint list" where
  "default_rules = (case compile_fingerprints 0 (ld_rules default_document) of Inr rules \<Rightarrow> rules | Inl _ \<Rightarrow> [])"

lemma default_rules_compile: "\<not> isl (compile_fingerprints 0 (ld_rules default_document)) \<and> length (ld_rules default_document) = 16"
  by (simp add: default_document_def compile_fingerprint_def trim_plain plain_text_def MAX_SERVICE_NAME_def
      MAX_PREDICATES_PER_RULE_def check_text_def check_offset_def MAX_OFFSET_def compare_validate_def
      compare_default_def)

lemma default_compiled: "compile_fingerprints 0 (ld_rules default_document) = Inr default_rules"
  using default_rules_compile by (cases "compile_fingerprints 0 (ld_rules default_document)") (auto simp: default_rules_def)

text \<open>
  Reading the embedded document never panics, and what the daemon has without a usable file is
  exactly the shipped rules; a file that cannot be used never costs the default ones.
\<close>

theorem default_library_valid:
  assumes "parse shipped = Some default_document" "parse raw = None \<or> file \<noteq> FileText raw"
    and "file \<in> {FileText raw, FileMissing, FileUnreadable}"
  shows "load_or_default parse shipped file
     = Some \<lparr>fl_rules = default_rules, fl_raw = shipped, fl_custom = False\<rparr>"
proof -
  have "from_json parse shipped = Inr \<lparr>fl_rules = default_rules, fl_raw = shipped, fl_custom = True\<rparr>"
    using default_compiled default_rules_compile by (simp add: from_json_def assms(1) MAX_RULES_def flip: length_0_conv)
  then have d: "default_library parse shipped = Some \<lparr>fl_rules = default_rules, fl_raw = shipped, fl_custom = False\<rparr>"
    by (simp add: default_library_def)
  show ?thesis using assms(2,3) d by (auto simp: load_or_default_def from_json_def split: sum.split)
qed

lemma default_library_valid_witness:
  "load_or_default (\<lambda>raw. if raw = ''x'' then None else Some default_document) ''shipped'' (FileText ''x'')
     = Some \<lparr>fl_rules = default_rules, fl_raw = ''shipped'', fl_custom = False\<rparr>"
  by (rule default_library_valid [of _ _ "''x''"]) simp_all

text \<open>
  The rules as compiled. A Redis command that starts with \<^verbatim>\<open>GET\<close> is labelled HTTP, since that rule
  comes first, and a WireGuard message is only labelled when its sender index is zero, which a peer
  chooses at random.
\<close>

lemma default_rules_eq:
  "default_rules = map (\<lambda>s. \<lparr>fr_service = rs_service s, fr_predicates =
      (case compile_predicates 0 (rs_predicates s) of Inr ps \<Rightarrow> ps | Inl _ \<Rightarrow> [])\<rparr>) (ld_rules default_document)"
  by (simp add: default_rules_def default_document_def compile_fingerprint_def trim_plain plain_text_def
      MAX_SERVICE_NAME_def MAX_PREDICATES_PER_RULE_def check_text_def check_offset_def MAX_OFFSET_def
      compare_validate_def compare_default_def)

definition default_fingerprints :: "string \<Rightarrow> fingerprint_library" where
  "default_fingerprints shipped = \<lparr>fl_rules = default_rules, fl_raw = shipped, fl_custom = False\<rparr>"

lemma starts_with_nth: "starts_with payload prefix \<Longrightarrow> i < length prefix \<Longrightarrow> i < length payload \<and> payload ! i = prefix ! i"
  unfolding starts_with_def by (metis length_take min_less_iff_conj nth_take)

theorem redis_get_is_http:
  assumes "starts_with payload (bytes_of_str ''GET '')"
  shows "classify_payload (default_fingerprints shipped) payload = Some ''HTTP''"
proof -
  have "0 < length payload" "payload ! 0 = 71" using starts_with_nth [OF assms, of 0] by (simp_all add: bytes_of_str_def)
  then have "\<not> starts_with payload (bytes_of_str ''SSH-'')"
    using starts_with_nth [of payload "bytes_of_str ''SSH-''" 0] by (auto simp: bytes_of_str_def)
  then show ?thesis
    using assms \<open>payload ! 0 = 71\<close> \<open>0 < length payload\<close>
    by (simp add: classify_payload_def default_fingerprints_def default_rules_eq default_document_def rule_matches_def
        check_text_def check_offset_def MAX_OFFSET_def compare_validate_def compare_default_def compare_matches_def)
qed

lemma redis_get_is_http_witness:
  "classify_payload (default_fingerprints []) (bytes_of_str ''GET session:42'') = Some ''HTTP''"
  by (rule redis_get_is_http) (simp add: starts_with_def bytes_of_str_def)

theorem wireguard_needs_zero_index:
  assumes "classify_payload (default_fingerprints shipped) payload = Some ''WireGuard''"
  shows "window payload 4 4 = Some [0, 0, 0, 0]"
proof -
  obtain r where r: "r \<in> set default_rules" "fr_service r = ''WireGuard''" "rule_matches r payload"
    using assms by (auto simp: classify_payload_def default_fingerprints_def find_Some_iff dest: nth_mem)
  have "IntAt 4 4 Le (only_eq 0) \<in> set (fr_predicates r)"
    using r(1,2) by (auto simp: default_rules_eq default_document_def check_text_def check_offset_def MAX_OFFSET_def
        compare_validate_def compare_default_def)
  then obtain v where v: "read_int payload 4 4 Le = Some v" "v = 0"
    using r(3) by (auto simp: rule_matches_def list_all_iff compare_matches_def compare_default_def split: option.splits)
  then obtain bs where w: "window payload 4 4 = Some bs" by (auto simp: read_int_def split: option.splits)
  then have "length bs = 4" "le_value bs = 0"
    using read_int_value [OF v(1)] v(2) by (auto simp: window_def Let_def split: if_splits)
  then obtain a b c d where bs: "bs = [a, b, c, d]" by (auto simp: length_Suc_conv numeral_eq_Suc)
  have "a = 0 \<and> b = 0 \<and> c = 0 \<and> d = 0" using \<open>le_value bs = 0\<close> by (simp add: bs unat_eq_zero)
  then show ?thesis by (simp add: w bs)
qed

section \<open>Witnesses\<close>

lemma read_int_value_witness:
  "unat (the (read_int [1, 2, 3, 4] 0 4 Le)) = 67305985 \<and> unat (the (read_int [1, 2, 3, 4] 0 4 Be)) = 16909060"
proof -
  have some: "read_int [1, 2, 3, 4] 0 4 e = Some (the (read_int [1, 2, 3, 4] 0 4 e))" for e
    by (simp add: read_int_def window_def)
  show ?thesis
    using read_int_value [OF some [of Le]] read_int_value [OF some [of Be]] by (simp add: Let_def be_value_def)
qed

lemma accepted_library_limits_witness:
  "\<exists>library. from_json (\<lambda>_. Some default_document) [] = Inr library \<and> list_all fingerprint_ok (fl_rules library)"
proof -
  have j: "from_json (\<lambda>_. Some default_document) [] = Inr \<lparr>fl_rules = default_rules, fl_raw = [], fl_custom = True\<rparr>"
    using default_compiled default_rules_compile by (simp add: from_json_def MAX_RULES_def flip: length_0_conv)
  from j accepted_library_limits [OF j] show ?thesis by blast
qed

lemma wireguard_needs_zero_index_witness:
  "classify_payload (default_fingerprints []) [1, 0, 0, 0, 7, 0, 0, 0] \<noteq> Some ''WireGuard''"
  using wireguard_needs_zero_index [of "[]" "[1, 0, 0, 0, 7, 0, 0, 0]"] by (auto simp: window_def)

end
