(* ===== verification/Listeners.thy ===== *)
theory Listeners
  imports Text Collector_Core
begin

text \<open>
  Seeding of pre-existing listeners, \<^verbatim>\<open>collector/listeners.rs\<close>: the socket tables of \<^verbatim>\<open>/proc/net\<close>, the
  search for the process that holds a socket, and the owner entries that go to the tracker. What
  \<^verbatim>\<open>/proc\<close> holds is an argument. Proved: a table reads back as the sockets it lists, what is seeded is
  held by the process it names, and a seeded port resolves to its process.
\<close>

section \<open>Socket tables\<close>

definition U16_MAX :: nat where "U16_MAX = 65535"
definition INODE_MAX :: nat where "INODE_MAX = 18446744073709551615"

definition local_port_of :: "string \<Rightarrow> u16 option" where
  "local_port_of local =
     (case split_once CHR '':'' local of
        None \<Rightarrow> None
      | Some (_, port) \<Rightarrow>
     (case from_str_radix 16 U16_MAX (map of_char port) of
        None \<Rightarrow> None
      | Some port \<Rightarrow> if port = 0 then None else Some (of_nat port)))"

text \<open>The fields of a row up to the state, and the inode: the sixth field after the state.\<close>

definition row_inode :: "string list \<Rightarrow> u64 option" where
  "row_inode rest =
     (if length rest \<le> 5 then None else map_option of_nat (parse_unsigned INODE_MAX (rest ! 5)))"

definition parse_listen_row :: "string \<Rightarrow> (u16 \<times> u64) option" where
  "parse_listen_row line =
     (case split_whitespace line of
        slot # local # remote # state # rest \<Rightarrow>
          if state \<noteq> ''0A'' then None
          else (case local_port_of local of
            None \<Rightarrow> None
          | Some port \<Rightarrow> map_option (Pair port) (row_inode rest))
      | _ \<Rightarrow> None)"

definition parse_bound_row :: "string \<Rightarrow> (u16 \<times> u64) option" where
  "parse_bound_row line =
     (case split_whitespace line of
        slot # local # remote # state # rest \<Rightarrow>
          (case local_port_of local of
            None \<Rightarrow> None
          | Some port \<Rightarrow> map_option (Pair port) (row_inode rest))
      | _ \<Rightarrow> None)"

definition parse_listen_ports :: "string \<Rightarrow> (u16 \<times> u64) list" where
  "parse_listen_ports table = List.map_filter parse_listen_row (drop 1 (lines table))"

definition parse_bound_ports :: "string \<Rightarrow> (u16 \<times> u64) list" where
  "parse_bound_ports table = List.map_filter parse_bound_row (drop 1 (lines table))"

section \<open>Processes\<close>

text \<open>
  An entry of \<^verbatim>\<open>/proc\<close>: its name where it is text, the targets of its \<^verbatim>\<open>fd\<close> links that can be read,
  or \<^const>\<open>None\<close> where the directory cannot.
\<close>

record proc_entry =
  pe_name :: "string option"
  pe_fds :: "string list option"

record proc_fs =
  pr_tcp :: "string option"
  pr_udp :: "string option"
  pr_udp6 :: "string option"
  pr_entries :: "proc_entry list option"
  pr_comm :: "u32 \<Rightarrow> string option"
  pr_uid :: "u32 \<Rightarrow> u32 option"

definition parse_socket_inode :: "string \<Rightarrow> u64 option" where
  "parse_socket_inode target =
     Option.bind (strip_prefix target ''socket:['') (\<lambda>t.
     Option.bind (strip_suffix t '']'') (\<lambda>t. map_option of_nat (parse_unsigned INODE_MAX t)))"

definition record_inode :: "u64 set \<Rightarrow> u32 \<Rightarrow> string \<Rightarrow> (u64 \<rightharpoonup> u32) \<Rightarrow> (u64 \<rightharpoonup> u32)" where
  "record_inode wanted pid target owners =
     (case parse_socket_inode target of
        None \<Rightarrow> owners
      | Some inode \<Rightarrow>
          if inode \<in> wanted \<and> owners inode = None then owners(inode \<mapsto> pid) else owners)"

definition entry_pid :: "proc_entry \<Rightarrow> u32 option" where
  "entry_pid e = Option.bind (pe_name e) (\<lambda>name. map_option of_nat (parse_unsigned 4294967295 name))"

fun find_owners :: "u64 set \<Rightarrow> proc_entry list \<Rightarrow> (u64 \<rightharpoonup> u32) \<Rightarrow> (u64 \<rightharpoonup> u32)" where
  "find_owners wanted [] owners = owners"
| "find_owners wanted (e # es) owners =
     (if card (dom owners) = card wanted then owners
      else case entry_pid e of
        None \<Rightarrow> find_owners wanted es owners
      | Some pid \<Rightarrow>
     (case pe_fds e of
        None \<Rightarrow> find_owners wanted es owners
      | Some targets \<Rightarrow> find_owners wanted es (fold (record_inode wanted pid) targets owners)))"

definition find_owner_pids :: "proc_fs \<Rightarrow> u64 list \<Rightarrow> (u64 \<rightharpoonup> u32)" where
  "find_owner_pids proc inodes =
     (case pr_entries proc of None \<Rightarrow> Map.empty | Some es \<Rightarrow> find_owners (set inodes) es Map.empty)"

definition owner_value_of :: "proc_fs \<Rightarrow> u32 \<Rightarrow> abi_owner_value option" where
  "owner_value_of proc pid =
     (case pr_comm proc pid of
        None \<Rightarrow> None
      | Some comm \<Rightarrow> Some
          \<lparr>ov_tgid = pid, ov_pid = pid, ov_uid = (case pr_uid proc pid of Some uid \<Rightarrow> uid | None \<Rightarrow> 0),
           ov_reserved = 0, ov_cgroup_id = 0, ov_comm = comm_bytes (str_trim comm), ov_observed_mono_ns = 0\<rparr>)"

definition listener_key_of :: "u8 \<Rightarrow> u16 \<Rightarrow> abi_owner_key" where
  "listener_key_of protocol port =
     \<lparr>ok_remote_addr = replicate 16 0, ok_remote_port_be = 0, ok_local_port_be = swap16 port,
      ok_protocol = protocol, ok_kind = owner_kind_to_abi Listener, ok_ip_family = ip_family_to_abi V4,
      ok_reserved = 0\<rparr>"

definition bound_sockets :: "proc_fs \<Rightarrow> (u8 \<times> u16 \<times> u64) list" where
  "bound_sockets proc =
     (case pr_tcp proc of None \<Rightarrow> [] | Some table \<Rightarrow> map (Pair (transport_protocol_to_abi Tcp)) (parse_listen_ports table))
     @ concat (map (\<lambda>file. case file of None \<Rightarrow> []
         | Some table \<Rightarrow> map (Pair (transport_protocol_to_abi Udp)) (parse_bound_ports table))
       [pr_udp proc, pr_udp6 proc])"

definition scan :: "proc_fs \<Rightarrow> (abi_owner_key \<times> abi_owner_value) list" where
  "scan proc =
     (let bound = bound_sockets proc in
      if bound = [] then []
      else let owners = find_owner_pids proc (map (\<lambda>(_, _, inode). inode) bound) in
      List.map_filter (\<lambda>(protocol, port, inode).
        case owners inode of
          None \<Rightarrow> None
        | Some pid \<Rightarrow>
            (case owner_value_of proc pid of
               None \<Rightarrow> None
             | Some value \<Rightarrow> Some (listener_key_of protocol port, value))) bound)"

text \<open>\<^verbatim>\<open>seed\<close> of the source.\<close>

definition seed_listeners :: "proc_fs \<Rightarrow> instant \<Rightarrow> flow_tracker \<Rightarrow> flow_tracker" where
  "seed_listeners proc now = record_owners (scan proc) now"

section \<open>Tables read back\<close>

text \<open>A row of a socket table: the fields the parser looks at, and the ones it skips.\<close>

record socket_row =
  sr_slot :: string
  sr_address :: string
  sr_port_text :: string
  sr_port :: u16
  sr_remote :: string
  sr_state :: string
  sr_middle :: "string list"
  sr_inode_text :: string
  sr_inode :: u64
  sr_tail :: "string list"

definition row_fields :: "socket_row \<Rightarrow> string list" where
  "row_fields r = [sr_slot r, sr_address r @ '':'' @ sr_port_text r, sr_remote r, sr_state r]
     @ sr_middle r @ sr_inode_text r # sr_tail r"

definition row_ok :: "socket_row \<Rightarrow> bool" where
  "row_ok r \<longleftrightarrow> list_all field (row_fields r) \<and> CHR '':'' \<notin> set (sr_address r) \<and> length (sr_middle r) = 5
     \<and> from_str_radix 16 U16_MAX (map of_char (sr_port_text r)) = Some (unat (sr_port r))
     \<and> parse_unsigned INODE_MAX (sr_inode_text r) = Some (unat (sr_inode r))"

definition table_text :: "string \<Rightarrow> socket_row list \<Rightarrow> string" where
  "table_text header rows =
     concat (map (\<lambda>l. l @ [CHR 0x0A]) (header # map (\<lambda>r. join_fields (row_fields r)) rows))"

lemma row_line: "row_ok r \<Longrightarrow> split_whitespace (join_fields (row_fields r)) = row_fields r"
  by (rule split_whitespace_join) (simp add: row_ok_def)

lemma row_parts:
  assumes "row_ok r"
  shows "local_port_of (sr_address r @ '':'' @ sr_port_text r) = (if sr_port r = 0 then None else Some (sr_port r))"
    "row_inode (sr_middle r @ sr_inode_text r # sr_tail r) = Some (sr_inode r)"
  using assms
  by (simp_all add: row_ok_def local_port_of_def split_once_append row_inode_def nth_append unat_eq_zero)

lemma field_line: "list_all field fs \<Longrightarrow> fs \<noteq> [] \<Longrightarrow> CHR 0x0A \<notin> set (join_fields fs) \<and> last (join_fields fs) \<noteq> CHR 0x0D"
proof -
  assume f: "list_all field fs" "fs \<noteq> []"
  have "\<not> 32 < (of_char (CHR 0x0A) :: nat)" by simp
  then have "CHR 0x0A \<notin> set g" if "g \<in> set fs" for g
    using f(1) that by (fastforce simp: field_def plain_text_def list_all_iff)
  then have "CHR 0x0A \<notin> set (join_fields fs)" by (auto simp: join_fields_def)
  moreover have "join_fields fs = join_fields (butlast fs) @ last fs @ '' ''"
    using append_butlast_last_id [OF f(2)] by (metis (no_types, lifting) append_Nil2 append_assoc concat.simps(1,2) concat_append join_fields_def list.simps(8,9) map_append)
  ultimately show ?thesis by simp
qed

lemma table_lines:
  assumes "list_all row_ok rows" "CHR 0x0A \<notin> set header" "last header \<noteq> CHR 0x0D"
  shows "drop 1 (lines (table_text header rows)) = map (\<lambda>r. join_fields (row_fields r)) rows"
proof -
  have "list_all (\<lambda>l. CHR 0x0A \<notin> set l \<and> (l = [] \<or> last l \<noteq> CHR 0x0D))
      (header # map (\<lambda>r. join_fields (row_fields r)) rows)"
    using assms field_line by (auto simp: list_all_iff row_ok_def row_fields_def)
  from lines_concat [OF this] show ?thesis by (simp add: table_text_def)
qed

text \<open>
  A socket table reads back as the sockets it lists: for TCP those in the listening state, for
  UDP all of them, in order, each with its port and inode, and never one without a port.
\<close>

theorem socket_table_roundtrip:
  assumes "list_all row_ok rows" "CHR 0x0A \<notin> set header" "last header \<noteq> CHR 0x0D"
  shows "parse_listen_ports (table_text header rows)
      = map (\<lambda>r. (sr_port r, sr_inode r)) (filter (\<lambda>r. sr_state r = ''0A'' \<and> sr_port r \<noteq> 0) rows)
    \<and> parse_bound_ports (table_text header rows)
      = map (\<lambda>r. (sr_port r, sr_inode r)) (filter (\<lambda>r. sr_port r \<noteq> 0) rows)"
proof -
  have "parse_listen_row (join_fields (row_fields r))
      = (if sr_state r = ''0A'' \<and> sr_port r \<noteq> 0 then Some (sr_port r, sr_inode r) else None)"
    "parse_bound_row (join_fields (row_fields r)) = (if sr_port r \<noteq> 0 then Some (sr_port r, sr_inode r) else None)"
    if "row_ok r" for r
    using row_parts [OF that]
    by (simp_all add: parse_listen_row_def parse_bound_row_def row_line [OF that]) (simp_all add: row_fields_def)
  then show ?thesis
    using assms(1) unfolding parse_listen_ports_def parse_bound_ports_def table_lines [OF assms]
    by (induction rows) (simp_all add: List.map_filter_simps)
qed

section \<open>Seeded owners\<close>

lemma record_inode_sound:
  "record_inode wanted pid target owners inode = Some p \<Longrightarrow>
     owners inode = Some p \<or> (p = pid \<and> parse_socket_inode target = Some inode)"
  by (auto simp: record_inode_def split: option.splits if_splits)

lemma record_inodes_sound:
  "fold (record_inode wanted pid) targets owners inode = Some p \<Longrightarrow>
     owners inode = Some p \<or> (p = pid \<and> (\<exists>target \<in> set targets. parse_socket_inode target = Some inode))"
  by (induction targets arbitrary: owners) (auto dest!: record_inode_sound)

definition holds_socket :: "proc_entry \<Rightarrow> u32 \<Rightarrow> u64 \<Rightarrow> bool" where
  "holds_socket e pid inode \<longleftrightarrow> entry_pid e = Some pid
     \<and> (case pe_fds e of None \<Rightarrow> False | Some targets \<Rightarrow> list_ex (\<lambda>t. parse_socket_inode t = Some inode) targets)"

lemma find_owners_sound:
  "find_owners wanted es owners inode = Some p \<Longrightarrow>
     owners inode = Some p \<or> (\<exists>e \<in> set es. holds_socket e p inode)"
proof (induction wanted es owners rule: find_owners.induct)
  case (2 wanted e es owners)
  show ?case
  proof (cases "card (dom owners) = card wanted")
    case False
    show ?thesis
    proof (cases "entry_pid e = None \<or> pe_fds e = None")
      case True
      with 2 False show ?thesis by (cases "entry_pid e"; cases "pe_fds e") auto
    next
      case False': False
      then obtain pid targets where e: "entry_pid e = Some pid" "pe_fds e = Some targets" by auto
      then have "fold (record_inode wanted pid) targets owners inode = Some p \<or> (\<exists>e \<in> set es. holds_socket e p inode)"
        using 2 False by simp
      then show ?thesis
        using record_inodes_sound [of wanted pid targets owners inode p] e by (auto simp: holds_socket_def list_ex_iff)
    qed
  qed (use 2(4) in auto)
qed simp

text \<open>
  C1: what is seeded is true: every seeded owner is a process of \<^verbatim>\<open>/proc\<close> that holds the socket of a
  row with that protocol and port.
\<close>

theorem seeded_owner_holds_socket:
  assumes "(key, value) \<in> set (scan proc)" "pr_entries proc = Some es"
  shows "\<exists>protocol port inode. (protocol, port, inode) \<in> set (bound_sockets proc) \<and> key = listener_key_of protocol port
    \<and> list_ex (\<lambda>e. holds_socket e (ov_pid value) inode) es"
proof -
  let ?owners = "find_owner_pids proc (map (\<lambda>(_, _, inode). inode) (bound_sockets proc))"
  obtain protocol port inode pid where b: "(protocol, port, inode) \<in> set (bound_sockets proc)" "?owners inode = Some pid"
    "owner_value_of proc pid = Some value" "key = listener_key_of protocol port"
    using assms(1) by (auto simp: scan_def Let_def List.map_filter_def split: if_splits option.splits)
  have "ov_pid value = pid" using b(3) by (auto simp: owner_value_of_def split: option.splits)
  moreover have "\<exists>e \<in> set es. holds_socket e pid inode"
    using b(2) assms(2) find_owners_sound [of _ es Map.empty inode pid] by (simp add: find_owner_pids_def)
  ultimately show ?thesis using b by (auto simp: list_ex_iff)
qed

text \<open>
  C33: a seeded port is attributed: an inbound flow to it, whose socket no hook has reported, resolves
  to the process that was found in \<^verbatim>\<open>/proc\<close>.
\<close>

theorem seeded_listener_resolves:
  assumes "application_ref_of value = Some application" "flow_sides key = Some (port, remote, remote_port)"
    and "map_of (ft_owners t) (join_key (protocol_number (key_protocol key)) Socket port remote remote_port) = None"
    and "map_of (ft_owners t) (join_key (transport_protocol_to_abi Udp) Socket 0 remote remote_port) = None"
  shows "resolve_application
      (record_owner (listener_key_of (protocol_number (key_protocol key)) port) value now t) key = Some application"
proof -
  have j: "join_key p Listener port (IpV4 (Ipv4 0 0 0 0)) None = listener_key_of p port" for p
    by (simp add: join_key_def listener_key_of_def ipv4_storage_def numeral_eq_Suc)
  have "owner_kind_from_abi (ok_kind (listener_key_of p port)) = Some Listener" for p
    by (simp add: listener_key_of_def owner_kind_from_abi_def)
  then show ?thesis
    using assms by (simp add: resolve_application_def record_owner_def j update_conv' Let_def)
qed

section \<open>Witnesses\<close>

text \<open>A table with one listening socket on port 80, one established, and one without a port.\<close>

definition port_row :: "string \<Rightarrow> u16 \<Rightarrow> string \<Rightarrow> socket_row" where
  "port_row text port state =
     \<lparr>sr_slot = ''0:'', sr_address = ''00000000'', sr_port_text = text, sr_port = port, sr_remote = ''00000000:0000'',
      sr_state = state, sr_middle = [''0:0'', ''00:0'', ''0'', ''0'', ''0''], sr_inode_text = ''77'', sr_inode = 77,
      sr_tail = [''1'']\<rparr>"

lemma port_rows_ok: "list_all row_ok [port_row ''0050'' 80 ''0A'', port_row ''0050'' 80 ''01'', port_row ''0000'' 0 ''0A'']"
  by (simp add: row_ok_def port_row_def row_fields_def field_def plain_text_def from_str_radix_def digit_of_def
      parse_unsigned_def U16_MAX_def INODE_MAX_def)

lemma socket_table_roundtrip_witness:
  "parse_listen_ports (table_text ''sl'' [port_row ''0050'' 80 ''0A'', port_row ''0050'' 80 ''01'', port_row ''0000'' 0 ''0A''])
     = [(80, 77)]"
  using socket_table_roundtrip [OF port_rows_ok, of "''sl''"] by (simp add: port_row_def)

definition one_process :: proc_fs where
  "one_process =
     \<lparr>pr_tcp = Some (table_text ''sl'' [port_row ''0050'' 80 ''0A'']), pr_udp = None, pr_udp6 = None,
      pr_entries = Some [\<lparr>pe_name = Some ''9'', pe_fds = Some [''socket:[77]'']\<rparr>],
      pr_comm = (\<lambda>_. Some ''sshd''), pr_uid = (\<lambda>_. None)\<rparr>"

lemma one_process_scan: "\<exists>value. scan one_process = [(listener_key_of 6 80, value)]"
proof -
  have "list_all row_ok [port_row ''0050'' 80 ''0A'']" using port_rows_ok by simp
  from socket_table_roundtrip [OF this, of "''sl''"]
  have "parse_listen_ports (table_text ''sl'' [port_row ''0050'' 80 ''0A'']) = [(80, 77)]" by (simp add: port_row_def)
  then have b: "bound_sockets one_process = [(6, 80, 77)]" by (simp add: bound_sockets_def one_process_def)
  have "parse_socket_inode ''socket:[77]'' = Some 77"
    by (simp add: parse_socket_inode_def strip_prefix_def strip_suffix_def starts_with_def parse_unsigned_def from_str_radix_def
        digit_of_def INODE_MAX_def)
  then have "find_owner_pids one_process [77] 77 = Some 9"
    by (simp add: find_owner_pids_def one_process_def entry_pid_def parse_unsigned_def from_str_radix_def digit_of_def
        record_inode_def)
  then show ?thesis
    by (simp add: scan_def b List.map_filter_simps owner_value_of_def) (simp add: one_process_def)
qed

lemma seeded_owner_holds_socket_witness:
  "\<exists>inode. list_ex (\<lambda>e. \<exists>pid. holds_socket e pid inode) (the (pr_entries one_process))"
proof -
  obtain w where v: "scan one_process = [(listener_key_of 6 80, w)]" using one_process_scan by blast
  have "(listener_key_of 6 80, w) \<in> set (scan one_process)" by (simp add: v)
  from seeded_owner_holds_socket [OF this, of "the (pr_entries one_process)"] show ?thesis
    by (auto simp: one_process_def)
qed

lemma seeded_listener_resolves_witness:
  "\<exists>t application. resolve_application t (sample_flow_key\<lparr>key_direction := FlowInbound\<rparr>) = Some application"
proof -
  have "application_ref_of connection_owner \<noteq> None" by (simp add: application_ref_of_def connection_owner_def)
  then obtain application where a: "application_ref_of connection_owner = Some application" by blast
  have "flow_sides (sample_flow_key\<lparr>key_direction := FlowInbound\<rparr>) \<noteq> None"
    by (simp add: flow_sides_def sample_flow_key_def decode_key_def sample_key_def flow_direction_from_abi_def
        direction_from_abi_def)
  then obtain port remote remote_port where
    "flow_sides (sample_flow_key\<lparr>key_direction := FlowInbound\<rparr>) = Some (port, remote, remote_port)" by auto
  from seeded_listener_resolves [OF a this, of "flow_tracker_new 0" 0] show ?thesis
    by (auto simp: flow_tracker_new_def)
qed

end
