(* ===== verification/Interfaces.thy ===== *)
theory Interfaces
  imports Text Collector_Core "HOL-Library.Sublist" "HOL-Library.List_Lexorder" "HOL-Library.Char_ord"
begin

text \<open>
  Device Boundary interfaces, \<^verbatim>\<open>collector/interfaces.rs\<close>: classification from facts of
  \<^verbatim>\<open>/sys/class/net\<close>, the default route, the resolution of boundary selectors and the warnings on a
  selected set. The two file systems are arguments: what the entries of \<^verbatim>\<open>/sys/class/net\<close> hold, and
  the text of \<^verbatim>\<open>/proc/net/route\<close>. Proved: which route is chosen, that resolution accounts for every
  selector and never yields an interface twice, and when a selection is warned about.
\<close>

section \<open>Facts\<close>

definition ARPHRD_LOOPBACK :: u32 where "ARPHRD_LOOPBACK = 772"
definition IFF_UP :: u32 where "IFF_UP = 1"

datatype interface_kind =
  Loopback | Physical | Bridge | DockerBridge | Bond | Vlan | TunTap | Wireguard | Veth | Virtual | OtherKind

definition is_physical :: "interface_kind \<Rightarrow> bool" where "is_physical k \<longleftrightarrow> k = Physical"
definition is_virtual :: "interface_kind \<Rightarrow> bool" where "is_virtual k \<longleftrightarrow> \<not> is_physical k"

record interface_facts =
  if_ifindex :: u32
  if_arphrd_type :: "u32 option"
  if_has_bridge :: bool
  if_has_bonding :: bool
  if_has_tun_flags :: bool
  if_has_wireguard :: bool
  if_has_device :: bool
  if_has_lower :: bool
  if_iflink :: "u32 option"

definition is_container_bridge :: "string \<Rightarrow> bool" where
  "is_container_bridge name \<longleftrightarrow> name = ''docker0'' \<or> strip_prefix name ''br-'' \<noteq> None"

text \<open>\<^verbatim>\<open>classify\<close> of the source.\<close>

definition classify_interface :: "string \<Rightarrow> interface_facts \<Rightarrow> interface_kind" where
  "classify_interface name facts =
     (if name = ''lo'' \<or> if_arphrd_type facts = Some ARPHRD_LOOPBACK then Loopback
      else if if_has_bridge facts then (if is_container_bridge name then DockerBridge else Bridge)
      else if if_has_bonding facts then Bond
      else if if_has_wireguard facts then Wireguard
      else if if_has_tun_flags facts then TunTap
      else if if_has_lower facts then (if CHR ''.'' \<in> set name then Vlan else Virtual)
      else if if_has_device facts then Physical
      else if (case if_iflink facts of Some peer \<Rightarrow> peer \<noteq> if_ifindex facts | None \<Rightarrow> False) then Veth
      else OtherKind)"

section \<open>What /sys/class/net holds\<close>

text \<open>
  One entry of the directory: the files below it by their text, where they can be read, and which
  directories and links exist.
\<close>

record sys_entry =
  se_name :: string
  se_is_dir :: bool
  se_ifindex :: "string option"
  se_type :: "string option"
  se_iflink :: "string option"
  se_flags :: "string option"
  se_bridge_dir :: bool
  se_bonding :: bool
  se_tun_flags :: bool
  se_wireguard_dir :: bool
  se_device :: bool
  se_files :: "string list option"
  se_master :: "string option"

text \<open>The directory, \<^const>\<open>None\<close> when it or one of its entries cannot be read.\<close>

type_synonym sys_net = "sys_entry list option"

definition U64_MAX :: nat where "U64_MAX = 18446744073709551615"
definition U32_MAX :: nat where "U32_MAX = 4294967295"

definition read_number :: "string option \<Rightarrow> u64 option" where
  "read_number file = Option.bind file (\<lambda>raw. map_option of_nat (parse_unsigned U64_MAX (str_trim raw)))"

definition has_lower_link :: "sys_entry \<Rightarrow> bool" where
  "has_lower_link e =
     (case se_files e of None \<Rightarrow> False | Some names \<Rightarrow> list_ex (\<lambda>name. strip_prefix name ''lower_'' \<noteq> None) names)"

definition read_facts :: "sys_entry \<Rightarrow> interface_facts option" where
  "read_facts e =
     (case read_number (se_ifindex e) of
        None \<Rightarrow> None
      | Some ifindex \<Rightarrow> Some
          \<lparr>if_ifindex = ucast ifindex, if_arphrd_type = map_option ucast (read_number (se_type e)),
           if_has_bridge = se_bridge_dir e, if_has_bonding = se_bonding e, if_has_tun_flags = se_tun_flags e,
           if_has_wireguard = se_wireguard_dir e, if_has_device = se_device e, if_has_lower = has_lower_link e,
           if_iflink = map_option ucast (read_number (se_iflink e))\<rparr>)"

definition read_flags :: "sys_entry \<Rightarrow> u32 option" where
  "read_flags e =
     Option.bind (se_flags e) (\<lambda>raw.
       let raw = str_trim raw; raw = (case strip_prefix raw ''0x'' of Some r \<Rightarrow> r | None \<Rightarrow> raw) in
       map_option of_nat (from_str_radix 16 U32_MAX (map of_char raw)))"

section \<open>The default route\<close>

record default_route =
  dr_name :: string
  dr_metric :: u32

definition parse_route_line :: "string \<Rightarrow> default_route option" where
  "parse_route_line line =
     (case split_whitespace line of
        name # destination # gateway # flags # ref_count # use # metric # _ \<Rightarrow>
          if destination \<noteq> ''00000000'' then None
          else if (case from_str_radix 16 U32_MAX (map of_char flags) of
                     None \<Rightarrow> 0 | Some n \<Rightarrow> (of_nat n :: u32)) AND 1 = 0 then None
          else Some \<lparr>dr_name = name,
                     dr_metric = (case parse_unsigned U32_MAX metric of None \<Rightarrow> - 1 | Some n \<Rightarrow> of_nat n)\<rparr>
      | _ \<Rightarrow> None)"

definition parse_default_routes :: "string \<Rightarrow> default_route list" where
  "parse_default_routes contents = List.map_filter parse_route_line (drop 1 (lines contents))"

definition select_default_route :: "default_route list \<Rightarrow> (string \<Rightarrow> interface_kind) \<Rightarrow> default_route option" where
  "select_default_route routes kind_of =
     (let candidates = sort_key dr_metric (filter (\<lambda>r. kind_of (dr_name r) \<noteq> Loopback) routes) in
      case List.find (\<lambda>r. \<not> is_virtual (kind_of (dr_name r))) candidates of
        Some r \<Rightarrow> Some r
      | None \<Rightarrow> (case candidates of [] \<Rightarrow> None | r # _ \<Rightarrow> Some r))"

section \<open>The catalog\<close>

record interface_info =
  ii_name :: string
  ii_ifindex :: u32
  ii_kind :: interface_kind
  ii_up :: bool
  ii_default_route :: bool
  ii_master :: "string option"

fun read_infos :: "sys_entry list \<Rightarrow> interface_info list option" where
  "read_infos [] = Some []"
| "read_infos (e # es) =
     (if se_name e = [] \<or> \<not> se_is_dir e then read_infos es
      else case read_facts e of
        None \<Rightarrow> None
      | Some facts \<Rightarrow>
          if if_ifindex facts = 0 then read_infos es
          else map_option ((#)
            \<lparr>ii_name = se_name e, ii_ifindex = if_ifindex facts, ii_kind = classify_interface (se_name e) facts,
             ii_up = (case read_flags e of Some flags \<Rightarrow> flags AND IFF_UP \<noteq> 0 | None \<Rightarrow> False),
             ii_default_route = False, ii_master = se_master e\<rparr>) (read_infos es))"

text \<open>The hash map of kinds: of entries with one name the last one counts.\<close>

definition kind_in :: "interface_info list \<Rightarrow> string \<Rightarrow> interface_kind" where
  "kind_in infos name =
     (case map_of (rev (map (\<lambda>i. (ii_name i, ii_kind i)) infos)) name of Some k \<Rightarrow> k | None \<Rightarrow> OtherKind)"

definition routes_of :: "string option \<Rightarrow> default_route list" where
  "routes_of route_file = (case route_file of None \<Rightarrow> [] | Some contents \<Rightarrow> parse_default_routes contents)"

text \<open>\<^verbatim>\<open>enumerate\<close> of the source.\<close>

definition enumerate_interfaces :: "sys_net \<Rightarrow> string option \<Rightarrow> interface_info list option" where
  "enumerate_interfaces sys route_file =
     (case Option.bind sys read_infos of
        None \<Rightarrow> None
      | Some infos \<Rightarrow>
      let infos = (case select_default_route (routes_of route_file) (kind_in infos) of
            None \<Rightarrow> infos
          | Some route \<Rightarrow> map (\<lambda>i. i\<lparr>ii_default_route := (ii_name i = dr_name route)\<rparr>) infos) in
      Some (sort_key ii_ifindex infos))"

definition default_route_for :: "sys_net \<Rightarrow> string option \<Rightarrow> string option option" where
  "default_route_for sys route_file =
     (case enumerate_interfaces sys route_file of
        None \<Rightarrow> None
      | Some infos \<Rightarrow>
          let contents = (case route_file of None \<Rightarrow> [] | Some c \<Rightarrow> c) in
          Some (map_option dr_name (select_default_route (parse_default_routes contents) (kind_in infos))))"

section \<open>Boundary resolution\<close>

definition ifindex_for_name :: "sys_net \<Rightarrow> string \<Rightarrow> u32 option" where
  "ifindex_for_name sys name =
     (case sys of
        None \<Rightarrow> None
      | Some es \<Rightarrow>
     (case Option.bind (List.find (\<lambda>e. se_name e = name) es) se_ifindex of
        None \<Rightarrow> None
      | Some raw \<Rightarrow>
     (case parse_unsigned U32_MAX (str_trim raw) of
        None \<Rightarrow> None
      | Some n \<Rightarrow> if n = 0 then None else Some (of_nat n))))"

definition name_for_index :: "sys_net \<Rightarrow> u32 \<Rightarrow> string option" where
  "name_for_index sys ifindex =
     (case sys of
        None \<Rightarrow> None
      | Some es \<Rightarrow>
      let candidates = map se_name (filter (\<lambda>e. case se_ifindex e of
             None \<Rightarrow> False | Some raw \<Rightarrow> parse_unsigned U32_MAX (str_trim raw) = Some (unat ifindex)) es) in
      (case sort candidates of [] \<Rightarrow> None | name # _ \<Rightarrow> Some name))"

record resolved_boundary =
  rb_interfaces :: "(u32 \<times> string) list"
  rb_pending :: "string list"

datatype boundary_error = NothingConfigured | DuplicateInterface string

text \<open>
  The label under which a selector waits.
\<close>

fun pending_label :: "interface_selector \<Rightarrow> string" where
  "pending_label DefaultRoute = ''default route''"
| "pending_label (ByName name) = name"
| "pending_label (ByIndex index) = ''ifindex '' @ decimal (unat index)"

definition selector_name :: "sys_net \<Rightarrow> string option \<Rightarrow> interface_selector \<Rightarrow> string option" where
  "selector_name sys route_file s =
     (case s of
        DefaultRoute \<Rightarrow> (case default_route_for sys route_file of Some r \<Rightarrow> r | None \<Rightarrow> None)
      | ByName name \<Rightarrow> Some name
      | ByIndex index \<Rightarrow> name_for_index sys index)"

fun resolve_each ::
  "sys_net \<Rightarrow> string option \<Rightarrow> interface_selector list
     \<Rightarrow> (u32 \<times> string) list \<times> string list \<Rightarrow> (u32 \<times> string) list \<times> string list" where
  "resolve_each sys route_file [] acc = acc"
| "resolve_each sys route_file (s # ss) (resolved, pending) =
     resolve_each sys route_file ss
       (case selector_name sys route_file s of
          None \<Rightarrow> (resolved, pending @ [pending_label s])
        | Some name \<Rightarrow>
            (case ifindex_for_name sys name of
               Some ifindex \<Rightarrow> (resolved @ [(ifindex, name)], pending)
             | None \<Rightarrow> (resolved, pending @ [name])))"

fun first_duplicate :: "string list \<Rightarrow> string list \<Rightarrow> string option" where
  "first_duplicate seen [] = None"
| "first_duplicate seen (n # ns) = (if n \<in> set seen then Some n else first_duplicate (seen @ [n]) ns)"

definition resolve_selectors ::
  "sys_net \<Rightarrow> string option \<Rightarrow> interface_selector list \<Rightarrow> boundary_error + resolved_boundary" where
  "resolve_selectors sys route_file selectors =
     (if selectors = [] then Inl NothingConfigured
      else let (resolved, pending) = resolve_each sys route_file selectors ([], []) in
      case first_duplicate [] (map snd resolved) of
        Some name \<Rightarrow> Inl (DuplicateInterface name)
      | None \<Rightarrow> Inr \<lparr>rb_interfaces = resolved, rb_pending = pending\<rparr>)"

section \<open>Warnings\<close>

datatype warning_kind = MissingInterface | LoopbackSelected | BridgePortOverlap | UplinkOverlap

text \<open>A warning without the sentence it is shown with.\<close>

record boundary_warning =
  bw_kind :: warning_kind
  bw_interfaces :: "string list"

definition info_named :: "interface_info list \<Rightarrow> string \<Rightarrow> interface_info option" where
  "info_named infos name = map_of (rev (map (\<lambda>i. (ii_name i, i)) infos)) name"

definition presence_warning :: "interface_info list \<Rightarrow> string \<Rightarrow> boundary_warning list" where
  "presence_warning infos name =
     (case info_named infos name of
        None \<Rightarrow> [\<lparr>bw_kind = MissingInterface, bw_interfaces = [name]\<rparr>]
      | Some info \<Rightarrow>
          if ii_kind info = Loopback then [\<lparr>bw_kind = LoopbackSelected, bw_interfaces = [name]\<rparr>] else [])"

definition bridge_warning :: "interface_info list \<Rightarrow> string \<Rightarrow> boundary_warning list" where
  "bridge_warning infos name =
     (case info_named infos name of
        None \<Rightarrow> []
      | Some info \<Rightarrow>
          if ii_kind info \<notin> {Bridge, DockerBridge} then []
          else let ports = map ii_name (filter (\<lambda>c. info_named infos (ii_name c) \<noteq> None)
                 (filter (\<lambda>c. ii_master c = Some name) infos)) in
          if ports = [] then [] else [\<lparr>bw_kind = BridgePortOverlap, bw_interfaces = name # ports\<rparr>])"

definition uplink_warning :: "interface_info list \<Rightarrow> string list \<Rightarrow> boundary_warning list" where
  "uplink_warning infos names =
     (let selected = List.map_filter (info_named infos) names;
          physical_default = map ii_name (filter (\<lambda>i. is_physical (ii_kind i) \<and> ii_default_route i) selected);
          virtual_selected = map ii_name (filter (\<lambda>i.
            ii_kind i \<in> {Bridge, DockerBridge, Bond, Vlan, TunTap, Wireguard, Virtual}) selected) in
      if physical_default \<noteq> [] \<and> virtual_selected \<noteq> []
      then [\<lparr>bw_kind = UplinkOverlap, bw_interfaces = physical_default @ virtual_selected\<rparr>] else [])"

definition boundary_warnings :: "string list \<Rightarrow> interface_info list \<Rightarrow> boundary_warning list" where
  "boundary_warnings selected infos =
     (let sorted = remdups_adj (sort selected) in
      concat (map (presence_warning infos) sorted) @ concat (map (bridge_warning infos) sorted)
      @ uplink_warning infos sorted)"

section \<open>Properties\<close>

lemma find_first: "xs \<noteq> [] \<Longrightarrow> List.find (\<lambda>_. True) xs = Some (hd xs)"
  by (cases xs) auto

lemma find_in_sorted:
  assumes "List.find P (sort_key f xs) = Some r" "x \<in> set xs" "P x"
  shows "f r \<le> f x"
proof -
  let ?ys = "sort_key f xs"
  obtain i where i: "i < length ?ys" "r = ?ys ! i" "\<forall>j<i. \<not> P (?ys ! j)"
    using assms(1) by (auto simp: find_Some_iff)
  obtain j where j: "j < length ?ys" "x = ?ys ! j" using assms(2) by (metis in_set_conv_nth set_sort)
  have "i \<le> j" using i(3) j(2) assms(3) by (meson not_le)
  then have "map f ?ys ! i \<le> map f ?ys ! j" using j(1) by (intro sorted_nth_mono) auto
  then show ?thesis using i j by simp
qed

text \<open>
  The default route is never loopback; it is the physical one with the smallest metric when
  there is a physical one, and else the one with the smallest metric; none is chosen only when
  every route is loopback.
\<close>

theorem default_route_choice:
  assumes "r' \<in> set routes" "kind_of (dr_name r') \<noteq> Loopback"
  shows "\<exists>r \<in> set routes. select_default_route routes kind_of = Some r \<and> kind_of (dr_name r) \<noteq> Loopback
    \<and> (if kind_of (dr_name r) = Physical then kind_of (dr_name r') \<noteq> Physical \<or> dr_metric r \<le> dr_metric r'
       else kind_of (dr_name r') \<noteq> Physical \<and> dr_metric r \<le> dr_metric r')"
proof -
  let ?P = "\<lambda>r. kind_of (dr_name r) \<noteq> Loopback"
  let ?cs = "sort_key dr_metric (filter ?P routes)"
  let ?phys = "\<lambda>r. \<not> is_virtual (kind_of (dr_name r))"
  have r': "r' \<in> set (filter ?P routes)" using assms by simp
  show ?thesis
  proof (cases "List.find ?phys ?cs")
    case None
    have "r' \<in> set ?cs" using r' by (simp only: set_sort)
    then have ne: "?cs \<noteq> []" by (metis list.set(1) empty_iff)
    note first = find_first [OF ne] ne
    have "\<not> ?phys x" if "x \<in> set (filter ?P routes)" for x
      using None that unfolding find_None_iff set_sort by blast
    moreover have "hd ?cs \<in> set (filter ?P routes)" using first(2) by (metis hd_in_set set_sort)
    moreover have "select_default_route routes kind_of = Some (hd ?cs)"
      using None first(2) by (simp add: select_default_route_def Let_def split: list.split)
    moreover have "dr_metric (hd ?cs) \<le> dr_metric r'" using find_in_sorted [OF first(1) r'] by simp
    ultimately show ?thesis
      using r' by (intro bexI [of _ "hd ?cs"]) (simp_all add: is_virtual_def is_physical_def)
  next
    case (Some r)
    have "r \<in> set ?cs \<and> ?phys r" using Some by (metis find_Some_iff nth_mem)
    moreover have "select_default_route routes kind_of = Some r"
      using Some by (simp add: select_default_route_def Let_def)
    ultimately show ?thesis
      using find_in_sorted [OF Some r'] by (auto simp: is_virtual_def is_physical_def)
  qed
qed

definition wan_routes :: "default_route list" where
  "wan_routes = [\<lparr>dr_name = ''tun0'', dr_metric = 50\<rparr>, \<lparr>dr_name = ''eth0'', dr_metric = 100\<rparr>]"

lemma default_route_choice_witness:
  "\<exists>r \<in> set wan_routes. select_default_route wan_routes
     (\<lambda>name. if name = ''eth0'' then Physical else TunTap) = Some r \<and> dr_name r = ''eth0''"
proof -
  let ?k = "\<lambda>name. if name = ''eth0'' then Physical else TunTap"
  have "\<lparr>dr_name = ''eth0'', dr_metric = 100\<rparr> \<in> set wan_routes" by (simp add: wan_routes_def)
  from default_route_choice [OF this, of ?k] show ?thesis by (auto simp: wan_routes_def split: if_splits)
qed

lemma resolve_each_account:
  "resolve_each sys route_file ss (resolved, pending) = (resolved', pending') \<Longrightarrow>
     length resolved' + length pending' = length resolved + length pending + length ss
     \<and> set resolved' \<subseteq> set resolved \<union> {(ifindex, name). ifindex_for_name sys name = Some ifindex}
     \<and> prefix resolved resolved'"
proof (induction ss arbitrary: resolved pending)
  case (Cons s ss)
  obtain r p where rp: "(case selector_name sys route_file s of
          None \<Rightarrow> (resolved, pending @ [pending_label s])
        | Some name \<Rightarrow>
            (case ifindex_for_name sys name of
               Some ifindex \<Rightarrow> (resolved @ [(ifindex, name)], pending)
             | None \<Rightarrow> (resolved, pending @ [name]))) = (r, p)" (is "?l = _") by fastforce
  then have "length r + length p = length resolved + length pending + 1 \<and> prefix resolved r
      \<and> set r \<subseteq> set resolved \<union> {(ifindex, name). ifindex_for_name sys name = Some ifindex}"
    by (auto split: option.splits)
  with Cons.IH [of r p] Cons.prems rp show ?case by (auto intro: prefix_order.trans)
qed simp

lemma first_duplicate_None: "first_duplicate seen ns = None \<Longrightarrow> distinct ns \<and> set seen \<inter> set ns = {}"
  by (induction seen ns rule: first_duplicate.induct) (auto split: if_splits)

lemma ifindex_for_name_nonzero: "ifindex_for_name sys name = Some ifindex \<Longrightarrow> ifindex \<noteq> 0"
proof -
  assume "ifindex_for_name sys name = Some ifindex"
  then obtain raw n where n: "parse_unsigned U32_MAX raw = Some n" "n \<noteq> 0" "ifindex = of_nat n"
    by (auto simp: ifindex_for_name_def split: option.splits if_splits)
  have "n < 2 ^ 32" using from_str_radix_bound n(1) by (force simp: parse_unsigned_def U32_MAX_def)
  then have "unat (of_nat n :: u32) = n" by (simp add: unsigned_of_nat take_bit_nat_eq_self)
  then show ?thesis using n by auto
qed

text \<open>
  A resolved boundary accounts for every selector: each is either an interface or pending. The
  interfaces exist, have a valid index, and none is there twice, so no traffic is captured twice by
  one hook; a boundary with a repeated interface is refused.
\<close>

theorem resolved_boundary_accounts:
  assumes "resolve_selectors sys route_file selectors = Inr boundary"
  shows "length (rb_interfaces boundary) + length (rb_pending boundary) = length selectors
    \<and> distinct (map snd (rb_interfaces boundary))
    \<and> list_all (\<lambda>(ifindex, name). ifindex \<noteq> 0 \<and> ifindex_for_name sys name = Some ifindex) (rb_interfaces boundary)"
proof -
  obtain resolved pending where r: "resolve_each sys route_file selectors ([], []) = (resolved, pending)"
    by fastforce
  with assms have b: "rb_interfaces boundary = resolved" "rb_pending boundary = pending"
    "first_duplicate [] (map snd resolved) = None"
    by (auto simp: resolve_selectors_def Let_def split: if_splits option.splits)
  have each: "ifindex \<noteq> 0 \<and> ifindex_for_name sys name = Some ifindex" if "(ifindex, name) \<in> set resolved" for ifindex name
  proof -
    have "(ifindex, name) \<in> {(ifindex, name). ifindex_for_name sys name = Some ifindex}"
      using resolve_each_account [OF r] that by auto
    then show ?thesis using ifindex_for_name_nonzero by simp
  qed
  show ?thesis
    using resolve_each_account [OF r] first_duplicate_None [OF b(3)] each by (auto simp: b list_all_iff)
qed

text \<open>
  The overlap warning does not look at the selection: a bridge that is the only selected
  interface is reported together with ports of it that nobody selected.
\<close>

theorem bridge_warned_without_its_ports:
  assumes "info_named infos b = Some bridge" "ii_kind bridge = Bridge" "port \<in> set infos" "ii_master port = Some b"
  shows "\<exists>w \<in> set (boundary_warnings [b] infos). bw_kind w = BridgePortOverlap \<and> ii_name port \<in> set (bw_interfaces w)"
proof -
  have "info_named infos (ii_name port) \<noteq> None"
    using assms(3) by (auto simp: info_named_def map_of_eq_None_iff image_image)
  then have "ii_name port \<in> set (map ii_name (filter (\<lambda>c. info_named infos (ii_name c) \<noteq> None)
      (filter (\<lambda>c. ii_master c = Some b) infos)))" using assms(3,4) by auto
  moreover from this have "map ii_name (filter (\<lambda>c. info_named infos (ii_name c) \<noteq> None)
      (filter (\<lambda>c. ii_master c = Some b) infos)) \<noteq> []" by (metis list.set(1) empty_iff)
  ultimately have "\<exists>w \<in> set (bridge_warning infos b). bw_kind w = BridgePortOverlap \<and> ii_name port \<in> set (bw_interfaces w)"
    using assms(1,2) by (simp add: bridge_warning_def Let_def del: filter_filter)
  then show ?thesis by (auto simp: boundary_warnings_def Let_def)
qed

section \<open>Witnesses\<close>

text \<open>A host with an uplink, a bridge with one port, and no VPN.\<close>

definition entry_of :: "string \<Rightarrow> string \<Rightarrow> sys_entry" where
  "entry_of name ifindex =
     \<lparr>se_name = name, se_is_dir = True, se_ifindex = Some ifindex, se_type = Some ''1'', se_iflink = None,
      se_flags = Some ''0x1003'', se_bridge_dir = False, se_bonding = False, se_tun_flags = False,
      se_wireguard_dir = False, se_device = True, se_files = None, se_master = None\<rparr>"

definition host_net :: sys_net where
  "host_net = Some [entry_of ''eth0'' ''2'', entry_of ''eth1'' ''3'']"

lemma resolved_boundary_accounts_witness:
  "\<exists>boundary. resolve_selectors host_net None [ByName ''eth1'', ByName ''wg0'', ByIndex 2] = Inr boundary
     \<and> length (rb_interfaces boundary) + length (rb_pending boundary) = 3"
proof -
  have n: "parse_unsigned U32_MAX ''2'' = Some 2" "parse_unsigned U32_MAX ''3'' = Some 3"
    by (simp_all add: parse_unsigned_def from_str_radix_def digit_of_def U32_MAX_def)
  have t: "str_trim ''2'' = ''2''" "str_trim ''3'' = ''3''" by (simp_all add: trim_plain plain_text_def)
  have "name_for_index host_net 2 = Some ''eth0''"
    by (simp add: name_for_index_def host_net_def entry_of_def t n)
  then have "\<exists>boundary. resolve_selectors host_net None [ByName ''eth1'', ByName ''wg0'', ByIndex 2] = Inr boundary"
    by (simp add: resolve_selectors_def selector_name_def ifindex_for_name_def host_net_def entry_of_def t n)
  then obtain boundary where
    b: "resolve_selectors host_net None [ByName ''eth1'', ByName ''wg0'', ByIndex 2] = Inr boundary" by blast
  from b resolved_boundary_accounts [OF b] show ?thesis by (intro exI [of _ boundary]) simp
qed

definition bridge_info :: interface_info where
  "bridge_info = \<lparr>ii_name = ''br0'', ii_ifindex = 5, ii_kind = Bridge, ii_up = True, ii_default_route = False, ii_master = None\<rparr>"

definition port_info :: interface_info where
  "port_info = \<lparr>ii_name = ''eth1'', ii_ifindex = 3, ii_kind = Physical, ii_up = True, ii_default_route = False,
     ii_master = Some ''br0''\<rparr>"

lemma bridge_warned_without_its_ports_witness:
  "\<exists>w \<in> set (boundary_warnings [''br0''] [bridge_info, port_info]). ''eth1'' \<in> set (bw_interfaces w)"
proof -
  have "info_named [bridge_info, port_info] ''br0'' = Some bridge_info" "port_info \<in> set [bridge_info, port_info]"
    by (simp_all add: info_named_def bridge_info_def port_info_def)
  from bridge_warned_without_its_ports [OF this(1) _ this(2)] show ?thesis
    by (auto simp: bridge_info_def port_info_def)
qed

end
