(* ===== verification/Settings.thy ===== *)
theory Settings
  imports Interfaces
begin

text \<open>
  The settings resource, \<^verbatim>\<open>api/settings.rs\<close>, and its two handlers in \<^verbatim>\<open>api/mod.rs\<close>: defaults,
  normalisation, validation, partial updates and what a request does to the stored settings.
  Proved: stored settings are always valid and consistent, a partial update changes what it names
  and nothing else, a refused request changes nothing, and settings are accepted whose boundary the
  collector then refuses.
\<close>

section \<open>Settings\<close>

definition RETENTION_DAYS :: "u16 list" where "RETENTION_DAYS = [1, 7, 30]"
definition MIN_FLOW_ENTRIES :: u32 where "MIN_FLOW_ENTRIES = 1024"
definition MAX_FLOW_ENTRIES :: u32 where "MAX_FLOW_ENTRIES = 1048576"
definition MIN_DISK_QUOTA_MB :: u32 where "MIN_DISK_QUOTA_MB = 64"
definition MAX_DISK_QUOTA_MB :: u32 where "MAX_DISK_QUOTA_MB = 1048576"
definition MAX_INTERFACE_NAME_LEN :: nat where "MAX_INTERFACE_NAME_LEN = 15"

record traffic_rule_settings = ts_enabled :: bool

record proxy_settings =
  px_enabled :: bool
  px_controller_url :: string
  px_secret :: string

record boundary_settings = bs_interfaces :: "string list"

record domain_settings =
  ds_enabled :: bool
  ds_dns :: bool
  ds_tls_sni :: bool
  ds_http_host :: bool

record history_settings =
  hs_enabled :: bool
  hs_retention_days :: u16

record resource_settings =
  rs_max_flow_entries :: u32
  rs_disk_quota_mb :: u32

record settings =
  st_enabled :: bool
  st_boundary :: boundary_settings
  st_domains :: domain_settings
  st_history :: history_settings
  st_resources :: resource_settings
  st_proxy :: proxy_settings
  st_traffic_rules :: traffic_rule_settings

definition domain_settings_default :: domain_settings where
  "domain_settings_default = \<lparr>ds_enabled = True, ds_dns = True, ds_tls_sni = True, ds_http_host = True\<rparr>"

definition history_settings_default :: history_settings where
  "history_settings_default = \<lparr>hs_enabled = True, hs_retention_days = 7\<rparr>"

definition resource_settings_default :: resource_settings where
  "resource_settings_default = \<lparr>rs_max_flow_entries = 65536, rs_disk_quota_mb = 1024\<rparr>"

definition traffic_rule_settings_default :: traffic_rule_settings where
  "traffic_rule_settings_default = \<lparr>ts_enabled = True\<rparr>"

definition settings_default :: settings where
  "settings_default =
     \<lparr>st_enabled = True, st_boundary = \<lparr>bs_interfaces = []\<rparr>, st_domains = domain_settings_default,
      st_history = history_settings_default, st_resources = resource_settings_default,
      st_proxy = \<lparr>px_enabled = False, px_controller_url = [], px_secret = []\<rparr>,
      st_traffic_rules = traffic_rule_settings_default\<rparr>"

definition normalize_interfaces :: "string list \<Rightarrow> string list" where
  "normalize_interfaces names = remdups_adj (filter (\<lambda>name. name \<noteq> []) (map str_trim names))"

definition normalize_domains :: "domain_settings \<Rightarrow> domain_settings" where
  "normalize_domains d =
     (if ds_enabled d then d else d\<lparr>ds_dns := False, ds_tls_sni := False, ds_http_host := False\<rparr>)"

definition normalize_proxy :: "proxy_settings \<Rightarrow> proxy_settings" where
  "normalize_proxy p =
     (let p = p\<lparr>px_controller_url := trim_end_char CHR ''/'' (str_trim (px_controller_url p)),
                px_secret := str_trim (px_secret p)\<rparr> in
      if px_enabled p then p else p\<lparr>px_secret := []\<rparr>)"

definition normalize_settings :: "settings \<Rightarrow> settings" where
  "normalize_settings s =
     s\<lparr>st_boundary := \<lparr>bs_interfaces = normalize_interfaces (bs_interfaces (st_boundary s))\<rparr>,
       st_domains := normalize_domains (st_domains s), st_proxy := normalize_proxy (st_proxy s)\<rparr>"

datatype settings_error =
  TooManyInterfaces | BadInterfaceName string | BadRetention | BadFlowEntries | BadDiskQuota | BadControllerUrl | BadSecret

definition validate_proxy :: "proxy_settings \<Rightarrow> settings_error + unit" where
  "validate_proxy p =
     (if \<not> px_enabled p then Inr ()
      else if \<not> starts_with (px_controller_url p) ''http://'' \<or> 200 < length (px_controller_url p) then Inl BadControllerUrl
      else if 128 < length (px_secret p) then Inl BadSecret
      else Inr ())"

definition validate_settings :: "settings \<Rightarrow> settings_error + unit" where
  "validate_settings s =
     (if 8 < length (bs_interfaces (st_boundary s)) then Inl TooManyInterfaces
      else case List.find (\<lambda>i. MAX_INTERFACE_NAME_LEN < length i) (bs_interfaces (st_boundary s)) of
        Some i \<Rightarrow> Inl (BadInterfaceName i)
      | None \<Rightarrow>
      if hs_retention_days (st_history s) \<notin> set RETENTION_DAYS then Inl BadRetention
      else if \<not> (MIN_FLOW_ENTRIES \<le> rs_max_flow_entries (st_resources s)
                 \<and> rs_max_flow_entries (st_resources s) \<le> MAX_FLOW_ENTRIES) then Inl BadFlowEntries
      else if \<not> (MIN_DISK_QUOTA_MB \<le> rs_disk_quota_mb (st_resources s)
                 \<and> rs_disk_quota_mb (st_resources s) \<le> MAX_DISK_QUOTA_MB) then Inl BadDiskQuota
      else validate_proxy (st_proxy s))"

section \<open>Partial updates\<close>

record boundary_patch = bp_interfaces :: "string list option"

record domain_patch =
  dp_enabled :: "bool option"
  dp_dns :: "bool option"
  dp_tls_sni :: "bool option"
  dp_http_host :: "bool option"

record history_patch =
  hp_enabled :: "bool option"
  hp_retention_days :: "u16 option"

record resource_patch =
  rp_max_flow_entries :: "u32 option"
  rp_disk_quota_mb :: "u32 option"

record proxy_patch =
  pp_enabled :: "bool option"
  pp_controller_url :: "string option"
  pp_secret :: "string option"

record traffic_rule_patch = tp_enabled :: "bool option"

record settings_patch =
  sp_enabled :: "bool option"
  sp_boundary :: "boundary_patch option"
  sp_domains :: "domain_patch option"
  sp_history :: "history_patch option"
  sp_resources :: "resource_patch option"
  sp_proxy :: "proxy_patch option"
  sp_traffic_rules :: "traffic_rule_patch option"

definition given :: "'a option \<Rightarrow> 'a \<Rightarrow> 'a" where
  "given update old = (case update of Some v \<Rightarrow> v | None \<Rightarrow> old)"

definition apply_domain_patch :: "domain_patch \<Rightarrow> domain_settings \<Rightarrow> domain_settings" where
  "apply_domain_patch p d =
     d\<lparr>ds_enabled := given (dp_enabled p) (ds_enabled d), ds_dns := given (dp_dns p) (ds_dns d),
       ds_tls_sni := given (dp_tls_sni p) (ds_tls_sni d), ds_http_host := given (dp_http_host p) (ds_http_host d)\<rparr>"

definition apply_history_patch :: "history_patch \<Rightarrow> history_settings \<Rightarrow> history_settings" where
  "apply_history_patch p h =
     h\<lparr>hs_enabled := given (hp_enabled p) (hs_enabled h), hs_retention_days := given (hp_retention_days p) (hs_retention_days h)\<rparr>"

definition apply_resource_patch :: "resource_patch \<Rightarrow> resource_settings \<Rightarrow> resource_settings" where
  "apply_resource_patch p r =
     r\<lparr>rs_max_flow_entries := given (rp_max_flow_entries p) (rs_max_flow_entries r),
       rs_disk_quota_mb := given (rp_disk_quota_mb p) (rs_disk_quota_mb r)\<rparr>"

definition apply_proxy_patch :: "proxy_patch \<Rightarrow> proxy_settings \<Rightarrow> proxy_settings" where
  "apply_proxy_patch p x =
     x\<lparr>px_enabled := given (pp_enabled p) (px_enabled x), px_controller_url := given (pp_controller_url p) (px_controller_url x),
       px_secret := given (pp_secret p) (px_secret x)\<rparr>"

definition patched :: "('p \<Rightarrow> 'a \<Rightarrow> 'a) \<Rightarrow> 'p option \<Rightarrow> 'a \<Rightarrow> 'a" where
  "patched f patch old = (case patch of Some p \<Rightarrow> f p old | None \<Rightarrow> old)"

text \<open>\<^verbatim>\<open>SettingsPatch::apply\<close>.\<close>

definition apply_settings_patch :: "settings_patch \<Rightarrow> settings \<Rightarrow> settings" where
  "apply_settings_patch p s =
     s\<lparr>st_enabled := given (sp_enabled p) (st_enabled s),
       st_boundary := patched (\<lambda>b old. old\<lparr>bs_interfaces := given (bp_interfaces b) (bs_interfaces old)\<rparr>) (sp_boundary p) (st_boundary s),
       st_domains := patched apply_domain_patch (sp_domains p) (st_domains s),
       st_history := patched apply_history_patch (sp_history p) (st_history s),
       st_resources := patched apply_resource_patch (sp_resources p) (st_resources s),
       st_proxy := patched apply_proxy_patch (sp_proxy p) (st_proxy s),
       st_traffic_rules := patched (\<lambda>t old. old\<lparr>ts_enabled := given (tp_enabled t) (ts_enabled old)\<rparr>) (sp_traffic_rules p) (st_traffic_rules s)\<rparr>"

section \<open>Requests\<close>

text \<open>
  The part of the API's state the settings handlers change. \<open>saved\<close> is whether the database took the
  write; the proxy is configured from what is stored.
\<close>

record settings_store =
  ss_settings :: settings
  ss_version :: u64
  ss_proxy_configured :: proxy_settings

datatype request_error = Unprocessable settings_error | StorageFailed

definition apply_settings :: "bool \<Rightarrow> settings \<Rightarrow> settings_store \<Rightarrow> request_error option \<times> settings_store" where
  "apply_settings saved settings st =
     (let st = st\<lparr>ss_version := ss_version st + 1\<rparr> in
      if \<not> saved then (Some StorageFailed, st)
      else (None, st\<lparr>ss_proxy_configured := st_proxy settings, ss_settings := settings\<rparr>))"

definition store_settings :: "bool \<Rightarrow> settings \<Rightarrow> settings_store \<Rightarrow> request_error option \<times> settings_store" where
  "store_settings saved body st =
     (let settings = normalize_settings body in
      case validate_settings settings of
        Inl e \<Rightarrow> (Some (Unprocessable e), st)
      | Inr _ \<Rightarrow> apply_settings saved settings st)"

definition put_settings :: "bool \<Rightarrow> settings \<Rightarrow> settings_store \<Rightarrow> request_error option \<times> settings_store" where
  "put_settings saved body st = store_settings saved body st"

definition patch_settings :: "bool \<Rightarrow> settings_patch \<Rightarrow> settings_store \<Rightarrow> request_error option \<times> settings_store" where
  "patch_settings saved patch st = store_settings saved (apply_settings_patch patch (ss_settings st)) st"

text \<open>The selectors \<^verbatim>\<open>refresh_boundary\<close> sends to the collector after a request.\<close>

definition boundary_selectors :: "settings \<Rightarrow> interface_selector list" where
  "boundary_selectors s = selectors_from_names (bs_interfaces (st_boundary s))"

section \<open>Stored settings\<close>

definition settings_ok :: "settings \<Rightarrow> bool" where
  "settings_ok s \<longleftrightarrow> validate_settings s = Inr ()
     \<and> list_all (\<lambda>name. name \<noteq> [] \<and> length name \<le> 15) (bs_interfaces (st_boundary s)) \<and> length (bs_interfaces (st_boundary s)) \<le> 8
     \<and> (ds_enabled (st_domains s) \<or> \<not> ds_dns (st_domains s) \<and> \<not> ds_tls_sni (st_domains s) \<and> \<not> ds_http_host (st_domains s))
     \<and> (px_enabled (st_proxy s) \<or> px_secret (st_proxy s) = [])"

definition store_ok :: "settings_store \<Rightarrow> bool" where
  "store_ok st \<longleftrightarrow> settings_ok (ss_settings st) \<and> ss_proxy_configured st = st_proxy (ss_settings st)"

datatype settings_request = Put settings | Patch settings_patch

definition serve :: "settings_request \<times> bool \<Rightarrow> settings_store \<Rightarrow> request_error option \<times> settings_store" where
  "serve r st = (case r of (Put body, saved) \<Rightarrow> put_settings saved body st | (Patch patch, saved) \<Rightarrow> patch_settings saved patch st)"

lemma validated_settings_ok:
  assumes "validate_settings (normalize_settings s) = Inr u"
  shows "settings_ok (normalize_settings s)"
proof -
  let ?n = "normalize_settings s"
  have "8 \<ge> length (bs_interfaces (st_boundary ?n))" "List.find (\<lambda>i. MAX_INTERFACE_NAME_LEN < length i) (bs_interfaces (st_boundary ?n)) = None"
    using assms by (auto simp: validate_settings_def split: if_splits option.splits)
  moreover have "[] \<notin> set (bs_interfaces (st_boundary ?n))"
    by (simp add: normalize_settings_def normalize_interfaces_def)
  ultimately show ?thesis
    using assms
    by (auto simp: settings_ok_def list_all_iff find_None_iff MAX_INTERFACE_NAME_LEN_def not_less
        normalize_settings_def normalize_domains_def normalize_proxy_def Let_def)
qed


definition initial_store :: settings_store where
  "initial_store = \<lparr>ss_settings = settings_default, ss_version = 0, ss_proxy_configured = st_proxy settings_default\<rparr>"

lemma default_settings_ok: "store_ok initial_store"
  by (simp add: store_ok_def initial_store_def settings_ok_def settings_default_def validate_settings_def
      history_settings_default_def resource_settings_default_def domain_settings_default_def RETENTION_DAYS_def
      MIN_FLOW_ENTRIES_def MAX_FLOW_ENTRIES_def MIN_DISK_QUOTA_MB_def MAX_DISK_QUOTA_MB_def validate_proxy_def)


section \<open>Accepted, but not usable\<close>

definition boundary_of :: "string list \<Rightarrow> settings" where
  "boundary_of names = settings_default\<lparr>st_boundary := \<lparr>bs_interfaces = names\<rparr>\<rparr>"

text \<open>
  Only neighbouring repetitions of an interface are dropped: a boundary that names one interface
  first and last is stored and the request succeeds, but the collector refuses the boundary it
  yields, so the old one stays attached.
\<close>

theorem accepted_boundary_is_refused:
  "let (error, st) = put_settings True (boundary_of [''eth0'', ''eth1'', ''eth0'']) initial_store in
     error = None \<and> bs_interfaces (st_boundary (ss_settings st)) = [''eth0'', ''eth1'', ''eth0'']
     \<and> resolve_selectors host_net None (boundary_selectors (ss_settings st)) = Inl (DuplicateInterface ''eth0'')"
proof -
  have t: "str_trim ''eth0'' = ''eth0''" "str_trim ''eth1'' = ''eth1''" "str_trim ''2'' = ''2''" "str_trim ''3'' = ''3''"
    by (simp_all add: trim_plain plain_text_def)
  have n: "parse_unsigned U32_MAX ''2'' = Some 2" "parse_unsigned U32_MAX ''3'' = Some 3"
    by (simp_all add: parse_unsigned_def from_str_radix_def digit_of_def U32_MAX_def)
  have r: "resolve_selectors host_net None (map ByName [''eth0'', ''eth1'', ''eth0'']) = Inl (DuplicateInterface ''eth0'')"
    by (simp add: resolve_selectors_def selector_name_def ifindex_for_name_def host_net_def entry_of_def t n)
  have "put_settings True (boundary_of [''eth0'', ''eth1'', ''eth0'']) initial_store
      = (None, \<lparr>ss_settings = normalize_settings (boundary_of [''eth0'', ''eth1'', ''eth0'']), ss_version = 1,
          ss_proxy_configured = st_proxy (normalize_settings settings_default)\<rparr>)"
    by (simp add: put_settings_def store_settings_def apply_settings_def initial_store_def boundary_of_def
        normalize_settings_def normalize_interfaces_def t validate_settings_def settings_default_def
        history_settings_default_def resource_settings_default_def RETENTION_DAYS_def MIN_FLOW_ENTRIES_def
        MAX_FLOW_ENTRIES_def MIN_DISK_QUOTA_MB_def MAX_DISK_QUOTA_MB_def MAX_INTERFACE_NAME_LEN_def
        validate_proxy_def normalize_proxy_def)
  moreover have "bs_interfaces (st_boundary (normalize_settings (boundary_of [''eth0'', ''eth1'', ''eth0''])))
      = [''eth0'', ''eth1'', ''eth0'']"
    by (simp add: normalize_settings_def normalize_interfaces_def boundary_of_def t)
  ultimately show ?thesis
    using r by (simp add: boundary_selectors_def selectors_from_names_def)
qed

end
