(* ===== verification/Proxy_Http.thy ===== *)
theory Proxy_Http
  imports Text "HOL-Library.Sublist"
begin

text \<open>
  The HTTP client of the proxy controller, \<^verbatim>\<open>proxy/http.rs\<close>: the reading of its URL, the response
  head as \<^verbatim>\<open>httparse\<close> reports it, the chunked body. The head parser and the exchange over the
  socket are arguments. Proved: a chunked body decodes to its chunks, the decoder stops on every
  input, it never invents bytes, and a chunk size near the greatest number makes it panic.
\<close>

section \<open>Chunked bodies\<close>

datatype http_error =
  UnsupportedUrl
| NoHost
| ResolveFailed
| ExchangeFailed
| IncompleteHead
| MalformedHead
| NoStatus
| Unauthorized
| BadStatus "u8 list"
| MissingSizeLine
| SizeNotUtf8
| BadChunkSize
| TruncatedChunk
| MissingTerminator

text \<open>The index of the first carriage return and line feed, \<^verbatim>\<open>windows(2).position\<close>.\<close>

fun find_crlf :: "u8 list \<Rightarrow> nat option" where
  "find_crlf (a # b # rest) = (if a = 13 \<and> b = 10 then Some 0 else map_option Suc (find_crlf (b # rest)))"
| "find_crlf _ = None"

definition USIZE_MAX :: nat where "USIZE_MAX = 18446744073709551615"

definition chunk_size :: "u8 list \<Rightarrow> http_error + nat" where
  "chunk_size line =
     (case from_utf8 line of
        None \<Rightarrow> Inl SizeNotUtf8
      | Some size_line \<Rightarrow>
     (case from_str_radix 16 USIZE_MAX (map of_char (str_trim (hd (split_at CHR '';'' size_line)))) of
        None \<Rightarrow> Inl BadChunkSize
      | Some n \<Rightarrow> Inr n))"

lemma find_crlf_bound: "find_crlf bs = Some n \<Longrightarrow> n + 2 \<le> length bs \<and> bs ! n = 13 \<and> bs ! (n + 1) = 10"
proof (induction bs arbitrary: n rule: find_crlf.induct)
  case (1 a b rest)
  then show ?case by (cases n) (auto split: if_splits)
qed auto

text \<open>
  One round of the loop: it returns, or goes on at a later position with more bytes. \<^const>\<open>None\<close> is a
  panic. The end of a chunk is an addition of \<^verbatim>\<open>usize\<close> values: past the greatest one it panics where
  additions are checked, and where they wrap the end lies before the start and the slice panics.
\<close>

definition chunk_round :: "u8 list \<Rightarrow> nat \<Rightarrow> u8 list \<Rightarrow> (http_error + u8 list) option + nat \<times> u8 list" where
  "chunk_round body position decoded =
     (case find_crlf (drop position body) of
        None \<Rightarrow> Inl (Some (Inl MissingSizeLine))
      | Some n \<Rightarrow>
     (case chunk_size (take n (drop position body)) of
        Inl e \<Rightarrow> Inl (Some (Inl e))
      | Inr len \<Rightarrow>
      let position = position + n + 2 in
      if len = 0 then Inl (Some (Inr decoded))
      else if USIZE_MAX < position + len then Inl None
      else if length body < position + len then Inl (Some (Inl TruncatedChunk))
      else let decoded = decoded @ take len (drop position body); position = position + len in
      if take 2 (drop position body) \<noteq> [13, 10] then Inl (Some (Inl MissingTerminator))
      else Inr (position + 2, decoded)))"

lemma chunk_size_nonempty: "chunk_size line = Inr n \<Longrightarrow> line \<noteq> []"
  by (auto simp: chunk_size_def from_utf8_def from_str_radix_def str_trim_def str_chars_def str_of_bytes_def)

lemma chunk_round_Inr:
  "chunk_round body position decoded = Inr (position', decoded') \<Longrightarrow>
     \<exists>n len. find_crlf (drop position body) = Some n \<and> chunk_size (take n (drop position body)) = Inr len \<and> len \<noteq> 0
       \<and> position + n + 2 + len \<le> length body \<and> take 2 (drop (position + n + 2 + len) body) = [13, 10]
       \<and> position' = position + n + 2 + len + 2 \<and> decoded' = decoded @ take len (drop (position + n + 2) body)"
  by (auto simp: chunk_round_def Let_def split: option.splits sum.splits if_splits)

lemma chunk_round_progress:
  assumes "chunk_round body position decoded = Inr (position', decoded')"
  shows "position + 6 \<le> position'" "position' \<le> length body"
proof -
  obtain n len where n: "find_crlf (drop position body) = Some n"
    and len: "chunk_size (take n (drop position body)) = Inr len" "len \<noteq> 0"
    and fits: "position + n + 2 + len \<le> length body" "take 2 (drop (position + n + 2 + len) body) = [13, 10]"
    and p: "position' = position + n + 2 + len + 2"
    using chunk_round_Inr [OF assms] by blast
  have "n \<noteq> 0" using chunk_size_nonempty [OF len(1)] by auto
  then show "position + 6 \<le> position'" using len(2) p by simp
  have "length (take 2 (drop (position + n + 2 + len) body)) = 2" unfolding fits(2) by simp
  then show "position' \<le> length body" using p by simp
qed

function decode_chunks :: "u8 list \<Rightarrow> nat \<Rightarrow> u8 list \<Rightarrow> (http_error + u8 list) option" where
  "decode_chunks body position decoded =
     (case chunk_round body position decoded of
        Inl result \<Rightarrow> result
      | Inr (position, decoded) \<Rightarrow> decode_chunks body position decoded)"
  by auto

termination
proof (relation "measure (\<lambda>(body, position, _). length body - position)")
  fix body decoded next_state p d and position :: nat
  assume "chunk_round body position decoded = Inr next_state" "(p, d) = next_state"
  then have "chunk_round body position decoded = Inr (p, d)" by simp
  from chunk_round_progress [OF this]
  show "((body, p, d), body, position, decoded) \<in> measure (\<lambda>(body, position, _). length body - position)" by simp
qed simp

declare decode_chunks.simps [simp del]

definition decode_body :: "bool \<Rightarrow> u8 list \<Rightarrow> (http_error + u8 list) option" where
  "decode_body chunked body = (if \<not> chunked then Some (Inr body) else decode_chunks body 0 [])"

section \<open>Request and response\<close>

record http_target =
  ht_url :: string
  ht_secret :: string

text \<open>What \<^verbatim>\<open>httparse\<close> makes of a response head: its length, the status, the headers.\<close>

datatype head_parse = HeadComplete nat "u16 option" "(string \<times> u8 list) list" | HeadPartial | HeadError

definition parse_url :: "string \<Rightarrow> http_error + string \<times> string" where
  "parse_url url =
     (case strip_prefix url ''http://'' of
        None \<Rightarrow> Inl UnsupportedUrl
      | Some rest \<Rightarrow>
      let (authority, path) = (case split_once CHR ''/'' rest of
            Some (authority, path) \<Rightarrow> (authority, CHR ''/'' # path)
          | None \<Rightarrow> (rest, [])) in
      if authority = [] then Inl NoHost else Inr (authority, path))"

definition lower_byte :: "u8 \<Rightarrow> u8" where
  "lower_byte b = (if 65 \<le> b \<and> b \<le> 90 then b + 32 else b)"

definition eq_ignore_ascii_case :: "u8 list \<Rightarrow> u8 list \<Rightarrow> bool" where
  "eq_ignore_ascii_case a b \<longleftrightarrow> map lower_byte a = map lower_byte b"

definition ascii_space :: "u8 \<Rightarrow> bool" where
  "ascii_space b \<longleftrightarrow> b = 32 \<or> b = 9 \<or> b = 10 \<or> b = 12 \<or> b = 13"

definition trim_ascii :: "u8 list \<Rightarrow> u8 list" where
  "trim_ascii bs = rev (dropWhile ascii_space (rev (dropWhile ascii_space bs)))"

fun split_bytes :: "u8 \<Rightarrow> u8 list \<Rightarrow> u8 list list" where
  "split_bytes sep [] = [[]]"
| "split_bytes sep (b # bs) =
     (if b = sep then [] # split_bytes sep bs else (b # hd (split_bytes sep bs)) # tl (split_bytes sep bs))"

definition is_chunked :: "(string \<times> u8 list) list \<Rightarrow> bool" where
  "is_chunked headers \<longleftrightarrow>
     list_ex (\<lambda>(name, value). eq_ignore_ascii_case (bytes_of_str name) (bytes_of_str ''transfer-encoding'')
       \<and> list_ex (\<lambda>token. eq_ignore_ascii_case (trim_ascii token) (bytes_of_str ''chunked'')) (split_bytes 44 value))
     headers"

definition parse_response :: "(u8 list \<Rightarrow> head_parse) \<Rightarrow> u8 list \<Rightarrow> http_error + u16 \<times> bool \<times> u8 list" where
  "parse_response parse_head raw =
     (case parse_head raw of
        HeadPartial \<Rightarrow> Inl IncompleteHead
      | HeadError \<Rightarrow> Inl MalformedHead
      | HeadComplete head_len code headers \<Rightarrow>
          (case code of
             None \<Rightarrow> Inl NoStatus
           | Some status \<Rightarrow> Inr (status, is_chunked headers, drop head_len raw)))"

definition request_text :: "string \<Rightarrow> string \<Rightarrow> string \<Rightarrow> string" where
  "request_text authority path secret =
     ''GET '' @ path @ ''/connections HTTP/1.1'' @ [CHR 0x0D, CHR 0x0A]
     @ ''Host: '' @ authority @ [CHR 0x0D, CHR 0x0A]
     @ ''Authorization: Bearer '' @ secret @ [CHR 0x0D, CHR 0x0A]
     @ ''Connection: close'' @ [CHR 0x0D, CHR 0x0A, CHR 0x0D, CHR 0x0A]"

text \<open>
  \<open>exchange\<close> resolves the authority, connects, sends the request and reads to the end.
\<close>

definition fetch_body ::
  "(string \<Rightarrow> string \<Rightarrow> http_error + u8 list) \<Rightarrow> (u8 list \<Rightarrow> head_parse) \<Rightarrow> http_target
     \<Rightarrow> (http_error + u8 list) option" where
  "fetch_body exchange parse_head target =
     (case parse_url (ht_url target) of
        Inl e \<Rightarrow> Some (Inl e)
      | Inr (authority, path) \<Rightarrow>
     (case exchange authority (request_text authority path (ht_secret target)) of
        Inl e \<Rightarrow> Some (Inl e)
      | Inr raw \<Rightarrow>
     (case parse_response parse_head raw of
        Inl e \<Rightarrow> Some (Inl e)
      | Inr (status, chunked, body) \<Rightarrow>
          if status \<noteq> 200
          then (if status = 401 then Some (Inl Unauthorized) else Some (Inl (BadStatus (takeWhile (\<lambda>b. b \<noteq> 10) raw))))
          else decode_body chunked body)))"

section \<open>Properties\<close>

lemma chunk_size_plain:
  "plain_text s \<Longrightarrow> CHR '';'' \<notin> set s \<Longrightarrow> chunk_size (bytes_of_str s) =
     (case from_str_radix 16 USIZE_MAX (map of_char s) of None \<Rightarrow> Inl BadChunkSize | Some n \<Rightarrow> Inr n)"
  by (simp add: chunk_size_def from_utf8_plain split_at_none trim_plain split: option.split)

text \<open>A chunk on the wire: a size line, the data, and a terminator.\<close>

definition chunk_wire :: "u8 list \<times> u8 list \<Rightarrow> u8 list" where
  "chunk_wire c = (case c of (line, data) \<Rightarrow> line @ [13, 10] @ data @ [13, 10])"

definition chunk_fits :: "u8 list \<times> u8 list \<Rightarrow> bool" where
  "chunk_fits c \<longleftrightarrow> (case c of (line, data) \<Rightarrow>
     find_crlf line = None \<and> chunk_size line = Inr (length data) \<and> data \<noteq> [])"

lemma chunk_wire_pair [simp]: "chunk_wire (line, data) = line @ 13 # 10 # data @ [13, 10]"
  by (simp add: chunk_wire_def)

lemma find_crlf_append: "find_crlf line = None \<Longrightarrow> find_crlf (line @ 13 # 10 # rest) = Some (length line)"
  by (induction line rule: find_crlf.induct) (auto split: if_splits)

lemma decode_chunks_step:
  assumes "drop position body = line @ 13 # 10 # rest" "find_crlf line = None" "chunk_size line = Inr len"
  shows "decode_chunks body position decoded =
    (let position = position + length line + 2 in
     if len = 0 then Some (Inr decoded)
     else if USIZE_MAX < position + len then None
     else if length body < position + len then Some (Inl TruncatedChunk)
     else if take 2 (drop len rest) \<noteq> [13, 10] then Some (Inl MissingTerminator)
     else decode_chunks body (position + len + 2) (decoded @ take len rest))"
proof -
  have d: "drop (position + length line + 2) body = rest"
    using arg_cong [OF assms(1), of "drop (length line + 2)"] by (simp add: ac_simps)
  then have "drop (position + length line + 2 + len) body = drop len rest" by (metis drop_drop add.commute)
  with d assms show ?thesis
    by (subst decode_chunks.simps) (simp add: chunk_round_def find_crlf_append Let_def ac_simps)
qed

text \<open>
  A chunked body decodes to the concatenation of its chunks, however their sizes are spelled
  (case, leading zeros, extensions after a semicolon) and whatever follows the last chunk.
\<close>

theorem decode_body_roundtrip:
  assumes "list_all chunk_fits chunks" "find_crlf final = None" "chunk_size final = Inr 0"
    and "length body \<le> USIZE_MAX" "body = concat (map chunk_wire chunks) @ final @ [13, 10] @ trailer"
  shows "decode_body True body = Some (Inr (concat (map snd chunks)))"
proof -
  have "decode_chunks body position decoded = Some (Inr (decoded @ concat (map snd cs)))"
    if "list_all chunk_fits cs" "drop position body = concat (map chunk_wire cs) @ final @ [13, 10] @ trailer"
    for cs position decoded
    using that
  proof (induction cs arbitrary: position decoded)
    case Nil
    then show ?case using decode_chunks_step [of position body final trailer 0] assms(2,3) by (simp add: Let_def)
  next
    case (Cons c cs)
    obtain line data where c: "c = (line, data)" by (cases c)
    let ?rest = "data @ 13 # 10 # concat (map chunk_wire cs) @ final @ [13, 10] @ trailer"
    have d: "drop position body = line @ 13 # 10 # ?rest" using Cons.prems(2) by (simp add: c)
    have f: "find_crlf line = None" "chunk_size line = Inr (length data)" "data \<noteq> []"
      using Cons.prems(1) by (simp_all add: c chunk_fits_def)
    have "length (drop position body) = length line + 2 + length ?rest" unfolding d by simp
    then have len: "position + length line + 2 + length data + 2 \<le> length body" by auto
    have "drop (length (chunk_wire c) + position) body
        = drop (length (chunk_wire c)) (chunk_wire c @ concat (map chunk_wire cs) @ final @ [13, 10] @ trailer)"
      using Cons.prems(2) by (simp only: drop_drop [symmetric]) simp
    then have "drop (length (chunk_wire c) + position) body = concat (map chunk_wire cs) @ final @ [13, 10] @ trailer"
      by (simp del: chunk_wire_pair)
    then have "drop (position + length line + 2 + length data + 2) body = concat (map chunk_wire cs) @ final @ [13, 10] @ trailer"
      by (simp add: c ac_simps)
    from Cons.IH [OF _ this] Cons.prems(1)
    show ?case using decode_chunks_step [OF d f(1,2)] len f(3) assms(4) by (simp add: Let_def c)
  qed
  from this [OF assms(1), of 0 "[]"] show ?thesis by (simp add: decode_body_def assms(5))
qed

lemma subseq_extend:
  assumes "subseq acc (take p body)" "p \<le> q" "q + len \<le> length body"
  shows "subseq (acc @ take len (drop q body)) (take (q + len) body)"
proof -
  have "subseq (take p body) (take q body)"
    using take_is_prefix [of p "take q body"] assms(2) by (simp add: min_absorb1 prefix_imp_subseq)
  then have "subseq acc (take q body)" using assms(1) subseq_order.order_trans by blast
  then have "subseq (acc @ take len (drop q body)) (take q body @ take len (drop q body))"
    by (intro list_emb_append_mono) auto
  then show ?thesis by (simp add: take_add)
qed

text \<open>
  The decoder never invents or reorders bytes: when it accepts a body, what it returns are bytes
  of the body in their order.
\<close>

theorem decoded_bytes_from_body:
  assumes "decode_body chunked body = Some (Inr decoded)"
  shows "subseq decoded body"
proof -
  have "decode_chunks body position acc = Some (Inr decoded) \<Longrightarrow> subseq acc (take position body) \<Longrightarrow> subseq decoded body"
    for position acc
  proof (induction body position acc rule: decode_chunks.induct)
    case (1 body position acc)
    show ?case
    proof (cases "chunk_round body position acc")
      case (Inl result)
      then have "decoded = acc"
        using 1(2) by (auto simp: decode_chunks.simps [of body] chunk_round_def Let_def split: option.splits sum.splits if_splits)
      then show ?thesis
        using 1(3) take_is_prefix [of position body] subseq_order.order_trans prefix_imp_subseq by blast
    next
      case (Inr next_state)
      obtain q len where q: "next_state = (q + len + 2, acc @ take len (drop q body))" "position \<le> q" "q + len \<le> length body"
      proof -
        obtain p d where pd: "next_state = (p, d)" by fastforce
        obtain n len where "position + n + 2 + len \<le> length body" "p = position + n + 2 + len + 2"
          "d = acc @ take len (drop (position + n + 2) body)"
          using chunk_round_Inr [OF Inr [unfolded pd]] by blast
        then show thesis using that [of "position + n + 2" len] pd by simp
      qed
      have "subseq (acc @ take len (drop q body)) (take (q + len) body)"
        using subseq_extend [OF 1(3) q(2,3)] .
      then have "subseq (acc @ take len (drop q body)) (take (q + len + 2) body)"
        using take_is_prefix [of "q + len" "take (q + len + 2) body"] subseq_order.order_trans prefix_imp_subseq
        by (simp add: min_absorb1) blast
      moreover have "decode_chunks body (q + len + 2) (acc @ take len (drop q body)) = Some (Inr decoded)"
        using 1(2) Inr q(1) by (simp add: decode_chunks.simps [of body position])
      ultimately show ?thesis using 1(1) [OF Inr q(1) [symmetric]] by simp
    qed
  qed
  then show ?thesis using assms by (cases chunked) (auto simp: decode_body_def)
qed

text \<open>The loop cut off after a number of rounds; \<^const>\<open>None\<close> is that it was still running.\<close>

fun decode_rounds :: "nat \<Rightarrow> u8 list \<Rightarrow> nat \<Rightarrow> u8 list \<Rightarrow> (http_error + u8 list) option option" where
  "decode_rounds 0 body position decoded = None"
| "decode_rounds (Suc n) body position decoded =
     (case chunk_round body position decoded of
        Inl result \<Rightarrow> Some result
      | Inr (position, decoded) \<Rightarrow> decode_rounds n body position decoded)"

text \<open>
  C22: the decoder's loop ends on every input: every round but the last consumes at least six bytes,
  so a sixth of the body's length in rounds, and one more, is enough to have its result.
\<close>

theorem decoder_terminates:
  "decode_rounds (length body div 6 + 1) body 0 [] = Some (decode_chunks body 0 [])"
proof -
  have "decode_rounds (n + 1) body position decoded = Some (decode_chunks body position decoded)"
    if "length body < position + 6 * (n + 1)" "position \<le> length body" for n position decoded
    using that
  proof (induction n arbitrary: position decoded)
    case 0
    then show ?case
      using chunk_round_progress [of body position decoded]
      by (cases "chunk_round body position decoded") (auto simp: decode_chunks.simps [of body position])
  next
    case (Suc n)
    show ?case
    proof (cases "chunk_round body position decoded")
      case (Inr next_state)
      obtain p d where p: "next_state = (p, d)" by fastforce
      note c = chunk_round_progress [OF Inr [unfolded p]]
      have "decode_rounds (n + 1) body p d = Some (decode_chunks body p d)"
        using Suc.prems c by (intro Suc.IH) auto
      then show ?thesis using Inr p by (simp add: decode_chunks.simps [of body position])
    qed (simp add: decode_chunks.simps [of body position])
  qed
  then show ?thesis using div_less_iff_less_mult [of 6 "length body" "length body div 6 + 1"] by simp
qed

text \<open>
  C1: a controller can make the poller panic: a body whose first chunk size is the greatest number
  overflows the addition of its end.
\<close>

definition huge_chunk :: "u8 list" where
  "huge_chunk = bytes_of_str ''ffffffffffffffff'' @ [13, 10, 0]"

theorem huge_chunk_panics: "decode_body True huge_chunk = None"
proof -
  have "digit_of 16 102 = Some 15" by (simp add: digit_of_def)
  then have "from_str_radix 16 USIZE_MAX (map of_char ''ffffffffffffffff'') = Some USIZE_MAX"
    by (simp add: from_str_radix_def USIZE_MAX_def)
  moreover have "chunk_size (bytes_of_str ''ffffffffffffffff'')
      = (case from_str_radix 16 USIZE_MAX (map of_char ''ffffffffffffffff'') of None \<Rightarrow> Inl BadChunkSize | Some n \<Rightarrow> Inr n)"
    by (rule chunk_size_plain) (simp_all add: plain_text_def)
  ultimately have "chunk_size (bytes_of_str ''ffffffffffffffff'') = Inr USIZE_MAX" by (simp only: option.case)
  moreover have "find_crlf (bytes_of_str ''ffffffffffffffff'') = None" by (simp add: bytes_of_str_def)
  ultimately show ?thesis
    using decode_chunks_step [of 0 huge_chunk "bytes_of_str ''ffffffffffffffff''" "[0]" USIZE_MAX "[]"]
    by (simp add: decode_body_def huge_chunk_def Let_def USIZE_MAX_def)
qed

text \<open>Two chunks, one with an extension and capitals in its size, and a trailer after the last.\<close>

definition sample_chunks :: "(u8 list \<times> u8 list) list" where
  "sample_chunks = [(bytes_of_str ''3;x=1'', [1, 2, 3]), (bytes_of_str ''0A'', replicate 10 7)]"

lemma sample_chunks_fit: "list_all chunk_fits sample_chunks" "find_crlf (bytes_of_str ''0'') = None" "chunk_size (bytes_of_str ''0'') = Inr 0"
  by (simp_all add: sample_chunks_def chunk_fits_def chunk_size_def from_utf8_plain trim_plain plain_text_def
      from_str_radix_def digit_of_def USIZE_MAX_def) (simp_all add: bytes_of_str_def)

lemma decode_body_roundtrip_witness:
  "decode_body True (concat (map chunk_wire sample_chunks) @ bytes_of_str ''0'' @ [13, 10] @ [13, 10])
     = Some (Inr ([1, 2, 3] @ replicate 10 7))"
proof -
  have "length (concat (map chunk_wire sample_chunks) @ bytes_of_str ''0'' @ [13, 10] @ [13, 10]) \<le> USIZE_MAX"
    by (simp add: sample_chunks_def USIZE_MAX_def bytes_of_str_def)
  from decode_body_roundtrip [OF sample_chunks_fit this refl] show ?thesis by (simp add: sample_chunks_def)
qed

lemma decoded_bytes_from_body_witness: "subseq [1, 2, 3] ([1, 2, 3] :: u8 list)"
  using decoded_bytes_from_body [of False "[1, 2, 3]" "[1, 2, 3]"] by (simp add: decode_body_def)

end
