(* ===== verification/Net_Text.thy ===== *)
theory Net_Text
  imports Text
begin

text \<open>
  Addresses as text, as \<^verbatim>\<open>std::net\<close> reads them: a parser over the bytes that are left, for IPv4, IPv6 and
  socket addresses. Proved: an IPv4 text is accepted exactly when it is what the formatter writes, and reads
  back as the same address; an IPv6 address read from text has sixteen octets.
\<close>

section \<open>Pieces\<close>

text \<open>A reader takes the bytes that are left and returns a value with what is left behind it.\<close>

type_synonym 'a reader = "nat list \<Rightarrow> ('a \<times> nat list) option"

definition read_char :: "nat \<Rightarrow> unit reader" where
  "read_char c bs = (case bs of b # rest \<Rightarrow> if b = c then Some ((), rest) else None | [] \<Rightarrow> None)"

text \<open>The digits in front, with the greatest value and the greatest number of digits checked on the way.\<close>

fun read_digits :: "nat \<Rightarrow> nat \<Rightarrow> nat option \<Rightarrow> nat \<Rightarrow> nat \<Rightarrow> (nat \<times> nat) reader" where
  "read_digits radix largest max_digits acc seen [] = Some ((acc, seen), [])"
| "read_digits radix largest max_digits acc seen (b # bs) =
     (case digit_of radix b of
        None \<Rightarrow> Some ((acc, seen), b # bs)
      | Some d \<Rightarrow>
          if largest < acc * radix + d then None
          else if (case max_digits of Some m \<Rightarrow> m < seen + 1 | None \<Rightarrow> False) then None
          else read_digits radix largest max_digits (acc * radix + d) (seen + 1) bs)"

definition read_number_text :: "nat \<Rightarrow> nat \<Rightarrow> nat option \<Rightarrow> bool \<Rightarrow> nat reader" where
  "read_number_text radix largest max_digits allow_zero_prefix bs =
     (case read_digits radix largest max_digits 0 0 bs of
        None \<Rightarrow> None
      | Some ((v, seen), rest) \<Rightarrow>
          if seen = 0 then None
          else if \<not> allow_zero_prefix \<and> bs \<noteq> [] \<and> hd bs = 48 \<and> 1 < seen then None
          else Some (v, rest))"

text \<open>A separator in front of every item but the first.\<close>

definition read_separator :: "nat \<Rightarrow> nat \<Rightarrow> 'a reader \<Rightarrow> 'a reader" where
  "read_separator sep i item bs =
     (if 0 < i then (case read_char sep bs of None \<Rightarrow> None | Some (_, rest) \<Rightarrow> item rest) else item bs)"

section \<open>IPv4\<close>

definition read_octet :: "u8 reader" where
  "read_octet bs = map_option (\<lambda>(v, rest). (of_nat v, rest)) (read_number_text 10 255 (Some 3) False bs)"

fun read_octets :: "nat \<Rightarrow> nat \<Rightarrow> u8 list reader" where
  "read_octets i 0 bs = Some ([], bs)"
| "read_octets i (Suc n) bs =
     (case read_separator 46 i read_octet bs of
        None \<Rightarrow> None
      | Some (o1, rest) \<Rightarrow> map_option (\<lambda>(os, rest). (o1 # os, rest)) (read_octets (i + 1) n rest))"

definition ipv4_of_octets :: "u8 list \<Rightarrow> ipv4" where
  "ipv4_of_octets os = Ipv4 (os ! 0) (os ! 1) (os ! 2) (os ! 3)"

definition read_ipv4_addr :: "ipv4 reader" where
  "read_ipv4_addr bs = map_option (\<lambda>(os, rest). (ipv4_of_octets os, rest)) (read_octets 0 4 bs)"

section \<open>IPv6\<close>

text \<open>
  Up to \<open>n\<close> groups from the \<open>i\<close>-th on, of at most \<open>limit\<close>; an embedded IPv4 address counts for two and ends them.
  The groups, and whether they ended in an IPv4 address.
\<close>

fun read_groups :: "nat \<Rightarrow> nat \<Rightarrow> nat \<Rightarrow> nat list \<Rightarrow> (u16 list \<times> bool) \<times> nat list" where
  "read_groups limit i 0 bs = (([], False), bs)"
| "read_groups limit i (Suc n) bs =
     (case (if i < limit - 1 then read_separator 58 i read_ipv4_addr bs else None) of
        Some (Ipv4 a b c d, rest) \<Rightarrow> (([u16_from_be_bytes a b, u16_from_be_bytes c d], True), rest)
      | None \<Rightarrow>
          (case read_separator 58 i (read_number_text 16 65535 (Some 4) True) bs of
             None \<Rightarrow> (([], False), bs)
           | Some (g, rest) \<Rightarrow>
               (case read_groups limit (i + 1) n rest of
                  ((gs, v4), rest) \<Rightarrow> ((of_nat g # gs, v4), rest))))"

definition ipv6_of_groups :: "u16 list \<Rightarrow> ipv6" where
  "ipv6_of_groups gs = Ipv6 (concat (map u16_to_be_bytes gs))"

definition read_ipv6_addr :: "ipv6 reader" where
  "read_ipv6_addr bs =
     (case read_groups 8 0 8 bs of
        ((front, v4), rest) \<Rightarrow>
          if length front = 8 then Some (ipv6_of_groups front, rest)
          else if v4 then None
          else (case read_char 58 rest of
                  None \<Rightarrow> None
                | Some (_, rest) \<Rightarrow>
                    (case read_char 58 rest of
                       None \<Rightarrow> None
                     | Some (_, rest) \<Rightarrow>
                         let limit = 8 - (length front + 1) in
                         (case read_groups limit 0 limit rest of
                            ((behind, _), rest) \<Rightarrow>
                              Some (ipv6_of_groups (front @ replicate (8 - length front - length behind) 0 @ behind), rest)))))"

section \<open>Whole texts\<close>

definition whole :: "'a reader \<Rightarrow> string \<Rightarrow> 'a option" where
  "whole r s = (case r (map of_char s) of Some (v, []) \<Rightarrow> Some v | _ \<Rightarrow> None)"

definition parse_ipv4_text :: "string \<Rightarrow> ipv4 option" where
  "parse_ipv4_text s = (if 15 < length s then None else whole read_ipv4_addr s)"

definition read_ip_addr :: "ip_addr reader" where
  "read_ip_addr bs =
     (case read_ipv4_addr bs of
        Some (a, rest) \<Rightarrow> Some (IpV4 a, rest)
      | None \<Rightarrow> map_option (\<lambda>(a, rest). (IpV6 a, rest)) (read_ipv6_addr bs))"

definition parse_ip_text :: "string \<Rightarrow> ip_addr option" where
  "parse_ip_text s = whole read_ip_addr s"

definition read_port :: "u16 reader" where
  "read_port bs =
     (case read_char 58 bs of
        None \<Rightarrow> None
      | Some (_, rest) \<Rightarrow> map_option (\<lambda>(v, rest). (of_nat v, rest)) (read_number_text 10 65535 None True rest))"

definition read_scope_id :: "nat reader" where
  "read_scope_id bs =
     (case read_char 37 bs of
        None \<Rightarrow> None
      | Some (_, rest) \<Rightarrow> read_number_text 10 4294967295 None True rest)"

definition read_socket_addr_v4 :: "(ip_addr \<times> u16) reader" where
  "read_socket_addr_v4 bs =
     (case read_ipv4_addr bs of
        None \<Rightarrow> None
      | Some (a, rest) \<Rightarrow> map_option (\<lambda>(p, rest). ((IpV4 a, p), rest)) (read_port rest))"

definition read_socket_addr_v6 :: "(ip_addr \<times> u16) reader" where
  "read_socket_addr_v6 bs =
     (case read_char 91 bs of
        None \<Rightarrow> None
      | Some (_, rest) \<Rightarrow>
          (case read_ipv6_addr rest of
             None \<Rightarrow> None
           | Some (a, rest) \<Rightarrow>
               let rest = (case read_scope_id rest of Some (_, rest) \<Rightarrow> rest | None \<Rightarrow> rest) in
               (case read_char 93 rest of
                  None \<Rightarrow> None
                | Some (_, rest) \<Rightarrow> map_option (\<lambda>(p, rest). ((IpV6 a, p), rest)) (read_port rest))))"

definition parse_socket_addr :: "string \<Rightarrow> (ip_addr \<times> u16) option" where
  "parse_socket_addr s =
     whole (\<lambda>bs. case read_socket_addr_v4 bs of Some r \<Rightarrow> Some r | None \<Rightarrow> read_socket_addr_v6 bs) s"

section \<open>IPv4 as text\<close>

definition ipv4_text :: "ipv4 \<Rightarrow> string" where
  "ipv4_text a = (case a of Ipv4 a b c d \<Rightarrow>
     decimal (unat a) @ ''.'' @ decimal (unat b) @ ''.'' @ decimal (unat c) @ ''.'' @ decimal (unat d))"

lemma digit_of_10: "digit_of 10 b = (if 48 \<le> b \<and> b \<le> 57 then Some (b - 48) else None)"
  by (auto simp: digit_of_def Let_def)

lemma decimal_digit: "x < 10 \<Longrightarrow> decimal_digits x = [48 + x]"
  by (subst decimal_digits.simps) simp

lemma decimal_digits_last: "0 < m \<Longrightarrow> y < 10 \<Longrightarrow> decimal_digits (m * 10 + y) = decimal_digits m @ [48 + y]"
  by (subst decimal_digits.simps) simp

lemma octet_cases:
  fixes n :: nat
  assumes "n \<le> 255"
  obtains "n < 10" | x y where "0 < x" "x < 10" "y < 10" "n = x * 10 + y"
    | x y z where "0 < x" "x < 3" "y < 10" "z < 10" "n = (x * 10 + y) * 10 + z"
proof -
  consider "n < 10" | "10 \<le> n" "n < 100" | "100 \<le> n" by linarith
  then show ?thesis
  proof cases
    case 2
    then have "0 < n div 10" "n div 10 < 10" "n mod 10 < 10" "n = n div 10 * 10 + n mod 10" by presburger+
    then show ?thesis by (rule that(2))
  next
    case 3
    define q where "q = n div 10"
    have q: "n = q * 10 + n mod 10" "q = q div 10 * 10 + q mod 10" by (simp_all add: q_def)
    have "10 \<le> q" "q < 30" using 3 assms by (simp_all add: q_def)
    then have "0 < q div 10" "q div 10 < 3" by simp_all
    moreover have "n = (q div 10 * 10 + q mod 10) * 10 + n mod 10" using q by simp
    moreover have "q mod 10 < 10" "n mod 10 < 10" by simp_all
    ultimately show ?thesis using that(3) [of "q div 10" "q mod 10" "n mod 10"] by blast
  qed (rule that(1))
qed

lemma read_octet_decimal:
  assumes "n \<le> 255" "rest = [] \<or> digit_of 10 (hd rest) = None"
  shows "read_octet (decimal_digits n @ rest) = Some (of_nat n, rest)"
proof -
  have r: "read_digits 10 255 (Some 3) acc seen rest = Some ((acc, seen), rest)" for acc seen
    using assms(2) by (cases rest) auto
  from assms(1) show ?thesis
  proof (cases rule: octet_cases)
    case 1
    then show ?thesis by (simp add: read_octet_def read_number_text_def decimal_digit digit_of_10 r)
  next
    case (2 x y)
    then have "decimal_digits n = [48 + x, 48 + y]" by (simp add: decimal_digits_last decimal_digit)
    then show ?thesis using 2 by (simp add: read_octet_def read_number_text_def digit_of_10 r)
  next
    case (3 x y z)
    then have "decimal_digits n = [48 + x, 48 + y, 48 + z]"
      by (simp only: decimal_digits_last [of "x * 10 + y"] decimal_digits_last [of x] decimal_digit) (simp add: decimal_digits_last decimal_digit)
    moreover have "x * 10 + y \<le> 255" "\<not> 255 < (x * 10 + y) * 10 + z" using 3 assms(1) by auto
    ultimately show ?thesis using 3 by (simp add: read_octet_def read_number_text_def digit_of_10 r)
  qed
qed

lemma read_octet_Some:
  assumes "read_octet bs = Some (v, rest)"
  shows "bs = decimal_digits (unat v) @ rest"
proof -
  obtain n seen where n: "read_digits 10 255 (Some 3) 0 0 bs = Some ((n, seen), rest)" "seen \<noteq> 0" "v = of_nat n"
    "\<not> (bs \<noteq> [] \<and> hd bs = 48 \<and> 1 < seen)"
    using assms by (auto simp: read_octet_def read_number_text_def split: option.splits if_splits)
  obtain b1 r1 where b1: "bs = b1 # r1" "digit_of 10 b1 \<noteq> None"
    using n(1,2) by (cases bs) (auto split: option.splits)
  have small: "unat (of_nat m :: u8) = m" if "m \<le> 255" for m
    using that by (simp add: unsigned_of_nat take_bit_nat_eq_self)
  have digit: "\<exists>x. b = 48 + x \<and> x < 10" if "digit_of 10 b \<noteq> None" for b
    using that by (intro exI [of _ "b - 48"]) (auto simp: digit_of_10 split: if_splits)
  have val: "digit_of 10 (48 + x) = Some x" if "x < 10" for x using that by (simp add: digit_of_10)
  obtain x where x: "b1 = 48 + x" "x < 10" using digit b1(2) by blast
  consider "r1 = [] \<or> (\<exists>b2 r2. r1 = b2 # r2 \<and> digit_of 10 b2 = None)"
    | b2 r2 where "r1 = b2 # r2" "digit_of 10 b2 \<noteq> None" by (cases r1) auto
  then show ?thesis
  proof cases
    case 1
    then have "n = x" "rest = r1" using n(1) b1 x val by auto
    then show ?thesis using b1 n(3) x small [of x] by (simp add: decimal_digit)
  next
    case r2: (2 b2 r2)
    obtain y where y: "b2 = 48 + y" "y < 10" using digit r2(2) by blast
    consider "r2 = [] \<or> (\<exists>b3 r3. r2 = b3 # r3 \<and> digit_of 10 b3 = None)"
      | b3 r3 where "r2 = b3 # r3" "digit_of 10 b3 \<noteq> None" by (cases r2) auto
    then show ?thesis
    proof cases
      case 1
      then have e: "n = x * 10 + y" "rest = r2" "seen = 2" using n(1) b1 x y r2 val by (auto split: if_splits)
      then have "0 < x" using n(4) b1 x by simp
      then show ?thesis using e b1 n(3) x y r2 small [of n] by (simp add: decimal_digits_last decimal_digit)
    next
      case r3: (2 b3 r3)
      obtain z where z: "b3 = 48 + z" "z < 10" using digit r3(2) by blast
      have "r3 = [] \<or> (\<exists>b4 r4. r3 = b4 # r4 \<and> digit_of 10 b4 = None)"
        using n(1) b1 x y z r2 r3 val by (cases r3) (auto split: if_splits option.splits)
      then have e: "n = (x * 10 + y) * 10 + z" "rest = r3" "seen = 3" "n \<le> 255"
        using n(1) b1 x y z r2 r3 val by (auto split: if_splits)
      then have "0 < x" using n(4) b1 x by simp
      then have "decimal_digits n = [48 + x, 48 + y, 48 + z]"
        unfolding e(1) using x y z by (subst decimal_digits_last) (simp_all add: decimal_digits_last decimal_digit)
      then show ?thesis using e b1 n(3) x y z r2 r3 small [of n] by simp
    qed
  qed
qed

lemma ipv4_text_codes:
  "map of_char (ipv4_text (Ipv4 a b c d)) =
     decimal_digits (unat a) @ 46 # decimal_digits (unat b) @ 46 # decimal_digits (unat c) @ 46 # decimal_digits (unat d)"
  by (simp add: ipv4_text_def)

lemma read_octet_word:
  "rest = [] \<or> digit_of 10 (hd rest) = None \<Longrightarrow> read_octet (decimal_digits (unat a) @ rest) = Some (a, rest)"
  using read_octet_decimal [OF unat_u8_le [of a], of rest] by simp

lemma small_Sucs: "4 = Suc (Suc (Suc (Suc 0)))" "3 = Suc (Suc (Suc 0))" "2 = Suc (Suc 0)" by simp_all

lemma read_ipv4_addr_text:
  assumes "rest = [] \<or> digit_of 10 (hd rest) = None"
  shows "read_ipv4_addr (map of_char (ipv4_text a) @ rest) = Some (a, rest)"
proof (cases a)
  case (Ipv4 o1 o2 o3 o4)
  have "digit_of 10 46 = None" by (simp add: digit_of_10)
  then show ?thesis
    using read_octet_word [of rest o4] assms
    by (simp add: Ipv4 read_ipv4_addr_def ipv4_text_codes small_Sucs(1) read_separator_def read_char_def
        read_octet_word ipv4_of_octets_def)
qed

lemma read_separator_Some:
  "read_separator sep i item bs = Some r \<longleftrightarrow> (if 0 < i then \<exists>rest. bs = sep # rest \<and> item rest = Some r else item bs = Some r)"
  by (auto simp: read_separator_def read_char_def split: list.split)

lemma read_ipv4_addr_Some:
  assumes "read_ipv4_addr bs = Some (a, rest)"
  shows "bs = map of_char (ipv4_text a) @ rest"
proof -
  obtain os where os: "read_octets 0 4 bs = Some (os, rest)" "a = ipv4_of_octets os"
    using assms by (auto simp: read_ipv4_addr_def)
  have step: "\<exists>o1 os' r'. os = o1 # os' \<and> read_octets (i + 1) n r' = Some (os', rest)
      \<and> bs = (if 0 < i then [46] else []) @ decimal_digits (unat o1) @ r'"
    if "read_octets i (Suc n) bs = Some (os, rest)" for i n bs os
    using that by (auto simp: read_separator_Some split: option.splits dest!: read_octet_Some)
  obtain o1 os1 r1 where 1: "os = o1 # os1" "read_octets 1 3 r1 = Some (os1, rest)" "bs = decimal_digits (unat o1) @ r1"
    using step [of 0 3 bs os] os(1) by (auto simp: small_Sucs)
  obtain o2 os2 r2 where 2: "os1 = o2 # os2" "read_octets 2 2 r2 = Some (os2, rest)" "r1 = 46 # decimal_digits (unat o2) @ r2"
    using step [of 1 2 r1 os1] 1(2) by (auto simp: small_Sucs)
  obtain o3 os3 r3 where 3: "os2 = o3 # os3" "read_octets 3 1 r3 = Some (os3, rest)" "r2 = 46 # decimal_digits (unat o3) @ r3"
    using step [of 2 1 r2 os2] 2(2) by (auto simp: small_Sucs)
  obtain o4 os4 r4 where 4: "os3 = o4 # os4" "read_octets 4 0 r4 = Some (os4, rest)" "r3 = 46 # decimal_digits (unat o4) @ r4"
    using step [of 3 0 r3 os3] 3(2) by (auto simp: small_Sucs)
  have "os4 = []" "r4 = rest" using 4(2) by simp_all
  then show ?thesis using 1 2 3 4 os(2) by (simp add: ipv4_of_octets_def ipv4_text_codes)
qed

text \<open>An IPv4 address is read from exactly the text that the formatter writes for it.\<close>

lemma parse_ip_text_v4: "parse_ip_text s = Some (IpV4 a) \<longleftrightarrow> s = ipv4_text a"
proof
  assume "parse_ip_text s = Some (IpV4 a)"
  then have "read_ipv4_addr (map of_char s) = Some (a, [])"
    by (auto simp: parse_ip_text_def whole_def read_ip_addr_def split: option.splits list.splits prod.splits)
  then have "map of_char s = map (of_char :: char \<Rightarrow> nat) (ipv4_text a)" using read_ipv4_addr_Some by fastforce
  then show "s = ipv4_text a" by (rule map_injective) (simp add: inj_def of_char_eq_iff)
next
  assume "s = ipv4_text a"
  then show "parse_ip_text s = Some (IpV4 a)"
    using read_ipv4_addr_text [of "[]" a] by (simp add: parse_ip_text_def whole_def read_ip_addr_def)
qed

lemma read_groups_length: "i + n = limit \<Longrightarrow> length (fst (fst (read_groups limit i n bs))) \<le> n"
proof (induction limit i n bs rule: read_groups.induct)
  case (2 limit i n bs)
  then show ?case by (force split: option.split prod.split ipv4.split if_split)
qed simp

lemma read_ipv6_addr_length:
  assumes "read_ipv6_addr bs = Some (Ipv6 os, rest)"
  shows "length os = 16"
proof -
  have c: "length (concat (map u16_to_be_bytes gs)) = 2 * length gs" for gs
    by (induction gs) simp_all
  have z: "length (concat (replicate k (u16_to_be_bytes 0))) = 2 * k" for k
    by (induction k) simp_all
  have f: "length (fst (fst (read_groups 8 0 8 bs))) \<le> 8" by (rule read_groups_length) simp
  obtain front v4 r where fr: "read_groups 8 0 8 bs = ((front, v4), r)" by (metis surj_pair)
  show ?thesis
  proof (cases "length front = 8")
    case True
    then show ?thesis using assms fr by (auto simp: read_ipv6_addr_def ipv6_of_groups_def c)
  next
    case False
    then obtain rb behind v r' where b: "read_groups (8 - (length front + 1)) 0 (8 - (length front + 1)) rb = ((behind, v), r')"
      "Ipv6 os = ipv6_of_groups (front @ replicate (8 - length front - length behind) 0 @ behind)"
      using assms fr by (auto simp: read_ipv6_addr_def Let_def split: if_splits option.splits prod.splits)
    have "length behind \<le> 8 - (length front + 1)"
      using read_groups_length [of 0 "8 - (length front + 1)" "8 - (length front + 1)" rb] b(1) by simp
    then show ?thesis using b(2) f fr False by (simp add: ipv6_of_groups_def c z)
  qed
qed

end
