(* ===== verification/Enrichment.thy ===== *)
theory Enrichment
  imports Text "HOL-Library.List_Lexorder" "HOL-Library.Char_ord"
begin

text \<open>
  Offline enrichment of addresses, \<^verbatim>\<open>enrichment/database.rs\<close> and \<^verbatim>\<open>enrichment/mod.rs\<close>: the merge of
  the records of several MaxMind files, and the enricher with its bounded cache and its counters.
  The MaxMind reader is not part of the sources: an opened file is a record of its metadata and of
  what it answers. Proved: the merge takes every field from the first file that has it; the cache
  stays within its capacity and is unobservable; the counters account for every lookup.
\<close>

section \<open>Databases\<close>

record geo_record =
  geo_country :: "string option"
  geo_region :: "string option"
  geo_city :: "string option"
  geo_asn :: "u32 option"
  geo_organization :: "string option"

definition geo_record_default :: geo_record where
  "geo_record_default = \<lparr>geo_country = None, geo_region = None, geo_city = None, geo_asn = None, geo_organization = None\<rparr>"

text \<open>
  What a file holds for an address: each path that the lookup reads, \<^const>\<open>None\<close> where decoding it fails and
  \<^term>\<open>Some None\<close> where it is absent. A file answers \<^const>\<open>None\<close> when the lookup fails and \<^term>\<open>Some None\<close>
  where it has no data.
\<close>

record mmdb_entry =
  me_country :: "string option option"
  me_subdivision_name :: "string option option"
  me_subdivision_code :: "string option option"
  me_city :: "string option option"
  me_asn :: "u32 option option"
  me_traits_asn :: "u32 option option"
  me_as_organization :: "string option option"
  me_traits_organization :: "string option option"
  me_organization :: "string option option"

record mmdb_reader =
  mr_database_type :: string
  mr_build_epoch :: u64
  mr_node_count :: u32
  mr_ip_version :: u16
  mr_lookup :: "ip_addr \<Rightarrow> mmdb_entry option option"

record geoip_database =
  gd_version :: string
  gd_index_nodes :: nat
  gd_readers :: "mmdb_reader list"

fun join_with :: "string \<Rightarrow> string list \<Rightarrow> string" where
  "join_with sep [] = []"
| "join_with sep [s] = s"
| "join_with sep (s # ss) = s @ sep @ join_with sep ss"

definition reader_version :: "mmdb_reader \<Rightarrow> string" where
  "reader_version r = mr_database_type r @ ''@'' @ decimal (unat (mr_build_epoch r))"

definition from_readers :: "mmdb_reader list \<Rightarrow> geoip_database option" where
  "from_readers readers =
     (if readers = [] then None
      else Some \<lparr>gd_version = join_with '','' (map reader_version readers),
                 gd_index_nodes = sum_list (map (\<lambda>r. unat (mr_node_count r)) readers),
                 gd_readers = readers\<rparr>)"

text \<open>
  \<^verbatim>\<open>Path::extension\<close> of a directory entry: what follows the last dot, unless that is the first character.
\<close>

definition file_extension :: "string \<Rightarrow> string option" where
  "file_extension name =
     (let ext = takeWhile (\<lambda>c. c \<noteq> CHR ''.'') (rev name); stem = drop (length ext + 1) (rev name) in
      if stem = [] then None else Some (rev ext))"

text \<open>
  \<open>directory\<close> lists a path when it is a directory (\<^term>\<open>Some None\<close> when it cannot be read), \<open>open_file\<close> opens a
  file. Paths of one directory sort by the name of the entry.
\<close>

definition database_paths :: "(string \<Rightarrow> string list option option) \<Rightarrow> string \<Rightarrow> string list option" where
  "database_paths directory path =
     (case directory path of
        None \<Rightarrow> Some [path]
      | Some entries \<Rightarrow> map_option (\<lambda>names. map (\<lambda>name. path @ ''/'' @ name)
          (sort (filter (\<lambda>name. case file_extension name of
             None \<Rightarrow> False | Some e \<Rightarrow> to_ascii_lowercase e = ''mmdb'') names))) entries)"

fun open_readers :: "(string \<Rightarrow> mmdb_reader option) \<Rightarrow> string list \<Rightarrow> mmdb_reader list option" where
  "open_readers open_file [] = Some []"
| "open_readers open_file (p # ps) =
     (case open_file p of
        None \<Rightarrow> None
      | Some r \<Rightarrow> map_option (\<lambda>rs. r # rs) (open_readers open_file ps))"

definition load_readers ::
  "(string \<Rightarrow> string list option option) \<Rightarrow> (string \<Rightarrow> mmdb_reader option) \<Rightarrow> string \<Rightarrow> geoip_database option" where
  "load_readers directory open_file path =
     (case database_paths directory path of
        None \<Rightarrow> None
      | Some paths \<Rightarrow>
          if paths = [] then None
          else (case open_readers open_file paths of
                  None \<Rightarrow> None
                | Some readers \<Rightarrow> from_readers readers))"

definition database_is_empty :: "geoip_database \<Rightarrow> bool" where
  "database_is_empty d \<longleftrightarrow> gd_index_nodes d = 0"

section \<open>Lookup\<close>

definition set_once :: "'a option \<Rightarrow> 'a option \<Rightarrow> 'a option" where
  "set_once target val = (if target = None then val else target)"

text \<open>
  One file's turn of the loop. Every path is decoded, also those whose value is not needed, so that any failure
  fails the lookup.
\<close>

definition merge_record :: "mmdb_entry \<Rightarrow> geo_record \<Rightarrow> geo_record option" where
  "merge_record e r =
     (case (me_country e, me_subdivision_name e, me_subdivision_code e, me_city e) of
        (Some country, Some sub_name, Some sub_code, Some city) \<Rightarrow>
          (case (me_asn e, me_traits_asn e, me_as_organization e, me_traits_organization e, me_organization e) of
             (Some asn, Some traits_asn, Some as_org, Some traits_org, Some org) \<Rightarrow>
               Some \<lparr>geo_country = set_once (geo_country r) country,
                     geo_region = set_once (geo_region r) (set_once sub_name sub_code),
                     geo_city = set_once (geo_city r) city,
                     geo_asn = set_once (set_once (geo_asn r) asn) traits_asn,
                     geo_organization = set_once (geo_organization r) (set_once (set_once as_org traits_org) org)\<rparr>
           | _ \<Rightarrow> None)
      | _ \<Rightarrow> None)"

fun lookup_each :: "mmdb_reader list \<Rightarrow> ip_addr \<Rightarrow> geo_record \<times> bool \<Rightarrow> (geo_record \<times> bool) option" where
  "lookup_each [] address acc = Some acc"
| "lookup_each (r # rs) address (rec, found) =
     (if is_ipv6 address \<and> mr_ip_version r = 4 then lookup_each rs address (rec, found)
      else case mr_lookup r address of
        None \<Rightarrow> None
      | Some None \<Rightarrow> lookup_each rs address (rec, found)
      | Some (Some e) \<Rightarrow>
          (case merge_record e rec of
             None \<Rightarrow> None
           | Some rec \<Rightarrow> lookup_each rs address (rec, True)))"

text \<open>\<^const>\<open>None\<close> is an error.\<close>

definition lookup_database :: "geoip_database \<Rightarrow> ip_addr \<Rightarrow> geo_record option option" where
  "lookup_database d address =
     map_option (\<lambda>(rec, found). if found then Some rec else None)
       (lookup_each (gd_readers d) address (geo_record_default, False))"

section \<open>Enricher\<close>

definition DEFAULT_CACHE_CAPACITY :: nat where "DEFAULT_CACHE_CAPACITY = 16384"

record ip_profile =
  ip_address :: ip_addr
  ip_scope :: address_scope
  ip_country :: "string option"
  ip_region :: "string option"
  ip_city :: "string option"
  ip_asn :: "u32 option"
  ip_organization :: "string option"
  ip_database_version :: "string option"
  ip_enriched_at :: int

record enrichment_stats =
  es_database_version :: "string option"
  es_database_loaded_at :: "int option"
  es_database_index_nodes :: nat
  es_lookups :: u64
  es_cache_hits :: u64
  es_cache_misses :: u64
  es_database_lookups :: u64
  es_database_lookup_failures :: u64
  es_local_addresses :: u64
  es_enriched_addresses :: u64
  es_unknown_addresses :: u64

definition enrichment_stats_default :: enrichment_stats where
  "enrichment_stats_default =
     \<lparr>es_database_version = None, es_database_loaded_at = None, es_database_index_nodes = 0, es_lookups = 0,
      es_cache_hits = 0, es_cache_misses = 0, es_database_lookups = 0, es_database_lookup_failures = 0,
      es_local_addresses = 0, es_enriched_addresses = 0, es_unknown_addresses = 0\<rparr>"

text \<open>The cache is a linked map: an association list in the order of insertion.\<close>

record enricher =
  en_database :: "geoip_database option"
  en_database_loaded_at :: "int option"
  en_cache :: "(ip_addr \<times> ip_profile) list"
  en_capacity :: nat
  en_stats :: enrichment_stats

definition enricher_new :: "nat \<Rightarrow> enricher" where
  "enricher_new capacity =
     \<lparr>en_database = None, en_database_loaded_at = None, en_cache = [], en_capacity = capacity,
      en_stats = enrichment_stats_default\<rparr>"

definition set_database :: "int \<Rightarrow> geoip_database \<Rightarrow> enricher \<Rightarrow> enricher" where
  "set_database now database e =
     e\<lparr>en_database_loaded_at := Some now, en_database := Some database, en_cache := []\<rparr>"

text \<open>A database that cannot be loaded leaves the enricher as it was; the flag is the error.\<close>

definition load_database ::
  "(string \<Rightarrow> string list option option) \<Rightarrow> (string \<Rightarrow> mmdb_reader option) \<Rightarrow> int \<Rightarrow> string \<Rightarrow> enricher \<Rightarrow> bool \<times> enricher" where
  "load_database directory open_file now path e =
     (case load_readers directory open_file path of
        None \<Rightarrow> (True, e)
      | Some database \<Rightarrow> (False, set_database now database e))"

definition enricher_stats :: "enricher \<Rightarrow> enrichment_stats" where
  "enricher_stats e =
     (case en_database e of
        None \<Rightarrow> en_stats e
      | Some d \<Rightarrow> (en_stats e)\<lparr>es_database_version := Some (gd_version d), es_database_index_nodes := gd_index_nodes d,
                                es_database_loaded_at := en_database_loaded_at e\<rparr>)"

definition insert_cache :: "ip_addr \<Rightarrow> ip_profile \<Rightarrow> enricher \<Rightarrow> enricher" where
  "insert_cache address profile e =
     (let cache = (if en_capacity e \<le> length (en_cache e) then tl (en_cache e) else en_cache e) in
      e\<lparr>en_cache := filter (\<lambda>(a, _). a \<noteq> address) cache @ [(address, profile)]\<rparr>)"

definition count_lookup :: "enrichment_stats \<Rightarrow> enrichment_stats" where
  "count_lookup s = s\<lparr>es_lookups := sat_add (es_lookups s) 1\<rparr>"

definition count_hit :: "enrichment_stats \<Rightarrow> enrichment_stats" where
  "count_hit s = s\<lparr>es_cache_hits := sat_add (es_cache_hits s) 1\<rparr>"

definition count_miss :: "enrichment_stats \<Rightarrow> enrichment_stats" where
  "count_miss s = s\<lparr>es_cache_misses := sat_add (es_cache_misses s) 1\<rparr>"

text \<open>The record of a public address, with the lookups and failures counted.\<close>

definition find_record :: "geoip_database option \<Rightarrow> ip_addr \<Rightarrow> enrichment_stats \<Rightarrow> geo_record option \<times> enrichment_stats" where
  "find_record database address s =
     (case database of
        None \<Rightarrow> (None, s)
      | Some d \<Rightarrow>
          let s = s\<lparr>es_database_lookups := sat_add (es_database_lookups s) 1\<rparr> in
          (case lookup_database d address of
             Some rec \<Rightarrow> (rec, s)
           | None \<Rightarrow> (None, s\<lparr>es_database_lookup_failures := sat_add (es_database_lookup_failures s) 1\<rparr>)))"

definition count_outcome :: "geo_record option \<Rightarrow> enrichment_stats \<Rightarrow> enrichment_stats" where
  "count_outcome rec s =
     (if rec \<noteq> None then s\<lparr>es_enriched_addresses := sat_add (es_enriched_addresses s) 1\<rparr>
      else s\<lparr>es_unknown_addresses := sat_add (es_unknown_addresses s) 1\<rparr>)"

definition profile_of :: "int \<Rightarrow> ip_addr \<Rightarrow> geo_record option \<Rightarrow> string option \<Rightarrow> ip_profile" where
  "profile_of now address rec version =
     \<lparr>ip_address = address, ip_scope = classify address, ip_country = Option.bind rec geo_country,
      ip_region = Option.bind rec geo_region, ip_city = Option.bind rec geo_city, ip_asn = Option.bind rec geo_asn,
      ip_organization = Option.bind rec geo_organization, ip_database_version = version, ip_enriched_at = now\<rparr>"

definition profile :: "int \<Rightarrow> ip_addr \<Rightarrow> enricher \<Rightarrow> ip_profile \<times> enricher" where
  "profile now address e =
     (let e = e\<lparr>en_stats := count_lookup (en_stats e)\<rparr> in
      case map_of (en_cache e) address of
        Some p \<Rightarrow> (p, e\<lparr>en_stats := count_hit (en_stats e)\<rparr>)
      | None \<Rightarrow>
          let s = count_miss (en_stats e);
              (rec, version, s) =
                (if is_public (classify address)
                 then (case find_record (en_database e) address s of
                         (rec, s) \<Rightarrow> (rec, map_option gd_version (en_database e), count_outcome rec s))
                 else (None, None, s\<lparr>es_local_addresses := sat_add (es_local_addresses s) 1\<rparr>));
              p = profile_of now address rec version in
          (p, insert_cache address p (e\<lparr>en_stats := s\<rparr>)))"

section \<open>Merging files\<close>

fun first_some :: "'a option list \<Rightarrow> 'a option" where
  "first_some [] = None"
| "first_some (x # xs) = set_once x (first_some xs)"

lemma set_once_simps [simp]: "set_once None x = x" "set_once (Some a) x = Some a"
  by (simp_all add: set_once_def)

lemma set_once_assoc: "set_once (set_once a b) c = set_once a (set_once b c)"
  by (cases a) simp_all

lemma set_once_None2 [simp]: "set_once x None = x"
  by (cases x) simp_all

definition consulted :: "geoip_database \<Rightarrow> ip_addr \<Rightarrow> mmdb_reader list" where
  "consulted d address = filter (\<lambda>r. \<not> (is_ipv6 address \<and> mr_ip_version r = 4)) (gd_readers d)"

definition entry_ok :: "mmdb_entry \<Rightarrow> bool" where
  "entry_ok e \<longleftrightarrow> me_country e \<noteq> None \<and> me_subdivision_name e \<noteq> None \<and> me_subdivision_code e \<noteq> None
     \<and> me_city e \<noteq> None \<and> me_asn e \<noteq> None \<and> me_traits_asn e \<noteq> None \<and> me_as_organization e \<noteq> None
     \<and> me_traits_organization e \<noteq> None \<and> me_organization e \<noteq> None"

definition answer_ok :: "mmdb_entry option option \<Rightarrow> bool" where
  "answer_ok a \<longleftrightarrow> (case a of None \<Rightarrow> False | Some None \<Rightarrow> True | Some (Some e) \<Rightarrow> entry_ok e)"

definition entries_of :: "mmdb_entry option option list \<Rightarrow> mmdb_entry list" where
  "entries_of as = List.map_filter (\<lambda>a. Option.bind a id) as"

definition merged_record :: "mmdb_entry list \<Rightarrow> geo_record" where
  "merged_record es =
     \<lparr>geo_country = first_some (map (the \<circ> me_country) es),
      geo_region = first_some (map (\<lambda>e. set_once (the (me_subdivision_name e)) (the (me_subdivision_code e))) es),
      geo_city = first_some (map (the \<circ> me_city) es),
      geo_asn = first_some (map (\<lambda>e. set_once (the (me_asn e)) (the (me_traits_asn e))) es),
      geo_organization = first_some (map (\<lambda>e. set_once (the (me_as_organization e))
        (set_once (the (me_traits_organization e)) (the (me_organization e)))) es)\<rparr>"

definition over_record :: "geo_record \<Rightarrow> geo_record \<Rightarrow> geo_record" where
  "over_record r s =
     \<lparr>geo_country = set_once (geo_country r) (geo_country s), geo_region = set_once (geo_region r) (geo_region s),
      geo_city = set_once (geo_city r) (geo_city s), geo_asn = set_once (geo_asn r) (geo_asn s),
      geo_organization = set_once (geo_organization r) (geo_organization s)\<rparr>"

lemma merge_record_iff:
  "merge_record e r = (if entry_ok e then Some (over_record r (merged_record [e])) else None)"
  by (auto simp: merge_record_def entry_ok_def over_record_def merged_record_def set_once_assoc split: option.split)

lemma over_merged_Cons:
  "over_record (over_record r (merged_record [e])) (merged_record es) = over_record r (merged_record (e # es))"
  by (simp add: over_record_def merged_record_def set_once_assoc)

lemma lookup_each_eq:
  "lookup_each rs address (rec, found) =
     (let as = map (\<lambda>r. mr_lookup r address) (filter (\<lambda>r. \<not> (is_ipv6 address \<and> mr_ip_version r = 4)) rs) in
      if list_all answer_ok as then Some (over_record rec (merged_record (entries_of as)), found \<or> entries_of as \<noteq> [])
      else None)"
proof (induction rs arbitrary: rec found)
  case Nil
  show ?case by (simp add: entries_of_def List.map_filter_simps merged_record_def over_record_def)
next
  case (Cons r rs)
  then show ?case
    by (auto simp: entries_of_def List.map_filter_simps answer_ok_def merge_record_iff over_merged_Cons Let_def
        split: option.split)
qed

text \<open>
  Looking an address up fails exactly when one of the consulted files fails or holds a value of the wrong type; otherwise
  the record has each field from the first file, in the order of their names, that knows it, and there is no
  record exactly when no file has data for the address. Files of version 4 are not consulted for IPv6.
\<close>

theorem lookup_takes_first_value:
  "lookup_database d address =
     (let as = map (\<lambda>r. mr_lookup r address) (consulted d address); es = entries_of as in
      if list_all answer_ok as then Some (if es = [] then None else Some (merged_record es)) else None)"
proof -
  have "over_record geo_record_default m = m" for m by (simp add: over_record_def geo_record_default_def)
  then show ?thesis by (simp add: lookup_database_def lookup_each_eq consulted_def Let_def)
qed

section \<open>The cache\<close>

text \<open>The profile without a cache, and what the enricher keeps true.\<close>

definition fresh_profile :: "int \<Rightarrow> geoip_database option \<Rightarrow> ip_addr \<Rightarrow> ip_profile" where
  "fresh_profile now database address =
     (if is_public (classify address)
      then profile_of now address
        (case database of None \<Rightarrow> None | Some d \<Rightarrow> (case lookup_database d address of Some rec \<Rightarrow> rec | None \<Rightarrow> None))
        (map_option gd_version database)
      else profile_of now address None None)"

definition cache_ok :: "enricher \<Rightarrow> bool" where
  "cache_ok e \<longleftrightarrow> 0 < en_capacity e \<and> length (en_cache e) \<le> en_capacity e \<and> distinct (map fst (en_cache e))
     \<and> list_all (\<lambda>(a, p). p = fresh_profile (ip_enriched_at p) (en_database e) a) (en_cache e)"

definition stats_ok :: "enrichment_stats \<Rightarrow> bool" where
  "stats_ok s \<longleftrightarrow> unat (es_lookups s) < 2 ^ 64 - 1 \<longrightarrow>
     unat (es_lookups s) = unat (es_cache_hits s) + unat (es_cache_misses s)
     \<and> unat (es_cache_misses s) = unat (es_local_addresses s) + unat (es_enriched_addresses s) + unat (es_unknown_addresses s)
     \<and> unat (es_database_lookups s) \<le> unat (es_enriched_addresses s) + unat (es_unknown_addresses s)
     \<and> unat (es_enriched_addresses s) + unat (es_database_lookup_failures s) \<le> unat (es_database_lookups s)"

lemma unat_count: "unat (x :: u64) < 2 ^ 64 - 1 \<Longrightarrow> unat (sat_add x 1) = unat x + 1"
  by (simp add: unat_sat_add)

lemma cache_ok_insert:
  assumes "cache_ok e" "p = fresh_profile (ip_enriched_at p) (en_database e) address"
  shows "cache_ok (insert_cache address p e)"
proof -
  let ?c = "if en_capacity e \<le> length (en_cache e) then tl (en_cache e) else en_cache e"
  have "set ?c \<subseteq> set (en_cache e)" by (cases "en_cache e") auto
  moreover have "distinct (map fst ?c)" using assms(1) by (auto simp: cache_ok_def map_tl distinct_tl)
  moreover have "length ?c < en_capacity e" using assms(1) by (auto simp: cache_ok_def)
  moreover have "length (filter (\<lambda>(a, _). a \<noteq> address) ?c) \<le> length ?c" by simp
  moreover have "distinct (map fst (filter (\<lambda>(a, _). a \<noteq> address) ?c))"
    using calculation(2) by (rule distinct_map_filter)
  ultimately show ?thesis
    using assms unfolding cache_ok_def insert_cache_def Let_def
    by (auto simp: list_all_iff simp del: length_filter_le)
qed

lemma cached_profile: "cache_ok e \<Longrightarrow> map_of (en_cache e) a = Some p \<Longrightarrow> p = fresh_profile (ip_enriched_at p) (en_database e) a"
  by (auto simp: cache_ok_def list_all_iff dest!: map_of_SomeD)

lemma find_record_fst:
  "fst (find_record database a s) =
     (case database of None \<Rightarrow> None | Some d \<Rightarrow> (case lookup_database d a of Some rec \<Rightarrow> rec | None \<Rightarrow> None))"
  by (auto simp: find_record_def Let_def split: option.split)

text \<open>A hit answers from the cache; a miss computes the profile and stores it.\<close>

lemma profile_hit:
  "map_of (en_cache e) a = Some p \<Longrightarrow>
     profile now a e = (p, e\<lparr>en_stats := count_hit (count_lookup (en_stats e))\<rparr>)"
  by (simp add: profile_def Let_def)

lemma profile_miss:
  assumes "map_of (en_cache e) a = None"
  shows "\<exists>s. profile now a e =
       (fresh_profile now (en_database e) a,
        insert_cache a (fresh_profile now (en_database e) a) (e\<lparr>en_stats := s\<rparr>))"
proof -
  obtain r s where f: "find_record (en_database e) a (count_miss (count_lookup (en_stats e))) = (r, s)" by fastforce
  then have "r = (case en_database e of None \<Rightarrow> None | Some d \<Rightarrow> (case lookup_database d a of Some rec \<Rightarrow> rec | None \<Rightarrow> None))"
    using find_record_fst [of "en_database e" a "count_miss (count_lookup (en_stats e))"] by simp
  then show ?thesis using assms f by (auto simp: profile_def Let_def fresh_profile_def)
qed

lemma fresh_profile_time [simp]: "ip_enriched_at (fresh_profile now d a) = now"
  by (simp add: fresh_profile_def profile_of_def)

definition undated :: "ip_profile \<Rightarrow> ip_profile" where
  "undated p = p\<lparr>ip_enriched_at := 0\<rparr>"

lemma undated_fresh: "undated (fresh_profile now d a) = undated (fresh_profile later d a)"
  by (simp add: undated_def fresh_profile_def profile_of_def)

lemma profile_ok:
  assumes "cache_ok e"
  shows "undated (fst (profile now a e)) = undated (fresh_profile now (en_database e) a)
    \<and> cache_ok (snd (profile now a e)) \<and> en_database (snd (profile now a e)) = en_database e
    \<and> en_capacity (snd (profile now a e)) = en_capacity e"
proof (cases "map_of (en_cache e) a")
  case (Some p)
  then have "undated p = undated (fresh_profile now (en_database e) a)"
    using cached_profile [OF assms Some] undated_fresh by metis
  then show ?thesis using Some assms by (simp add: profile_hit cache_ok_def)
next
  case None
  then obtain s where s: "profile now a e =
      (fresh_profile now (en_database e) a, insert_cache a (fresh_profile now (en_database e) a) (e\<lparr>en_stats := s\<rparr>))"
    using profile_miss by blast
  have "cache_ok (e\<lparr>en_stats := s\<rparr>)" using assms by (simp add: cache_ok_def)
  from cache_ok_insert [OF this, of "fresh_profile now (en_database e) a" a] show ?thesis
    by (simp add: s insert_cache_def Let_def)
qed

datatype enricher_request = Lookup int ip_addr | Install int geoip_database

fun serve_requests :: "enricher_request list \<Rightarrow> enricher \<Rightarrow> ip_profile list \<times> enricher" where
  "serve_requests [] e = ([], e)"
| "serve_requests (Lookup now a # rs) e =
     (let (p, e) = profile now a e; (ps, e) = serve_requests rs e in (p # ps, e))"
| "serve_requests (Install now d # rs) e = serve_requests rs (set_database now d e)"

fun fresh_answers :: "enricher_request list \<Rightarrow> geoip_database option \<Rightarrow> ip_profile list" where
  "fresh_answers [] d = []"
| "fresh_answers (Lookup now a # rs) d = fresh_profile now d a # fresh_answers rs d"
| "fresh_answers (Install now d # rs) _ = fresh_answers rs (Some d)"

lemma serve_requests_ok:
  "cache_ok e \<Longrightarrow> map undated (fst (serve_requests rs e)) = map undated (fresh_answers rs (en_database e))
     \<and> cache_ok (snd (serve_requests rs e)) \<and> en_capacity (snd (serve_requests rs e)) = en_capacity e"
proof (induction rs arbitrary: e)
  case (Cons r rs)
  show ?case
  proof (cases r)
    case (Lookup now a)
    obtain p e' where p: "profile now a e = (p, e')" by fastforce
    obtain ps e'' where ps: "serve_requests rs e' = (ps, e'')" by fastforce
    show ?thesis using profile_ok [OF Cons.prems, of now a] Cons.IH [of e'] by (simp add: Lookup p ps)
  next
    case (Install now d)
    have "cache_ok (set_database now d e)" using Cons.prems by (simp add: cache_ok_def set_database_def)
    from Cons.IH [OF this] show ?thesis by (simp add: Install set_database_def)
  qed
qed simp

text \<open>
  C25: over any sequence of lookups and changes of the database, the enricher answers every lookup with
  the profile that the database of the moment gives (up to the time of the enrichment), as if it had no cache,
  and the cache never exceeds its capacity.
\<close>

theorem cache_is_unobservable:
  assumes "0 < capacity" "serve_requests requests (enricher_new capacity) = (profiles, e)"
  shows "map undated profiles = map undated (fresh_answers requests None) \<and> length (en_cache e) \<le> capacity"
proof -
  have "cache_ok (enricher_new capacity)" using assms(1) by (simp add: cache_ok_def enricher_new_def)
  from serve_requests_ok [OF this, of requests] assms(2) show ?thesis
    by (auto simp: enricher_new_def cache_ok_def)
qed

text \<open>A cache of one entry, three lookups of two addresses and a change of the database in between.\<close>

definition example_entry :: mmdb_entry where
  "example_entry = \<lparr>me_country = Some (Some ''US''), me_subdivision_name = Some None, me_subdivision_code = Some (Some ''CA''),
     me_city = Some None, me_asn = Some (Some 15169), me_traits_asn = Some None, me_as_organization = Some None,
     me_traits_organization = Some None, me_organization = Some (Some ''Google'')\<rparr>"

definition example_database :: geoip_database where
  "example_database = \<lparr>gd_version = ''Test@1'', gd_index_nodes = 7, gd_readers =
     [\<lparr>mr_database_type = ''Test'', mr_build_epoch = 1, mr_node_count = 7, mr_ip_version = 4,
       mr_lookup = (\<lambda>a. Some (if a = IpV4 (Ipv4 8 8 8 8) then Some example_entry else None))\<rparr>]\<rparr>"

definition example_requests :: "enricher_request list" where
  "example_requests = [Lookup 1 (IpV4 (Ipv4 8 8 8 8)), Install 2 example_database, Lookup 3 (IpV4 (Ipv4 8 8 8 8)),
     Lookup 4 (IpV4 (Ipv4 8 8 8 8)), Lookup 5 (IpV4 (Ipv4 10 0 0 1))]"

lemma cache_is_unobservable_witness:
  "length (en_cache (snd (serve_requests example_requests (enricher_new 1)))) \<le> 1"
  using cache_is_unobservable [of 1 example_requests "fst (serve_requests example_requests (enricher_new 1))"
      "snd (serve_requests example_requests (enricher_new 1))"] by simp

section \<open>Counters\<close>

definition lookup_count :: "enricher_request list \<Rightarrow> nat" where
  "lookup_count rs = length (filter (\<lambda>r. case r of Lookup _ _ \<Rightarrow> True | Install _ _ \<Rightarrow> False) rs)"

lemma lookups_of_profile: "es_lookups (en_stats (snd (profile now a e))) = sat_add (es_lookups (en_stats e)) 1"
  by (auto simp: profile_def Let_def count_lookup_def count_hit_def count_miss_def insert_cache_def
      find_record_def count_outcome_def split: option.split prod.split)

lemma stats_ok_profile:
  assumes "stats_ok (en_stats e)"
  shows "stats_ok (en_stats (snd (profile now a e)))"
proof (cases "unat (es_lookups (en_stats (snd (profile now a e)))) < 2 ^ 64 - 1")
  case True
  then have l: "unat (es_lookups (en_stats e)) < 2 ^ 64 - 1"
    by (auto simp: lookups_of_profile unat_sat_add)
  define s where "s = en_stats e"
  have s: "unat (es_lookups s) = unat (es_cache_hits s) + unat (es_cache_misses s)"
    "unat (es_cache_misses s) = unat (es_local_addresses s) + unat (es_enriched_addresses s) + unat (es_unknown_addresses s)"
    "unat (es_database_lookups s) \<le> unat (es_enriched_addresses s) + unat (es_unknown_addresses s)"
    "unat (es_enriched_addresses s) + unat (es_database_lookup_failures s) \<le> unat (es_database_lookups s)"
    using assms l by (auto simp: stats_ok_def s_def)
  have b: "unat (es_lookups s) < 2 ^ 64 - 1" "unat (es_cache_hits s) < 2 ^ 64 - 1" "unat (es_cache_misses s) < 2 ^ 64 - 1"
    "unat (es_local_addresses s) < 2 ^ 64 - 1" "unat (es_enriched_addresses s) < 2 ^ 64 - 1"
    "unat (es_unknown_addresses s) < 2 ^ 64 - 1" "unat (es_database_lookups s) < 2 ^ 64 - 1"
    "unat (es_database_lookup_failures s) < 2 ^ 64 - 1"
    using s l by (simp_all add: s_def [symmetric])
  note c = b [THEN unat_count]
  show ?thesis
    using s by (auto simp: stats_ok_def profile_def Let_def count_lookup_def count_hit_def count_miss_def insert_cache_def
        find_record_def count_outcome_def s_def [symmetric] c split: option.split prod.split)
qed (simp add: stats_ok_def)

lemma serve_requests_stats:
  "stats_ok (en_stats e) \<Longrightarrow> stats_ok (en_stats (snd (serve_requests rs e)))
     \<and> unat (es_lookups (en_stats (snd (serve_requests rs e)))) = min (unat (es_lookups (en_stats e)) + lookup_count rs) (2 ^ 64 - 1)"
proof (induction rs arbitrary: e)
  case Nil
  then show ?case using unat_le_max [of "es_lookups (en_stats e)"] by (simp add: lookup_count_def)
next
  case (Cons r rs)
  show ?case
  proof (cases r)
    case (Lookup now a)
    obtain p e' where p: "profile now a e = (p, e')" by fastforce
    obtain ps e'' where ps: "serve_requests rs e' = (ps, e'')" by fastforce
    have "stats_ok (en_stats e')" using stats_ok_profile [OF Cons.prems, of now a] p by simp
    from Cons.IH [OF this] show ?thesis
      using lookups_of_profile [of now a e] unat_sat_add [of "es_lookups (en_stats e)" 1]
      by (simp add: Lookup p ps lookup_count_def)
  next
    case (Install now d)
    have "stats_ok (en_stats (set_database now d e))" using Cons.prems by (simp add: set_database_def)
    from Cons.IH [OF this] show ?thesis by (simp add: Install set_database_def lookup_count_def)
  qed
qed

text \<open>
  The counters account for every lookup: as long as the count of lookups is below its greatest value, each lookup was a hit or
  a miss, each miss an address that is local, enriched or unknown, and each failed database lookup is among the unknown ones.
\<close>

theorem lookups_accounted:
  assumes "lookup_count requests < 2 ^ 64 - 1" "s = enricher_stats (snd (serve_requests requests (enricher_new capacity)))"
  shows "unat (es_cache_hits s) + unat (es_cache_misses s) = lookup_count requests
    \<and> unat (es_local_addresses s) + unat (es_enriched_addresses s) + unat (es_unknown_addresses s) = unat (es_cache_misses s)
    \<and> unat (es_enriched_addresses s) + unat (es_database_lookup_failures s) \<le> unat (es_database_lookups s)
    \<and> unat (es_database_lookups s) \<le> unat (es_enriched_addresses s) + unat (es_unknown_addresses s)"
proof -
  have "stats_ok (en_stats (enricher_new capacity))"
    by (simp add: stats_ok_def enricher_new_def enrichment_stats_default_def)
  from serve_requests_stats [OF this, of requests] assms(1)
  have "stats_ok (en_stats (snd (serve_requests requests (enricher_new capacity))))"
    "unat (es_lookups (en_stats (snd (serve_requests requests (enricher_new capacity))))) = lookup_count requests"
    by (simp_all add: enricher_new_def enrichment_stats_default_def)
  then show ?thesis using assms(1) by (simp add: assms(2) enricher_stats_def stats_ok_def split: option.split)
qed

lemma lookups_accounted_witness:
  "let s = enricher_stats (snd (serve_requests example_requests (enricher_new 1))) in
     unat (es_cache_hits s) + unat (es_cache_misses s) = 4"
proof -
  have "lookup_count example_requests = 4" by (simp add: lookup_count_def example_requests_def)
  then show ?thesis using lookups_accounted [OF _ refl, of example_requests 1] by simp
qed

end
