(* ===== verification/Proxy_Poller.thy ===== *)
theory Proxy_Poller
  imports Proxy_Http Net_Text Enrichment "HOL-Library.AList"
begin

text \<open>
  The proxy integration, \<^verbatim>\<open>proxy/wire.rs\<close>, \<^verbatim>\<open>proxy/mod.rs\<close> and its use in \<^verbatim>\<open>api/db.rs\<close>: the mapping of
  the controller's connections, the poller thread interleaved with the settings handlers, and the
  profile of a fake-IP flow. The reader of the JSON and the upper-casing of Unicode are arguments.
  Proved: a connection is found under its client socket with the address the proxy dialed; only flows to
  fake addresses are touched by the proxy; the number of mappings is always reported right; and, against
  its comment, disabling the integration during a poll leaves the mappings of that poll in place.
\<close>

section \<open>Connections\<close>

record proxy_key =
  pk_client :: ip_addr
  pk_client_port :: u16
  pk_destination_port :: u16

definition for_fake_flow :: "ip_addr \<Rightarrow> u16 option \<Rightarrow> u16 option \<Rightarrow> proxy_key option" where
  "for_fake_flow client client_port destination_port =
     (case (client_port, destination_port) of
        (Some cp, Some dp) \<Rightarrow> Some \<lparr>pk_client = client, pk_client_port = cp, pk_destination_port = dp\<rparr>
      | _ \<Rightarrow> None)"

record proxy_resolution =
  pr_host :: "string option"
  pr_real_address :: "ip_addr option"
  pr_country :: "string option"
  pr_asn :: "u32 option"
  pr_chains :: "string list"

record wire_metadata =
  wm_source_ip :: "string option"
  wm_source_port :: "string option"
  wm_destination_ip :: "string option"
  wm_destination_port :: "string option"
  wm_host :: "string option"
  wm_remote_destination :: "string option"
  wm_destination_geoip :: "string list option"
  wm_destination_ip_asn :: "string option"

record wire_connection =
  wc_metadata :: wire_metadata
  wc_chains :: "string list"

definition parse_port :: "string option \<Rightarrow> u16 option" where
  "parse_port val = map_option of_nat (Option.bind val (\<lambda>s. parse_unsigned 65535 (str_trim s)))"

definition parse_ip :: "string option \<Rightarrow> ip_addr option" where
  "parse_ip val = Option.bind val (\<lambda>s. let s = str_trim s in if s = [] then None else parse_ip_text s)"

definition parse_remote_address :: "string \<Rightarrow> ip_addr option" where
  "parse_remote_address s =
     (let s = str_trim s in
      case parse_ip_text s of
        Some a \<Rightarrow> Some a
      | None \<Rightarrow> map_option fst (parse_socket_addr s))"

definition first_code :: "string list option \<Rightarrow> string option" where
  "first_code codes = Option.bind codes (\<lambda>cs. case cs of [] \<Rightarrow> None | c # _ \<Rightarrow> Some c)"

definition connection_key :: "wire_metadata \<Rightarrow> proxy_key option" where
  "connection_key m =
     (case parse_ip (wm_source_ip m) of
        None \<Rightarrow> None
      | Some client \<Rightarrow>
          (case (parse_port (wm_source_port m), parse_port (wm_destination_port m)) of
             (Some cp, Some dp) \<Rightarrow> Some \<lparr>pk_client = client, pk_client_port = cp, pk_destination_port = dp\<rparr>
           | _ \<Rightarrow> None))"

definition connection_resolution :: "(string \<Rightarrow> string) \<Rightarrow> wire_connection \<Rightarrow> proxy_resolution" where
  "connection_resolution upper c =
     (let m = wc_metadata c;
          origin = parse_ip (wm_destination_ip m);
          egress = Option.bind (wm_remote_destination m) parse_remote_address in
      \<lparr>pr_host = map_option (\<lambda>h. to_ascii_lowercase (trim_end_char CHR ''.'' h))
                   (Option.bind (wm_host m) (\<lambda>h. if h = [] then None else Some h)),
       pr_real_address = (if origin \<noteq> None then origin else egress),
       pr_country = map_option upper (first_code (wm_destination_geoip m)),
       pr_asn = map_option of_nat
         (Option.bind (wm_destination_ip_asn m) (\<lambda>s. parse_unsigned 4294967295 (trim_start_str ''AS'' s))),
       pr_chains = wc_chains c\<rparr>)"

text \<open>The hash map is an association list with distinct keys.\<close>

definition map_connection ::
  "(string \<Rightarrow> string) \<Rightarrow> wire_connection \<Rightarrow> (proxy_key \<times> proxy_resolution) list \<Rightarrow> (proxy_key \<times> proxy_resolution) list" where
  "map_connection upper c resolutions =
     (case connection_key (wc_metadata c) of
        None \<Rightarrow> resolutions
      | Some key \<Rightarrow> AList.update key (connection_resolution upper c) resolutions)"

definition map_connections :: "(string \<Rightarrow> string) \<Rightarrow> wire_connection list \<Rightarrow> (proxy_key \<times> proxy_resolution) list" where
  "map_connections upper connections = fold (map_connection upper) connections []"

section \<open>Poller\<close>

datatype proxy_error = HttpError http_error | InvalidConnections

definition parse_connections ::
  "(u8 list \<Rightarrow> wire_connection list option) \<Rightarrow> (string \<Rightarrow> string) \<Rightarrow> u8 list
     \<Rightarrow> proxy_error + (proxy_key \<times> proxy_resolution) list" where
  "parse_connections json upper body =
     (case json body of
        None \<Rightarrow> Inl InvalidConnections
      | Some connections \<Rightarrow> Inr (map_connections upper connections))"

record proxy_status =
  px_status_enabled :: bool
  px_reachable :: bool
  px_mapped :: nat
  px_last_error :: "proxy_error option"

record proxy_shared =
  sh_target :: "http_target option"
  sh_resolutions :: "(proxy_key \<times> proxy_resolution) list"
  sh_status :: proxy_status

definition proxy_shared_new :: proxy_shared where
  "proxy_shared_new =
     \<lparr>sh_target = None, sh_resolutions = [],
      sh_status = \<lparr>px_status_enabled = False, px_reachable = False, px_mapped = 0, px_last_error = None\<rparr>\<rparr>"

definition configure :: "bool \<Rightarrow> string \<Rightarrow> string \<Rightarrow> proxy_shared \<Rightarrow> proxy_shared" where
  "configure enabled controller_url secret s =
     (if \<not> enabled \<or> controller_url = []
      then s\<lparr>sh_target := None, sh_resolutions := [],
             sh_status := \<lparr>px_status_enabled = enabled, px_reachable = False, px_mapped = 0, px_last_error = None\<rparr>\<rparr>
      else s\<lparr>sh_target := Some \<lparr>ht_url = controller_url, ht_secret = secret\<rparr>,
             sh_status := (sh_status s)\<lparr>px_status_enabled := enabled\<rparr>\<rparr>)"

definition proxy_lookup :: "proxy_shared \<Rightarrow> proxy_key \<Rightarrow> proxy_resolution option" where
  "proxy_lookup s = map_of (sh_resolutions s)"

definition store_answer :: "proxy_error + (proxy_key \<times> proxy_resolution) list \<Rightarrow> proxy_shared \<Rightarrow> proxy_shared" where
  "store_answer answer s =
     (case answer of
        Inr resolutions \<Rightarrow>
          s\<lparr>sh_status := (sh_status s)\<lparr>px_reachable := True, px_last_error := None, px_mapped := length resolutions\<rparr>,
            sh_resolutions := resolutions\<rparr>
      | Inl e \<Rightarrow> s\<lparr>sh_status := (sh_status s)\<lparr>px_reachable := False, px_last_error := Some e\<rparr>\<rparr>)"

text \<open>
  The thread sleeps, or waits for the controller's answer with the target it copied, or is gone after a panic. It
  holds the lock while it copies the target and while it stores an answer, not in between.
\<close>

datatype poller = Sleeping | Fetching http_target | Panicked

text \<open>A round's answer: the fetch, which may panic, and the mapping of its body.\<close>

definition poll_answer ::
  "(u8 list \<Rightarrow> wire_connection list option) \<Rightarrow> (string \<Rightarrow> string) \<Rightarrow> (http_error + u8 list) option
     \<Rightarrow> (proxy_error + (proxy_key \<times> proxy_resolution) list) option" where
  "poll_answer json upper fetched =
     map_option (\<lambda>r. case r of Inl e \<Rightarrow> Inl (HttpError e) | Inr body \<Rightarrow> parse_connections json upper body) fetched"

datatype proxy_event =
  Configure bool string string
| Wake
| Answer "(http_error + u8 list) option"

text \<open>The steps of the thread and of the settings handlers, in any order.\<close>

inductive proxy_step ::
  "(u8 list \<Rightarrow> wire_connection list option) \<Rightarrow> (string \<Rightarrow> string) \<Rightarrow> proxy_event
     \<Rightarrow> poller \<times> proxy_shared \<Rightarrow> poller \<times> proxy_shared \<Rightarrow> bool" for json upper where
  step_configure: "proxy_step json upper (Configure enabled url secret) (w, s) (w, configure enabled url secret s)"
| step_idle: "sh_target s = None \<Longrightarrow> proxy_step json upper Wake (Sleeping, s) (Sleeping, s)"
| step_fetch: "sh_target s = Some t \<Longrightarrow> proxy_step json upper Wake (Sleeping, s) (Fetching t, s)"
| step_answer: "poll_answer json upper fetched = Some answer \<Longrightarrow>
    proxy_step json upper (Answer fetched) (Fetching t, s) (Sleeping, store_answer answer s)"
| step_panic: "poll_answer json upper fetched = None \<Longrightarrow>
    proxy_step json upper (Answer fetched) (Fetching t, s) (Panicked, s)"

inductive_cases proxy_stepE [elim]: "proxy_step json upper ev (w, s) (w', s')"
inductive_simps proxy_step_simps: "proxy_step json upper ev (w, s) (w', s')"

inductive proxy_run ::
  "(u8 list \<Rightarrow> wire_connection list option) \<Rightarrow> (string \<Rightarrow> string) \<Rightarrow> proxy_event list
     \<Rightarrow> poller \<times> proxy_shared \<Rightarrow> poller \<times> proxy_shared \<Rightarrow> bool" for json upper where
  run_Nil: "proxy_run json upper [] st st"
| run_Cons: "proxy_step json upper ev st st' \<Longrightarrow> proxy_run json upper evs st' st'' \<Longrightarrow> proxy_run json upper (ev # evs) st st''"

inductive_cases run_NilE [elim]: "proxy_run json upper [] st st'"
inductive_cases run_ConsE [elim]: "proxy_run json upper (ev # evs) st st'"

section \<open>Profiles of fake-IP flows\<close>

text \<open>\<open>now\<close> is the time of the first profile, \<open>later\<close> that of the second or of the proxy's own.\<close>

definition resolved_profile ::
  "int \<Rightarrow> int \<Rightarrow> flow_update \<Rightarrow> endpoint \<Rightarrow> (proxy_key \<Rightarrow> proxy_resolution option) \<Rightarrow> enricher \<Rightarrow> ip_profile \<times> enricher" where
  "resolved_profile now later update remote lookup e =
     (let (p, e) = profile now (ep_address remote) e in
      if ip_scope p \<noteq> FakeIp then (p, e)
      else
      let client = (if ep_address (key_source (fu_key update)) = ep_address remote
                    then key_destination (fu_key update) else key_source (fu_key update)) in
      case for_fake_flow (ep_address client) (ep_port client) (ep_port remote) of
        None \<Rightarrow> (p, e)
      | Some key \<Rightarrow>
      (case lookup key of
         None \<Rightarrow> (p, e)
       | Some resolution \<Rightarrow>
           (case pr_real_address resolution of
              Some real \<Rightarrow>
                let (real_profile, e) = profile later real e in
                (real_profile\<lparr>ip_address := ep_address remote, ip_scope := ip_scope p\<rparr>, e)
            | None \<Rightarrow>
                if pr_country resolution \<noteq> None \<or> pr_asn resolution \<noteq> None
                then (\<lparr>ip_address = ep_address remote, ip_scope = ip_scope p, ip_country = pr_country resolution,
                       ip_region = None, ip_city = None, ip_asn = pr_asn resolution, ip_organization = None,
                       ip_database_version = Some ''proxy'', ip_enriched_at = later\<rparr>, e)
                else (p, e))))"

section \<open>Mapped connections\<close>

lemma map_of_map_connections:
  "map_of (map_connections upper cs) key =
     map_option (connection_resolution upper) (List.find (\<lambda>c. connection_key (wc_metadata c) = Some key) (rev cs))"
proof (induction cs rule: rev_induct)
  case (snoc c cs)
  then show ?case
    by (auto simp: map_connections_def map_connection_def update_conv' split: option.split)
qed (simp add: map_connections_def)

lemma distinct_map_connections: "distinct (map fst (map_connections upper cs))"
  by (induction cs rule: rev_induct)
    (auto simp: map_connections_def map_connection_def intro: distinct_update split: option.split)

lemma plain_text_Nil [simp]: "plain_text []"
  and plain_text_Cons [simp]: "plain_text (c # s) \<longleftrightarrow> 32 < (of_char c :: nat) \<and> (of_char c :: nat) < 127 \<and> plain_text s"
  by (auto simp: plain_text_def)

lemma plain_text_append [simp]: "plain_text (s @ t) \<longleftrightarrow> plain_text s \<and> plain_text t"
  by (simp add: plain_text_def)

lemma plain_text_decimal [simp]: "plain_text (decimal n)"
proof -
  have "32 < (of_char c :: nat) \<and> (of_char c :: nat) < 127" if "c \<in> set (decimal n)" for c
  proof -
    have "(of_char c :: nat) \<in> set (map of_char (decimal n))" unfolding set_map using that by (rule imageI)
    then show ?thesis using decimal_digits_range [of "of_char c" n] by auto
  qed
  then show ?thesis by (auto simp: plain_text_def list_all_iff)
qed

lemma plain_text_ipv4 [simp]: "plain_text (ipv4_text a)"
  by (cases a) (simp add: ipv4_text_def)

lemma read_digits_value:
  "digits_value radix largest acc bs = Some v \<Longrightarrow>
     read_digits radix largest None acc seen bs = Some ((v, seen + length bs), [])"
  by (induction bs arbitrary: acc seen) (auto split: option.splits if_splits)

lemma read_port_decimal: "read_port (58 # decimal_digits (unat p)) = Some (p, [])"
  using unat_le_max [of p] read_digits_value [OF digits_value_decimal [of "unat p" 65535], of 0]
  by (simp add: read_port_def read_char_def read_number_text_def)

lemma parse_port_decimal [simp]: "parse_port (Some (decimal (unat p))) = Some p"
  using unat_le_max [of p] by (simp add: parse_port_def trim_plain parse_decimal)

lemma parse_ip_ipv4 [simp]: "parse_ip (Some (ipv4_text a)) = Some (IpV4 a)"
proof -
  have "parse_ip_text (ipv4_text a) = Some (IpV4 a)" by (simp add: parse_ip_text_v4)
  moreover have "ipv4_text a \<noteq> []" by (cases a) (simp add: ipv4_text_def)
  ultimately show ?thesis by (simp add: parse_ip_def trim_plain)
qed

lemma parse_ip_empty [simp]: "parse_ip (Some []) = None" "parse_ip None = None"
  using trim_plain [of "[]"] by (simp_all add: parse_ip_def plain_text_def)

lemma parse_remote_v4:
  "parse_remote_address (ipv4_text a @ CHR '':'' # decimal (unat (p :: u16))) = Some (IpV4 a)"
proof -
  let ?s = "ipv4_text a @ CHR '':'' # decimal (unat p)"
  have codes: "map of_char ?s = map of_char (ipv4_text a) @ 58 # decimal_digits (unat p)" by simp
  have r: "read_ipv4_addr (map of_char ?s) = Some (a, 58 # decimal_digits (unat p))"
    unfolding codes by (rule read_ipv4_addr_text) (simp add: digit_of_10)
  have "plain_text ?s" by simp
  then have t: "str_trim ?s = ?s" by (rule trim_plain)
  have "parse_ip_text ?s = None" using r by (simp add: parse_ip_text_def whole_def read_ip_addr_def)
  moreover have "parse_socket_addr ?s = Some (IpV4 a, p)"
    using r by (simp add: parse_socket_addr_def whole_def read_socket_addr_v4_def read_port_decimal)
  ultimately show ?thesis by (simp add: parse_remote_address_def t Let_def)
qed

text \<open>
  A connection of the controller is found under its client socket, whatever other connections are listed, unless a
  later one reports the same socket; its address is the origin where the proxy knows it and otherwise
  the node it dialed.
\<close>

theorem mapped_connection_located:
  assumes "key = \<lparr>pk_client = IpV4 client, pk_client_port = client_port, pk_destination_port = port\<rparr>"
    and "list_all (\<lambda>d. connection_key (wc_metadata d) \<noteq> Some key) later"
    and "wm_source_ip (wc_metadata c) = Some (ipv4_text client)"
    and "wm_source_port (wc_metadata c) = Some (decimal (unat client_port))"
    and "wm_destination_port (wc_metadata c) = Some (decimal (unat port))"
    and "wm_destination_ip (wc_metadata c) = Some (case origin of Some a \<Rightarrow> ipv4_text a | None \<Rightarrow> [])"
    and "wm_remote_destination (wc_metadata c) = Some (ipv4_text node @ CHR '':'' # decimal (unat (node_port :: u16)))"
  shows "\<exists>r. map_of (map_connections upper (earlier @ c # later)) key = Some r
    \<and> pr_real_address r = Some (IpV4 (case origin of Some a \<Rightarrow> a | None \<Rightarrow> node))"
proof -
  have k: "connection_key (wc_metadata c) = Some key"
    using assms by (simp add: connection_key_def)
  have "List.find (\<lambda>c. connection_key (wc_metadata c) = Some key) (rev later) = None"
    using assms(2) by (simp add: find_None_iff list_all_iff)
  moreover have "List.find P (xs @ ys) = (case List.find P xs of None \<Rightarrow> List.find P ys | Some x \<Rightarrow> Some x)"
    for P and xs ys :: "wire_connection list"
    by (induction xs) auto
  ultimately have "map_of (map_connections upper (earlier @ c # later)) key = Some (connection_resolution upper c)"
    using k by (simp add: map_of_map_connections)
  moreover have "pr_real_address (connection_resolution upper c) = Some (IpV4 (case origin of Some a \<Rightarrow> a | None \<Rightarrow> node))"
    using assms by (simp add: connection_resolution_def Let_def parse_remote_v4 split: option.split)
  ultimately show ?thesis by blast
qed

definition example_connection :: "string \<Rightarrow> wire_connection" where
  "example_connection origin =
     \<lparr>wc_metadata = \<lparr>wm_source_ip = Some (ipv4_text (Ipv4 192 168 100 9)), wm_source_port = Some (decimal 50123),
        wm_destination_ip = Some origin, wm_destination_port = Some (decimal 443), wm_host = Some ''dns.google'',
        wm_remote_destination = Some (ipv4_text (Ipv4 103 195 188 111) @ CHR '':'' # decimal 443),
        wm_destination_geoip = None, wm_destination_ip_asn = Some ''''\<rparr>, wc_chains = [''a'', ''b'']\<rparr>"

definition example_key :: proxy_key where
  "example_key = \<lparr>pk_client = IpV4 (Ipv4 192 168 100 9), pk_client_port = 50123, pk_destination_port = 443\<rparr>"

lemma mapped_connection_located_witness:
  "\<exists>r. map_of (map_connections id [example_connection '''']) example_key = Some r
     \<and> pr_real_address r = Some (IpV4 (Ipv4 103 195 188 111))"
  using mapped_connection_located [OF example_key_def, of "[]" "example_connection ''''" None "Ipv4 103 195 188 111" 443 id "[]"]
  by (simp add: example_connection_def)

section \<open>Fake addresses\<close>

lemma profile_fields:
  assumes "cache_ok e"
  shows "ip_address (fst (profile now a e)) = a \<and> ip_scope (fst (profile now a e)) = classify a"
proof -
  have "undated p = undated q \<Longrightarrow> ip_address p = ip_address q \<and> ip_scope p = ip_scope q" for p q :: ip_profile
    by (cases p; cases q) (simp add: undated_def)
  moreover have "ip_address (fresh_profile now d a) = a \<and> ip_scope (fresh_profile now d a) = classify a" for d
    by (simp add: fresh_profile_def profile_of_def)
  ultimately show ?thesis using profile_ok [OF assms, of now a] by metis
qed

text \<open>
  Whatever the proxy reports, a profile names the address that was observed and its own scope, and a flow to an address
  that is not a fake one is enriched as if there were no proxy.
\<close>

theorem proxy_touches_only_fake_ips:
  assumes "cache_ok e"
  shows "ip_address (fst (resolved_profile now later update remote lookup e)) = ep_address remote
    \<and> ip_scope (fst (resolved_profile now later update remote lookup e)) = classify (ep_address remote)
    \<and> (classify (ep_address remote) = FakeIp
       \<or> resolved_profile now later update remote lookup e = profile now (ep_address remote) e)"
proof -
  obtain p e' where p: "profile now (ep_address remote) e = (p, e')" by fastforce
  then have "ip_address p = ep_address remote" "ip_scope p = classify (ep_address remote)"
    using profile_fields [OF assms, of now "ep_address remote"] by simp_all
  then show ?thesis
    by (auto simp: resolved_profile_def p Let_def split: option.split prod.split)
qed

text \<open>
  A flow to a fake address whose client socket the proxy knows has the location of the real address, from our own
  database, under the fake address.
\<close>

theorem fake_flow_located_by_proxy:
  assumes "cache_ok e" "classify (ep_address remote) = FakeIp"
    and "client = (if ep_address (key_source (fu_key update)) = ep_address remote
                   then key_destination (fu_key update) else key_source (fu_key update))"
    and "for_fake_flow (ep_address client) (ep_port client) (ep_port remote) = Some key"
    and "lookup key = Some r" "pr_real_address r = Some real"
  shows "undated (fst (resolved_profile now later update remote lookup e))
    = (undated (fresh_profile later (en_database e) real))\<lparr>ip_address := ep_address remote, ip_scope := FakeIp\<rparr>"
proof -
  obtain p e1 where p: "profile now (ep_address remote) e = (p, e1)" by fastforce
  have s: "ip_scope p = FakeIp" using profile_fields [OF assms(1), of now "ep_address remote"] p assms(2) by simp
  have e1: "cache_ok e1" "en_database e1 = en_database e"
    using profile_ok [OF assms(1), of now "ep_address remote"] p by simp_all
  obtain q e2 where q: "profile later real e1 = (q, e2)" by fastforce
  have u: "undated (x\<lparr>ip_address := a, ip_scope := c\<rparr>) = (undated x)\<lparr>ip_address := a, ip_scope := c\<rparr>" for x a c
    by (simp add: undated_def)
  have "fst (resolved_profile now later update remote lookup e) = q\<lparr>ip_address := ep_address remote, ip_scope := FakeIp\<rparr>"
    using assms(4-) by (simp add: resolved_profile_def p s Let_def q assms(3) [symmetric])
  moreover have "undated q = undated (fresh_profile later (en_database e) real)"
    using profile_ok [OF e1(1), of later real] q e1(2) by simp
  ultimately show ?thesis by (simp only: u)
qed

definition fake_remote :: endpoint where
  "fake_remote = \<lparr>ep_address = IpV4 (Ipv4 198 18 0 5), ep_port = Some 443\<rparr>"

definition fake_update :: flow_update where
  "fake_update = \<lparr>fu_key = \<lparr>key_source = \<lparr>ep_address = IpV4 (Ipv4 192 168 100 9), ep_port = Some 50123\<rparr>,
      key_destination = fake_remote, key_interface_index = 2, key_protocol = ProtoTcp, key_direction = FlowOutbound\<rparr>,
     fu_delta = traffic_counters_default, fu_total = traffic_counters_default, fu_first_seen = 0, fu_last_seen = 0,
     fu_state = Active, fu_service = None, fu_application = None\<rparr>"

lemma cache_ok_new: "cache_ok (enricher_new 1)"
  by (simp add: cache_ok_def enricher_new_def)

lemma proxy_touches_only_fake_ips_witness:
  "resolved_profile 1 2 fake_update \<lparr>ep_address = IpV4 (Ipv4 8 8 8 8), ep_port = Some 53\<rparr> (\<lambda>_. None) (enricher_new 1)
     = profile 1 (IpV4 (Ipv4 8 8 8 8)) (enricher_new 1)"
proof -
  have "classify (IpV4 (Ipv4 8 8 8 8)) \<noteq> FakeIp" by (simp add: classify_v4_def u32_from_be_bytes_def)
  then show ?thesis
    using proxy_touches_only_fake_ips [OF cache_ok_new, of 1 2 fake_update
        "\<lparr>ep_address = IpV4 (Ipv4 8 8 8 8), ep_port = Some 53\<rparr>" "\<lambda>_. None"] by simp
qed

lemma fake_flow_located_by_proxy_witness:
  "undated (fst (resolved_profile 1 2 fake_update fake_remote
       [example_key \<mapsto> \<lparr>pr_host = None, pr_real_address = Some (IpV4 (Ipv4 8 8 8 8)), pr_country = None, pr_asn = None, pr_chains = []\<rparr>]
       (set_database 0 example_database (enricher_new 1))))
     = (undated (fresh_profile 2 (Some example_database) (IpV4 (Ipv4 8 8 8 8))))
         \<lparr>ip_address := IpV4 (Ipv4 198 18 0 5), ip_scope := FakeIp\<rparr>"
proof -
  let ?e = "set_database 0 example_database (enricher_new 1)"
  have e: "cache_ok ?e" by (simp add: cache_ok_def set_database_def enricher_new_def)
  have f: "classify (ep_address fake_remote) = FakeIp" by (simp add: fake_remote_def classify_v4_def u32_from_be_bytes_def)
  show ?thesis
    using fake_flow_located_by_proxy [OF e f refl, of fake_update example_key
        "[example_key \<mapsto> \<lparr>pr_host = None, pr_real_address = Some (IpV4 (Ipv4 8 8 8 8)), pr_country = None, pr_asn = None, pr_chains = []\<rparr>]"
        _ "IpV4 (Ipv4 8 8 8 8)" 1 2]
    by (simp add: fake_update_def fake_remote_def for_fake_flow_def example_key_def set_database_def)
qed

section \<open>The poller\<close>

definition proxy_ok :: "proxy_shared \<Rightarrow> bool" where
  "proxy_ok s \<longleftrightarrow> px_mapped (sh_status s) = length (sh_resolutions s) \<and> distinct (map fst (sh_resolutions s))
     \<and> (sh_target s \<noteq> None \<longrightarrow> px_status_enabled (sh_status s))
     \<and> (px_reachable (sh_status s) \<longrightarrow> px_last_error (sh_status s) = None)"

lemma poll_answer_distinct:
  "poll_answer json upper fetched = Some (Inr resolutions) \<Longrightarrow> distinct (map fst resolutions)"
  by (cases fetched; cases "the fetched")
    (auto simp: poll_answer_def parse_connections_def distinct_map_connections split: option.splits)

lemma proxy_step_ok:
  "proxy_step json upper ev (w, s) (w', s') \<Longrightarrow> proxy_ok s \<Longrightarrow> proxy_ok s'"
  by (erule proxy_stepE)
    (auto simp: proxy_ok_def configure_def store_answer_def dest: poll_answer_distinct split: sum.splits)

lemma proxy_run_ok: "proxy_run json upper evs st st' \<Longrightarrow> proxy_ok (snd st) \<Longrightarrow> proxy_ok (snd st')"
proof (induction rule: proxy_run.induct)
  case (run_Cons ev st st' evs st'')
  then show ?case using proxy_step_ok [of json upper ev "fst st" "snd st" "fst st'" "snd st'"] by simp
qed simp

text \<open>
  In any interleaving of the poller with the settings handlers the status reports the number of mappings, there is
  at most one per client socket, a target is set only while the integration is enabled, and no error is shown
  while the controller is reported reachable.
\<close>

theorem proxy_status_consistent:
  assumes "proxy_run json upper evs (Sleeping, proxy_shared_new) (w, s)"
  shows "px_mapped (sh_status s) = length (sh_resolutions s) \<and> distinct (map fst (sh_resolutions s))
    \<and> (sh_target s = None \<or> px_status_enabled (sh_status s))
    \<and> (\<not> px_reachable (sh_status s) \<or> px_last_error (sh_status s) = None)"
  using proxy_run_ok [OF assms] by (auto simp: proxy_ok_def proxy_shared_new_def)

text \<open>Without a request of the settings handlers, a poller without a target changes nothing.\<close>

lemma idle_without_target:
  assumes "proxy_run json upper evs st st'" "list_all (\<lambda>ev. case ev of Configure _ _ _ \<Rightarrow> False | _ \<Rightarrow> True) evs"
    and "sh_target (snd st) = None" "\<not> (\<exists>t. fst st = Fetching t)"
  shows "st' = st"
  using assms
proof (induction rule: proxy_run.induct)
  case (run_Cons ev st st' evs st'')
  obtain w s w' s' where st: "st = (w, s)" "st' = (w', s')" by (cases st; cases st') simp
  have "st' = st" using run_Cons by (auto simp: st proxy_step_simps split: proxy_event.splits)
  then show ?case using run_Cons by simp
qed simp

text \<open>
  Disabling clears the mappings, but a poll that is under way puts its own back: from then on they resolve flows, and the
  status shows a disabled integration that is reachable with mappings, until the next settings request.
\<close>

theorem disabled_mappings_come_back:
  assumes "poll_answer json upper fetched = Some (Inr resolutions)"
    and "proxy_run json upper (Configure False url secret # Answer fetched # evs) (Fetching t, s) (w, s')"
    and "list_all (\<lambda>ev. case ev of Configure _ _ _ \<Rightarrow> False | _ \<Rightarrow> True) evs"
  shows "\<not> px_status_enabled (sh_status s') \<and> sh_resolutions s' = resolutions
    \<and> px_reachable (sh_status s') \<and> px_mapped (sh_status s') = length resolutions"
proof -
  let ?s = "store_answer (Inr resolutions) (configure False url secret s)"
  obtain st1 where 1: "proxy_step json upper (Configure False url secret) (Fetching t, s) st1"
    "proxy_run json upper (Answer fetched # evs) st1 (w, s')"
    using assms(2) by (rule run_ConsE)
  obtain st2 where r: "proxy_step json upper (Answer fetched) st1 st2" "proxy_run json upper evs st2 (w, s')"
    using 1(2) by (rule run_ConsE)
  have "st2 = (Sleeping, ?s)"
    using assms(1) 1(1) r(1) by (cases st1; cases st2) (auto simp: proxy_step_simps)
  then have "(w, s') = (Sleeping, ?s)"
    using idle_without_target [OF r(2) assms(3)] by (simp add: store_answer_def configure_def)
  then show ?thesis by (simp add: store_answer_def configure_def)
qed

text \<open>A panicked poller stays so; mappings are never refreshed again, at most cleared.\<close>

lemma panicked_poller_is_final:
  assumes "proxy_run json upper evs (w, s) (w', s')" "w = Panicked"
  shows "w' = Panicked \<and> (sh_resolutions s' = sh_resolutions s \<or> sh_resolutions s' = [])"
  using assms
proof (induction evs "(w, s)" "(w', s')" arbitrary: w s rule: proxy_run.induct)
  case (run_Cons ev st' evs)
  obtain v u where st': "st' = (v, u)" by fastforce
  have "proxy_step json upper ev (Panicked, s) (v, u)" using run_Cons.hyps(1) run_Cons.prems st' by simp
  then have v: "v = Panicked" "sh_resolutions u = sh_resolutions s \<or> sh_resolutions u = []"
    by (auto simp: proxy_step_simps configure_def split: if_splits)
  show ?case using run_Cons.hyps(3) [OF st' v(1)] v(2) by metis
qed simp

section \<open>A run\<close>

definition example_json :: "u8 list \<Rightarrow> wire_connection list option" where
  "example_json body = Some [example_connection '''']"

definition example_mappings :: "(proxy_key \<times> proxy_resolution) list" where
  "example_mappings = map_connections id [example_connection '''']"

definition enabled_shared :: proxy_shared where
  "enabled_shared = configure True ''http://10.0.0.1'' ''s'' proxy_shared_new"

lemma example_start:
  "proxy_run example_json id [Configure True ''http://10.0.0.1'' ''s'', Wake] (Sleeping, proxy_shared_new)
     (Fetching \<lparr>ht_url = ''http://10.0.0.1'', ht_secret = ''s''\<rparr>, enabled_shared)"
  by (rule run_Cons [OF step_configure run_Cons [OF _ run_Nil]])
    (simp add: proxy_step_simps enabled_shared_def configure_def)

lemma example_answer: "poll_answer example_json id (Some (Inr [])) = Some (Inr example_mappings)"
  by (simp add: poll_answer_def parse_connections_def example_json_def example_mappings_def)

lemma proxy_status_consistent_witness:
  "px_mapped (sh_status enabled_shared) = length (sh_resolutions enabled_shared)"
  using proxy_status_consistent [OF example_start] by blast

lemma disabled_mappings_come_back_witness:
  "\<exists>w s. proxy_run example_json id [Configure False '''' '''', Answer (Some (Inr [])), Wake]
       (Fetching \<lparr>ht_url = ''http://10.0.0.1'', ht_secret = ''s''\<rparr>, enabled_shared) (w, s)
     \<and> \<not> px_status_enabled (sh_status s) \<and> sh_resolutions s = example_mappings"
proof -
  let ?s = "store_answer (Inr example_mappings) (configure False '''' '''' enabled_shared)"
  have r: "proxy_run example_json id [Configure False '''' '''', Answer (Some (Inr [])), Wake]
      (Fetching \<lparr>ht_url = ''http://10.0.0.1'', ht_secret = ''s''\<rparr>, enabled_shared) (Sleeping, ?s)"
    by (rule run_Cons [OF step_configure run_Cons [OF step_answer [OF example_answer] run_Cons [OF step_idle run_Nil]]])
      (simp add: store_answer_def configure_def)
  from disabled_mappings_come_back [OF example_answer r] r show ?thesis by auto
qed

end
