(* ===== verification/Cgroup.thy ===== *)
theory Cgroup
  imports Text "HOL-Library.AList"
begin

text \<open>
  The cgroup index, \<^verbatim>\<open>cgroup.rs\<close>: container ids in cgroup paths, the bounded walk of the tree, and the index
  that is rebuilt when it is stale. The tree of directories is an argument. Proved: the id in a runtime's
  path is found; the walk records exactly the directories within its depth, each with the container of its nearest
  ancestor that names one; the two directions of the index agree, and a walk happens at most every five
  seconds.
\<close>

section \<open>Container ids\<close>

definition is_container_hex :: "string \<Rightarrow> bool" where
  "is_container_hex s \<longleftrightarrow> 32 \<le> length s \<and> list_all (\<lambda>c. digit_of 16 (of_char c) \<noteq> None) s"

definition scope_id :: "string \<Rightarrow> string \<Rightarrow> string option" where
  "scope_id component front =
     Option.bind (strip_prefix component front) (\<lambda>rest.
       Option.bind (strip_suffix rest ''.scope'') (\<lambda>cid. if cid = [] then None else Some cid))"

definition runtime_prefixes :: "string list" where
  "runtime_prefixes = [''docker-'', ''cri-containerd-'', ''crio-'', ''libpod-'']"

text \<open>The first prefix that fits.\<close>

fun find_scope_id :: "string \<Rightarrow> string list \<Rightarrow> string option" where
  "find_scope_id component [] = None"
| "find_scope_id component (p # ps) =
     (case scope_id component p of Some cid \<Rightarrow> Some cid | None \<Rightarrow> find_scope_id component ps)"

definition line_container :: "string \<Rightarrow> string option" where
  "line_container line =
     (let path = last (split_at CHR '':'' line); components = rev (split_at CHR ''/'' path) in
      case find_scope_id (hd components) runtime_prefixes of
        Some cid \<Rightarrow> Some cid
      | None \<Rightarrow>
          if is_container_hex (hd components) \<and> tl components \<noteq> [] \<and> hd (tl components) = ''docker''
          then Some (hd components) else None)"

fun first_container :: "string list \<Rightarrow> string option" where
  "first_container [] = None"
| "first_container (l # ls) = (case line_container l of Some cid \<Rightarrow> Some cid | None \<Rightarrow> first_container ls)"

definition container_id :: "string \<Rightarrow> string option" where
  "container_id contents = first_container (lines contents)"

section \<open>Walk\<close>

definition WALK_DEPTH :: nat where "WALK_DEPTH = 12"

text \<open>
  An entry of a directory: its path where it is UTF-8, whether it is a directory (\<^const>\<open>None\<close> when its metadata cannot be
  read; links are not followed), its inode, and its own entries, \<^const>\<open>None\<close> when they cannot be read.
\<close>

datatype cgroup_entry =
  CgroupEntry (ce_path: "string option") (ce_is_dir: "bool option") (ce_inode: u64) (ce_entries: "cgroup_entry list option")

type_synonym inode_index = "(u64 \<times> string option) list"

definition entry_container :: "cgroup_entry \<Rightarrow> string option \<Rightarrow> string option" where
  "entry_container e inherited =
     (case Option.bind (ce_path e) container_id of Some cid \<Rightarrow> Some cid | None \<Rightarrow> inherited)"

text \<open>The first argument is the depth that is left.\<close>

fun walk :: "nat \<Rightarrow> cgroup_entry list option \<Rightarrow> string option \<Rightarrow> inode_index \<Rightarrow> inode_index" where
  "walk 0 entries inherited index = index"
| "walk (Suc n) None inherited index = index"
| "walk (Suc n) (Some []) inherited index = index"
| "walk (Suc n) (Some (e # es)) inherited index =
     (if ce_is_dir e \<noteq> Some True then walk (Suc n) (Some es) inherited index
      else
        let container = entry_container e inherited;
            index = AList.update (ce_inode e) container index;
            index = walk n (ce_entries e) container index in
        walk (Suc n) (Some es) inherited index)"

definition walk_tree :: "cgroup_entry list option \<Rightarrow> inode_index" where
  "walk_tree root = walk WALK_DEPTH root None []"

section \<open>Index\<close>

definition INDEX_REFRESH :: duration where "INDEX_REFRESH = 5000000000"

record cgroup_index =
  ci_by_inode :: inode_index
  ci_by_container :: "(string \<times> u64 list) list"
  ci_refreshed_at :: "instant option"

definition cgroup_index_default :: cgroup_index where
  "cgroup_index_default = \<lparr>ci_by_inode = [], ci_by_container = [], ci_refreshed_at = None\<rparr>"

definition push_inode :: "u64 \<times> string option \<Rightarrow> (string \<times> u64 list) list \<Rightarrow> (string \<times> u64 list) list" where
  "push_inode entry m =
     (case entry of
        (_, None) \<Rightarrow> m
      | (inode, Some container) \<Rightarrow>
          AList.update container ((case map_of m container of Some is \<Rightarrow> is | None \<Rightarrow> []) @ [inode]) m)"

text \<open>
  The daemon iterates over a hash map; \<open>order\<close> is the order of its iteration, a permutation of the entries.
\<close>

definition cgroup_refresh ::
  "(inode_index \<Rightarrow> inode_index) \<Rightarrow> cgroup_entry list option \<Rightarrow> instant \<Rightarrow> cgroup_index \<Rightarrow> cgroup_index" where
  "cgroup_refresh order root now ix =
     (let by_inode = walk_tree root in
      \<lparr>ci_by_inode = by_inode, ci_by_container = fold push_inode (order by_inode) [], ci_refreshed_at = Some now\<rparr>)"

definition refresh_if_stale ::
  "(inode_index \<Rightarrow> inode_index) \<Rightarrow> cgroup_entry list option \<Rightarrow> instant \<Rightarrow> cgroup_index \<Rightarrow> cgroup_index" where
  "refresh_if_stale order root now ix =
     (if (case ci_refreshed_at ix of None \<Rightarrow> True | Some at \<Rightarrow> int INDEX_REFRESH \<le> now - at)
      then cgroup_refresh order root now ix else ix)"

definition container_for_inode ::
  "(inode_index \<Rightarrow> inode_index) \<Rightarrow> cgroup_entry list option \<Rightarrow> instant \<Rightarrow> u64 \<Rightarrow> cgroup_index \<Rightarrow> string option \<times> cgroup_index" where
  "container_for_inode order root now inode ix =
     (let ix = (if map_of (ci_by_inode ix) inode = None then refresh_if_stale order root now ix else ix) in
      (Option.bind (map_of (ci_by_inode ix) inode) id, ix))"

definition inodes_for_container ::
  "(inode_index \<Rightarrow> inode_index) \<Rightarrow> cgroup_entry list option \<Rightarrow> instant \<Rightarrow> string \<Rightarrow> cgroup_index \<Rightarrow> u64 list \<times> cgroup_index" where
  "inodes_for_container order root now container ix =
     (let ix = refresh_if_stale order root now ix in
      (case map_of (ci_by_container ix) container of Some is \<Rightarrow> is | None \<Rightarrow> [], ix))"

section \<open>Ids in paths\<close>

lemma split_at_join: "split_at sep (t @ sep # s) = split_at sep t @ split_at sep s"
proof (induction t)
  case (Cons c t)
  then show ?case by simp
qed simp

lemma lines_single: "CHR 0x0A \<notin> set s \<Longrightarrow> s \<noteq> [] \<Longrightarrow> lines s = [s]"
  by (simp add: lines_def split_at_none)

lemma scope_id_append: "cid \<noteq> [] \<Longrightarrow> scope_id (p @ cid @ ''.scope'') p = Some cid"
proof -
  have "strip_suffix (cid @ ''.scope'') ''.scope'' = Some cid" by (rule strip_suffix_append)
  then show "cid \<noteq> [] \<Longrightarrow> ?thesis" by (simp add: scope_id_def)
qed

lemma find_scope_id_append:
  assumes "p \<in> set runtime_prefixes" "cid \<noteq> []"
  shows "find_scope_id (p @ cid @ ''.scope'') runtime_prefixes = Some cid"
proof -
  note own = scope_id_append [OF assms(2)]
  have other: "scope_id (p @ s) q = None" if "take (length q) (p @ s) \<noteq> q" for p q s
    using that by (simp add: scope_id_def strip_prefix_def starts_with_def)
  consider "p = ''docker-''" | "p = ''cri-containerd-''" | "p = ''crio-''" | "p = ''libpod-''"
    using assms(1) by (auto simp: runtime_prefixes_def)
  then show ?thesis
  proof cases
    case 1
    then show ?thesis using own [of p] by (simp add: runtime_prefixes_def)
  next
    case 2
    then show ?thesis using own [of p] other [of "''docker-''" p "cid @ ''.scope''"]
      by (simp add: runtime_prefixes_def)
  next
    case 3
    then show ?thesis
      using own [of p] other [of "''docker-''" p "cid @ ''.scope''"] other [of "''cri-containerd-''" p "cid @ ''.scope''"]
      by (simp add: runtime_prefixes_def)
  next
    case 4
    then show ?thesis
      using own [of p] other [of "''docker-''" p "cid @ ''.scope''"] other [of "''cri-containerd-''" p "cid @ ''.scope''"]
        other [of "''crio-''" p "cid @ ''.scope''"]
      by (simp add: runtime_prefixes_def)
  qed
qed

lemma scope_container_id:
  assumes "p \<in> set runtime_prefixes" "cid \<noteq> []" "set cid \<inter> {CHR ''/'', CHR '':'', CHR 0x0A} = {}" "CHR 0x0A \<notin> set path"
  shows "container_id (path @ ''/'' @ p @ cid @ ''.scope'') = Some cid"
proof -
  let ?c = "p @ cid @ ''.scope''"
  let ?l = "path @ ''/'' @ ?c"
  have p: "set p \<inter> {CHR ''/'', CHR '':'', CHR 0x0A} = {}" "p \<noteq> []" using assms(1) by (auto simp: runtime_prefixes_def)
  then have c: "CHR ''/'' \<notin> set ?c" "CHR '':'' \<notin> set ?c" "CHR 0x0A \<notin> set ?c" using assms(3) by auto
  have l: "lines ?l = [?l]" using c(3) assms(4) by (intro lines_single) auto
  obtain before where b: "last (split_at CHR '':'' ?l) = before @ CHR ''/'' # ?c"
  proof (cases "CHR '':'' \<in> set path")
    case True
    then obtain u v where "path = u @ CHR '':'' # v" "CHR '':'' \<notin> set v" by (metis split_list_last)
    then have "split_at CHR '':'' ?l = split_at CHR '':'' u @ [v @ CHR ''/'' # ?c]"
      using c(2) split_at_join [of "CHR '':''" u "v @ CHR ''/'' # ?c"] split_at_none [of "CHR '':''" "v @ CHR ''/'' # ?c"] by simp
    then show ?thesis by (intro that [of v]) (simp only: last_snoc)
  next
    case False
    then show ?thesis using c(2) split_at_none [of "CHR '':''" ?l] by (intro that [of path]) simp
  qed
  have "rev (split_at CHR ''/'' (before @ CHR ''/'' # ?c)) = ?c # rev (split_at CHR ''/'' before)"
    using split_at_none [OF c(1)] by (simp only: split_at_join rev_append rev.simps append.simps)
  then have "line_container ?l = Some cid"
    unfolding line_container_def b Let_def by (simp only: list.sel find_scope_id_append [OF assms(1,2)] option.case)
  then show ?thesis by (simp only: container_id_def l first_container.simps option.case)
qed

text \<open>
  The container id in the scope that a runtime creates is found, at the end of a path or of a line of
  \<^verbatim>\<open>/proc/<pid>/cgroup\<close>, whatever the path before it.
\<close>

theorem scope_container_found:
  assumes "p \<in> set runtime_prefixes" "cid \<noteq> []" "set cid \<inter> {CHR ''/'', CHR '':'', CHR 0x0A} = {}" "CHR 0x0A \<notin> set path"
  shows "container_id (path @ ''/'' @ p @ cid @ ''.scope'') = Some cid"
  using assms by (rule scope_container_id)

lemma scope_container_found_witness:
  "container_id (''0::/system.slice'' @ ''/'' @ ''docker-'' @ ''3f2a9c'' @ ''.scope'') = Some ''3f2a9c''"
  by (rule scope_container_found) (simp_all add: runtime_prefixes_def)

section \<open>What the walk records\<close>

text \<open>
  A directory some levels below \<open>entries\<close>, with the container of its nearest ancestor that names one, itself included.
\<close>

inductive placed :: "cgroup_entry list option \<Rightarrow> string option \<Rightarrow> nat \<Rightarrow> u64 \<Rightarrow> string option \<Rightarrow> bool" where
  placed_here: "e \<in> set es \<Longrightarrow> ce_is_dir e = Some True \<Longrightarrow>
    placed (Some es) inherited 0 (ce_inode e) (entry_container e inherited)"
| placed_below: "e \<in> set es \<Longrightarrow> ce_is_dir e = Some True \<Longrightarrow> placed (ce_entries e) (entry_container e inherited) d inode c \<Longrightarrow>
    placed (Some es) inherited (Suc d) inode c"

inductive_cases placed_NoneE [elim!]: "placed None inherited d inode c"
inductive_cases placed_NilE [elim!]: "placed (Some []) inherited d inode c"

lemma placed_Cons_mono: "placed (Some es) inherited d inode c \<Longrightarrow> placed (Some (e # es)) inherited d inode c"
  by (erule placed.cases) (auto intro: placed.intros)

lemma placed_ConsE:
  assumes "placed (Some (e # es)) inherited d inode c"
  shows "placed (Some es) inherited d inode c
    \<or> (ce_is_dir e = Some True \<and> d = 0 \<and> inode = ce_inode e \<and> c = entry_container e inherited)
    \<or> (\<exists>d'. ce_is_dir e = Some True \<and> d = Suc d' \<and> placed (ce_entries e) (entry_container e inherited) d' inode c)"
  using assms by (cases rule: placed.cases) (auto intro: placed.intros)

lemma walk_Nil [simp]: "walk n (Some []) inherited index = index"
  by (cases n) simp_all

lemma walk_sound:
  "map_of (walk n entries inherited index) inode = Some c \<Longrightarrow>
     map_of index inode = Some c \<or> (\<exists>d<n. placed entries inherited d inode c)"
proof (induction n entries inherited index rule: walk.induct)
  case (4 n e es inherited index)
  show ?case
  proof (cases "ce_is_dir e = Some True")
    case False
    then show ?thesis using "4.IH"(1) "4.prems" placed_Cons_mono by fastforce
  next
    case True
    let ?c = "entry_container e inherited"
    let ?i = "AList.update (ce_inode e) ?c index"
    have "map_of (walk (Suc n) (Some es) inherited (walk n (ce_entries e) ?c ?i)) inode = Some c"
      using "4.prems" True by (simp add: Let_def)
    then have "map_of (walk n (ce_entries e) ?c ?i) inode = Some c \<or> (\<exists>d<Suc n. placed (Some es) inherited d inode c)"
      using "4.IH"(3) [OF _ refl refl refl] True by simp
    moreover have "map_of ?i inode = Some c \<or> (\<exists>d<n. placed (ce_entries e) ?c d inode c)"
      if "map_of (walk n (ce_entries e) ?c ?i) inode = Some c"
      using "4.IH"(2) [OF _ refl refl that] True by simp
    ultimately show ?thesis
      using True placed_Cons_mono [of es inherited _ inode c e] placed_here [of e "e # es" inherited]
        placed_below [of e "e # es" inherited _ inode c]
      by (auto simp: update_conv' split: if_splits) blast+
  qed
qed simp_all

lemma walk_keeps: "map_of index inode \<noteq> None \<Longrightarrow> map_of (walk n entries inherited index) inode \<noteq> None"
proof (induction n entries inherited index rule: walk.induct)
  case (4 n e es inherited index)
  then show ?case by (cases "ce_is_dir e = Some True") (simp_all add: Let_def update_conv')
qed simp_all

lemma walk_complete:
  "placed entries inherited d inode c \<Longrightarrow> d < n \<Longrightarrow> map_of (walk n entries inherited index) inode \<noteq> None"
proof (induction n entries inherited index arbitrary: d c rule: walk.induct)
  case (4 n e es inherited index)
  let ?c = "entry_container e inherited"
  let ?i = "AList.update (ce_inode e) ?c index"
  show ?case
  proof (cases "ce_is_dir e = Some True")
    case False
    then show ?thesis using placed_ConsE [OF "4.prems"(1)] "4.IH"(1) "4.prems"(2) by auto
  next
    case True
    from placed_ConsE [OF "4.prems"(1)]
    consider "placed (Some es) inherited d inode c" | "d = 0" "inode = ce_inode e"
      | d' where "d = Suc d'" "placed (ce_entries e) ?c d' inode c" by blast
    then show ?thesis
    proof cases
      case 1
      then show ?thesis using "4.IH"(3) [OF _ refl refl refl] "4.prems"(2) True by (simp add: Let_def)
    next
      case 2
      then have "map_of ?i inode \<noteq> None" by (simp add: update_conv')
      then show ?thesis using walk_keeps True by (simp add: Let_def)
    next
      case (3 d')
      then have "map_of (walk n (ce_entries e) ?c ?i) inode \<noteq> None"
        using "4.IH"(2) [OF _ refl refl, of d' c] "4.prems"(2) True by simp
      then show ?thesis using walk_keeps True by (simp add: Let_def)
    qed
  qed
qed auto

text \<open>
  The walk records exactly the directories that lie at most twelve levels deep, and each with a container that is its
  own or its nearest ancestor's; in particular it ends on every tree.
\<close>

theorem walk_records_tree:
  "case map_of (walk_tree root) inode of
     Some c \<Rightarrow> \<exists>d<12. placed root None d inode c
   | None \<Rightarrow> \<not> (\<exists>d<12. \<exists>c. placed root None d inode c)"
  using walk_sound [of 12 root None "[]" inode] walk_complete [of root None _ inode _ 12 "[]"]
  by (auto simp: walk_tree_def WALK_DEPTH_def split: option.split)

section \<open>The two directions\<close>

lemma distinct_walk: "distinct (map fst index) \<Longrightarrow> distinct (map fst (walk n entries inherited index))"
proof (induction n entries inherited index rule: walk.induct)
  case (4 n e es inherited index)
  then show ?case by (cases "ce_is_dir e = Some True") (simp_all add: Let_def distinct_update)
qed simp_all

definition inodes_of :: "(string \<times> u64 list) list \<Rightarrow> string \<Rightarrow> u64 set" where
  "inodes_of m container = set (case map_of m container of Some is \<Rightarrow> is | None \<Rightarrow> [])"

lemma inodes_of_push:
  "inodes_of (fold push_inode entries m) container = inodes_of m container \<union> {inode. (inode, Some container) \<in> set entries}"
proof (induction entries arbitrary: m)
  case (Cons e es)
  have "inodes_of (push_inode e m) container = inodes_of m container \<union> {inode. (inode, Some container) = e}"
    by (cases e; cases "snd e") (auto simp: push_inode_def inodes_of_def update_conv' split: option.splits)
  with Cons show ?case by auto
qed simp

definition index_ok :: "cgroup_index \<Rightarrow> bool" where
  "index_ok ix \<longleftrightarrow> (\<forall>container. inodes_of (ci_by_container ix) container = {inode. map_of (ci_by_inode ix) inode = Some (Some container)})"

lemma refresh_ok:
  assumes "\<And>xs. set (order xs) = set xs"
  shows "index_ok (cgroup_refresh order root now ix)"
proof -
  have "distinct (map fst (walk_tree root))" by (simp add: walk_tree_def distinct_walk)
  then show ?thesis
    by (simp add: index_ok_def cgroup_refresh_def Let_def inodes_of_push assms inodes_of_def [of "[]"] map_of_eq_Some_iff)
qed

datatype cgroup_query = ByContainer string | ByInode u64

text \<open>Queries against trees that may have changed in between.\<close>

definition cgroup_serve :: "(inode_index \<Rightarrow> inode_index) \<Rightarrow> cgroup_entry list option \<times> instant \<times> cgroup_query \<Rightarrow> cgroup_index \<Rightarrow> cgroup_index" where
  "cgroup_serve order q ix =
     (case q of
        (root, now, ByContainer container) \<Rightarrow> snd (inodes_for_container order root now container ix)
      | (root, now, ByInode inode) \<Rightarrow> snd (container_for_inode order root now inode ix))"

lemma serve_ok:
  assumes "\<And>xs. set (order xs) = set xs" "index_ok ix"
  shows "index_ok (cgroup_serve order q ix)"
  using assms refresh_ok [of order]
  by (auto simp: cgroup_serve_def inodes_for_container_def container_for_inode_def refresh_if_stale_def Let_def
      split: prod.split cgroup_query.split option.split)

text \<open>
  However the tree changes between the queries, asking for the inodes of a container and then back for the container of an
  inode agree: an inode is listed for a container exactly when the index gives that container for it.
\<close>

theorem index_directions_agree:
  assumes "\<And>xs. set (order xs) = set xs"
    and "ix = fold (cgroup_serve order) queries cgroup_index_default"
    and "inodes_for_container order root now container ix = (inodes, ix')"
  shows "inode \<in> set inodes \<longleftrightarrow> fst (container_for_inode order root now inode ix') = Some container"
proof -
  have "index_ok cgroup_index_default" by (simp add: index_ok_def cgroup_index_default_def inodes_of_def)
  then have "index_ok (fold (cgroup_serve order) queries cgroup_index_default)"
    using serve_ok [OF assms(1)] by (induction queries rule: rev_induct) auto
  then have ok: "index_ok (refresh_if_stale order root now ix)"
    using refresh_ok [OF assms(1)] by (simp add: assms(2) refresh_if_stale_def)
  have ix': "ix' = refresh_if_stale order root now ix" "set inodes = inodes_of (ci_by_container ix') container"
    using assms(3) by (auto simp: inodes_for_container_def Let_def inodes_of_def)
  have "refresh_if_stale order root now ix' = ix'"
    by (auto simp: ix'(1) refresh_if_stale_def cgroup_refresh_def Let_def INDEX_REFRESH_def split: option.splits)
  then have "fst (container_for_inode order root now inode ix') = Option.bind (map_of (ci_by_inode ix') inode) id"
    by (simp add: container_for_inode_def Let_def)
  then show ?thesis using ok ix' by (auto simp: index_ok_def bind_eq_Some_conv)
qed

definition example_tree :: "cgroup_entry list option" where
  "example_tree = Some [CgroupEntry (Some ''/docker-ab.scope'') (Some True) 7 (Some [])]"

lemma index_directions_agree_witness:
  "fst (inodes_for_container id example_tree 1 ''ab'' cgroup_index_default) = [7]
     \<and> fst (container_for_inode id example_tree 1 7 (snd (inodes_for_container id example_tree 1 ''ab'' cgroup_index_default))) = Some ''ab''"
proof -
  have n: "walk 12 = walk (Suc (Suc 10))" by simp
  have "container_id ''/docker-ab.scope'' = Some ''ab''"
    using scope_container_id [of "''docker-''" "''ab''" "[]"] by (simp add: runtime_prefixes_def)
  then have w: "walk_tree example_tree = [(7, Some ''ab'')]"
    unfolding walk_tree_def WALK_DEPTH_def example_tree_def n walk.simps
    by (simp add: entry_container_def Let_def)
  then have "inodes_for_container id example_tree 1 ''ab'' cgroup_index_default
      = ([7], cgroup_refresh id example_tree 1 cgroup_index_default)"
    by (simp add: inodes_for_container_def refresh_if_stale_def cgroup_index_default_def cgroup_refresh_def push_inode_def)
  then show ?thesis
    using index_directions_agree [of id cgroup_index_default "[]" example_tree 1 "''ab''" "[7]"
        "cgroup_refresh id example_tree 1 cgroup_index_default" 7] by simp
qed

end
