(* ===== verification/Application.thy ===== *)
theory Application
  imports Cgroup
begin

text \<open>
  Application identities, \<^verbatim>\<open>api/application.rs\<close>: from a kernel observation of a socket owner, what \<^verbatim>\<open>/proc\<close> and the cgroup
  index say of the process, and a cache of these facts. \<^verbatim>\<open>/proc\<close>, the tree and the clock are arguments. Proved: the
  cache is bounded; the key of an identity determines its kind, container, executable or process name; a fact once
  cached is not looked up again, so a process whose container was not found keeps its process
  identity when the container appears.
\<close>

section \<open>Facts\<close>

definition RESOLUTION_CACHE_CAPACITY :: nat where "RESOLUTION_CACHE_CAPACITY = 4096"

record resolved_application =
  ra_id :: string
  ra_kind :: string
  ra_name :: string
  ra_exe :: "string option"
  ra_comm :: string
  ra_uid :: u32
  ra_container_id :: "string option"

record process_facts =
  pf_exe :: "string option"
  pf_container_id :: "string option"

record application_resolver =
  ar_cache :: "((u32 \<times> u8 list) \<times> process_facts) list"
  ar_cgroups :: cgroup_index

definition application_resolver_default :: application_resolver where
  "application_resolver_default = \<lparr>ar_cache = [], ar_cgroups = cgroup_index_default\<rparr>"

text \<open>What can be read at a moment: \<^verbatim>\<open>/proc\<close>'s links and cgroup files, the cgroup tree, the clock.\<close>

record host_view =
  hv_exe :: "u32 \<Rightarrow> string option"
  hv_cgroup :: "u32 \<Rightarrow> string option"
  hv_tree :: "cgroup_entry list option"
  hv_order :: "inode_index \<Rightarrow> inode_index"
  hv_now :: instant

definition normalize_exe :: "string \<Rightarrow> string option" where
  "normalize_exe path = (let path = trim_end_str '' (deleted)'' path in if path = [] then None else Some path)"

definition read_process_facts :: "host_view \<Rightarrow> u32 \<Rightarrow> process_facts" where
  "read_process_facts host tgid =
     \<lparr>pf_exe = Option.bind (hv_exe host tgid) normalize_exe,
      pf_container_id = Option.bind (hv_cgroup host tgid) container_id\<rparr>"

definition container_for_cgroup :: "host_view \<Rightarrow> u64 \<Rightarrow> application_resolver \<Rightarrow> string option \<times> application_resolver" where
  "container_for_cgroup host cgroup_id r =
     (if cgroup_id = 0 then (None, r)
      else let (container, ix) = container_for_inode (hv_order host) (hv_tree host) (hv_now host) cgroup_id (ar_cgroups r) in
      (container, r\<lparr>ar_cgroups := ix\<rparr>))"

definition facts :: "host_view \<Rightarrow> u32 \<Rightarrow> string \<Rightarrow> u64 \<Rightarrow> application_resolver \<Rightarrow> process_facts \<times> application_resolver" where
  "facts host tgid comm cgroup_id r =
     (let key = (tgid, comm_bytes comm) in
      case map_of (ar_cache r) key of
        Some f \<Rightarrow> (f, r)
      | None \<Rightarrow>
          let r = (if RESOLUTION_CACHE_CAPACITY \<le> length (ar_cache r) then r\<lparr>ar_cache := []\<rparr> else r);
              f = read_process_facts host tgid;
              (f, r) = (if pf_container_id f = None
                        then (case container_for_cgroup host cgroup_id r of (c, r) \<Rightarrow> (f\<lparr>pf_container_id := c\<rparr>, r))
                        else (f, r)) in
          (f, r\<lparr>ar_cache := AList.update key f (ar_cache r)\<rparr>))"

text \<open>The file name of an executable.\<close>

definition exe_name :: "string \<Rightarrow> string" where
  "exe_name exe = (let name = last (split_at CHR ''/'' exe) in if name = [] then exe else name)"

definition identity_of :: "process_facts \<Rightarrow> application_ref \<Rightarrow> resolved_application option" where
  "identity_of f a =
     (let comm = app_comm a;
          identity = (\<lambda>key kind name. Some \<lparr>ra_id = key, ra_kind = kind, ra_name = name, ra_exe = pf_exe f, ra_comm = comm,
            ra_uid = app_uid a, ra_container_id = pf_container_id f\<rparr>) in
      case pf_container_id f of
        Some c \<Rightarrow> identity (''cont:'' @ c) ''container'' (if comm = [] then str_of_chars (take 12 (chars_of c)) else comm)
      | None \<Rightarrow>
          (case pf_exe f of
             Some exe \<Rightarrow> identity (''proc:'' @ exe) ''process'' (exe_name exe)
           | None \<Rightarrow> if comm \<noteq> [] then identity (''proc:comm:'' @ comm) ''process'' comm else None))"

definition resolve_identity ::
  "host_view \<Rightarrow> application_ref option \<Rightarrow> application_resolver \<Rightarrow> resolved_application option \<times> application_resolver" where
  "resolve_identity host application r =
     (case application of
        None \<Rightarrow> (None, r)
      | Some a \<Rightarrow>
          let (f, r) = facts host (app_tgid a) (app_comm a) (app_cgroup_id a) r in
          (identity_of f a, r))"

section \<open>The cache\<close>

lemma facts_cached: "map_of (ar_cache r) (tgid, comm_bytes comm) = Some f \<Longrightarrow> facts host tgid comm cgroup r = (f, r)"
  by (simp add: facts_def)

lemma container_for_cgroup_cache [simp]: "ar_cache (snd (container_for_cgroup host cgroup r)) = ar_cache r"
  by (simp add: container_for_cgroup_def split: prod.split)

lemma facts_stored: "map_of (ar_cache (snd (facts host tgid comm cgroup r))) (tgid, comm_bytes comm) = Some (fst (facts host tgid comm cgroup r))"
  by (auto simp: facts_def Let_def update_conv' split: option.split prod.split)

lemma length_update_le: "length (AList.update k v m) \<le> Suc (length m)"
  by (induction m) auto

lemma facts_bounded:
  assumes "length (ar_cache r) \<le> RESOLUTION_CACHE_CAPACITY"
  shows "length (ar_cache (snd (facts host tgid comm cgroup r))) \<le> RESOLUTION_CACHE_CAPACITY"
proof -
  let ?r = "if RESOLUTION_CACHE_CAPACITY \<le> length (ar_cache r) then r\<lparr>ar_cache := []\<rparr> else r"
  have c: "length (ar_cache ?r) < RESOLUTION_CACHE_CAPACITY"
    by (simp add: RESOLUTION_CACHE_CAPACITY_def)
  have l: "length (AList.update k v (ar_cache ?r)) \<le> RESOLUTION_CACHE_CAPACITY" for k and v :: process_facts
    using length_update_le [of k v "ar_cache ?r"] c by linarith
  have s: "ar_cache r' = ar_cache ?r" if "container_for_cgroup host cgroup ?r = (c, r')" for c r'
    using container_for_cgroup_cache [of host cgroup ?r] that by simp
  show ?thesis
  proof (cases "map_of (ar_cache r) (tgid, comm_bytes comm)")
    case None
    obtain c r' where k: "container_for_cgroup host cgroup ?r = (c, r')" by fastforce
    show ?thesis using None k l s [OF k]
      by (simp add: facts_def Let_def)
  qed (use assms in \<open>simp add: facts_def\<close>)
qed

text \<open>The cache of facts never exceeds its capacity, whatever is observed and whatever the host answers.\<close>

theorem resolution_cache_bounded:
  "length (ar_cache (fold (\<lambda>(host, application) r. snd (resolve_identity host application r)) observations
     application_resolver_default)) \<le> 4096"
proof -
  have "length (ar_cache (snd (resolve_identity host a r))) \<le> 4096" if "length (ar_cache r) \<le> 4096" for host a r
  proof (cases a)
    case (Some x)
    then have "snd (resolve_identity host a r) = snd (facts host (app_tgid x) (app_comm x) (app_cgroup_id x) r)"
      by (simp add: resolve_identity_def split: prod.split)
    then show ?thesis using facts_bounded [of r host] that by (simp add: RESOLUTION_CACHE_CAPACITY_def)
  qed (use that in \<open>simp add: resolve_identity_def\<close>)
  then have "length (ar_cache (fold (\<lambda>(host, application) r. snd (resolve_identity host application r)) observations r)) \<le> 4096"
    if "length (ar_cache r) \<le> 4096" for r
    using that by (induction observations arbitrary: r) auto
  then show ?thesis by (simp add: application_resolver_default_def)
qed

section \<open>Identities\<close>

definition plain_facts :: "process_facts \<Rightarrow> bool" where
  "plain_facts f \<longleftrightarrow> (case pf_exe f of None \<Rightarrow> True | Some exe \<Rightarrow> starts_with exe ''/'')"

text \<open>
  The key of an identity is stable and unambiguous: two observations have the same key exactly when they
  ran in the same container, or outside one from the same executable, or, where neither is known, under the
  same process name. Executables are absolute paths.
\<close>

theorem identity_key_unambiguous:
  assumes "identity_of f a = Some x" "identity_of g b = Some y" "plain_facts f" "plain_facts g"
  shows "ra_id x = ra_id y \<longleftrightarrow>
    pf_container_id f = pf_container_id g
    \<and> (pf_container_id f \<noteq> None \<or> pf_exe f = pf_exe g \<and> (pf_exe f \<noteq> None \<or> app_comm a = app_comm b))"
  using assms
  by (auto simp: identity_of_def Let_def plain_facts_def starts_with_def split: option.splits if_splits)

lemma identity_key_unambiguous_witness:
  "identity_of \<lparr>pf_exe = Some ''/usr/bin/curl'', pf_container_id = None\<rparr>
      \<lparr>app_tgid = 1, app_uid = 0, app_cgroup_id = 0, app_comm = ''curl''\<rparr> \<noteq>
   identity_of \<lparr>pf_exe = None, pf_container_id = None\<rparr> \<lparr>app_tgid = 1, app_uid = 0, app_cgroup_id = 0, app_comm = ''curl''\<rparr>"
proof
  let ?f = "\<lparr>pf_exe = Some ''/usr/bin/curl'', pf_container_id = None\<rparr>"
  let ?g = "\<lparr>pf_exe = None, pf_container_id = None\<rparr>"
  let ?a = "\<lparr>app_tgid = 1, app_uid = 0, app_cgroup_id = 0, app_comm = ''curl''\<rparr>"
  assume e: "identity_of ?f ?a = identity_of ?g ?a"
  obtain x where x: "identity_of ?f ?a = Some x" by (simp add: identity_of_def)
  then have "identity_of ?g ?a = Some x" using e by simp
  from identity_key_unambiguous [OF x this] show False by (simp add: plain_facts_def starts_with_def)
qed

text \<open>
  A process whose container could not be found once, because neither \<^verbatim>\<open>/proc\<close> nor the cgroup index named it, keeps the identity
  of its executable or name while the cache holds its facts, whatever the host says afterwards; a later process with
  its number and name inherits it.
\<close>

theorem missed_container_stays_missed:
  assumes "fst (facts host tgid comm cgroup r) = f" "r' = snd (facts host tgid comm cgroup r)"
    and "app_tgid a = tgid" "comm_bytes (app_comm a) = comm_bytes comm"
  shows "resolve_identity later (Some a) r' = (identity_of f a, r')"
proof -
  have "map_of (ar_cache r') (app_tgid a, comm_bytes (app_comm a)) = Some f"
    using facts_stored [of host tgid comm cgroup r] assms by simp
  then show ?thesis by (simp add: resolve_identity_def facts_cached)
qed

definition empty_host :: host_view where
  "empty_host = \<lparr>hv_exe = (\<lambda>_. None), hv_cgroup = (\<lambda>_. None), hv_tree = None, hv_order = id, hv_now = 0\<rparr>"

lemma missed_container_stays_missed_witness:
  "map_option ra_id (fst (resolve_identity (empty_host\<lparr>hv_cgroup := (\<lambda>_. Some ''0::/x/docker-ab.scope'')\<rparr>)
      (Some \<lparr>app_tgid = 7, app_uid = 0, app_cgroup_id = 0, app_comm = ''sh''\<rparr>)
      (snd (facts empty_host 7 ''sh'' 0 application_resolver_default)))) = Some ''proc:comm:sh''"
proof -
  have f: "fst (facts empty_host 7 ''sh'' 0 application_resolver_default) = \<lparr>pf_exe = None, pf_container_id = None\<rparr>"
    by (simp add: facts_def application_resolver_default_def RESOLUTION_CACHE_CAPACITY_def read_process_facts_def
        empty_host_def container_for_cgroup_def Let_def)
  show ?thesis
    using missed_container_stays_missed [OF f refl, of "\<lparr>app_tgid = 7, app_uid = 0, app_cgroup_id = 0, app_comm = ''sh''\<rparr>"]
    by (simp add: identity_of_def Let_def)
qed

end
