(* ===== verification/Db_Common.thy ===== *)
theory Db_Common
  imports Health
begin

text \<open>
  What the parts of the store in \<^verbatim>\<open>api/db.rs\<close> share: wall-clock times in milliseconds as the
  tables hold them (\<^verbatim>\<open>api/dto.rs\<close>), the errors of the API, and the ring of audited operations.
  Proved: times survive the store up to the millisecond, and the ring holds the latest operations.
\<close>

section \<open>Times\<close>

definition I64_MAX :: int where "I64_MAX = 9223372036854775807"

text \<open>\<^verbatim>\<open>as_millis\<close> rounds towards the epoch on both sides of it.\<close>

definition unix_millis :: "system_time \<Rightarrow> int" where
  "unix_millis t =
     (if 0 \<le> t then min (t div 1000000) I64_MAX else - min ((- t) div 1000000) I64_MAX)"

definition unix_millis_time :: "int \<Rightarrow> system_time" where
  "unix_millis_time millis = max millis 0 * 1000000"

lemma unix_millis_of_time:
  "0 \<le> m \<Longrightarrow> m \<le> I64_MAX \<Longrightarrow> unix_millis (unix_millis_time m) = m"
  by (simp add: unix_millis_def unix_millis_time_def)

lemma unix_millis_mono: "s \<le> t \<Longrightarrow> unix_millis s \<le> unix_millis t"
proof -
  assume a: "s \<le> t"
  show ?thesis
  proof (cases "0 \<le> s")
    case True
    then show ?thesis using a zdiv_mono1 [OF a, of 1000000] by (simp add: unix_millis_def)
  next
    case False
    have "0 \<le> (- s) div 1000000" using False by (simp add: pos_imp_zdiv_nonneg_iff)
    moreover have "0 \<le> t \<Longrightarrow> 0 \<le> t div 1000000" by (simp add: pos_imp_zdiv_nonneg_iff)
    moreover have "(- t) div 1000000 \<le> (- s) div 1000000" using a by (intro zdiv_mono1) auto
    ultimately show ?thesis using False by (auto simp: unix_millis_def I64_MAX_def)
  qed
qed

section \<open>Errors\<close>

text \<open>The texts are dropped but for what was refused.\<close>

datatype 'r api_error =
  ApiBadRequest 'r
| ApiNotFound
| ApiConflict
| ApiUnprocessable 'r
| ApiInternal

section \<open>Audited operations\<close>

definition AUDIT_CAPACITY :: nat where "AUDIT_CAPACITY = 32"

record audit_entry =
  ae_at :: system_time
  ae_action :: string
  ae_outcome :: string

text \<open>\<^verbatim>\<open>Db::audit\<close> and \<^verbatim>\<open>Db::record_operation\<close>.\<close>

definition audit :: "system_time \<Rightarrow> string \<Rightarrow> string \<Rightarrow> audit_entry list \<Rightarrow> audit_entry list" where
  "audit now action outcome ring =
     (if AUDIT_CAPACITY \<le> length ring then tl ring else ring)
     @ [\<lparr>ae_at = now, ae_action = action, ae_outcome = outcome\<rparr>]"

text \<open>The ring holds the latest operations, as many as fit.\<close>

lemma audit_keeps_latest:
  assumes "length ring \<le> AUDIT_CAPACITY"
  shows "fold (\<lambda>(now, action, outcome). audit now action outcome) operations ring
    = (let all = ring @ map (\<lambda>(now, action, outcome). \<lparr>ae_at = now, ae_action = action, ae_outcome = outcome\<rparr>) operations
       in drop (length all - AUDIT_CAPACITY) all)"
  using assms
proof (induction operations arbitrary: ring)
  case Nil
  then show ?case by simp
next
  case (Cons x xs)
  obtain n a r where x: "x = (n, a, r)" by (cases x)
  let ?e = "\<lparr>ae_at = n, ae_action = a, ae_outcome = r\<rparr>"
  have l: "length (audit n a r ring) \<le> AUDIT_CAPACITY"
    using Cons.prems by (auto simp: audit_def AUDIT_CAPACITY_def)
  show ?case
  proof (cases "length ring = AUDIT_CAPACITY")
    case True
    then obtain y ys where ring: "ring = y # ys" by (cases ring) (auto simp: AUDIT_CAPACITY_def)
    then show ?thesis using True Cons.IH [OF l]
      by (simp add: x audit_def Let_def drop_Suc Suc_diff_le)
  next
    case False
    then show ?thesis using Cons.prems Cons.IH [OF l]
      by (simp add: x audit_def Let_def)
  qed
qed

end
