(* ===== verification/Rule_Store.thy ===== *)
theory Rule_Store
  imports Policy_Compile Db_Common
begin

text \<open>
  The stored Traffic Rules: the table of \<^verbatim>\<open>api/db.rs\<close> with its statements, and the part of the
  handlers in \<^verbatim>\<open>api/mod.rs\<close> that turns a request into a stored rule. The serialisation of selectors
  (\<^verbatim>\<open>serde_json\<close>) is a pair of functions, with the law that what is written reads back; a statement
  may fail, as an argument says. Proved: an accepted rule reads back as it was requested, the table
  stays readable, valid and bounded over any requests, and a partial update changes what it names.
\<close>

section \<open>Records\<close>

record traffic_rule_record =
  rc_rule :: traffic_rule
  rc_created_at :: system_time
  rc_updated_at :: system_time

record traffic_rule_draft =
  td_action :: action_spec
  td_direction :: rule_direction
  td_selector :: selector
  td_enabled :: bool

text \<open>A row of the table; \<^verbatim>\<open>RawTrafficRule\<close> has its columns.\<close>

record raw_traffic_rule =
  rr_id :: int
  rr_action :: string
  rr_direction :: string
  rr_selector_json :: string
  rr_rate_bytes_per_s :: "int option"
  rr_burst_bytes :: "int option"
  rr_enabled :: int
  rr_created_at_ms :: int
  rr_updated_at_ms :: int

type_synonym selector_encode = "selector \<Rightarrow> string option"
type_synonym selector_decode = "string \<Rightarrow> selector option"

definition codec_law :: "selector_encode \<Rightarrow> selector_decode \<Rightarrow> bool" where
  "codec_law enc dec \<longleftrightarrow> (\<forall>s json. enc s = Some json \<longrightarrow> dec json = Some s)"

text \<open>\<^verbatim>\<open>RawTrafficRule::into_record\<close>; the casts of the columns wrap as those of the source.\<close>

definition unsigned_column :: "int option \<Rightarrow> u64" where
  "unsigned_column c = word_of_int (max (case c of Some v \<Rightarrow> v | None \<Rightarrow> 0) 0)"

definition into_record :: "selector_decode \<Rightarrow> raw_traffic_rule \<Rightarrow> traffic_rule_record option" where
  "into_record dec row =
     (case action_from_name (rr_action row) of
        None \<Rightarrow> None
      | Some action \<Rightarrow>
     (case direction_from_name (rr_direction row) of
        None \<Rightarrow> None
      | Some direction \<Rightarrow>
     (case dec (rr_selector_json row) of
        None \<Rightarrow> None
      | Some selector \<Rightarrow>
          let rate = unsigned_column (rr_rate_bytes_per_s row);
              burst = unsigned_column (rr_burst_bytes row) in
          Some \<lparr>rc_rule = \<lparr>tr_id = word_of_int (rr_id row),
                          tr_action = (case action of Limit \<Rightarrow> LimitSpec rate burst | Block \<Rightarrow> BlockSpec),
                          tr_direction = direction, tr_selector = selector, tr_enabled = rr_enabled row \<noteq> 0\<rparr>,
                rc_created_at = unix_millis_time (rr_created_at_ms row),
                rc_updated_at = unix_millis_time (rr_updated_at_ms row)\<rparr>)))"

section \<open>Statements\<close>

datatype rule_statement = SelectRules | SelectRule | InsertRule | UpdateRule | DeleteRule

text \<open>
  The table in the order of its keys, the revision, and the audited operations. Which statements the
  database executes is the argument \<open>sql\<close>.
\<close>

record rule_db =
  rd_rows :: "raw_traffic_rule list"
  rd_revision :: u64
  rd_audit :: "audit_entry list"

datatype refusal = UnknownAction string | UnknownDirection string | BlockWithRate | InvalidRule reason

type_synonym sql = "rule_statement \<Rightarrow> bool"
type_synonym 'a answer = "refusal api_error + 'a"

fun collect_some :: "'a option list \<Rightarrow> 'a list option" where
  "collect_some [] = Some []"
| "collect_some (None # xs) = None"
| "collect_some (Some x # xs) = map_option ((#) x) (collect_some xs)"

definition list_rules :: "sql \<Rightarrow> selector_decode \<Rightarrow> rule_db \<Rightarrow> traffic_rule_record list answer" where
  "list_rules sql dec db =
     (if \<not> sql SelectRules then Inl ApiInternal
      else case collect_some (map (into_record dec) (rd_rows db)) of
        Some records \<Rightarrow> Inr records
      | None \<Rightarrow> Inl ApiInternal)"

definition select_rule :: "sql \<Rightarrow> selector_decode \<Rightarrow> int \<Rightarrow> rule_db \<Rightarrow> traffic_rule_record answer" where
  "select_rule sql dec rid db =
     (if \<not> sql SelectRule then Inl ApiInternal
      else case List.find (\<lambda>row. rr_id row = rid) (rd_rows db) of
        Some row \<Rightarrow> (case into_record dec row of Some rec \<Rightarrow> Inr rec | None \<Rightarrow> Inl ApiInternal)
      | None \<Rightarrow> Inl ApiNotFound)"

text \<open>
  A key the statement leaves out is one more than the largest, or 1. (At the largest 64-bit key SQLite
  searches for a free one.)
\<close>

definition next_rowid :: "raw_traffic_rule list \<Rightarrow> int" where
  "next_rowid rows = fold max (map rr_id rows) 0 + 1"

definition rule_columns :: "traffic_rule_draft \<Rightarrow> string \<Rightarrow> int \<Rightarrow> raw_traffic_rule \<Rightarrow> raw_traffic_rule" where
  "rule_columns draft json now row =
     row\<lparr>rr_action := action_name (spec_action (td_action draft)),
         rr_direction := direction_as_str (td_direction draft), rr_selector_json := json,
         rr_rate_bytes_per_s := Some (sint (fst (spec_rates (td_action draft)))),
         rr_burst_bytes := Some (sint (snd (spec_rates (td_action draft)))),
         rr_enabled := (if td_enabled draft then 1 else 0), rr_updated_at_ms := now\<rparr>"

definition blank_row :: "int \<Rightarrow> int \<Rightarrow> raw_traffic_rule" where
  "blank_row rid now =
     \<lparr>rr_id = rid, rr_action = [], rr_direction = [], rr_selector_json = [], rr_rate_bytes_per_s = None,
      rr_burst_bytes = None, rr_enabled = 0, rr_created_at_ms = now, rr_updated_at_ms = now\<rparr>"

definition insert_rule ::
  "sql \<Rightarrow> selector_encode \<Rightarrow> selector_decode \<Rightarrow> system_time \<Rightarrow> traffic_rule_draft \<Rightarrow> rule_db
     \<Rightarrow> traffic_rule_record answer \<times> rule_db" where
  "insert_rule sql enc dec now draft db =
     (case enc (td_selector draft) of
        None \<Rightarrow> (Inl ApiInternal, db)
      | Some json \<Rightarrow>
          if \<not> sql InsertRule then (Inl ApiInternal, db)
          else
            let rid = next_rowid (rd_rows db);
                row = rule_columns draft json (unix_millis now) (blank_row rid (unix_millis now));
                db = db\<lparr>rd_rows := rd_rows db @ [row], rd_revision := rd_revision db + 1\<rparr> in
            (select_rule sql dec rid db, db))"

definition update_rule ::
  "sql \<Rightarrow> selector_encode \<Rightarrow> selector_decode \<Rightarrow> system_time \<Rightarrow> int \<Rightarrow> traffic_rule_draft \<Rightarrow> rule_db
     \<Rightarrow> traffic_rule_record answer \<times> rule_db" where
  "update_rule sql enc dec now rid draft db =
     (case enc (td_selector draft) of
        None \<Rightarrow> (Inl ApiInternal, db)
      | Some json \<Rightarrow>
          if \<not> sql UpdateRule then (Inl ApiInternal, db)
          else if rid \<notin> set (map rr_id (rd_rows db)) then (Inl ApiNotFound, db)
          else
            let db = db\<lparr>rd_rows := map (\<lambda>row. if rr_id row = rid then rule_columns draft json (unix_millis now) row else row)
                                      (rd_rows db),
                        rd_revision := rd_revision db + 1\<rparr> in
            (select_rule sql dec rid db, db))"

definition delete_rule :: "sql \<Rightarrow> int \<Rightarrow> rule_db \<Rightarrow> unit answer \<times> rule_db" where
  "delete_rule sql rid db =
     (if \<not> sql DeleteRule then (Inl ApiInternal, db)
      else if rid \<notin> set (map rr_id (rd_rows db)) then (Inl ApiNotFound, db)
      else (Inr (), db\<lparr>rd_rows := filter (\<lambda>row. rr_id row \<noteq> rid) (rd_rows db), rd_revision := rd_revision db + 1\<rparr>))"

section \<open>Requests\<close>

record create_request =
  cq_action :: string
  cq_direction :: string
  cq_selector :: selector
  cq_rate_bytes_per_s :: "u64 option"
  cq_enabled :: "bool option"

record update_request =
  uq_action :: "string option"
  uq_direction :: "string option"
  uq_selector :: "selector option"
  uq_rate_bytes_per_s :: "u64 option"
  uq_enabled :: "bool option"

definition or_else :: "'a option \<Rightarrow> 'a \<Rightarrow> 'a" where
  "or_else x d = (case x of Some v \<Rightarrow> v | None \<Rightarrow> d)"

definition validate_draft :: "traffic_rule_draft \<Rightarrow> unit answer" where
  "validate_draft draft =
     (case validate_rule \<lparr>tr_id = 0, tr_action = td_action draft, tr_direction = td_direction draft,
                          tr_selector = td_selector draft, tr_enabled = td_enabled draft\<rparr> of
        Inl r \<Rightarrow> Inl (ApiUnprocessable (InvalidRule r))
      | Inr u \<Rightarrow> Inr u)"

definition draft_from_create :: "create_request \<Rightarrow> traffic_rule_draft answer" where
  "draft_from_create request =
     (case action_from_name (cq_action request) of
        None \<Rightarrow> Inl (ApiUnprocessable (UnknownAction (cq_action request)))
      | Some kind \<Rightarrow>
     (case direction_from_name (cq_direction request) of
        None \<Rightarrow> Inl (ApiUnprocessable (UnknownDirection (cq_direction request)))
      | Some direction \<Rightarrow>
          and_then
            (case kind of
               Limit \<Rightarrow> Inr (LimitSpec (or_else (cq_rate_bytes_per_s request) 0) (or_else (cq_rate_bytes_per_s request) 0))
             | Block \<Rightarrow> if cq_rate_bytes_per_s request \<noteq> None then Inl (ApiUnprocessable BlockWithRate) else Inr BlockSpec)
            (\<lambda>action.
              let draft = \<lparr>td_action = action, td_direction = direction, td_selector = cq_selector request,
                           td_enabled = or_else (cq_enabled request) True\<rparr> in
              and_then (validate_draft draft) (\<lambda>_. Inr draft))))"

definition block_action :: "update_request \<Rightarrow> action_spec answer" where
  "block_action request =
     (if uq_rate_bytes_per_s request \<noteq> None then Inl (ApiUnprocessable BlockWithRate) else Inr BlockSpec)"

definition limit_action :: "u64 \<Rightarrow> update_request \<Rightarrow> action_spec answer" where
  "limit_action old request =
     (let rate = or_else (uq_rate_bytes_per_s request) old in Inr (LimitSpec rate rate))"

definition updated_action :: "traffic_rule \<Rightarrow> update_request \<Rightarrow> action_spec answer" where
  "updated_action existing request =
     (case uq_action request of
        Some name \<Rightarrow>
          (case action_from_name name of
             None \<Rightarrow> Inl (ApiUnprocessable (UnknownAction name))
           | Some Limit \<Rightarrow> limit_action (fst (spec_rates (tr_action existing))) request
           | Some Block \<Rightarrow> block_action request)
      | None \<Rightarrow>
          (case tr_action existing of
             LimitSpec rate _ \<Rightarrow> limit_action rate request
           | BlockSpec \<Rightarrow> block_action request))"

definition draft_from_update :: "traffic_rule \<Rightarrow> update_request \<Rightarrow> traffic_rule_draft answer" where
  "draft_from_update existing request =
     and_then
       (case uq_direction request of
          Some name \<Rightarrow>
            (case direction_from_name name of
               None \<Rightarrow> Inl (ApiUnprocessable (UnknownDirection name))
             | Some direction \<Rightarrow> Inr direction)
        | None \<Rightarrow> Inr (tr_direction existing))
       (\<lambda>direction. and_then (updated_action existing request)
       (\<lambda>action.
          let draft = \<lparr>td_action = action, td_direction = direction,
                       td_selector = or_else (uq_selector request) (tr_selector existing),
                       td_enabled = or_else (uq_enabled request) (tr_enabled existing)\<rparr> in
          and_then (validate_draft draft) (\<lambda>_. Inr draft)))"

text \<open>
  The parts of the handlers under the lock. The handlers take the number of a rule as 32 bits.
\<close>

definition create_stored ::
  "sql \<Rightarrow> selector_encode \<Rightarrow> selector_decode \<Rightarrow> system_time \<Rightarrow> create_request \<Rightarrow> rule_db
     \<Rightarrow> traffic_rule_record answer \<times> rule_db" where
  "create_stored sql enc dec now request db =
     (case draft_from_create request of
        Inl e \<Rightarrow> (Inl e, db)
      | Inr draft \<Rightarrow>
     (case list_rules sql dec db of
        Inl e \<Rightarrow> (Inl e, db)
      | Inr records \<Rightarrow>
          if MAX_TRAFFIC_RULES \<le> length records then (Inl ApiConflict, db)
          else
            let (answer, db) = insert_rule sql enc dec now draft db in
            (case answer of
               Inl e \<Rightarrow> (Inl e, db)
             | Inr rec \<Rightarrow>
                 (Inr rec, db\<lparr>rd_audit := audit now ''traffic_rule.create'' ''completed'' (rd_audit db)\<rparr>))))"

definition read_update ::
  "sql \<Rightarrow> selector_decode \<Rightarrow> u32 \<Rightarrow> update_request \<Rightarrow> rule_db \<Rightarrow> traffic_rule_draft answer" where
  "read_update sql dec rid request db =
     and_then (select_rule sql dec (uint rid) db) (\<lambda>rec. draft_from_update (rc_rule rec) request)"

definition store_update ::
  "sql \<Rightarrow> selector_encode \<Rightarrow> selector_decode \<Rightarrow> system_time \<Rightarrow> u32 \<Rightarrow> traffic_rule_draft \<Rightarrow> rule_db
     \<Rightarrow> traffic_rule_record answer \<times> rule_db" where
  "store_update sql enc dec now rid draft db =
     (let (answer, db) = update_rule sql enc dec now (uint rid) draft db in
      (case answer of
         Inl e \<Rightarrow> (Inl e, db)
       | Inr rec \<Rightarrow> (Inr rec, db\<lparr>rd_audit := audit now ''traffic_rule.update'' ''completed'' (rd_audit db)\<rparr>)))"

definition update_stored ::
  "sql \<Rightarrow> selector_encode \<Rightarrow> selector_decode \<Rightarrow> system_time \<Rightarrow> u32 \<Rightarrow> update_request \<Rightarrow> rule_db
     \<Rightarrow> traffic_rule_record answer \<times> rule_db" where
  "update_stored sql enc dec now rid request db =
     (case read_update sql dec rid request db of
        Inl e \<Rightarrow> (Inl e, db)
      | Inr draft \<Rightarrow> store_update sql enc dec now rid draft db)"

definition delete_stored :: "sql \<Rightarrow> system_time \<Rightarrow> u32 \<Rightarrow> rule_db \<Rightarrow> unit answer \<times> rule_db" where
  "delete_stored sql now rid db =
     (let (answer, db) = delete_rule sql (uint rid) db in
      (case answer of
         Inl e \<Rightarrow> (Inl e, db)
       | Inr _ \<Rightarrow> (Inr (), db\<lparr>rd_audit := audit now ''traffic_rule.delete'' ''completed'' (rd_audit db)\<rparr>)))"

section \<open>What is written reads back\<close>

definition draft_ok :: "traffic_rule_draft \<Rightarrow> bool" where
  "draft_ok draft \<longleftrightarrow> validate_draft draft = Inr ()
     \<and> fst (spec_rates (td_action draft)) = snd (spec_rates (td_action draft))"

definition rule_of_draft :: "u32 \<Rightarrow> traffic_rule_draft \<Rightarrow> traffic_rule" where
  "rule_of_draft rid draft =
     \<lparr>tr_id = rid, tr_action = td_action draft, tr_direction = td_direction draft,
      tr_selector = td_selector draft, tr_enabled = td_enabled draft\<rparr>"

lemma validate_rule_of_draft: "validate_rule (rule_of_draft rid draft) = Inr () \<longleftrightarrow> validate_draft draft = Inr ()"
  by (auto simp: validate_draft_def validate_rule_def rule_of_draft_def and_then_Inr
      split: sum.splits kernel_plan.splits)

lemma draft_rate_bound: "draft_ok draft \<Longrightarrow> fst (spec_rates (td_action draft)) \<le> MAX_RATE_BYTES_PER_S"
  unfolding draft_ok_def validate_rule_of_draft [of 0, symmetric]
  by (cases "td_action draft")
    (auto simp: validate_rule_def rule_of_draft_def and_then_Inr split: kernel_plan.splits if_splits)

lemma unsigned_column_sint:
  assumes "r \<le> MAX_RATE_BYTES_PER_S"
  shows "unsigned_column (Some (sint r)) = r"
proof -
  have u: "uint r \<le> 10737418240"
    using assms by (simp add: word_le_def MAX_RATE_BYTES_PER_S_def)
  have "- (2 ^ 63) \<le> uint r" by (rule order_trans [OF _ unsigned_greater_eq]) simp
  then have s: "sint r = uint r"
    unfolding sint_uint using u by (intro signed_take_bit_int_eq_self) auto
  show ?thesis by (simp add: unsigned_column_def s)
qed

lemma columns_id [simp]: "rr_id (rule_columns draft json now row) = rr_id row"
  by (simp add: rule_columns_def)

lemma blank_row_id [simp]: "rr_id (blank_row rid now) = rid"
  by (simp add: blank_row_def)

lemma into_record_columns:
  assumes "draft_ok draft" "dec json = Some (td_selector draft)"
  shows "into_record dec (rule_columns draft json now row) = Some
    \<lparr>rc_rule = rule_of_draft (word_of_int (rr_id row)) draft,
     rc_created_at = unix_millis_time (rr_created_at_ms row), rc_updated_at = unix_millis_time now\<rparr>"
proof -
  let ?a = "td_action draft"
  have "unsigned_column (Some (sint (fst (spec_rates ?a)))) = fst (spec_rates ?a)"
    using draft_rate_bound [OF assms(1)] by (rule unsigned_column_sint)
  moreover have "snd (spec_rates ?a) = fst (spec_rates ?a)" using assms(1) by (simp add: draft_ok_def)
  ultimately show ?thesis using assms(2)
    by (cases ?a) (simp_all add: into_record_def rule_columns_def action_from_name_def direction_names
        [of "td_direction draft"] rule_of_draft_def Let_def)
qed

section \<open>Drafts\<close>

lemma action_from_name_Some: "action_from_name n = Some a \<longleftrightarrow> n = action_name a"
  by (cases a) (auto simp: action_from_name_def)

lemma direction_from_name_Some: "direction_from_name n = Some d \<longleftrightarrow> n = direction_as_str d"
  by (cases d) (auto simp: direction_from_name_def)

lemma draft_from_create_ok:
  assumes "draft_from_create request = Inr draft"
  shows "draft_ok draft" "action_name (spec_action (td_action draft)) = cq_action request"
    "direction_as_str (td_direction draft) = cq_direction request" "td_selector draft = cq_selector request"
    "td_enabled draft = or_else (cq_enabled request) True"
    "spec_rates (td_action draft) = (or_else (cq_rate_bytes_per_s request) 0, or_else (cq_rate_bytes_per_s request) 0)"
proof -
  obtain kind direction action u where d: "action_from_name (cq_action request) = Some kind"
    "direction_from_name (cq_direction request) = Some direction"
    "(case kind of
       Limit \<Rightarrow> Inr (LimitSpec (or_else (cq_rate_bytes_per_s request) 0) (or_else (cq_rate_bytes_per_s request) 0))
     | Block \<Rightarrow> if cq_rate_bytes_per_s request \<noteq> None then Inl (ApiUnprocessable BlockWithRate) else Inr BlockSpec)
     = Inr action"
    "draft = \<lparr>td_action = action, td_direction = direction, td_selector = cq_selector request,
              td_enabled = or_else (cq_enabled request) True\<rparr>" "validate_draft draft = Inr u"
    using assms unfolding draft_from_create_def Let_def
    by (auto simp only: option.case sum.inject sum.distinct and_then_Inr split: option.splits)
  have a: "spec_action action = kind"
    "spec_rates action = (or_else (cq_rate_bytes_per_s request) 0, or_else (cq_rate_bytes_per_s request) 0)"
    using d(3) by (auto simp: or_else_def split: rule_action.splits if_splits)
  show "draft_ok draft" using d(4,5) a(2) by (simp add: draft_ok_def)
  show "action_name (spec_action (td_action draft)) = cq_action request"
    "direction_as_str (td_direction draft) = cq_direction request"
    using d(1,2,4) a(1) by (simp_all add: action_from_name_Some direction_from_name_Some)
  show "td_selector draft = cq_selector request" "td_enabled draft = or_else (cq_enabled request) True"
    "spec_rates (td_action draft) = (or_else (cq_rate_bytes_per_s request) 0, or_else (cq_rate_bytes_per_s request) 0)"
    using d(4) a(2) by simp_all
qed

lemma draft_from_update_ok:
  assumes "draft_from_update existing request = Inr draft"
  shows "draft_ok draft"
  using assms
  by (auto simp: draft_from_update_def and_then_Inr draft_ok_def updated_action_def limit_action_def block_action_def
      Let_def split: option.splits rule_action.splits if_splits action_spec.splits)

section \<open>The table\<close>

definition row_ok :: "selector_decode \<Rightarrow> raw_traffic_rule \<Rightarrow> bool" where
  "row_ok dec row \<longleftrightarrow> 1 \<le> rr_id row \<and>
     (case into_record dec row of
        None \<Rightarrow> False
      | Some rec \<Rightarrow> validate_rule (rc_rule rec) = Inr ()
          \<and> fst (spec_rates (tr_action (rc_rule rec))) = snd (spec_rates (tr_action (rc_rule rec))))"

definition table_ok :: "selector_decode \<Rightarrow> rule_db \<Rightarrow> bool" where
  "table_ok dec db \<longleftrightarrow> length (rd_rows db) \<le> MAX_TRAFFIC_RULES
     \<and> sorted_wrt (<) (map rr_id (rd_rows db)) \<and> list_all (row_ok dec) (rd_rows db)"

lemma collect_some_iff: "collect_some xs = Some ys \<longleftrightarrow> xs = map Some ys"
  by (induction xs arbitrary: ys rule: collect_some.induct) auto

lemma fold_max_ge: "x \<le> fold max xs (x :: int)" "y \<in> set xs \<Longrightarrow> y \<le> fold max xs x"
proof -
  show f: "x \<le> fold max xs x" for x :: int and xs
    by (induction xs arbitrary: x) (simp, metis fold_simps(2) max.cobounded2 order_trans)
  show "y \<in> set xs \<Longrightarrow> y \<le> fold max xs x"
  proof (induction xs arbitrary: x)
    case (Cons a xs)
    then show ?case using order_trans [OF _ f [of "max a x" xs], of y] by auto
  qed simp
qed

lemma next_rowid_fresh: "row \<in> set rows \<Longrightarrow> rr_id row < next_rowid rows" "1 \<le> next_rowid rows"
  using fold_max_ge(2) [of "rr_id row" "map rr_id rows" 0] fold_max_ge(1) [of 0 "map rr_id rows"]
  by (auto simp: next_rowid_def)

lemma find_appended:
  "(\<And>row. row \<in> set rows \<Longrightarrow> rr_id row \<noteq> rid) \<Longrightarrow> rr_id r = rid \<Longrightarrow>
   List.find (\<lambda>row. rr_id row = rid) (rows @ [r]) = Some r"
  by (induction rows) auto

lemma find_updated:
  "rid \<in> set (map rr_id rows) \<Longrightarrow> (\<And>row. rr_id (f row) = rr_id row) \<Longrightarrow>
   \<exists>row. List.find (\<lambda>row. rr_id row = rid) rows = Some row \<and> rr_id row = rid \<and>
     List.find (\<lambda>row. rr_id row = rid) (map (\<lambda>row. if rr_id row = rid then f row else row) rows) = Some (f row)"
  by (induction rows) auto

lemma row_ok_columns:
  assumes "draft_ok draft" "dec json = Some (td_selector draft)" "1 \<le> rr_id row"
  shows "row_ok dec (rule_columns draft json now row)"
  using assms draft_ok_def validate_rule_of_draft
  by (simp add: row_ok_def into_record_columns) (simp add: rule_of_draft_def)

lemma insert_table_ok:
  assumes "codec_law enc dec" "draft_ok draft" "table_ok dec db" "length (rd_rows db) < MAX_TRAFFIC_RULES"
  shows "table_ok dec (snd (insert_rule sql enc dec now draft db))"
proof (cases "enc (td_selector draft)")
  case (Some json)
  then have "dec json = Some (td_selector draft)" using assms(1) by (simp add: codec_law_def)
  note r = row_ok_columns [where dec = dec and json = json, OF assms(2) this, of "blank_row (next_rowid (rd_rows db)) (unix_millis now)"]
  show ?thesis
    using assms(3,4) Some r next_rowid_fresh(1) [of _ "rd_rows db"] next_rowid_fresh(2) [of "rd_rows db"]
    by (auto simp: insert_rule_def table_ok_def Let_def sorted_wrt_append)
qed (use assms in \<open>simp add: insert_rule_def\<close>)

lemma update_table_ok:
  assumes "codec_law enc dec" "draft_ok draft" "table_ok dec db"
  shows "table_ok dec (snd (update_rule sql enc dec now rid draft db))"
proof (cases "enc (td_selector draft)")
  case (Some json)
  then have d: "dec json = Some (td_selector draft)" using assms(1) by (simp add: codec_law_def)
  let ?rows = "map (\<lambda>row. if rr_id row = rid then rule_columns draft json (unix_millis now) row else row) (rd_rows db)"
  have "rr_id \<circ> (\<lambda>row. if rr_id row = rid then rule_columns draft json (unix_millis now) row else row) = rr_id"
    by auto
  moreover have "list_all (row_ok dec) ?rows"
    using assms(3) row_ok_columns [where dec = dec and json = json, OF assms(2) d]
    by (auto simp: table_ok_def list_all_iff row_ok_def [of dec "_ :: raw_traffic_rule"])
  ultimately show ?thesis
    using assms(3) Some by (auto simp: update_rule_def table_ok_def Let_def)
qed (use assms in \<open>simp add: update_rule_def\<close>)

lemma sorted_wrt_filter_ids: "sorted_wrt (<) (map rr_id rows) \<Longrightarrow> sorted_wrt (<) (map rr_id (filter P rows))"
  by (induction rows) auto

lemma delete_table_ok: "table_ok dec db \<Longrightarrow> table_ok dec (snd (delete_rule sql rid db))"
  using le_trans [OF length_filter_le]
  by (auto simp: delete_rule_def table_ok_def sorted_wrt_filter_ids list_all_iff)

lemma table_ok_audit [simp]: "table_ok dec (db\<lparr>rd_audit := a\<rparr>) = table_ok dec db"
  by (simp add: table_ok_def)

lemma list_rules_length: "list_rules sql dec db = Inr recs \<Longrightarrow> length recs = length (rd_rows db)"
  by (auto simp: list_rules_def collect_some_iff dest: arg_cong [where f = length] split: if_splits option.splits)

section \<open>What the store keeps\<close>

text \<open>
  The turns in which the store changes, one per hold of the lock. An update first reads and computes
  its draft and stores it in a later turn, so the rule it read may be any older one.
\<close>

datatype rule_step =
  CreateStep create_request
| UpdateStep u32 traffic_rule update_request
| DeleteStep u32

definition rule_step ::
  "selector_encode \<Rightarrow> selector_decode \<Rightarrow> sql \<times> system_time \<times> rule_step \<Rightarrow> rule_db \<Rightarrow> rule_db" where
  "rule_step enc dec turn db =
     (let (sql, now, s) = turn in
      case s of
        CreateStep request \<Rightarrow> snd (create_stored sql enc dec now request db)
      | UpdateStep rid existing request \<Rightarrow>
          (case draft_from_update existing request of
             Inl _ \<Rightarrow> db
           | Inr draft \<Rightarrow> snd (store_update sql enc dec now rid draft db))
      | DeleteStep rid \<Rightarrow> snd (delete_stored sql now rid db))"

lemma create_stored_table_ok:
  assumes "codec_law enc dec" "table_ok dec db"
  shows "table_ok dec (snd (create_stored sql enc dec now request db))"
proof (cases "draft_from_create request")
  case (Inr draft)
  note i = insert_table_ok [OF assms(1) draft_from_create_ok(1) [OF Inr] assms(2), where sql = sql and now = now]
  show ?thesis
    using i list_rules_length [of sql dec db] assms(2)
    by (auto simp: create_stored_def Inr Let_def not_le split: sum.splits prod.splits)
qed (use assms in \<open>simp add: create_stored_def\<close>)

text \<open>
  C28: whatever requests come and whichever statements fail, the table stays readable and valid: every
  row decodes to a rule that passes validation, with a burst equal to its rate, the keys are
  distinct, and there are at most 64 rules.
\<close>

theorem rule_table_stays_ok:
  assumes "codec_law enc dec" "table_ok dec db"
  shows "table_ok dec (fold (rule_step enc dec) turns db)"
  using assms(2)
proof (induction turns arbitrary: db)
  case (Cons turn turns)
  obtain sql now s where t: "turn = (sql, now, s)" by (cases turn)
  have "table_ok dec (rule_step enc dec turn db)"
  proof (cases s)
    case (CreateStep request)
    then show ?thesis
      using create_stored_table_ok [OF assms(1) Cons.prems] by (simp add: t rule_step_def)
  next
    case (UpdateStep rid existing request)
    show ?thesis
    proof (cases "draft_from_update existing request")
      case (Inr draft)
      note u = update_table_ok [OF assms(1) draft_from_update_ok [OF Inr] Cons.prems, where sql = sql and now = now and rid = "uint rid"]
      then show ?thesis by (auto simp: t UpdateStep Inr rule_step_def store_update_def split: prod.splits sum.splits)
    qed (use Cons.prems in \<open>simp add: t UpdateStep rule_step_def\<close>)
  next
    case (DeleteStep rid)
    then show ?thesis using delete_table_ok [OF Cons.prems, where sql = sql and rid = "uint rid"]
      by (auto simp: t rule_step_def delete_stored_def split: prod.splits sum.splits)
  qed
  then show ?case using Cons.IH by simp
qed simp

lemma insert_rule_ok:
  assumes "codec_law enc dec" "draft_ok draft" "insert_rule sql enc dec now draft db = (Inr rec, db')"
  obtains row where "db' = db\<lparr>rd_rows := rd_rows db @ [row], rd_revision := rd_revision db + 1\<rparr>"
    "rr_id row = next_rowid (rd_rows db)" "into_record dec row = Some rec"
    "rc_rule rec = rule_of_draft (word_of_int (next_rowid (rd_rows db))) draft"
proof -
  let ?rid = "next_rowid (rd_rows db)"
  obtain json where json: "enc (td_selector draft) = Some json" and s: "sql InsertRule"
    using assms(3) by (auto simp: insert_rule_def split: option.splits if_splits)
  define row where "row = rule_columns draft json (unix_millis now) (blank_row ?rid (unix_millis now))"
  let ?db = "db\<lparr>rd_rows := rd_rows db @ [row], rd_revision := rd_revision db + 1\<rparr>"
  have d: "dec json = Some (td_selector draft)" using assms(1) json by (simp add: codec_law_def)
  have i: "into_record dec row = Some
      \<lparr>rc_rule = rule_of_draft (word_of_int ?rid) draft, rc_created_at = unix_millis_time (unix_millis now),
       rc_updated_at = unix_millis_time (unix_millis now)\<rparr>"
    using into_record_columns [where dec = dec and json = json, OF assms(2) d]
    by (simp add: row_def) (simp add: blank_row_def)
  have f: "List.find (\<lambda>row. rr_id row = ?rid) (rd_rows db @ [row]) = Some row"
    by (rule find_appended) (auto simp: row_def dest!: next_rowid_fresh(1))
  have "db' = ?db" "select_rule sql dec ?rid ?db = Inr rec"
    using assms(3) json s by (auto simp: insert_rule_def Let_def row_def)
  with i f that [of row] show ?thesis
    by (auto simp: select_rule_def row_def split: if_splits)
qed

text \<open>
  What a request created reads back as it was asked for: the rules are the old ones followed by the
  new one, which has the request's action, direction, selector and rate, a burst equal to its rate, and is
  enabled unless the request says otherwise.
\<close>

theorem created_rule_reads_back:
  assumes "codec_law enc dec" "list_rules sql dec db = Inr old"
    and "create_stored sql enc dec now request db = (Inr rec, db')"
  shows "list_rules sql dec db' = Inr (old @ [rec])
    \<and> action_name (spec_action (tr_action (rc_rule rec))) = cq_action request
    \<and> direction_as_str (tr_direction (rc_rule rec)) = cq_direction request
    \<and> tr_selector (rc_rule rec) = cq_selector request
    \<and> spec_rates (tr_action (rc_rule rec)) = (or_else (cq_rate_bytes_per_s request) 0, or_else (cq_rate_bytes_per_s request) 0)
    \<and> tr_enabled (rc_rule rec) = or_else (cq_enabled request) True"
proof -
  obtain draft where draft: "draft_from_create request = Inr draft"
    using assms(3) by (auto simp: create_stored_def split: sum.splits)
  obtain db1 where i: "insert_rule sql enc dec now draft db = (Inr rec, db1)" and rows: "rd_rows db' = rd_rows db1"
    using assms(3) by (auto simp: create_stored_def draft assms(2) split: if_splits sum.splits prod.splits)
  note d = draft_from_create_ok [OF draft]
  obtain row where r: "rd_rows db1 = rd_rows db @ [row]" "into_record dec row = Some rec"
    "rc_rule rec = rule_of_draft (word_of_int (next_rowid (rd_rows db))) draft"
    using insert_rule_ok [OF assms(1) d(1) i] by (metis rule_db.select_convs(1) rule_db.surjective rule_db.update_convs(1,2))
  have "list_rules sql dec db' = Inr (old @ [rec])"
  proof -
    have o: "sql SelectRules" "collect_some (map (into_record dec) (rd_rows db)) = Some old"
      using assms(2) by (auto simp: list_rules_def split: if_splits option.splits)
    have "collect_some (map (into_record dec) (rd_rows db')) = Some (old @ [rec])"
      using o(2) r rows by (simp add: collect_some_iff)
    then show ?thesis using o(1) by (simp add: list_rules_def)
  qed
  then show ?thesis using d r(3) by (simp add: rule_of_draft_def)
qed

section \<open>Partial updates\<close>

text \<open>What a partial update asks for, field by field.\<close>

definition patch_of :: "update_request \<Rightarrow> traffic_rule \<Rightarrow> traffic_rule \<Rightarrow> bool" where
  "patch_of request old new \<longleftrightarrow>
     tr_id new = tr_id old
     \<and> action_name (spec_action (tr_action new)) = or_else (uq_action request) (action_name (spec_action (tr_action old)))
     \<and> spec_rates (tr_action new)
         = (if spec_action (tr_action new) = Block then (0, 0)
            else (or_else (uq_rate_bytes_per_s request) (fst (spec_rates (tr_action old))),
                  or_else (uq_rate_bytes_per_s request) (fst (spec_rates (tr_action old)))))
     \<and> direction_as_str (tr_direction new) = or_else (uq_direction request) (direction_as_str (tr_direction old))
     \<and> tr_selector new = or_else (uq_selector request) (tr_selector old)
     \<and> tr_enabled new = or_else (uq_enabled request) (tr_enabled old)"

lemma updated_action_patch:
  assumes "updated_action existing request = Inr action"
  shows "action_name (spec_action action) = or_else (uq_action request) (action_name (spec_action (tr_action existing)))"
    and "spec_rates action = (if spec_action action = Block then (0, 0)
      else (or_else (uq_rate_bytes_per_s request) (fst (spec_rates (tr_action existing))),
            or_else (uq_rate_bytes_per_s request) (fst (spec_rates (tr_action existing)))))"
  using assms
  by (cases "uq_action request"; cases "tr_action existing";
      auto simp: updated_action_def limit_action_def block_action_def or_else_def action_from_name_Some Let_def
        split: if_splits option.splits rule_action.splits)+

lemma draft_from_update_patch:
  assumes "draft_from_update existing request = Inr draft"
  shows "patch_of request existing (rule_of_draft (tr_id existing) draft)"
proof -
  obtain direction action where d: "updated_action existing request = Inr action"
    "direction_as_str direction = or_else (uq_direction request) (direction_as_str (tr_direction existing))"
    "draft = \<lparr>td_action = action, td_direction = direction,
              td_selector = or_else (uq_selector request) (tr_selector existing),
              td_enabled = or_else (uq_enabled request) (tr_enabled existing)\<rparr>"
    using assms
    by (cases "uq_direction request")
      (auto simp: draft_from_update_def and_then_Inr Let_def direction_from_name_Some or_else_def [of "uq_direction request"]
        or_else_def [where x = "Some _"] or_else_def [where x = None] split: option.splits)
  show ?thesis
    using updated_action_patch [OF d(1)] d(2,3) by (simp add: patch_of_def rule_of_draft_def)
qed

lemma find_row:
  "List.find (\<lambda>row. rr_id row = rid) rows = Some row \<Longrightarrow> row \<in> set rows \<and> rr_id row = rid"
  by (auto simp: find_Some_iff in_set_conv_nth)

lemma table_unique:
  "table_ok dec db \<Longrightarrow> a \<in> set (rd_rows db) \<Longrightarrow> b \<in> set (rd_rows db) \<Longrightarrow> rr_id a = rr_id b \<Longrightarrow> a = b"
  using strict_sorted_imp_sorted [of "map rr_id (rd_rows db)"]
  by (auto simp: table_ok_def strict_sorted_iff distinct_map inj_on_def)

text \<open>
  A partial update changes the fields it names in the rule it names, and nothing else: the other
  fields of the rule and all other rules stay, and so does the time of creation.
\<close>

theorem update_changes_what_it_names:
  assumes "codec_law enc dec" "table_ok dec db"
    and "update_stored sql enc dec now rid request db = (Inr rec, db')"
  shows "\<exists>row old row'. row \<in> set (rd_rows db) \<and> rr_id row = uint rid \<and> into_record dec row = Some old
    \<and> patch_of request (rc_rule old) (rc_rule rec) \<and> rc_created_at rec = rc_created_at old
    \<and> into_record dec row' = Some rec
    \<and> rd_rows db' = map (\<lambda>r. if r = row then row' else r) (rd_rows db)"
proof -
  obtain draft where draft: "read_update sql dec rid request db = Inr draft"
    and st: "store_update sql enc dec now rid draft db = (Inr rec, db')"
    using assms(3) by (auto simp: update_stored_def split: sum.splits)
  obtain row old where row: "List.find (\<lambda>row. rr_id row = uint rid) (rd_rows db) = Some row"
    and old: "into_record dec row = Some old" and du: "draft_from_update (rc_rule old) request = Inr draft"
    using draft by (auto simp: read_update_def select_rule_def and_then_Inr split: if_splits option.splits)
  note r = find_row [OF row]
  obtain json where json: "enc (td_selector draft) = Some json"
    using st by (auto simp: store_update_def update_rule_def split: option.splits)
  then have dec: "dec json = Some (td_selector draft)" using assms(1) by (simp add: codec_law_def)
  let ?f = "rule_columns draft json (unix_millis now)"
  have rows: "map (\<lambda>r. if rr_id r = uint rid then ?f r else r) (rd_rows db) = map (\<lambda>r. if r = row then ?f row else r) (rd_rows db)"
    using r table_unique [OF assms(2)] by (intro map_cong refl) auto
  have "uint rid \<in> set (map rr_id (rd_rows db))" using r by (metis image_eqI set_map)
  note fu = find_updated [where f = ?f, OF this, OF columns_id]
  then obtain row1 where f: "List.find (\<lambda>row. rr_id row = uint rid) (rd_rows db) = Some row1"
    "List.find (\<lambda>row. rr_id row = uint rid) (map (\<lambda>r. if rr_id r = uint rid then ?f r else r) (rd_rows db)) = Some (?f row1)"
    by blast
  have i: "into_record dec (?f row) = Some \<lparr>rc_rule = rule_of_draft (word_of_int (rr_id row)) draft,
      rc_created_at = unix_millis_time (rr_created_at_ms row), rc_updated_at = unix_millis_time (unix_millis now)\<rparr>"
    by (rule into_record_columns [where dec = dec and json = json, OF draft_from_update_ok [OF du] dec])
  have rec: "into_record dec (?f row) = Some rec"
    "rd_rows db' = map (\<lambda>r. if rr_id r = uint rid then ?f r else r) (rd_rows db)"
    using st json f row
    by (auto simp: store_update_def update_rule_def select_rule_def Let_def i split: if_splits option.splits)
  have o: "tr_id (rc_rule old) = word_of_int (rr_id row)" "rc_created_at old = unix_millis_time (rr_created_at_ms row)"
    using old by (auto simp: into_record_def Let_def split: option.splits)
  have "patch_of request (rc_rule old) (rc_rule rec)"
    using draft_from_update_patch [OF du] rec(1) i by (auto simp: o)
  moreover have "rc_created_at rec = rc_created_at old" using rec(1) i by (auto simp: o)
  ultimately show ?thesis using r old rec rows by auto
qed

text \<open>
  The draft of a partial update is computed from what was read under an earlier hold of the lock and
  overwrites every column: when two updates of a rule have both read it before either stores, the
  table ends as if the first had not been made, although both report success.
\<close>

theorem concurrent_update_is_lost:
  assumes "read_update sql dec rid request1 db = Inr draft1" "read_update sql dec rid request2 db = Inr draft2"
    and "store_update sql enc dec now1 rid draft1 db = (Inr rec1, db1)"
    and "store_update sql enc dec now2 rid draft2 db1 = (Inr rec2, db2)"
  shows "rd_rows db2 = rd_rows (snd (update_stored sql enc dec now2 rid request2 db))"
proof -
  obtain json1 where 1: "enc (td_selector draft1) = Some json1" "uint rid \<in> set (map rr_id (rd_rows db))" "sql UpdateRule"
    "rd_rows db1 = map (\<lambda>row. if rr_id row = uint rid then rule_columns draft1 json1 (unix_millis now1) row else row) (rd_rows db)"
    using assms(3) by (auto simp: store_update_def update_rule_def Let_def split: option.splits if_splits sum.splits prod.splits)
  obtain json2 where 2: "enc (td_selector draft2) = Some json2"
    "rd_rows db2 = map (\<lambda>row. if rr_id row = uint rid then rule_columns draft2 json2 (unix_millis now2) row else row) (rd_rows db1)"
    using assms(4) by (auto simp: store_update_def update_rule_def Let_def split: option.splits if_splits sum.splits prod.splits)
  have c: "rule_columns draft2 json2 n2 (rule_columns draft1 json1 n1 row) = rule_columns draft2 json2 n2 row" for n1 n2 row
    by (simp add: rule_columns_def)
  have "rd_rows (snd (update_stored sql enc dec now2 rid request2 db))
      = map (\<lambda>row. if rr_id row = uint rid then rule_columns draft2 json2 (unix_millis now2) row else row) (rd_rows db)"
    using 1(2,3) 2(1) assms(2)
    by (auto simp: update_stored_def store_update_def update_rule_def Let_def split: sum.splits prod.splits)
  then show ?thesis by (simp add: 1(4) 2(2) c)
qed

section \<open>Examples\<close>

text \<open>A serialisation of IPv4 ranges, one byte per octet and one for the length.\<close>

fun range_encode :: selector_encode where
  "range_encode (SelCidr (IpV4 (Ipv4 a b c d)) len) = Some (map (char_of \<circ> unat) [a, b, c, d, len])"
| "range_encode _ = None"

fun range_decode :: selector_decode where
  "range_decode [a, b, c, d, len] =
     Some (SelCidr (IpV4 (Ipv4 (of_char a) (of_char b) (of_char c) (of_char d))) (of_char len))"
| "range_decode _ = None"

lemma of_char_char_of_unat: "(of_char (char_of (unat x)) :: u8) = x"
proof -
  have "unat x < 256" using unsigned_less [of x] by simp
  then have "(of_char (char_of (unat x)) :: nat) = unat x" by (simp add: of_char_of)
  then show ?thesis by (metis of_nat_of_char of_nat_unat ucast_id)
qed

lemma range_codec: "codec_law range_encode range_decode"
proof -
  have "range_decode json = Some s" if "range_encode s = Some json" for s json
    using that by (cases s rule: range_encode.cases) (auto simp: of_char_char_of_unat)
  then show ?thesis by (simp add: codec_law_def)
qed

definition empty_rules :: rule_db where
  "empty_rules = \<lparr>rd_rows = [], rd_revision = 0, rd_audit = []\<rparr>"

definition block_private :: create_request where
  "block_private = \<lparr>cq_action = ''block'', cq_direction = ''both'', cq_selector = SelCidr (IpV4 (Ipv4 10 0 0 0)) 8,
     cq_rate_bytes_per_s = None, cq_enabled = None\<rparr>"

definition blocked_private :: raw_traffic_rule where
  "blocked_private = \<lparr>rr_id = 1, rr_action = ''block'', rr_direction = ''both'',
     rr_selector_json = map (char_of \<circ> unat) [10, 0, 0, 0, 8 :: u8], rr_rate_bytes_per_s = Some 0, rr_burst_bytes = Some 0,
     rr_enabled = 1, rr_created_at_ms = 5000, rr_updated_at_ms = 5000\<rparr>"

definition private_record :: traffic_rule_record where
  "private_record = \<lparr>rc_rule = \<lparr>tr_id = 1, tr_action = BlockSpec, tr_direction = RuleBoth,
       tr_selector = SelCidr (IpV4 (Ipv4 10 0 0 0)) 8, tr_enabled = True\<rparr>,
     rc_created_at = 5000000000, rc_updated_at = 5000000000\<rparr>"

definition private_rules :: rule_db where
  "private_rules = \<lparr>rd_rows = [blocked_private], rd_revision = 1,
     rd_audit = [\<lparr>ae_at = 5000000000, ae_action = ''traffic_rule.create'', ae_outcome = ''completed''\<rparr>]\<rparr>"

definition all_sql :: sql where "all_sql s = True"

lemma blocked_private_record: "into_record range_decode blocked_private = Some private_record"
proof -
  have "range_decode (rr_selector_json blocked_private) = Some (SelCidr (IpV4 (Ipv4 10 0 0 0)) 8)"
    by (rule range_codec [unfolded codec_law_def, rule_format]) (simp add: blocked_private_def)
  then show ?thesis
    by (simp add: into_record_def private_record_def)
      (simp add: blocked_private_def action_from_name_def direction_from_name_def unsigned_column_def unix_millis_time_def)
qed

lemma create_private:
  "create_stored all_sql range_encode range_decode 5000000000 block_private empty_rules = (Inr private_record, private_rules)"
proof -
  have v: "validate_draft \<lparr>td_action = BlockSpec, td_direction = RuleBoth, td_selector = SelCidr (IpV4 (Ipv4 10 0 0 0)) 8, td_enabled = True\<rparr> = Inr ()"
    by (simp add: validate_draft_def validate_rule_def word_le_nat_alt)
  have d: "draft_from_create block_private = Inr \<lparr>td_action = BlockSpec, td_direction = RuleBoth,
      td_selector = SelCidr (IpV4 (Ipv4 10 0 0 0)) 8, td_enabled = True\<rparr>"
    using v by (simp add: draft_from_create_def block_private_def action_from_name_def direction_from_name_def or_else_def)
  have r: "rule_columns \<lparr>td_action = BlockSpec, td_direction = RuleBoth, td_selector = SelCidr (IpV4 (Ipv4 10 0 0 0)) 8, td_enabled = True\<rparr>
      (map (char_of \<circ> unat) [10, 0, 0, 0, 8 :: u8]) 5000 (blank_row 1 5000) = blocked_private"
    by (simp add: rule_columns_def blank_row_def blocked_private_def)
  show ?thesis
    using r blocked_private_record
    by (simp add: create_stored_def d list_rules_def empty_rules_def all_sql_def MAX_TRAFFIC_RULES_def
        DEFAULT_TRAFFIC_RULE_CAPACITY_def insert_rule_def next_rowid_def unix_millis_def I64_MAX_def Let_def
        select_rule_def private_rules_def audit_def AUDIT_CAPACITY_def)
qed

lemma private_rules_ok: "table_ok range_decode private_rules" "table_ok range_decode empty_rules"
  using create_stored_table_ok [OF range_codec, of empty_rules all_sql 5000000000 block_private]
  by (simp_all add: create_private) (simp_all add: table_ok_def empty_rules_def)

lemma rule_table_stays_ok_witness:
  "table_ok range_decode (fold (rule_step range_encode range_decode)
     [(all_sql, 0, CreateStep block_private), (all_sql, 1, DeleteStep 1)] private_rules)"
  by (rule rule_table_stays_ok [OF range_codec private_rules_ok(1)])

lemma created_rule_reads_back_witness:
  "list_rules all_sql range_decode private_rules = Inr [private_record]"
  using created_rule_reads_back [OF range_codec _ create_private, of "[]"]
  by (simp add: list_rules_def empty_rules_def all_sql_def)

definition switch_off :: update_request where
  "switch_off = \<lparr>uq_action = None, uq_direction = None, uq_selector = None, uq_rate_bytes_per_s = None, uq_enabled = Some False\<rparr>"

definition inbound_only :: update_request where
  "inbound_only = \<lparr>uq_action = None, uq_direction = Some ''inbound'', uq_selector = None, uq_rate_bytes_per_s = None, uq_enabled = None\<rparr>"

definition private_draft :: "rule_direction \<Rightarrow> bool \<Rightarrow> traffic_rule_draft" where
  "private_draft direction enabled =
     \<lparr>td_action = BlockSpec, td_direction = direction, td_selector = SelCidr (IpV4 (Ipv4 10 0 0 0)) 8, td_enabled = enabled\<rparr>"

definition private_row :: "rule_direction \<Rightarrow> bool \<Rightarrow> int \<Rightarrow> raw_traffic_rule" where
  "private_row direction enabled now = blocked_private
     \<lparr>rr_direction := direction_as_str direction, rr_enabled := (if enabled then 1 else 0), rr_updated_at_ms := now\<rparr>"

definition private_rule :: "rule_direction \<Rightarrow> bool \<Rightarrow> int \<Rightarrow> traffic_rule_record" where
  "private_rule direction enabled now =
     \<lparr>rc_rule = rule_of_draft 1 (private_draft direction enabled), rc_created_at = 5000000000, rc_updated_at = unix_millis_time now\<rparr>"

lemma private_draft_valid: "validate_draft (private_draft d e) = Inr ()"
  by (simp add: validate_draft_def validate_rule_def private_draft_def word_le_nat_alt)

lemma private_columns:
  assumes "rr_id row = 1" "rr_created_at_ms row = 5000"
  shows "rule_columns (private_draft d e) (map (char_of \<circ> unat) [10, 0, 0, 0, 8 :: u8]) now row = private_row d e now"
  using assms by (cases row) (simp add: rule_columns_def private_draft_def private_row_def blocked_private_def)

lemma private_row_record: "into_record range_decode (private_row d e now) = Some (private_rule d e now)"
proof -
  have j: "range_decode (map (char_of \<circ> unat) [10, 0, 0, 0, 8 :: u8]) = Some (td_selector (private_draft d e))"
    by (rule range_codec [unfolded codec_law_def, rule_format]) (simp add: private_draft_def)
  show ?thesis
    using into_record_columns [where dec = range_decode and row = blocked_private and now = now and draft = "private_draft d e", OF _ j]
      private_draft_valid [of d e] private_columns [of blocked_private d e now]
    by (simp add: draft_ok_def private_rule_def private_draft_def) (simp add: blocked_private_def unix_millis_time_def)
qed

lemma store_private:
  assumes "rd_rows db = [row]" "rr_id row = 1" "rr_created_at_ms row = 5000"
  shows "store_update all_sql range_encode range_decode now 1 (private_draft d e) db
    = (Inr (private_rule d e (unix_millis now)),
       db\<lparr>rd_rows := [private_row d e (unix_millis now)], rd_revision := rd_revision db + 1,
          rd_audit := audit now ''traffic_rule.update'' ''completed'' (rd_audit db)\<rparr>)"
proof -
  have "range_encode (td_selector (private_draft d e)) = Some (map (char_of \<circ> unat) [10, 0, 0, 0, 8 :: u8])"
    by (simp add: private_draft_def)
  then show ?thesis
    using assms private_columns [OF assms(2,3), of d e] private_row_record
    by (simp add: store_update_def update_rule_def all_sql_def select_rule_def Let_def del: list.map)
      (simp add: private_row_def blocked_private_def)
qed

lemma read_private:
  "read_update all_sql range_decode 1 switch_off private_rules = Inr (private_draft RuleBoth False)"
  "read_update all_sql range_decode 1 inbound_only private_rules = Inr (private_draft RuleInbound True)"
proof -
  have s: "select_rule all_sql range_decode 1 private_rules = Inr private_record"
    using blocked_private_record by (simp add: select_rule_def all_sql_def private_rules_def) (simp add: blocked_private_def)
  show "read_update all_sql range_decode 1 switch_off private_rules = Inr (private_draft RuleBoth False)"
    "read_update all_sql range_decode 1 inbound_only private_rules = Inr (private_draft RuleInbound True)"
    using private_draft_valid [of RuleBoth False] private_draft_valid [of RuleInbound True]
    by (simp_all add: read_update_def s draft_from_update_def switch_off_def inbound_only_def or_else_def updated_action_def
        block_action_def private_record_def private_draft_def direction_from_name_def)
qed

text \<open>One user switches the rule off while another narrows it: the rule stays on.\<close>

definition off_rules :: rule_db where
  "off_rules = snd (store_update all_sql range_encode range_decode 6000000000 1 (private_draft RuleBoth False) private_rules)"

definition narrowed_rules :: rule_db where
  "narrowed_rules = snd (store_update all_sql range_encode range_decode 7000000000 1 (private_draft RuleInbound True) off_rules)"

lemma rules_by_two:
  "store_update all_sql range_encode range_decode 6000000000 1 (private_draft RuleBoth False) private_rules
     = (Inr (private_rule RuleBoth False 6000), off_rules)"
  "store_update all_sql range_encode range_decode 7000000000 1 (private_draft RuleInbound True) off_rules
     = (Inr (private_rule RuleInbound True 7000), narrowed_rules)"
  "rd_rows narrowed_rules = [private_row RuleInbound True 7000]"
proof -
  have p: "rd_rows private_rules = [blocked_private]" "rr_id blocked_private = 1" "rr_created_at_ms blocked_private = 5000"
    "rr_id (private_row d e now) = 1" "rr_created_at_ms (private_row d e now) = 5000" for d e now
    by (simp_all add: private_rules_def blocked_private_def private_row_def)
  have m: "unix_millis 6000000000 = 6000" "unix_millis 7000000000 = 7000" by (simp_all add: unix_millis_def I64_MAX_def)
  note s1 = store_private [OF p(1-3), of 6000000000 RuleBoth False]
  then show "store_update all_sql range_encode range_decode 6000000000 1 (private_draft RuleBoth False) private_rules
     = (Inr (private_rule RuleBoth False 6000), off_rules)"
    by (simp add: off_rules_def m)
  have "rd_rows off_rules = [private_row RuleBoth False 6000]" using s1 by (simp add: off_rules_def m)
  note s2 = store_private [OF this p(4,5), of 7000000000 RuleInbound True]
  then show "store_update all_sql range_encode range_decode 7000000000 1 (private_draft RuleInbound True) off_rules
     = (Inr (private_rule RuleInbound True 7000), narrowed_rules)" "rd_rows narrowed_rules = [private_row RuleInbound True 7000]"
    by (simp_all add: narrowed_rules_def m)
qed

lemma concurrent_update_is_lost_witness:
  "rd_rows narrowed_rules = [private_row RuleInbound True 7000]
   \<and> rd_rows narrowed_rules
     = rd_rows (snd (update_stored all_sql range_encode range_decode 7000000000 1 inbound_only private_rules))"
  using concurrent_update_is_lost [OF read_private rules_by_two(1,2)] rules_by_two(3) by simp

lemma update_changes_what_it_names_witness:
  "\<exists>row old row'. row \<in> set (rd_rows private_rules) \<and> rr_id row = uint (1 :: u32) \<and> into_record range_decode row = Some old
    \<and> patch_of switch_off (rc_rule old) (rc_rule (private_rule RuleBoth False 6000))
    \<and> rc_created_at (private_rule RuleBoth False 6000) = rc_created_at old
    \<and> into_record range_decode row' = Some (private_rule RuleBoth False 6000)
    \<and> rd_rows off_rules = map (\<lambda>r. if r = row then row' else r) (rd_rows private_rules)"
proof -
  have "update_stored all_sql range_encode range_decode 6000000000 1 switch_off private_rules
      = (Inr (private_rule RuleBoth False 6000), off_rules)"
    by (simp add: update_stored_def read_private rules_by_two)
  then show ?thesis by (rule update_changes_what_it_names [OF range_codec private_rules_ok(1)])
qed

end
