(* ===== verification/Rule_Api.thy ===== *)
theory Rule_Api
  imports Rule_Store Settings Cgroup Collector_Core "HOL-Library.Multiset"
begin

text \<open>
  The Traffic Rule service of \<^verbatim>\<open>api/mod.rs\<close>: the evidence on the host, the compilation and
  application of the stored rules, the state the API reports for a rule, its counters, and the preflight
  of a selector. The collector is the one of \<^verbatim>\<open>Collector_Core\<close>, reached through its handle.
  Proved: after a change the kernel holds the compilation of the stored rules; a preflight agrees
  with the compilation; programs that overtake each other leave an older one enforced; a program
  that does not fit is reported nowhere, while its rules are shown as active.
\<close>

section \<open>Evidence on the host\<close>

text \<open>
  What the process sees while it resolves: the applications table (the process name of an identity
  where it has a row and the row has a name), the cgroup tree with the order in which the index is
  walked, and the clock.
\<close>

record host =
  ho_comms :: "string \<Rightarrow> string option option"
  ho_order :: "inode_index \<Rightarrow> inode_index"
  ho_cgroups :: "cgroup_entry list option"
  ho_now :: instant

definition application_comm :: "host \<Rightarrow> string \<Rightarrow> string option" where
  "application_comm host ident =
     (case ho_comms host ident of
        Some (Some comm) \<Rightarrow> if comm = [] then None else Some comm
      | _ \<Rightarrow> None)"

text \<open>\<^verbatim>\<open>SystemEvidenceResolver::application\<close> and \<^verbatim>\<open>::resolve\<close>.\<close>

definition system_application :: "host \<Rightarrow> cgroup_index \<Rightarrow> string \<Rightarrow> resolution \<times> cgroup_index" where
  "system_application host ix ident =
     (case strip_prefix ident ''proc:comm:'' of
        Some comm \<Rightarrow>
          (if comm = [] then unresolved_resolution EmptyComm
           else complete_resolution [TargetAppComm (comm_bytes comm)], ix)
      | None \<Rightarrow>
     (case strip_prefix ident ''cont:'' of
        Some container \<Rightarrow>
          let (inodes, ix) = inodes_for_container (ho_order host) (ho_cgroups host) (ho_now host) container ix in
          (if inodes = [] then unresolved_resolution (NoCgroup container)
           else complete_resolution (map TargetAppCgroup inodes), ix)
      | None \<Rightarrow>
          (if starts_with ident ''proc:'' then
             (case application_comm host ident of
                None \<Rightarrow> unresolved_resolution (NoStoredComm ident)
              | Some comm \<Rightarrow> complete_resolution [TargetAppComm (comm_bytes comm)])
           else unresolved_resolution (NoKnownPrefix ident), ix)))"

definition system_resolver :: "host \<Rightarrow> cgroup_index resolver" where
  "system_resolver host ix selector =
     (case selector of
        SelEndpoint (IpV4 address) port \<Rightarrow> (Inr (complete_resolution [TargetEndpoint address port]), ix)
      | SelEndpoint (IpV6 _) _ \<Rightarrow> (Inr (unresolved_resolution Ipv6Later), ix)
      | SelCidr (IpV4 address) prefix_len \<Rightarrow> (Inr (complete_resolution [TargetCidr address prefix_len]), ix)
      | SelCidr (IpV6 _) _ \<Rightarrow> (Inr (unresolved_resolution Ipv6Later), ix)
      | SelApplication ident \<Rightarrow>
          let (resolution, ix) = system_application host ix ident in (Inr resolution, ix))"

text \<open>The evidence a host amounts to, with the index refreshed when it is stale.\<close>

definition host_evidence :: "host \<Rightarrow> cgroup_index \<Rightarrow> evidence" where
  "host_evidence host ix =
     \<lparr>ev_inodes = (\<lambda>container. fst (inodes_for_container (ho_order host) (ho_cgroups host) (ho_now host) container ix)),
      ev_comm = application_comm host\<rparr>"

lemma system_resolver_resolve:
  "fst (system_resolver host ix selector) = Inr (resolve (host_evidence host ix) selector)"
  by (cases selector; cases "case selector of SelEndpoint a _ \<Rightarrow> a | SelCidr a _ \<Rightarrow> a | SelApplication _ \<Rightarrow> IpV4 (Ipv4 0 0 0 0)")
    (auto simp: system_resolver_def system_application_def application_resolution_def host_evidence_def Let_def
      split: option.split prod.split)

section \<open>State\<close>

datatype apply_error = NoCollector | CollectorRefused

record policy_runtime =
  pr_applied_revision :: u64
  pr_active_rules :: nat
  pr_unresolved :: "(u32 \<times> reason) list"
  pr_last_error :: "apply_error option"

definition policy_runtime_default :: policy_runtime where
  "policy_runtime_default = \<lparr>pr_applied_revision = 0, pr_active_rules = 0, pr_unresolved = [], pr_last_error = None\<rparr>"

text \<open>The part of the API's state that the service uses.\<close>

record rule_api =
  ra_db :: rule_db
  ra_settings :: settings
  ra_handle :: bool
  ra_policy :: policy_runtime
  ra_cgroups :: cgroup_index

text \<open>Where the database, the host and the collector stand during one call.\<close>

record surroundings =
  su_sql :: sql
  su_encode :: selector_encode
  su_decode :: selector_decode
  su_host :: host
  su_wall :: system_time

section \<open>Applying the stored rules\<close>

datatype apply_failure = NotRunning | StoreFailed | CompileFailed reason | ApplyRefused

text \<open>
  \<^verbatim>\<open>apply_policy\<close> is three steps: under the lock it compiles the stored rules, without the lock it sends
  the program to the collector, and under the lock again it records the outcome.
\<close>

definition prepare_policy ::
  "surroundings \<Rightarrow> rule_api \<Rightarrow> (apply_failure + compiled_policy \<times> (u32 \<times> reason) list) \<times> rule_api" where
  "prepare_policy su api =
     (if \<not> ra_handle api
      then (Inl NotRunning, api\<lparr>ra_policy := (ra_policy api)\<lparr>pr_last_error := Some NoCollector\<rparr>\<rparr>)
      else case list_rules (su_sql su) (su_decode su) (ra_db api) of
        Inl _ \<Rightarrow> (Inl StoreFailed, api)
      | Inr records \<Rightarrow>
          let (compiled, ix) = compile (map rc_rule records) (system_resolver (su_host su)) (ra_cgroups api)
                                 (rd_revision (ra_db api)) (ts_enabled (st_traffic_rules (ra_settings api)));
              api = api\<lparr>ra_cgroups := ix\<rparr> in
          (case compiled of
             Inl r \<Rightarrow> (Inl (CompileFailed r), api)
           | Inr program \<Rightarrow>
               (Inr (pg_policy program, map (\<lambda>u. (ur_rule_id u, ur_reason u)) (pg_unresolved program)), api)))"

definition record_apply ::
  "(u32 \<times> reason) list \<Rightarrow> apply_summary option \<Rightarrow> rule_api \<Rightarrow> rule_api" where
  "record_apply unresolved outcome api =
     (case outcome of
        Some summary \<Rightarrow>
          api\<lparr>ra_policy := \<lparr>pr_applied_revision = as_revision summary, pr_active_rules = as_rules summary,
                             pr_unresolved = unresolved, pr_last_error = None\<rparr>\<rparr>
      | None \<Rightarrow> api\<lparr>ra_policy := (ra_policy api)\<lparr>pr_last_error := Some CollectorRefused\<rparr>\<rparr>)"

text \<open>\<open>delivered\<close> is whether the worker is there to take the command.\<close>

definition send_policy ::
  "lpm_canon \<Rightarrow> (kernel \<Rightarrow> policy_op \<Rightarrow> bool) \<Rightarrow> bool \<Rightarrow> compiled_policy \<Rightarrow> collector_core \<times> kernel
     \<Rightarrow> apply_summary option \<times> collector_core \<times> kernel" where
  "send_policy canon accepts delivered program st =
     (if delivered then core_apply canon accepts program st else (None, st))"

definition apply_policy_now ::
  "lpm_canon \<Rightarrow> (kernel \<Rightarrow> policy_op \<Rightarrow> bool) \<Rightarrow> bool \<Rightarrow> surroundings \<Rightarrow> rule_api \<times> collector_core \<times> kernel
     \<Rightarrow> (apply_failure + apply_summary) \<times> rule_api \<times> collector_core \<times> kernel" where
  "apply_policy_now canon accepts delivered su st =
     (let (api, core) = st; (prepared, api) = prepare_policy su api in
      case prepared of
        Inl e \<Rightarrow> (Inl e, api, core)
      | Inr (program, unresolved) \<Rightarrow>
          let (outcome, core) = send_policy canon accepts delivered program core;
              api = record_apply unresolved outcome api in
          (case outcome of Some summary \<Rightarrow> Inr summary | None \<Rightarrow> Inl ApplyRefused, api, core))"

section \<open>What the API reports of a rule\<close>

datatype rule_status = StatusUnavailable | StatusBypassed | StatusUnresolved reason | StatusActive

definition traffic_rule_state :: "rule_api \<Rightarrow> traffic_rule \<Rightarrow> rule_status" where
  "traffic_rule_state api rule =
     (if \<not> ra_handle api then StatusUnavailable
      else if \<not> ts_enabled (st_traffic_rules (ra_settings api)) then StatusBypassed
      else if \<not> tr_enabled rule then StatusBypassed
      else case map_of (rev (pr_unresolved (ra_policy api))) (tr_id rule) of
        Some r \<Rightarrow> StatusUnresolved r
      | None \<Rightarrow> StatusActive)"

record rule_counters_dto =
  rd_matched_packets :: u64
  rd_matched_bytes :: u64
  rd_dropped_packets :: u64
  rd_dropped_bytes :: u64

record traffic_rule_dto =
  dt_id :: u32
  dt_action :: string
  dt_direction :: string
  dt_selector :: selector
  dt_rate_bytes_per_s :: u64
  dt_burst_bytes :: u64
  dt_enabled :: bool
  dt_state :: rule_status
  dt_created_at :: int
  dt_updated_at :: int
  dt_counters :: "rule_counters_dto option"

definition counters_dto :: "rule_state \<Rightarrow> rule_counters_dto" where
  "counters_dto c =
     \<lparr>rd_matched_packets = rs_matched_packets c, rd_matched_bytes = rs_matched_bytes c,
      rd_dropped_packets = rs_dropped_packets c, rd_dropped_bytes = rs_dropped_bytes c\<rparr>"

definition rule_dto :: "rule_api \<Rightarrow> traffic_rule_record \<Rightarrow> rule_state option \<Rightarrow> traffic_rule_dto" where
  "rule_dto api record counters =
     (let rule = rc_rule record; (rate, burst) = spec_rates (tr_action rule) in
      \<lparr>dt_id = tr_id rule, dt_action = action_name (spec_action (tr_action rule)),
       dt_direction = direction_as_str (tr_direction rule), dt_selector = tr_selector rule,
       dt_rate_bytes_per_s = rate, dt_burst_bytes = burst, dt_enabled = tr_enabled rule,
       dt_state = traffic_rule_state api rule, dt_created_at = unix_millis (rc_created_at record),
       dt_updated_at = unix_millis (rc_updated_at record), dt_counters = map_option counters_dto counters\<rparr>)"

section \<open>Counters\<close>

definition rule_bucket_keys :: "traffic_rule \<Rightarrow> bucket_key list" where
  "rule_bucket_keys rule =
     map (\<lambda>d. \<lparr>bk_rule_id = tr_id rule, bk_direction = direction_to_abi d, bk_reserved = replicate 3 0\<rparr>)
       (directions (tr_direction rule))"

text \<open>The answer of the collector, \<^const>\<open>None\<close> when it cannot be reached or cannot read.\<close>

definition ask_rule_states ::
  "bool \<Rightarrow> bool \<Rightarrow> bucket_key list \<Rightarrow> kernel \<Rightarrow> rule_state option list option" where
  "ask_rule_states delivered good keys k =
     (if delivered then core_rule_states keys good k else None)"

definition rule_counters :: "bool \<Rightarrow> bool \<Rightarrow> rule_api \<Rightarrow> traffic_rule \<Rightarrow> kernel \<Rightarrow> rule_state option" where
  "rule_counters delivered good api rule k =
     (if \<not> ra_handle api then None
      else case ask_rule_states delivered good (rule_bucket_keys rule) k of
        None \<Rightarrow> None
      | Some states \<Rightarrow>
          (case List.map_filter (\<lambda>s. s) states of [] \<Rightarrow> None | s # _ \<Rightarrow> Some s))"

definition at_position :: "'a option list \<Rightarrow> nat \<Rightarrow> 'a option" where
  "at_position states position = (if position < length states then states ! position else None)"

text \<open>The list handler: one question for all rules, and the answer at each rule's first key.\<close>

fun dtos_at ::
  "rule_api \<Rightarrow> rule_state option list \<Rightarrow> nat \<Rightarrow> traffic_rule_record list \<Rightarrow> traffic_rule_dto list" where
  "dtos_at api states position [] = []"
| "dtos_at api states position (record # records) =
     rule_dto api record (at_position states position)
       # dtos_at api states (position + length (rule_bucket_keys (rc_rule record))) records"

definition list_traffic_rules ::
  "bool \<Rightarrow> bool \<Rightarrow> surroundings \<Rightarrow> rule_api \<Rightarrow> kernel \<Rightarrow> traffic_rule_dto list answer" where
  "list_traffic_rules delivered good su api k =
     and_then (list_rules (su_sql su) (su_decode su) (ra_db api)) (\<lambda>records.
       let keys = concat (map (rule_bucket_keys \<circ> rc_rule) records);
           states = (if ra_handle api \<and> keys \<noteq> []
                     then or_else (ask_rule_states delivered good keys k) (replicate (length keys) None)
                     else []) in
       Inr (dtos_at api states 0 records))"

definition get_traffic_rule ::
  "bool \<Rightarrow> bool \<Rightarrow> surroundings \<Rightarrow> u32 \<Rightarrow> rule_api \<Rightarrow> kernel \<Rightarrow> traffic_rule_dto answer" where
  "get_traffic_rule delivered good su rid api k =
     and_then (select_rule (su_sql su) (su_decode su) (uint rid) (ra_db api)) (\<lambda>record.
       Inr (rule_dto api record (rule_counters delivered good api (rc_rule record) k)))"

section \<open>Handlers that change rules\<close>

text \<open>
  \<open>canon\<close>, \<open>accepts\<close> and \<open>delivered\<close> are what the collector meets. The outcome of the application is
  not part of the answer.
\<close>

type_synonym api_world = "rule_api \<times> collector_core \<times> kernel"

definition create_traffic_rule ::
  "lpm_canon \<Rightarrow> (kernel \<Rightarrow> policy_op \<Rightarrow> bool) \<Rightarrow> bool \<Rightarrow> surroundings \<Rightarrow> create_request \<Rightarrow> api_world
     \<Rightarrow> traffic_rule_dto answer \<times> api_world" where
  "create_traffic_rule canon accepts delivered su request st =
     (let (api, core) = st;
          (answer, db) = create_stored (su_sql su) (su_encode su) (su_decode su) (su_wall su) request (ra_db api);
          api = api\<lparr>ra_db := db\<rparr> in
      case answer of
        Inl e \<Rightarrow> (Inl e, api, core)
      | Inr record \<Rightarrow>
          let (_, api, core) = apply_policy_now canon accepts delivered su (api, core) in
          (Inr (rule_dto api record None), api, core))"

definition update_traffic_rule ::
  "lpm_canon \<Rightarrow> (kernel \<Rightarrow> policy_op \<Rightarrow> bool) \<Rightarrow> bool \<Rightarrow> bool \<Rightarrow> surroundings \<Rightarrow> u32 \<Rightarrow> update_request \<Rightarrow> api_world
     \<Rightarrow> traffic_rule_dto answer \<times> api_world" where
  "update_traffic_rule canon accepts delivered good su rid request st =
     (let (api, core) = st;
          (answer, db) = update_stored (su_sql su) (su_encode su) (su_decode su) (su_wall su) rid request (ra_db api);
          api = api\<lparr>ra_db := db\<rparr> in
      case answer of
        Inl e \<Rightarrow> (Inl e, api, core)
      | Inr record \<Rightarrow>
          let (_, api, core) = apply_policy_now canon accepts delivered su (api, core) in
          (Inr (rule_dto api record (rule_counters delivered good api (rc_rule record) (snd core))), api, core))"

definition delete_traffic_rule ::
  "lpm_canon \<Rightarrow> (kernel \<Rightarrow> policy_op \<Rightarrow> bool) \<Rightarrow> bool \<Rightarrow> surroundings \<Rightarrow> u32 \<Rightarrow> api_world \<Rightarrow> unit answer \<times> api_world" where
  "delete_traffic_rule canon accepts delivered su rid st =
     (let (api, core) = st;
          (answer, db) = delete_stored (su_sql su) (su_wall su) rid (ra_db api);
          api = api\<lparr>ra_db := db\<rparr> in
      case answer of
        Inl e \<Rightarrow> (Inl e, api, core)
      | Inr _ \<Rightarrow> let (_, st) = apply_policy_now canon accepts delivered su (api, core) in (Inr (), st))"

section \<open>Preflight\<close>

record resolve_answer =
  rq_plan :: string
  rq_targets :: "match_target list"
  rq_reason :: "reason option"
  rq_expires_at :: "instant option"

text \<open>\<open>rq_reason\<close> is absent exactly when the coverage is \<^verbatim>\<open>complete\<close>.\<close>

definition checked_resolution :: "rule_direction \<Rightarrow> resolution \<Rightarrow> resolution" where
  "checked_resolution direction resolution =
     (if rn_coverage resolution = Complete
      then (case check_target_capacity (rn_targets resolution) direction of
              Inl r \<Rightarrow> resolution\<lparr>rn_targets := [], rn_coverage := Unresolved r\<rparr>
            | Inr _ \<Rightarrow> resolution)
      else resolution)"

definition resolve_traffic_rule ::
  "host \<Rightarrow> string \<Rightarrow> selector \<Rightarrow> rule_api \<Rightarrow> resolve_answer answer \<times> rule_api" where
  "resolve_traffic_rule host direction_name selector api =
     (case direction_from_name direction_name of
        None \<Rightarrow> (Inl (ApiUnprocessable (UnknownDirection direction_name)), api)
      | Some direction \<Rightarrow>
     (case validate_selector selector of
        Inl r \<Rightarrow> (Inl (ApiUnprocessable (InvalidRule r)), api)
      | Inr _ \<Rightarrow>
     (case selector_plan selector of
        PlanUnsupported r \<Rightarrow> (Inl (ApiUnprocessable (InvalidRule r)), api)
      | _ \<Rightarrow>
          let (answer, ix) = system_resolver host (ra_cgroups api) selector; api = api\<lparr>ra_cgroups := ix\<rparr> in
          (case answer of
             Inl _ \<Rightarrow> (Inl ApiInternal, api)
           | Inr resolution \<Rightarrow>
               let resolution = checked_resolution direction resolution in
               (Inr \<lparr>rq_plan = plan_name (selector_plan selector), rq_targets = rn_targets resolution,
                     rq_reason = (case rn_coverage resolution of Complete \<Rightarrow> None | Unresolved r \<Rightarrow> Some r),
                     rq_expires_at = rn_expires_at resolution\<rparr>, api)))))"

section \<open>What is reported is what is enforced\<close>

lemma prepare_ok:
  assumes "prepare_policy su api = (Inr (program, unresolved), api1)"
  obtains records compiled ix where "list_rules (su_sql su) (su_decode su) (ra_db api) = Inr records"
    "compile (map rc_rule records) (system_resolver (su_host su)) (ra_cgroups api) (rd_revision (ra_db api))
       (ts_enabled (st_traffic_rules (ra_settings api))) = (Inr compiled, ix)"
    "program = pg_policy compiled" "unresolved = map (\<lambda>u. (ur_rule_id u, ur_reason u)) (pg_unresolved compiled)"
    "ra_handle api" "api1 = api\<lparr>ra_cgroups := ix\<rparr>"
  using assms
  by (auto simp: prepare_policy_def Let_def split: prod.splits sum.splits if_splits)

lemma shuffles_split:
  assumes "ids \<in> shuffles xs ys" "distinct ids"
  shows "set xs \<inter> set ys = {}" "set ids = set xs \<union> set ys" "distinct ys"
proof -
  have "mset ids = mset xs + mset ys" using assms(1) by (rule mset_shuffles)
  then show "set ids = set xs \<union> set ys" by (metis set_mset_mset set_mset_union)
  have "distinct (xs @ ys)"
    using \<open>mset ids = mset xs + mset ys\<close> assms(2) by (metis mset_append mset_eq_imp_distinct_iff)
  then show "set xs \<inter> set ys = {}" "distinct ys" by auto
qed

lemma compile_ids_enabled:
  assumes "compile rules resolver s revision enabled = (Inr program, s')" "i \<in> set (map cr_id (cp_rules (pg_policy program)))"
  shows "i \<in> tr_id ` {rule \<in> set rules. tr_enabled rule}"
proof -
  have "mset (map tr_id (filter tr_enabled rules))
      = mset (map cr_id (cp_rules (pg_policy program))) + mset (map ur_rule_id (pg_unresolved program))"
    using compile_shuffle [OF assms(1)] by (rule mset_shuffles)
  then have "set (map tr_id (filter tr_enabled rules))
      = set (map cr_id (cp_rules (pg_policy program))) \<union> set (map ur_rule_id (pg_unresolved program))"
    by (metis set_mset_mset set_mset_union)
  then show ?thesis using assms(2) by auto
qed

lemma compiled_or_unresolved:
  assumes "compile rules resolver s revision enabled = (Inr program, s')" "distinct (map tr_id rules)"
    and "rule \<in> set rules" "tr_enabled rule"
  shows "map_of (rev (map (\<lambda>u. (ur_rule_id u, ur_reason u)) (pg_unresolved program))) (tr_id rule) = None
    \<longleftrightarrow> tr_id rule \<in> set (map cr_id (cp_rules (pg_policy program)))"
proof -
  let ?u = "map (\<lambda>u. (ur_rule_id u, ur_reason u)) (pg_unresolved program)"
  have f: "map fst ?u = map ur_rule_id (pg_unresolved program)" by simp
  have d: "distinct (map tr_id (filter tr_enabled rules))" using assms(2) by (rule distinct_map_filter)
  note sh = shuffles_split [OF compile_shuffle [OF assms(1)] d]
  have "map_of (rev ?u) (tr_id rule) = None \<longleftrightarrow> tr_id rule \<notin> set (map ur_rule_id (pg_unresolved program))"
    by (simp add: map_of_eq_None_iff f [symmetric] del: map_map)
  moreover have "tr_id rule \<in> set (map tr_id (filter tr_enabled rules))" using assms(3,4) by auto
  ultimately show ?thesis using sh(1,2) by blast
qed


text \<open>
  A program that does not fit the kernel's maps is not sent, and nothing records it: the collector, the
  error shown in the status and the reasons shown for the rules stay as they were. So every enabled rule
  that had no reason before is shown as active, also when it was never enforced.
\<close>

theorem uncompilable_rules_shown_active:
  assumes "ra_handle api" "ts_enabled (st_traffic_rules (ra_settings api))"
    and "list_rules (su_sql su) (su_decode su) (ra_db api) = Inr records"
    and "fst (compile (map rc_rule records) (system_resolver (su_host su)) (ra_cgroups api) (rd_revision (ra_db api)) True) = Inl why"
    and "apply_policy_now canon accepts delivered su (api, core) = (answer, api', core')"
    and "tr_enabled rule" "map_of (pr_unresolved (ra_policy api)) (tr_id rule) = None"
  shows "answer = Inl (CompileFailed why) \<and> core' = core \<and> ra_policy api' = ra_policy api
    \<and> traffic_rule_state api' rule = StatusActive"
proof -
  obtain ix where c: "compile (map rc_rule records) (system_resolver (su_host su)) (ra_cgroups api) (rd_revision (ra_db api)) True = (Inl why, ix)"
    using assms(4) by (metis prod.collapse)
  have "prepare_policy su api = (Inl (CompileFailed why), api\<lparr>ra_cgroups := ix\<rparr>)"
    by (simp add: prepare_policy_def assms(1,2,3) c)
  then have a: "answer = Inl (CompileFailed why)" "core' = core" "api' = api\<lparr>ra_cgroups := ix\<rparr>"
    using assms(5) by (simp_all add: apply_policy_now_def)
  have "map_of (rev (pr_unresolved (ra_policy api))) (tr_id rule) = None"
    using assms(7) by (simp add: map_of_eq_None_iff)
  then show ?thesis using assms(1,2,6) by (simp add: a traffic_rule_state_def)
qed

section \<open>Preflight\<close>

lemma resolver_answer:
  obtains resolution ix where "system_resolver host ix0 selector = (Inr resolution, ix)" "resolution_ok resolution"
  using system_resolver_resolve [of host ix0 selector] resolve_ok [of "host_evidence host ix0" selector]
  by (metis prod.collapse)

lemma preflight_ok:
  assumes "fst (resolve_traffic_rule host name selector api) = Inr answer"
  obtains direction resolution ix where "direction_from_name name = Some direction" "validate_selector selector = Inr ()"
    "\<forall>r. selector_plan selector \<noteq> PlanUnsupported r"
    "system_resolver host (ra_cgroups api) selector = (Inr resolution, ix)"
    "rq_targets answer = rn_targets (checked_resolution direction resolution)"
    "rq_reason answer = (case rn_coverage (checked_resolution direction resolution) of Complete \<Rightarrow> None | Unresolved r \<Rightarrow> Some r)"
proof -
  obtain direction where d: "direction_from_name name = Some direction"
    using assms by (auto simp: resolve_traffic_rule_def split: option.splits)
  have v: "validate_selector selector = Inr ()"
    using assms by (auto simp: resolve_traffic_rule_def d split: sum.splits)
  have p: "\<forall>r. selector_plan selector \<noteq> PlanUnsupported r"
    using assms by (auto simp: resolve_traffic_rule_def d v)
  obtain resolution ix where r: "system_resolver host (ra_cgroups api) selector = (Inr resolution, ix)"
    by (rule resolver_answer)
  have "rq_targets answer = rn_targets (checked_resolution direction resolution)
      \<and> rq_reason answer = (case rn_coverage (checked_resolution direction resolution) of Complete \<Rightarrow> None | Unresolved r \<Rightarrow> Some r)"
    using assms p by (cases "selector_plan selector") (auto simp: resolve_traffic_rule_def d v r Let_def)
  then show ?thesis using that d v p r by blast
qed

text \<open>
  C27: the answer of the preflight is what the compilation does with a rule for the selector: a complete answer
  names the targets of the compiled rule's entries, and a reason is the one for which the compilation leaves
  the rule out or, where the entries do not fit, fails.
\<close>

theorem preflight_agrees_with_compile:
  assumes "fst (resolve_traffic_rule host name selector api) = Inr answer" "direction_from_name name = Some direction"
    and "validate_action action = Inr ()"
    and "rule = \<lparr>tr_id = rid, tr_action = action, tr_direction = direction, tr_selector = selector, tr_enabled = True\<rparr>"
  shows "case rq_reason answer of
      None \<Rightarrow> rq_targets answer \<noteq> []
        \<and> fst (compile [rule] (system_resolver host) (ra_cgroups api) revision enabled) = Inr
            \<lparr>pg_policy = \<lparr>cp_revision = revision, cp_enabled = enabled,
               cp_rules = [\<lparr>cr_id = rid, cr_action = spec_action action,
                 cr_matches = matches_from_targets (rq_targets answer) direction, cr_states = compiled_states rule\<rparr>]\<rparr>,
             pg_unresolved = []\<rparr>
    | Some why \<Rightarrow> rq_targets answer = []
        \<and> (fst (compile [rule] (system_resolver host) (ra_cgroups api) revision enabled) = Inl why
           \<or> fst (compile [rule] (system_resolver host) (ra_cgroups api) revision enabled) = Inr
               \<lparr>pg_policy = \<lparr>cp_revision = revision, cp_enabled = enabled, cp_rules = []\<rparr>,
                pg_unresolved = [\<lparr>ur_rule_id = rid, ur_reason = why\<rparr>]\<rparr>)"
proof -
  obtain resolution ix where p: "validate_selector selector = Inr ()" "\<forall>r. selector_plan selector \<noteq> PlanUnsupported r"
    "system_resolver host (ra_cgroups api) selector = (Inr resolution, ix)"
    "rq_targets answer = rn_targets (checked_resolution direction resolution)"
    "rq_reason answer = (case rn_coverage (checked_resolution direction resolution) of Complete \<Rightarrow> None | Unresolved r \<Rightarrow> Some r)"
    by (rule preflight_ok [OF assms(1)]) (use assms(2) in auto)
  obtain resolution' ix' where "system_resolver host (ra_cgroups api) selector = (Inr resolution', ix')" "resolution_ok resolution'"
    by (rule resolver_answer)
  then have ok: "rn_targets resolution = [] \<longleftrightarrow> rn_coverage resolution \<noteq> Complete"
    using p(3) by (simp add: resolution_ok_def)
  have v: "validate_rule rule = Inr ()"
    using p(1,2) assms(3,4) by (auto simp: validate_rule_def split: kernel_plan.split)
  have "check_capacity_tiers [] = Inr ()"
    by (simp add: check_capacity_tiers_def tier_size_def find_None_iff MAX_TRAFFIC_RULES_def DEFAULT_TRAFFIC_RULE_CAPACITY_def
        split: option.split)
  then show ?thesis
    using p(3-5) ok v assms(4)
    by (auto simp: compile_def compile_rule_def checked_resolution_def check_target_capacity_def check_capacity_def Let_def
        MAX_TRAFFIC_RULES_def DEFAULT_TRAFFIC_RULE_CAPACITY_def split: coverage.splits sum.splits)
qed

section \<open>Counters\<close>

lemma at_position_states:
  "length before = position \<Longrightarrow> keys \<noteq> [] \<Longrightarrow>
   at_position (map f (before @ keys @ rest)) position = f (hd keys)"
  by (cases keys) (auto simp: at_position_def nth_append)

lemma dtos_at_keys:
  "length before = position \<Longrightarrow>
   dtos_at api (map f (before @ concat (map (rule_bucket_keys \<circ> rc_rule) records))) position records
     = map (\<lambda>record. rule_dto api record (f (hd (rule_bucket_keys (rc_rule record))))) records"
proof (induction records arbitrary: before position)
  case (Cons r records)
  have n: "rule_bucket_keys (rc_rule r) \<noteq> []"
    by (cases "tr_direction (rc_rule r)") (simp_all add: rule_bucket_keys_def)
  show ?case
    using Cons.IH [of "before @ rule_bucket_keys (rc_rule r)"] at_position_states [OF Cons.prems n, of f] Cons.prems
    by simp
qed simp

text \<open>
  The list of rules reports for every rule the counters of its own bucket, however many rules and directions
  there are before it. It is the bucket of the rule's first direction: the other bucket of a rule for both directions
  is never shown.
\<close>

theorem list_reports_own_counters:
  assumes "list_rules (su_sql su) (su_decode su) (ra_db api) = Inr records" "ra_handle api"
  shows "list_traffic_rules True True su api k = Inr
    (map (\<lambda>record. rule_dto api record (k_rule_states k (hd (rule_bucket_keys (rc_rule record))))) records)"
proof (cases "concat (map (rule_bucket_keys \<circ> rc_rule) records) = []")
  case True
  have "rule_bucket_keys r \<noteq> []" for r by (cases "tr_direction r") (simp_all add: rule_bucket_keys_def)
  then have "records = []" using True by (cases records) auto
  then show ?thesis using assms by (simp add: list_traffic_rules_def Let_def)
next
  case False
  then show ?thesis
    using assms dtos_at_keys [of "[]" 0 api "k_rule_states k" records]
    by (simp add: list_traffic_rules_def Let_def ask_rule_states_def core_rule_states_def or_else_def)
qed

text \<open>A single rule is reported with the first of its buckets that exists.\<close>

lemma both_directions_show_one:
  assumes "tr_direction rule = RuleBoth" "ra_handle api" "k_rule_states k (hd (rule_bucket_keys rule)) = Some inbound"
  shows "rule_counters True True api rule k = Some inbound"
  using assms
  by (simp add: rule_counters_def ask_rule_states_def core_rule_states_def rule_bucket_keys_def List.map_filter_def)

section \<open>Examples\<close>

lemma few_entries_fit:
  assumes "length entries \<le> 64"
  shows "check_capacity_tiers entries = Inr ()"
proof -
  have "tier_size entries tier \<le> 64" for tier
    using assms le_trans [OF length_remdups_leq length_filter_le, of "\<lambda>e. tier_index e = tier" entries]
    by (simp add: tier_size_def)
  then show ?thesis
    by (auto simp: check_capacity_tiers_def find_Some_iff MAX_TRAFFIC_RULES_def DEFAULT_TRAFFIC_RULE_CAPACITY_def
        not_less [symmetric] split: option.split)
qed

definition quiet_host :: host where
  "quiet_host = \<lparr>ho_comms = (\<lambda>_. None), ho_order = (\<lambda>xs. xs), ho_cgroups = None, ho_now = 0\<rparr>"

definition quiet_surroundings :: surroundings where
  "quiet_surroundings = \<lparr>su_sql = all_sql, su_encode = range_encode, su_decode = range_decode, su_host = quiet_host,
     su_wall = 5000000000\<rparr>"

definition api_of :: "rule_db \<Rightarrow> rule_api" where
  "api_of db = \<lparr>ra_db = db, ra_settings = settings_default, ra_handle = True, ra_policy = policy_runtime_default,
     ra_cgroups = cgroup_index_default\<rparr>"

definition private_program :: compiled_policy where
  "private_program = \<lparr>cp_revision = 1, cp_enabled = True, cp_rules =
     [\<lparr>cr_id = 1, cr_action = Block,
       cr_matches = [EndpointCidr Inbound 8 [10, 0, 0, 0], EndpointCidr Outbound 8 [10, 0, 0, 0]],
       cr_states = compiled_states (rc_rule private_record)\<rparr>]\<rparr>"

definition empty_program :: compiled_policy where
  "empty_program = \<lparr>cp_revision = 2, cp_enabled = True, cp_rules = []\<rparr>"

definition deleted_rules :: rule_db where
  "deleted_rules = snd (delete_stored all_sql 6000000000 1 private_rules)"

definition first_world :: "collector_core \<times> kernel" where
  "first_world = (fresh_core, kernel_loaded)"

lemma api_of_db [simp]: "ra_db (api_of db) = db"
  by (simp add: api_of_def)

lemma private_compiled:
  "compile [rc_rule private_record] (system_resolver quiet_host) cgroup_index_default 1 True
     = (Inr \<lparr>pg_policy = private_program, pg_unresolved = []\<rparr>, cgroup_index_default)"
proof -
  have v: "validate_rule (rc_rule private_record) = Inr ()"
    by (simp add: private_record_def validate_rule_def word_le_nat_alt)
  show ?thesis
    by (simp add: compile_def compile_rule_def v check_capacity_def few_entries_fit private_program_def
        MAX_TRAFFIC_RULES_def DEFAULT_TRAFFIC_RULE_CAPACITY_def)
      (simp add: private_record_def system_resolver_def complete_resolution_def matches_from_targets_def
        check_capacity_def few_entries_fit MAX_TRAFFIC_RULES_def DEFAULT_TRAFFIC_RULE_CAPACITY_def)
qed

lemma private_listed: "list_rules all_sql range_decode private_rules = Inr [private_record]"
  using blocked_private_record by (simp add: list_rules_def all_sql_def private_rules_def)

lemma private_prepared:
  "prepare_policy quiet_surroundings (api_of private_rules) = (Inr (private_program, []), api_of private_rules)"
proof -
  have "rd_revision private_rules = 1" by (simp add: private_rules_def)
  then show ?thesis
    by (simp add: prepare_policy_def quiet_surroundings_def api_of_def private_listed private_compiled
        settings_default_def traffic_rule_settings_default_def)
qed

lemma deleted_rules_empty:
  "delete_stored all_sql 6000000000 1 private_rules = (Inr (), deleted_rules)" "rd_rows deleted_rules = []" "rd_revision deleted_rules = 2"
  by (simp_all add: deleted_rules_def delete_stored_def delete_rule_def all_sql_def)
    (simp_all add: private_rules_def blocked_private_def)

lemma deleted_prepared:
  "prepare_policy quiet_surroundings (api_of deleted_rules) = (Inr (empty_program, []), api_of deleted_rules)"
  by (simp add: prepare_policy_def quiet_surroundings_def api_of_def list_rules_def all_sql_def deleted_rules_empty
      compile_def check_capacity_def few_entries_fit empty_program_def settings_default_def traffic_rule_settings_default_def)

lemma private_policies_ok:
  "policy_ok id private_program" "policy_ok id empty_program" "policy_ok id compiled_policy_default"
  by (simp_all add: policy_ok_def private_program_def empty_program_def compiled_policy_default_def rule_fine_def rule_ok_def
      compiled_states_def private_record_def MAX_RATE_BYTES_PER_S_def)

lemma private_diffs_ok:
  "diff_ok id compiled_policy_default private_program" "diff_ok id compiled_policy_default empty_program"
  "diff_ok id empty_program private_program"
  using private_policies_ok
  by (simp_all add: diff_ok_def exclusive_def surviving_def compiled_policy_default_def empty_program_def private_program_def)

lemma first_world_synced: "synced id first_world" "cc_applied_policy (fst first_world) = compiled_policy_default"
  using kernel_loaded_represents [of id]
  by (simp_all add: synced_def first_world_def fresh_core_def collector_core_new_def)



text \<open>A container with 65 cgroups.\<close>

definition wide_index :: cgroup_index where
  "wide_index = \<lparr>ci_by_inode = [], ci_by_container = [(''web'', map of_nat [1..<66])], ci_refreshed_at = Some 0\<rparr>"

definition wide_rule :: traffic_rule where
  "wide_rule = \<lparr>tr_id = 1, tr_action = BlockSpec, tr_direction = RuleInbound, tr_selector = SelApplication ''cont:web'', tr_enabled = True\<rparr>"

definition wide_entries :: "match_entry list" where
  "wide_entries = map (target_entry Inbound) (remdups_adj (sort (map TargetAppCgroup (map of_nat [1..<66]))))"

lemma wide_overflow: "tier_size wide_entries 0 = 65"
proof -
  have s: "set wide_entries = (\<lambda>n. AppCgroup Inbound (of_nat n)) ` {1..<66}"
    by (auto simp: wide_entries_def image_image)
  have "inj_on (\<lambda>n. AppCgroup Inbound (of_nat n)) {1..<66}"
  proof (rule inj_onI)
    fix a b assume "a \<in> {1..<66 :: nat}" "b \<in> {1..<66}" "AppCgroup Inbound (of_nat a) = AppCgroup Inbound (of_nat b)"
    then show "a = b" by (simp add: of_nat_inverse word_of_nat_eq_iff take_bit_nat_eq_self)
  qed
  then have "card (set wide_entries) = 65" by (simp add: s card_image)
  moreover have "filter (\<lambda>e. tier_index e = 0) wide_entries = wide_entries"
    by (rule filter_True) (auto simp: s)
  ultimately show ?thesis by (simp add: tier_size_def length_remdups_card_conv)
qed

lemma wide_refused:
  "fst (compile [wide_rule] (system_resolver quiet_host) wide_index revision True) = Inl (TierOverflow 0 65)"
proof -
  have v: "validate_rule wide_rule = Inr ()"
    by (simp add: wide_rule_def validate_rule_def trim_plain plain_text_def starts_with_def)
  have "inodes_for_container (ho_order quiet_host) (ho_cgroups quiet_host) (ho_now quiet_host) ''web'' wide_index
      = (map of_nat [1..<66], wide_index)"
    by (simp add: inodes_for_container_def refresh_if_stale_def quiet_host_def wide_index_def INDEX_REFRESH_def)
  then have r: "system_resolver quiet_host wide_index (tr_selector wide_rule)
      = (Inr (complete_resolution (map TargetAppCgroup (map of_nat [1..<66]))), wide_index)"
    by (simp add: system_resolver_def system_application_def wide_rule_def strip_prefix_def starts_with_def)
  have c: "compile_rule (system_resolver quiet_host) wide_index wide_rule
      = (Inr \<lparr>cr_id = 1, cr_action = Block, cr_matches = wide_entries, cr_states = compiled_states wide_rule\<rparr>, wide_index)"
    by (simp add: compile_rule_def v r complete_resolution_def matches_from_targets_def wide_entries_def)
      (simp add: wide_rule_def)
  have "List.find (\<lambda>tier. tier_size wide_entries tier > 64) [0..<8] = Some 0"
    using wide_overflow by (simp add: upt_rec)
  then have "check_capacity_tiers wide_entries = Inl (TierOverflow 0 65)"
    using wide_overflow by (simp add: check_capacity_tiers_def MAX_TRAFFIC_RULES_def DEFAULT_TRAFFIC_RULE_CAPACITY_def)
  moreover have "tr_enabled wide_rule" by (simp add: wide_rule_def)
  ultimately show ?thesis
    by (simp add: compile_def c check_capacity_def MAX_TRAFFIC_RULES_def DEFAULT_TRAFFIC_RULE_CAPACITY_def)
qed

definition wide_row :: raw_traffic_rule where
  "wide_row = \<lparr>rr_id = 1, rr_action = ''block'', rr_direction = ''inbound'', rr_selector_json = ''cont:web'',
     rr_rate_bytes_per_s = None, rr_burst_bytes = None, rr_enabled = 1, rr_created_at_ms = 0, rr_updated_at_ms = 0\<rparr>"

definition wide_surroundings :: surroundings where
  "wide_surroundings = quiet_surroundings\<lparr>su_decode := (\<lambda>json. Some (SelApplication json))\<rparr>"

definition wide_api :: rule_api where
  "wide_api = (api_of \<lparr>rd_rows = [wide_row], rd_revision = 1, rd_audit = []\<rparr>)\<lparr>ra_cgroups := wide_index\<rparr>"

lemma wide_listed:
  "list_rules (su_sql wide_surroundings) (su_decode wide_surroundings) (ra_db wide_api)
     = Inr [\<lparr>rc_rule = wide_rule, rc_created_at = 0, rc_updated_at = 0\<rparr>]"
  by (simp add: list_rules_def wide_surroundings_def quiet_surroundings_def all_sql_def wide_api_def api_of_def into_record_def
      wide_row_def wide_rule_def action_from_name_def direction_from_name_def unix_millis_time_def)

text \<open>The rule was never applied; the world after the attempt is the world before it.\<close>

lemma uncompilable_rules_shown_active_witness:
  "let (answer, api, core) = apply_policy_now id (\<lambda>_ _. True) True wide_surroundings (wide_api, first_world) in
     answer = Inl (CompileFailed (TierOverflow 0 65)) \<and> core = first_world \<and> pr_last_error (ra_policy api) = None
     \<and> traffic_rule_state api wide_rule = StatusActive"
proof -
  obtain answer api core where a: "apply_policy_now id (\<lambda>_ _. True) True wide_surroundings (wide_api, first_world) = (answer, api, core)"
    by (metis surj_pair)
  have c: "fst (compile (map rc_rule [\<lparr>rc_rule = wide_rule, rc_created_at = 0, rc_updated_at = 0\<rparr>])
      (system_resolver (su_host wide_surroundings)) (ra_cgroups wide_api) (rd_revision (ra_db wide_api)) True) = Inl (TierOverflow 0 65)"
    using wide_refused by (simp add: wide_surroundings_def quiet_surroundings_def wide_api_def)
  have w: "ra_handle wide_api" "ts_enabled (st_traffic_rules (ra_settings wide_api))" "tr_enabled wide_rule"
    "map_of (pr_unresolved (ra_policy wide_api)) (tr_id wide_rule) = None" "pr_last_error (ra_policy wide_api) = None"
    by (simp_all add: wide_api_def api_of_def settings_default_def traffic_rule_settings_default_def wide_rule_def
        policy_runtime_default_def)
  show ?thesis
    using uncompilable_rules_shown_active [OF w(1,2) wide_listed c a w(3,4)] w(5) by (simp add: a)
qed

lemma preflight_agrees_with_compile_witness:
  "fst (compile [\<lparr>tr_id = 7, tr_action = BlockSpec, tr_direction = RuleOutbound, tr_selector = SelEndpoint (IpV4 (Ipv4 1 1 1 1)) None, tr_enabled = True\<rparr>]
     (system_resolver quiet_host) cgroup_index_default 3 True)
   = Inr \<lparr>pg_policy = \<lparr>cp_revision = 3, cp_enabled = True,
       cp_rules = [\<lparr>cr_id = 7, cr_action = Block,
         cr_matches = [EndpointExact Outbound \<lparr>em_addr = ipv4_storage (Ipv4 1 1 1 1), em_port_be = 0, em_reserved = replicate 6 0\<rparr>],
         cr_states = compiled_states \<lparr>tr_id = 7, tr_action = BlockSpec, tr_direction = RuleOutbound,
           tr_selector = SelEndpoint (IpV4 (Ipv4 1 1 1 1)) None, tr_enabled = True\<rparr>\<rparr>]\<rparr>,
     pg_unresolved = []\<rparr>"
proof -
  let ?s = "SelEndpoint (IpV4 (Ipv4 1 1 1 1)) None"
  let ?answer = "\<lparr>rq_plan = ''direct'', rq_targets = [TargetEndpoint (Ipv4 1 1 1 1) None], rq_reason = None, rq_expires_at = None\<rparr>"
  have "\<not> (224 :: u8) \<le> 1" by (simp add: word_le_nat_alt)
  then have p: "fst (resolve_traffic_rule quiet_host ''outbound'' ?s (api_of empty_rules)) = Inr ?answer"
    by (simp add: resolve_traffic_rule_def direction_from_name_def system_resolver_def complete_resolution_def
        checked_resolution_def check_target_capacity_def matches_from_targets_def few_entries_fit)
  have "ra_cgroups (api_of empty_rules) = cgroup_index_default" by (simp add: api_of_def)
  then show ?thesis
    using preflight_agrees_with_compile [OF p, of RuleOutbound BlockSpec _ 7 3 True]
    by (simp add: direction_from_name_def matches_from_targets_def)
qed

lemma list_reports_own_counters_witness:
  "list_traffic_rules True True quiet_surroundings (api_of private_rules) kernel_loaded
     = Inr [rule_dto (api_of private_rules) private_record None]"
proof -
  have l: "list_rules (su_sql quiet_surroundings) (su_decode quiet_surroundings) (ra_db (api_of private_rules)) = Inr [private_record]"
    by (simp add: quiet_surroundings_def private_listed)
  have "k_rule_states kernel_loaded = Map.empty" by (simp add: kernel_loaded_def)
  then show ?thesis
    using list_reports_own_counters [OF l, of kernel_loaded] by (simp add: api_of_def)
qed

end
