(* ===== verification/Association.thy ===== *)
theory Association
  imports Domain_Decoder Db_Common "HOL-Library.Product_Lexorder" "HOL-Library.List_Lexorder" "HOL-Library.Char_ord"
    "HOL-Library.Multiset"
begin

text \<open>
  The stored domain evidence of \<^verbatim>\<open>api/db.rs\<close>: observations and the domains associated with
  an address. A column with the text of an address or of an enumeration holds the value itself.
  Proved: the associated domains are the strongest ones, each once and at most eight, in an order that does
  not depend on the order of the rows; what was observed is associated until it expires.
\<close>

section \<open>Times and names\<close>

text \<open>The range of \<^verbatim>\<open>SystemTime\<close>: 64-bit seconds.\<close>

definition system_checked :: "int \<Rightarrow> system_time option" where
  "system_checked t = (if - (2 ^ 63) * 1000000000 \<le> t \<and> t < 2 ^ 63 * 1000000000 then Some t else None)"

definition instant_to_system :: "instant \<Rightarrow> instant \<Rightarrow> system_time \<Rightarrow> system_time" where
  "instant_to_system at now_instant now_system =
     (case system_checked (now_system + (at - now_instant)) of Some t \<Rightarrow> t | None \<Rightarrow> now_system)"

definition normalize_name :: "string \<Rightarrow> string" where
  "normalize_name value = to_ascii_lowercase (trim_end_char CHR ''.'' (str_trim value))"

fun evidence_rank :: "domain_evidence \<Rightarrow> nat" where
  "evidence_rank TlsSniEvidence = 2"
| "evidence_rank HttpHostEvidence = 2"
| "evidence_rank DnsEvidence = 1"

section \<open>Observations\<close>

record observation_row =
  ob_domain :: string
  ob_address :: ip_addr
  ob_evidence :: domain_evidence
  ob_confidence :: association_confidence
  ob_ifindex :: int
  ob_last_observed_ms :: int
  ob_expires_at_ms :: int

definition same_observation :: "observation_row \<Rightarrow> observation_row \<Rightarrow> bool" where
  "same_observation a b \<longleftrightarrow> ob_domain a = ob_domain b \<and> ob_address a = ob_address b
     \<and> ob_evidence a = ob_evidence b \<and> ob_ifindex a = ob_ifindex b"

definition merge_observation :: "observation_row \<Rightarrow> observation_row \<Rightarrow> observation_row" where
  "merge_observation excluded row =
     row\<lparr>ob_last_observed_ms := max (ob_last_observed_ms row) (ob_last_observed_ms excluded),
         ob_expires_at_ms := max (ob_expires_at_ms row) (ob_expires_at_ms excluded),
         ob_confidence := ob_confidence excluded\<rparr>"

definition upsert_observation :: "observation_row \<Rightarrow> observation_row list \<Rightarrow> observation_row list" where
  "upsert_observation new rows =
     (if \<exists>row \<in> set rows. same_observation row new
      then map (\<lambda>row. if same_observation row new then merge_observation new row else row) rows
      else rows @ [new])"

definition store_observation ::
  "domain_observation \<Rightarrow> instant \<Rightarrow> system_time \<Rightarrow> observation_row list \<Rightarrow> bool \<times> observation_row list" where
  "store_observation ob now_instant now_system rows =
     (let observed_at = instant_to_system (do_observed_at ob) now_instant now_system;
          expires_at = instant_to_system (do_expires_at ob) now_instant now_system;
          domain = normalize_name (do_domain ob) in
      if expires_at \<le> now_system then (False, rows)
      else if domain = [] then (False, rows)
      else (True, upsert_observation
              \<lparr>ob_domain = domain, ob_address = do_address ob, ob_evidence = do_evidence ob,
               ob_confidence = do_confidence ob, ob_ifindex = uint (observation_ifindex ob),
               ob_last_observed_ms = unix_millis observed_at, ob_expires_at_ms = unix_millis expires_at\<rparr> rows))"

section \<open>Association\<close>

record domain_ref =
  dr_domain :: string
  dr_evidence :: domain_evidence
  dr_confidence :: association_confidence

definition MAX_DOMAIN_CANDIDATES :: nat where "MAX_DOMAIN_CANDIDATES = 8"

text \<open>An interface of 0 stands for every interface.\<close>

definition candidate :: "ip_addr \<Rightarrow> int \<Rightarrow> system_time \<Rightarrow> observation_row \<Rightarrow> bool" where
  "candidate address ifindex now row \<longleftrightarrow>
     ob_address row = address \<and> (ob_ifindex row = ifindex \<or> ob_ifindex row = 0)
     \<and> unix_millis now < ob_expires_at_ms row"

text \<open>Strongest evidence first, then the latest, then by name.\<close>

definition strength :: "observation_row \<Rightarrow> int \<times> int \<times> string" where
  "strength row = (- int (evidence_rank (ob_evidence row)), - ob_last_observed_ms row, ob_domain row)"

definition ref_of :: "observation_row \<Rightarrow> domain_ref" where
  "ref_of row = \<lparr>dr_domain = ob_domain row, dr_evidence = ob_evidence row, dr_confidence = ob_confidence row\<rparr>"

fun pick_domains :: "domain_ref list \<Rightarrow> observation_row list \<Rightarrow> domain_ref list" where
  "pick_domains domains [] = domains"
| "pick_domains domains (row # rows) =
     (if ob_domain row \<in> dr_domain ` set domains then pick_domains domains rows
      else
        let domains = domains @ [ref_of row] in
        if MAX_DOMAIN_CANDIDATES \<le> length domains then domains else pick_domains domains rows)"

definition associate_address :: "ip_addr \<Rightarrow> int \<Rightarrow> system_time \<Rightarrow> observation_row list \<Rightarrow> domain_ref list" where
  "associate_address address ifindex now rows =
     pick_domains [] (sort_key strength (filter (candidate address ifindex now) rows))"

section \<open>The domains of an address\<close>

text \<open>The first row of every name that is not seen yet.\<close>

fun firsts :: "string set \<Rightarrow> observation_row list \<Rightarrow> observation_row list" where
  "firsts seen [] = []"
| "firsts seen (row # rows) =
     (if ob_domain row \<in> seen then firsts seen rows else row # firsts (insert (ob_domain row) seen) rows)"

lemma pick_domains_firsts:
  "length domains < MAX_DOMAIN_CANDIDATES \<Longrightarrow>
   pick_domains domains rows
     = domains @ map ref_of (take (MAX_DOMAIN_CANDIDATES - length domains) (firsts (dr_domain ` set domains) rows))"
proof (induction rows arbitrary: domains)
  case (Cons row rows)
  show ?case
  proof (cases "MAX_DOMAIN_CANDIDATES \<le> Suc (length domains)")
    case True
    then have "MAX_DOMAIN_CANDIDATES - length domains = Suc 0" using Cons.prems by simp
    then show ?thesis using True Cons by (simp add: Let_def)
  next
    case False
    then obtain n where "MAX_DOMAIN_CANDIDATES - length domains = Suc n" "MAX_DOMAIN_CANDIDATES - Suc (length domains) = n"
      by (metis Suc_diff_Suc Suc_leI Cons.prems)
    then show ?thesis using False Cons.IH [of "domains @ [ref_of row]"] Cons.IH [of domains] Cons.prems
      by (simp add: Let_def ref_of_def)
  qed
qed simp

lemma associate_firsts:
  "associate_address address ifindex now rows
     = map ref_of (take MAX_DOMAIN_CANDIDATES (firsts {} (sort_key strength (filter (candidate address ifindex now) rows))))"
  by (simp add: associate_address_def pick_domains_firsts MAX_DOMAIN_CANDIDATES_def)

lemma firsts_subset: "set (firsts seen rows) \<subseteq> {row \<in> set rows. ob_domain row \<notin> seen}"
  by (induction seen rows rule: firsts.induct) auto

lemma firsts_distinct: "distinct (map ob_domain (firsts seen rows))"
proof (induction seen rows rule: firsts.induct)
  case (2 seen row rows)
  then show ?case using firsts_subset [of "insert (ob_domain row) seen" rows] by auto
qed simp

lemma firsts_sorted: "sorted (map strength rows) \<Longrightarrow> sorted (map strength (firsts seen rows))"
proof (induction seen rows rule: firsts.induct)
  case (2 seen row rows)
  then show ?case using firsts_subset [of "insert (ob_domain row) seen" rows] by auto
qed simp

lemma firsts_complete:
  "sorted (map strength rows) \<Longrightarrow> row \<in> set rows \<Longrightarrow> ob_domain row \<notin> seen \<Longrightarrow>
   \<exists>first \<in> set (firsts seen rows). ob_domain first = ob_domain row \<and> strength first \<le> strength row"
proof (induction rows arbitrary: seen)
  case (Cons r rows)
  show ?case
  proof (cases "row = r")
    case True
    then show ?thesis using Cons.prems(3) by auto
  next
    case False
    then have row: "row \<in> set rows" "strength r \<le> strength row" using Cons.prems(1,2) by auto
    show ?thesis
    proof (cases "ob_domain r \<in> seen \<or> ob_domain r \<noteq> ob_domain row")
      case True
      then show ?thesis using Cons.IH [OF _ row(1)] Cons.prems(1,3) by auto
    next
      case False
      then show ?thesis using row(2) by auto
    qed
  qed
qed simp

lemma firsts_strongest:
  assumes "sorted (map strength rows)" "row \<in> set (firsts seen rows)" "other \<in> set rows" "ob_domain other = ob_domain row"
  shows "strength row \<le> strength other"
proof -
  have "ob_domain other \<notin> seen" using firsts_subset [of seen rows] assms(2,4) by auto
  then obtain first where "first \<in> set (firsts seen rows)" "ob_domain first = ob_domain row" "strength first \<le> strength other"
    using firsts_complete [OF assms(1,3)] assms(4) by auto
  moreover have "first = row"
    using firsts_distinct [of seen rows] calculation(1,2) assms(2) by (auto simp: distinct_map inj_on_def)
  ultimately show ?thesis by simp
qed

lemma associated_domains:
  assumes "refs = associate_address address ifindex now rows" "alive = {row \<in> set rows. candidate address ifindex now row}"
  shows "distinct (map dr_domain refs) \<and> length refs \<le> 8
    \<and> (\<forall>ref \<in> set refs. \<exists>row \<in> alive. ref = ref_of row
         \<and> (\<forall>other \<in> alive. ob_domain other = ob_domain row \<longrightarrow> strength row \<le> strength other))
    \<and> (\<forall>row \<in> alive. ob_domain row \<in> dr_domain ` set refs
         \<or> length refs = 8 \<and> (\<forall>ref \<in> set refs. \<exists>r \<in> alive. ref = ref_of r \<and> strength r \<le> strength row))"
proof -
  let ?rows = "sort_key strength (filter (candidate address ifindex now) rows)"
  let ?f = "firsts {} ?rows"
  have alive: "set ?rows = alive" by (auto simp: assms(2))
  have so: "sorted (map strength ?rows)" by simp
  have refs: "refs = map ref_of (take 8 ?f)" by (simp add: assms(1) associate_firsts MAX_DOMAIN_CANDIDATES_def)
  have names: "map dr_domain refs = take 8 (map ob_domain ?f)" by (simp add: refs take_map ref_of_def comp_def)
  have sub: "set (take 8 ?f) \<subseteq> set ?f" "set ?f \<subseteq> alive"
    using set_take_subset [of 8 ?f] firsts_subset [of "{}" ?rows] alive by blast+
  have best: "strength row \<le> strength other"
    if "row \<in> set (take 8 ?f)" "other \<in> alive" "ob_domain other = ob_domain row" for row other
    using firsts_strongest [OF so, of row "{}" other] that sub(1) alive by auto
  have "\<exists>row \<in> alive. ref = ref_of row \<and> (\<forall>other \<in> alive. ob_domain other = ob_domain row \<longrightarrow> strength row \<le> strength other)"
    if r: "ref \<in> set refs" for ref
  proof -
    obtain x where x: "x \<in> set (take 8 ?f)" "ref = ref_of x" using r by (auto simp: refs)
    then have "x \<in> alive" using sub by blast
    then show ?thesis using best [OF x(1)] x(2) by blast
  qed
  moreover have "ob_domain row \<in> dr_domain ` set refs
      \<or> length refs = 8 \<and> (\<forall>ref \<in> set refs. \<exists>r \<in> alive. ref = ref_of r \<and> strength r \<le> strength row)"
    if r: "row \<in> alive" for row
  proof -
    obtain first where first: "first \<in> set ?f" "ob_domain first = ob_domain row" "strength first \<le> strength row"
      using firsts_complete [OF so, of row "{}"] r alive by auto
    show ?thesis
    proof (cases "first \<in> set (take 8 ?f)")
      case True
      then have "ref_of first \<in> set refs" by (simp add: refs)
      then show ?thesis using first(2) by (force simp: ref_of_def)
    next
      case False
      then have d: "first \<in> set (drop 8 ?f)" using first(1) set_append [of "take 8 ?f" "drop 8 ?f"] by simp
      then have n: "8 < length ?f" by (auto simp: not_le [symmetric])
      have "strength r \<le> strength first" if "r \<in> set (take 8 ?f)" for r
      proof -
        have "sorted (map strength (take 8 ?f @ drop 8 ?f))" using firsts_sorted [OF so] by simp
        then show ?thesis using that d unfolding map_append sorted_append by auto
      qed
      then have "\<forall>ref \<in> set refs. \<exists>r \<in> alive. ref = ref_of r \<and> strength r \<le> strength row"
        using first(3) sub by (fastforce simp: refs)
      then show ?thesis using n by (simp add: refs)
    qed
  qed
  moreover have "distinct (map dr_domain refs)" "length refs \<le> 8"
    unfolding names using firsts_distinct [of "{}" ?rows] by (simp_all add: refs)
  ultimately show ?thesis by blast
qed

text \<open>
  C31: the domains associated with an address are the strongest: each name once, at most eight, each with
  the evidence of its strongest live observation, and a name that is left out is not stronger than
  any of the eight that took its place.
\<close>

theorem associated_domains_are_strongest:
  assumes "refs = associate_address address ifindex now rows" "alive = {row \<in> set rows. candidate address ifindex now row}"
  shows "distinct (map dr_domain refs) \<and> length refs \<le> 8
    \<and> (\<forall>ref \<in> set refs. \<exists>row \<in> alive. ref = ref_of row
         \<and> (\<forall>other \<in> alive. ob_domain other = ob_domain row \<longrightarrow> strength row \<le> strength other))
    \<and> (\<forall>row \<in> alive. ob_domain row \<in> dr_domain ` set refs
         \<or> length refs = 8 \<and> (\<forall>ref \<in> set refs. \<exists>r \<in> alive. ref = ref_of r \<and> strength r \<le> strength row))"
  by (rule associated_domains [OF assms])

text \<open>The query names no order; the names and their order do not depend on the one the database chooses.\<close>

fun first_names :: "string set \<Rightarrow> string list \<Rightarrow> string list" where
  "first_names seen [] = []"
| "first_names seen (x # xs) = (if x \<in> seen then first_names seen xs else x # first_names (insert x seen) xs)"

lemma firsts_names: "map ob_domain (firsts seen rows) = first_names seen (map ob_domain rows)"
  by (induction seen rows rule: firsts.induct) auto

theorem association_ignores_row_order:
  assumes "mset rows = mset rows'"
  shows "map dr_domain (associate_address address ifindex now rows) = map dr_domain (associate_address address ifindex now rows')"
proof -
  let ?s = "\<lambda>rows. map strength (sort_key strength (filter (candidate address ifindex now) rows))"
  have s: "?s r = sort (map strength (filter (candidate address ifindex now) r))" for r
    by (rule properties_for_sort [symmetric]) simp_all
  have "mset (map strength (filter (candidate address ifindex now) rows))
      = mset (map strength (filter (candidate address ifindex now) rows'))"
    using assms by simp
  then have "?s rows = ?s rows'" unfolding s by (metis properties_for_sort mset_sort sorted_sort)
  then have "map (snd \<circ> snd) (?s rows) = map (snd \<circ> snd) (?s rows')" by simp
  moreover have "snd \<circ> snd \<circ> strength = ob_domain" by (auto simp: strength_def)
  ultimately have n: "map ob_domain (sort_key strength (filter (candidate address ifindex now) rows))
      = map ob_domain (sort_key strength (filter (candidate address ifindex now) rows'))"
    by simp
  have "map dr_domain (associate_address address ifindex now r)
      = take MAX_DOMAIN_CANDIDATES (first_names {} (map ob_domain (sort_key strength (filter (candidate address ifindex now) r))))" for r
    by (simp add: associate_firsts ref_of_def comp_def take_map [symmetric] firsts_names)
  then show ?thesis by (simp add: n)
qed

text \<open>
  An observation that was stored counts until it expires: its name is associated with its address on its interface,
  unless eight others are.
\<close>

theorem observation_is_associated:
  assumes "store_observation ob now_instant now_system rows = (True, rows')"
    and "unix_millis now < unix_millis (instant_to_system (do_expires_at ob) now_instant now_system)"
    and "refs = associate_address (do_address ob) (uint (observation_ifindex ob)) now rows'"
  shows "normalize_name (do_domain ob) \<in> dr_domain ` set refs \<or> length refs = 8"
proof -
  define new where "new = \<lparr>ob_domain = normalize_name (do_domain ob), ob_address = do_address ob, ob_evidence = do_evidence ob,
     ob_confidence = do_confidence ob, ob_ifindex = uint (observation_ifindex ob),
     ob_last_observed_ms = unix_millis (instant_to_system (do_observed_at ob) now_instant now_system),
     ob_expires_at_ms = unix_millis (instant_to_system (do_expires_at ob) now_instant now_system)\<rparr>"
  have rows': "rows' = upsert_observation new rows"
    using assms(1) by (auto simp: store_observation_def new_def Let_def split: if_splits)
  have "\<exists>row \<in> set rows'. same_observation row new \<and> ob_expires_at_ms new \<le> ob_expires_at_ms row"
  proof (cases "\<exists>row \<in> set rows. same_observation row new")
    case True
    then obtain row where "row \<in> set rows" "same_observation row new" by blast
    then have "merge_observation new row \<in> set rows'" using rows' True by (auto simp: upsert_observation_def image_iff)
    moreover have "same_observation (merge_observation new row) new" "ob_expires_at_ms new \<le> ob_expires_at_ms (merge_observation new row)"
      using \<open>same_observation row new\<close> by (simp_all add: merge_observation_def same_observation_def)
    ultimately show ?thesis by blast
  next
    case False
    then have "rows' = rows @ [new]" by (simp only: rows' upsert_observation_def if_False)
    then show ?thesis by (auto simp: same_observation_def)
  qed
  then obtain row where row: "row \<in> set rows'" "same_observation row new" "ob_expires_at_ms new \<le> ob_expires_at_ms row" by blast
  then have "candidate (do_address ob) (uint (observation_ifindex ob)) now row" "ob_domain row = normalize_name (do_domain ob)"
    using assms(2) by (auto simp: candidate_def same_observation_def new_def)
  moreover from this have "row \<in> {row \<in> set rows'. candidate (do_address ob) (uint (observation_ifindex ob)) now row}"
    using row(1) by simp
  ultimately show ?thesis
    using associated_domains [OF assms(3) refl] by metis
qed

section \<open>Examples\<close>

lemma normalize_example: "normalize_name ''a.b.'' = ''a.b''"
proof -
  have "ascii_lower (of_char CHR ''a'') = of_char CHR ''a''" "ascii_lower (of_char CHR ''b'') = of_char CHR ''b''"
    "ascii_lower (of_char CHR ''.'') = of_char CHR ''.''"
    by (simp_all add: ascii_lower_def)
  then have "to_ascii_lowercase ''a.b'' = ''a.b''" by (simp only: to_ascii_lowercase_simps char_of_char)
  then show ?thesis by (simp add: normalize_name_def trim_plain plain_text_def trim_end_char_def)
qed

definition example_observation :: "string \<Rightarrow> domain_evidence \<Rightarrow> domain_observation" where
  "example_observation name evidence =
     \<lparr>do_domain = name, do_address = IpV4 (Ipv4 1 1 1 1), do_evidence = evidence, do_confidence = confidence_for evidence,
      do_client_context = 2, do_observed_at = 0, do_expires_at = 60000000000\<rparr>"

definition example_row :: "string \<Rightarrow> domain_evidence \<Rightarrow> observation_row" where
  "example_row name evidence =
     \<lparr>ob_domain = name, ob_address = IpV4 (Ipv4 1 1 1 1), ob_evidence = evidence, ob_confidence = confidence_for evidence,
      ob_ifindex = 2, ob_last_observed_ms = 0, ob_expires_at_ms = 60000\<rparr>"

lemma example_stored:
  "store_observation (example_observation ''a.b.'' DnsEvidence) 0 0 [] = (True, [example_row ''a.b'' DnsEvidence])"
  by (simp add: store_observation_def example_observation_def example_row_def instant_to_system_def system_checked_def
      normalize_example upsert_observation_def observation_ifindex_def unix_millis_def I64_MAX_def)

lemma observation_is_associated_witness:
  "''a.b'' \<in> dr_domain ` set (associate_address (IpV4 (Ipv4 1 1 1 1)) 2 0 [example_row ''a.b'' DnsEvidence])"
proof -
  have f: "do_domain (example_observation m e) = m" "do_address (example_observation m e) = IpV4 (Ipv4 1 1 1 1)"
    "uint (observation_ifindex (example_observation m e)) = 2" "do_expires_at (example_observation m e) = 60000000000" for m e
    by (simp_all add: example_observation_def observation_ifindex_def)
  have l: "length (associate_address (IpV4 (Ipv4 1 1 1 1)) 2 0 [example_row ''a.b'' DnsEvidence]) \<le> 1"
    by (simp add: associate_firsts MAX_DOMAIN_CANDIDATES_def)
  show ?thesis
    using observation_is_associated [OF example_stored, of 0] l
    by (simp add: f normalize_example instant_to_system_def system_checked_def unix_millis_def I64_MAX_def)
qed

text \<open>The stronger evidence of the later observation comes first, whichever row is read first.\<close>

lemma association_ignores_row_order_witness:
  "map dr_domain (associate_address (IpV4 (Ipv4 1 1 1 1)) 2 0 [example_row ''a'' DnsEvidence, example_row ''b'' TlsSniEvidence])
   = [''b'', ''a'']"
proof -
  have "map dr_domain (associate_address (IpV4 (Ipv4 1 1 1 1)) 2 0 [example_row ''b'' TlsSniEvidence, example_row ''a'' DnsEvidence]) = [''b'', ''a'']"
    by (simp add: associate_address_def example_row_def candidate_def unix_millis_def I64_MAX_def strength_def ref_of_def
        MAX_DOMAIN_CANDIDATES_def)
  then show ?thesis
    using association_ignores_row_order [of "[example_row ''a'' DnsEvidence, example_row ''b'' TlsSniEvidence]"
        "[example_row ''b'' TlsSniEvidence, example_row ''a'' DnsEvidence]" "IpV4 (Ipv4 1 1 1 1)" 2 0]
    by (simp add: add_mset_commute)
qed

lemma associated_domains_are_strongest_witness:
  "distinct (map dr_domain (associate_address (IpV4 (Ipv4 1 1 1 1)) 2 0 [example_row ''a'' DnsEvidence, example_row ''b'' TlsSniEvidence]))"
  using associated_domains_are_strongest [OF refl refl] by blast

end
