(* ===== verification/Flow_Store.thy ===== *)
theory Flow_Store
  imports Association Application Proxy_Poller Settings
begin

text \<open>
  The flows and applications tables of \<^verbatim>\<open>api/db.rs\<close>: the row of an update, the upserts, the triggers that
  maintain the counters and the index of domains, and the deletions of retention and capacity. Columns hold values instead of
  their text; the list of domains stands for its JSON, whose text is \<^verbatim>\<open>[]\<close> exactly when it is empty.
  Proved: the counters are exact and the index mirrors the rows after any statements; a row spans all
  its updates; what the capacity removes is the oldest.
\<close>

section \<open>Rows\<close>

record flow_row =
  fr_id :: u64
  fr_direction :: flow_direction
  fr_protocol :: protocol
  fr_source :: endpoint
  fr_destination :: endpoint
  fr_ifindex :: int
  fr_interface :: "string option"
  fr_packets :: int
  fr_bytes :: int
  fr_first_seen_ms :: int
  fr_last_seen_ms :: int
  fr_state :: string
  fr_end_reason :: "end_reason option"
  fr_remote :: endpoint
  fr_remote_scope :: address_scope
  fr_country :: "string option"
  fr_region :: "string option"
  fr_city :: "string option"
  fr_asn :: "u32 option"
  fr_org :: "string option"
  fr_db_version :: "string option"
  fr_enriched_at_ms :: int
  fr_domains :: "domain_ref list"
  fr_service :: "string option"
  fr_app_id :: "string option"
  fr_dst_scope :: address_scope

record application_row =
  ap_id :: string
  ap_kind :: string
  ap_name :: string
  ap_exe :: "string option"
  ap_comm :: string
  ap_uid :: int
  ap_container_id :: "string option"
  ap_first_seen_ms :: int
  ap_last_seen_ms :: int

definition coalesce :: "'a option \<Rightarrow> 'a option \<Rightarrow> 'a option" where
  "coalesce a b = (case a of Some v \<Rightarrow> Some v | None \<Rightarrow> b)"

fun flow_state_name :: "flow_state \<Rightarrow> string" where
  "flow_state_name Active = ''active''"
| "flow_state_name (Ended _) = ''ended''"

definition remote_endpoint :: "flow_key \<Rightarrow> endpoint" where
  "remote_endpoint key =
     (case key_direction key of FlowInbound \<Rightarrow> key_source key | FlowOutbound \<Rightarrow> key_destination key)"

text \<open>\<^verbatim>\<open>ON CONFLICT DO UPDATE\<close> of the flows table. A fake address keeps the location that was once found.\<close>

definition merge_flow :: "flow_row \<Rightarrow> flow_row \<Rightarrow> flow_row" where
  "merge_flow new row =
     (let fake = (fr_remote_scope new = FakeIp);
          keep = (\<lambda>a b. if fake then coalesce a b else a) in
      row\<lparr>fr_packets := fr_packets new, fr_bytes := fr_bytes new,
          fr_first_seen_ms := min (fr_first_seen_ms row) (fr_first_seen_ms new),
          fr_last_seen_ms := max (fr_last_seen_ms row) (fr_last_seen_ms new),
          fr_state := fr_state new, fr_end_reason := fr_end_reason new,
          fr_interface := fr_interface new, fr_domains := fr_domains new,
          fr_service := coalesce (fr_service new) (fr_service row),
          fr_app_id := coalesce (fr_app_id new) (fr_app_id row),
          fr_dst_scope := fr_dst_scope new, fr_remote_scope := fr_remote_scope new,
          fr_country := keep (fr_country new) (fr_country row), fr_region := keep (fr_region new) (fr_region row),
          fr_city := keep (fr_city new) (fr_city row),
          fr_asn := (if fake then coalesce (fr_asn new) (fr_asn row) else fr_asn new),
          fr_org := keep (fr_org new) (fr_org row), fr_db_version := keep (fr_db_version new) (fr_db_version row),
          fr_enriched_at_ms :=
            (if fake \<and> fr_country new = None \<and> fr_asn new = None \<and> fr_db_version new = None
             then fr_enriched_at_ms row else fr_enriched_at_ms new)\<rparr>)"

section \<open>Statements and their triggers\<close>

record flow_stats =
  fs_total :: int
  fs_active :: int
  fs_with_domain :: int

type_synonym domain_index = "u64 \<times> string \<Rightarrow> (domain_evidence \<times> association_confidence) option"

record flow_db =
  fd_rows :: "flow_row list"
  fd_stats :: flow_stats
  fd_domains :: domain_index

definition one_if :: "bool \<Rightarrow> int" where "one_if b = (if b then 1 else 0)"

definition is_active :: "flow_row \<Rightarrow> bool" where "is_active row \<longleftrightarrow> fr_state row = ''active''"
definition has_domain :: "flow_row \<Rightarrow> bool" where "has_domain row \<longleftrightarrow> fr_domains row \<noteq> []"

definition stats_inserted :: "flow_row \<Rightarrow> flow_stats \<Rightarrow> flow_stats" where
  "stats_inserted row s =
     \<lparr>fs_total = fs_total s + 1, fs_active = fs_active s + one_if (is_active row),
      fs_with_domain = fs_with_domain s + one_if (has_domain row)\<rparr>"

definition stats_updated :: "flow_row \<Rightarrow> flow_row \<Rightarrow> flow_stats \<Rightarrow> flow_stats" where
  "stats_updated old new s =
     s\<lparr>fs_active := fs_active s + one_if (is_active new) - one_if (is_active old),
       fs_with_domain := fs_with_domain s + one_if (has_domain new) - one_if (has_domain old)\<rparr>"

definition stats_deleted :: "flow_row \<Rightarrow> flow_stats \<Rightarrow> flow_stats" where
  "stats_deleted old s =
     \<lparr>fs_total = fs_total s - 1, fs_active = fs_active s - one_if (is_active old),
      fs_with_domain = fs_with_domain s - one_if (has_domain old)\<rparr>"

definition index_refs :: "u64 \<Rightarrow> domain_ref list \<Rightarrow> domain_index \<Rightarrow> domain_index" where
  "index_refs rid refs ix = fold (\<lambda>r ix. ix((rid, dr_domain r) \<mapsto> (dr_evidence r, dr_confidence r))) refs ix"

definition unindex :: "u64 \<Rightarrow> domain_index \<Rightarrow> domain_index" where
  "unindex rid ix = (\<lambda>(i, d). if i = rid then None else ix (i, d))"

definition index_inserted :: "flow_row \<Rightarrow> domain_index \<Rightarrow> domain_index" where
  "index_inserted row ix = (if has_domain row then index_refs (fr_id row) (fr_domains row) ix else ix)"

definition index_updated :: "flow_row \<Rightarrow> flow_row \<Rightarrow> domain_index \<Rightarrow> domain_index" where
  "index_updated old new ix =
     (if fr_domains new \<noteq> fr_domains old then index_refs (fr_id new) (fr_domains new) (unindex (fr_id new) ix) else ix)"

definition sql_insert :: "flow_row \<Rightarrow> flow_db \<Rightarrow> flow_db" where
  "sql_insert row db =
     \<lparr>fd_rows = fd_rows db @ [row], fd_stats = stats_inserted row (fd_stats db),
      fd_domains = index_inserted row (fd_domains db)\<rparr>"

definition sql_update :: "(flow_row \<Rightarrow> bool) \<Rightarrow> (flow_row \<Rightarrow> flow_row) \<Rightarrow> flow_db \<Rightarrow> flow_db" where
  "sql_update matches change db =
     (let olds = filter matches (fd_rows db) in
      \<lparr>fd_rows = map (\<lambda>row. if matches row then change row else row) (fd_rows db),
       fd_stats = fold (\<lambda>old. stats_updated old (change old)) olds (fd_stats db),
       fd_domains = fold (\<lambda>old. index_updated old (change old)) olds (fd_domains db)\<rparr>)"

definition sql_delete :: "(flow_row \<Rightarrow> bool) \<Rightarrow> flow_db \<Rightarrow> flow_db" where
  "sql_delete matches db =
     (let olds = filter matches (fd_rows db) in
      \<lparr>fd_rows = filter (\<lambda>row. \<not> matches row) (fd_rows db),
       fd_stats = fold stats_deleted olds (fd_stats db),
       fd_domains = fold (\<lambda>old. unindex (fr_id old)) olds (fd_domains db)\<rparr>)"

definition sql_upsert :: "flow_row \<Rightarrow> flow_db \<Rightarrow> flow_db" where
  "sql_upsert new db =
     (if fr_id new \<in> fr_id ` set (fd_rows db)
      then sql_update (\<lambda>row. fr_id row = fr_id new) (merge_flow new) db
      else sql_insert new db)"

definition flow_db_empty :: flow_db where
  "flow_db_empty = \<lparr>fd_rows = [], fd_stats = \<lparr>fs_total = 0, fs_active = 0, fs_with_domain = 0\<rparr>, fd_domains = Map.empty\<rparr>"

section \<open>Writing an update\<close>

record flow_writer =
  fw_enricher :: enricher
  fw_applications :: application_resolver

text \<open>
  What the writer reads besides: the names of the interfaces, the proxy's mappings, the host, and the clocks (of
  the interval, and of the two profiles an address may need).
\<close>

record writer_view =
  wv_interfaces :: "u32 \<Rightarrow> string option"
  wv_proxy :: "proxy_key \<Rightarrow> proxy_resolution option"
  wv_host :: host_view
  wv_now_instant :: instant
  wv_now_system :: system_time
  wv_profile_now :: int
  wv_profile_later :: int

definition application_row_of :: "resolved_application \<Rightarrow> system_time \<Rightarrow> system_time \<Rightarrow> application_row" where
  "application_row_of a first last_seen =
     \<lparr>ap_id = ra_id a, ap_kind = ra_kind a, ap_name = ra_name a, ap_exe = ra_exe a, ap_comm = ra_comm a,
      ap_uid = uint (ra_uid a), ap_container_id = ra_container_id a,
      ap_first_seen_ms = unix_millis first, ap_last_seen_ms = unix_millis last_seen\<rparr>"

text \<open>The name of a process is never missing in a new row, so it replaces the old one.\<close>

definition merge_application :: "application_row \<Rightarrow> application_row \<Rightarrow> application_row" where
  "merge_application new row =
     row\<lparr>ap_kind := ap_kind new, ap_name := ap_name new, ap_exe := coalesce (ap_exe new) (ap_exe row),
         ap_comm := ap_comm new, ap_uid := ap_uid new,
         ap_container_id := coalesce (ap_container_id new) (ap_container_id row),
         ap_first_seen_ms := min (ap_first_seen_ms row) (ap_first_seen_ms new),
         ap_last_seen_ms := max (ap_last_seen_ms row) (ap_last_seen_ms new)\<rparr>"

definition upsert_application ::
  "resolved_application \<Rightarrow> system_time \<Rightarrow> system_time \<Rightarrow> application_row list \<Rightarrow> application_row list" where
  "upsert_application a first last_seen rows =
     (let new = application_row_of a first last_seen in
      if ra_id a \<in> ap_id ` set rows
      then map (\<lambda>row. if ap_id row = ra_id a then merge_application new row else row) rows
      else rows @ [new])"

definition flow_row_of ::
  "writer_view \<Rightarrow> u64 \<Rightarrow> flow_update \<Rightarrow> ip_profile \<Rightarrow> domain_ref list \<Rightarrow> resolved_application option \<Rightarrow> flow_row" where
  "flow_row_of wv rid update p refs application =
     (let key = fu_key update; remote = remote_endpoint key;
          stamp = (\<lambda>t. unix_millis (instant_to_system t (wv_now_instant wv) (wv_now_system wv))) in
      \<lparr>fr_id = rid, fr_direction = key_direction key, fr_protocol = key_protocol key,
       fr_source = key_source key, fr_destination = key_destination key, fr_ifindex = uint (key_interface_index key),
       fr_interface = wv_interfaces wv (key_interface_index key),
       fr_packets = sint (tc_packets (fu_total update)), fr_bytes = sint (tc_bytes (fu_total update)),
       fr_first_seen_ms = stamp (fu_first_seen update), fr_last_seen_ms = stamp (fu_last_seen update),
       fr_state = flow_state_name (fu_state update),
       fr_end_reason = (case fu_state update of Ended why \<Rightarrow> Some why | Active \<Rightarrow> None),
       fr_remote = remote, fr_remote_scope = ip_scope p, fr_country = ip_country p, fr_region = ip_region p,
       fr_city = ip_city p, fr_asn = ip_asn p, fr_org = ip_organization p, fr_db_version = ip_database_version p,
       fr_enriched_at_ms = unix_millis (ip_enriched_at p), fr_domains = refs, fr_service = fu_service update,
       fr_app_id = map_option ra_id application,
       fr_dst_scope = classify (ep_address (key_destination key))\<rparr>)"

text \<open>
  The associated domains of an address are looked up once per interval; the cache maps an address and an interface to
  them.
\<close>

type_synonym domains_cache = "ip_addr \<times> int \<Rightarrow> domain_ref list option"

definition cached_domains ::
  "system_time \<Rightarrow> observation_row list \<Rightarrow> ip_addr \<Rightarrow> int \<Rightarrow> domains_cache \<Rightarrow> domain_ref list \<times> domains_cache" where
  "cached_domains now observations address ifindex cache =
     (case cache (address, ifindex) of
        Some refs \<Rightarrow> (refs, cache)
      | None \<Rightarrow>
          let refs = associate_address address ifindex now observations in
          (refs, cache((address, ifindex) \<mapsto> refs)))"

definition upsert_flow ::
  "writer_view \<Rightarrow> observation_row list \<Rightarrow> u64 \<Rightarrow> flow_update
     \<Rightarrow> flow_db \<times> application_row list \<times> flow_writer \<times> domains_cache
     \<Rightarrow> flow_db \<times> application_row list \<times> flow_writer \<times> domains_cache" where
  "upsert_flow wv observations rid update st =
     (let (db, applications, w, cache) = st;
          remote = remote_endpoint (fu_key update);
          (p, e) = resolved_profile (wv_profile_now wv) (wv_profile_later wv) update remote (wv_proxy wv) (fw_enricher w);
          (refs, cache) = cached_domains (wv_now_system wv) observations (ep_address remote)
                            (uint (key_interface_index (fu_key update))) cache;
          (application, r) = resolve_identity (wv_host wv) (fu_application update) (fw_applications w);
          first = instant_to_system (fu_first_seen update) (wv_now_instant wv) (wv_now_system wv);
          last_seen = instant_to_system (fu_last_seen update) (wv_now_instant wv) (wv_now_system wv);
          applications = (case application of Some a \<Rightarrow> upsert_application a first last_seen applications | None \<Rightarrow> applications) in
      (sql_upsert (flow_row_of wv rid update p refs application) db, applications,
       \<lparr>fw_enricher = e, fw_applications = r\<rparr>, cache))"

section \<open>Deletions\<close>

definition MS_PER_DAY :: int where "MS_PER_DAY = 86400000"

text \<open>Flows that were seen at the same time are ordered as in the table.\<close>

definition oldest :: "int \<Rightarrow> flow_row list \<Rightarrow> u64 set" where
  "oldest n rows = fr_id ` set (take (nat n) (sort_key fr_last_seen_ms rows))"

definition enforce_capacity :: "nat \<Rightarrow> flow_db \<Rightarrow> flow_db" where
  "enforce_capacity capacity db =
     (let overflow = fs_total (fd_stats db) - int capacity in
      if 0 < overflow then sql_delete (\<lambda>row. fr_id row \<in> oldest overflow (fd_rows db)) db else db)"

definition retention_cutoff :: "history_settings \<Rightarrow> int \<Rightarrow> int" where
  "retention_cutoff h now_ms = now_ms - uint (hs_retention_days h) * MS_PER_DAY"

definition enforce_retention ::
  "history_settings \<Rightarrow> int \<Rightarrow> flow_db \<times> application_row list \<Rightarrow> flow_db \<times> application_row list" where
  "enforce_retention h now_ms st =
     (let (db, applications) = st in
      if hs_enabled h then
        let cutoff = retention_cutoff h now_ms in
        (sql_delete (\<lambda>row. fr_state row = ''ended'' \<and> fr_last_seen_ms row < cutoff) db,
         filter (\<lambda>a. \<not> ap_last_seen_ms a < cutoff) applications)
      else
        let db = sql_delete (\<lambda>row. fr_state row = ''ended'') db in
        (db, filter (\<lambda>a. Some (ap_id a) \<in> fr_app_id ` set (fd_rows db)) applications))"

section \<open>Updates in place\<close>

definition associate_rows :: "ip_addr \<Rightarrow> int \<Rightarrow> domain_ref list \<Rightarrow> flow_db \<Rightarrow> flow_db" where
  "associate_rows address ifindex refs =
     sql_update (\<lambda>row. ep_address (fr_remote row) = address \<and> fr_ifindex row = ifindex) (\<lambda>row. row\<lparr>fr_domains := refs\<rparr>)"

definition locate_rows :: "ip_profile \<Rightarrow> flow_db \<Rightarrow> flow_db" where
  "locate_rows p =
     sql_update (\<lambda>row. ep_address (fr_remote row) = ip_address p \<and> fr_remote_scope row = Public)
       (\<lambda>row. row\<lparr>fr_country := ip_country p, fr_region := ip_region p, fr_city := ip_city p, fr_asn := ip_asn p,
                 fr_org := ip_organization p, fr_db_version := ip_database_version p,
                 fr_enriched_at_ms := unix_millis (ip_enriched_at p)\<rparr>)"

text \<open>\<^verbatim>\<open>backfill_enrichment\<close>, for one address of the selection; a profile without a finding is skipped.\<close>

definition backfill_address :: "int \<Rightarrow> ip_addr \<Rightarrow> flow_db \<times> enricher \<Rightarrow> flow_db \<times> enricher" where
  "backfill_address now address st =
     (let (db, e) = st; (p, e) = profile now address e in
      (if ip_country p = None \<and> ip_asn p = None \<and> ip_organization p = None then db else locate_rows p db, e))"

definition stale_addresses :: "string \<Rightarrow> flow_db \<Rightarrow> ip_addr list" where
  "stale_addresses version db =
     remdups (map (ep_address \<circ> fr_remote)
       (filter (\<lambda>row. fr_remote_scope row = Public \<and> fr_db_version row \<noteq> Some version) (fd_rows db)))"

definition backfill_enrichment :: "int \<Rightarrow> flow_db \<times> enricher \<Rightarrow> flow_db \<times> enricher" where
  "backfill_enrichment now st =
     (case es_database_version (en_stats (snd st)) of
        None \<Rightarrow> st
      | Some version \<Rightarrow> fold (backfill_address now) (stale_addresses version (fst st)) st)"

section \<open>Counters and index are exact\<close>

definition count_of :: "(flow_row \<Rightarrow> bool) \<Rightarrow> flow_row list \<Rightarrow> int" where
  "count_of P rows = int (length (filter P rows))"

definition exact_stats :: "flow_row list \<Rightarrow> flow_stats" where
  "exact_stats rows =
     \<lparr>fs_total = int (length rows), fs_active = count_of is_active rows, fs_with_domain = count_of has_domain rows\<rparr>"

definition ref_lookup :: "domain_ref list \<Rightarrow> string \<Rightarrow> (domain_evidence \<times> association_confidence) option" where
  "ref_lookup refs = map_of (rev (map (\<lambda>r. (dr_domain r, dr_evidence r, dr_confidence r)) refs))"

definition mirrors :: "domain_index \<Rightarrow> flow_row list \<Rightarrow> bool" where
  "mirrors ix rows \<longleftrightarrow> (\<forall>i d. ix (i, d) =
     (case List.find (\<lambda>row. fr_id row = i) rows of Some row \<Rightarrow> ref_lookup (fr_domains row) d | None \<Rightarrow> None))"

definition flow_db_ok :: "flow_db \<Rightarrow> bool" where
  "flow_db_ok db \<longleftrightarrow> distinct (map fr_id (fd_rows db)) \<and> fd_stats db = exact_stats (fd_rows db)
     \<and> mirrors (fd_domains db) (fd_rows db)"

lemma count_of_simps [simp]:
  "count_of P [] = 0" "count_of P (row # rows) = one_if (P row) + count_of P rows"
  "count_of P (rows @ rows') = count_of P rows + count_of P rows'"
  by (simp_all add: count_of_def one_if_def)

lemma find_own: "distinct (map fr_id rows) \<Longrightarrow> row \<in> set rows \<Longrightarrow> List.find (\<lambda>r. fr_id r = fr_id row) rows = Some row"
  by (induction rows) (auto simp: image_iff)

lemma find_absent: "i \<notin> fr_id ` set rows \<Longrightarrow> List.find (\<lambda>r. fr_id r = i) rows = None"
  by (auto simp: find_None_iff image_iff)

lemma find_absent_filter: "i \<notin> fr_id ` set rows \<Longrightarrow> List.find (\<lambda>r. fr_id r = i) (filter P rows) = None"
  by (auto simp: find_None_iff image_iff)

lemma index_refs_apply:
  "index_refs rid refs ix (i, d) = (if i = rid then (case ref_lookup refs d of Some v \<Rightarrow> Some v | None \<Rightarrow> ix (i, d)) else ix (i, d))"
  by (induction refs arbitrary: ix) (auto simp: index_refs_def ref_lookup_def map_add_def split: option.split)

lemma index_updated_apply:
  assumes "fr_id new = fr_id old" "ix (fr_id old, d) = ref_lookup (fr_domains old) d"
  shows "index_updated old new ix (i, d) = (if i = fr_id old then ref_lookup (fr_domains new) d else ix (i, d))"
  using assms by (auto simp: index_updated_def index_refs_apply unindex_def split: option.split)

lemma fold_index_updated:
  assumes "\<And>row. fr_id (change row) = fr_id row" "distinct (map fr_id olds)"
    and "\<forall>old \<in> set olds. \<forall>d. ix (fr_id old, d) = ref_lookup (fr_domains old) d"
  shows "fold (\<lambda>old. index_updated old (change old)) olds ix (i, d)
    = (case List.find (\<lambda>row. fr_id row = i) olds of Some old \<Rightarrow> ref_lookup (fr_domains (change old)) d | None \<Rightarrow> ix (i, d))"
  using assms(2,3)
proof (induction olds arbitrary: ix)
  case (Cons old olds)
  let ?ix = "index_updated old (change old) ix"
  have a: "?ix (j, e) = (if j = fr_id old then ref_lookup (fr_domains (change old)) e else ix (j, e))" for j e
    by (rule index_updated_apply) (use Cons.prems assms(1) in auto)
  have new: "fr_id old \<notin> fr_id ` set olds" using Cons.prems(1) by simp
  then have "\<forall>o' \<in> set olds. \<forall>d. ?ix (fr_id o', d) = ref_lookup (fr_domains o') d"
    using Cons.prems(2) by (auto simp: a image_iff)
  moreover have "List.find (\<lambda>row. fr_id row = fr_id old) olds = None" by (rule find_absent [OF new])
  ultimately show ?case using Cons.IH [of ?ix] Cons.prems(1) by (auto simp: a split: option.split)
qed simp

lemma fold_unindex:
  "fold (\<lambda>old. unindex (fr_id old)) olds ix (i, d) = (if i \<in> fr_id ` set olds then None else ix (i, d))"
  by (induction olds arbitrary: ix) (auto simp: unindex_def)

lemma find_filter_ids:
  assumes "distinct (map fr_id rows)"
  shows "List.find (\<lambda>row. fr_id row = i) (filter P rows)
    = (case List.find (\<lambda>row. fr_id row = i) rows of Some row \<Rightarrow> if P row then Some row else None | None \<Rightarrow> None)"
  using assms
proof (induction rows)
  case (Cons row rows)
  have "List.find (\<lambda>row. fr_id row = i) (filter P rows) = None" if "fr_id row = i"
    using Cons.prems that by (intro find_absent_filter) auto
  then show ?case using Cons by auto
qed simp

lemma ids_filter:
  assumes "distinct (map fr_id rows)"
  shows "i \<in> fr_id ` set (filter P rows)
    \<longleftrightarrow> (case List.find (\<lambda>row. fr_id row = i) rows of Some row \<Rightarrow> P row | None \<Rightarrow> False)"
  using assms by (induction rows) (auto simp: image_iff)

lemma find_map_ids:
  assumes "\<And>row. fr_id (change row) = fr_id row"
  shows "List.find (\<lambda>row. fr_id row = i) (map (\<lambda>row. if P row then change row else row) rows)
    = map_option (\<lambda>row. if P row then change row else row) (List.find (\<lambda>row. fr_id row = i) rows)"
  by (induction rows) (auto simp: assms)

lemma fold_stats_updated:
  "fold (\<lambda>old. stats_updated old (change old)) (filter P rows) s
   = s\<lparr>fs_active := fs_active s + count_of is_active (map (\<lambda>row. if P row then change row else row) rows) - count_of is_active rows,
       fs_with_domain := fs_with_domain s + count_of has_domain (map (\<lambda>row. if P row then change row else row) rows)
         - count_of has_domain rows\<rparr>"
  by (induction rows arbitrary: s) (simp_all add: stats_updated_def algebra_simps)

lemma fold_stats_deleted:
  "fold stats_deleted (filter P rows) s
   = \<lparr>fs_total = fs_total s + int (length (filter (\<lambda>row. \<not> P row) rows)) - int (length rows),
      fs_active = fs_active s + count_of is_active (filter (\<lambda>row. \<not> P row) rows) - count_of is_active rows,
      fs_with_domain = fs_with_domain s + count_of has_domain (filter (\<lambda>row. \<not> P row) rows) - count_of has_domain rows\<rparr>"
  by (induction rows arbitrary: s) (simp_all add: stats_deleted_def)

lemma sql_insert_ok:
  assumes "flow_db_ok db" "fr_id row \<notin> fr_id ` set (fd_rows db)"
  shows "flow_db_ok (sql_insert row db)"
proof -
  have n: "List.find (\<lambda>r. fr_id r = fr_id row) (fd_rows db) = None" by (rule find_absent [OF assms(2)])
  have f: "List.find Q (xs @ [x]) = (case List.find Q xs of Some y \<Rightarrow> Some y | None \<Rightarrow> if Q x then Some x else None)" for Q xs and x :: flow_row
    by (induction xs) auto
  have "mirrors (index_inserted row (fd_domains db)) (fd_rows db @ [row])"
    using assms(1) n
    by (auto simp: flow_db_ok_def mirrors_def index_inserted_def index_refs_apply f has_domain_def ref_lookup_def split: option.split)
  then show ?thesis
    using assms by (auto simp: flow_db_ok_def sql_insert_def stats_inserted_def exact_stats_def)
qed

lemma sql_update_ok:
  assumes "flow_db_ok db" "\<And>row. fr_id (change row) = fr_id row"
  shows "flow_db_ok (sql_update P change db)"
proof -
  let ?c = "\<lambda>row. if P row then change row else row"
  have ids: "map fr_id (map ?c (fd_rows db)) = map fr_id (fd_rows db)" by (simp add: assms(2))
  have d: "distinct (map fr_id (fd_rows db))" "mirrors (fd_domains db) (fd_rows db)" "fd_stats db = exact_stats (fd_rows db)"
    using assms(1) by (simp_all add: flow_db_ok_def)
  have ix: "\<forall>old \<in> set (filter P (fd_rows db)). \<forall>e. fd_domains db (fr_id old, e) = ref_lookup (fr_domains old) e"
    using d(2) find_own [OF d(1)] by (auto simp: mirrors_def)
  have "mirrors (fold (\<lambda>old. index_updated old (change old)) (filter P (fd_rows db)) (fd_domains db)) (map ?c (fd_rows db))"
    using d(2) by (auto simp: mirrors_def fold_index_updated [OF assms(2) distinct_map_filter [OF d(1)] ix] find_filter_ids [OF d(1)]
        find_map_ids [OF assms(2)] split: option.split)
  moreover have "fold (\<lambda>old. stats_updated old (change old)) (filter P (fd_rows db)) (fd_stats db) = exact_stats (map ?c (fd_rows db))"
    by (simp add: fold_stats_updated d(3) exact_stats_def)
  ultimately show ?thesis using d(1) ids by (simp add: flow_db_ok_def sql_update_def Let_def del: map_map)
qed

lemma sql_delete_ok:
  assumes "flow_db_ok db"
  shows "flow_db_ok (sql_delete P db)"
proof -
  have d: "distinct (map fr_id (fd_rows db))" "mirrors (fd_domains db) (fd_rows db)" "fd_stats db = exact_stats (fd_rows db)"
    using assms by (simp_all add: flow_db_ok_def)
  have "mirrors (fold (\<lambda>old. unindex (fr_id old)) (filter P (fd_rows db)) (fd_domains db)) (filter (\<lambda>row. \<not> P row) (fd_rows db))"
    using d(2) by (auto simp: mirrors_def fold_unindex find_filter_ids [OF d(1)] ids_filter [OF d(1), unfolded set_filter] split: option.split)
  moreover have "fold stats_deleted (filter P (fd_rows db)) (fd_stats db) = exact_stats (filter (\<lambda>row. \<not> P row) (fd_rows db))"
    by (simp add: fold_stats_deleted d(3) exact_stats_def)
  ultimately show ?thesis using d(1) by (simp add: flow_db_ok_def sql_delete_def Let_def distinct_map_filter)
qed

lemma merge_flow_id [simp]: "fr_id (merge_flow new row) = fr_id row"
  by (simp add: merge_flow_def Let_def)

lemma sql_upsert_ok: "flow_db_ok db \<Longrightarrow> flow_db_ok (sql_upsert row db)"
  by (simp add: sql_upsert_def sql_update_ok sql_insert_ok)

text \<open>The statements that write the table of flows.\<close>

datatype flow_statement =
  Upsert flow_row
| Associate ip_addr int "domain_ref list"
| Locate ip_profile
| Delete "flow_row \<Rightarrow> bool"

fun execute :: "flow_statement \<Rightarrow> flow_db \<Rightarrow> flow_db" where
  "execute (Upsert row) = sql_upsert row"
| "execute (Associate address ifindex refs) = associate_rows address ifindex refs"
| "execute (Locate p) = locate_rows p"
| "execute (Delete P) = sql_delete P"

lemma execute_ok: "flow_db_ok db \<Longrightarrow> flow_db_ok (execute statement db)"
  by (cases statement) (simp_all add: sql_upsert_ok associate_rows_def locate_rows_def sql_update_ok sql_delete_ok)

lemma flow_db_empty_ok: "flow_db_ok flow_db_empty"
  by (simp add: flow_db_ok_def flow_db_empty_def exact_stats_def mirrors_def)

text \<open>
  C30: whatever is written and deleted, the counters the triggers keep are the counts of the rows, the index of domains holds exactly
  the domains of the rows, and there is one row per key.
\<close>

theorem triggers_keep_counts:
  "let db = fold execute statements flow_db_empty; rows = fd_rows db in
     distinct (map fr_id rows)
     \<and> fs_total (fd_stats db) = int (length rows)
     \<and> fs_active (fd_stats db) = int (length (filter (\<lambda>row. fr_state row = ''active'') rows))
     \<and> fs_with_domain (fd_stats db) = int (length (filter (\<lambda>row. fr_domains row \<noteq> []) rows))
     \<and> fd_domains db (i, d) = (case List.find (\<lambda>row. fr_id row = i) rows of
          Some row \<Rightarrow> ref_lookup (fr_domains row) d | None \<Rightarrow> None)"
proof -
  have "flow_db_ok (fold execute statements db)" if "flow_db_ok db" for db
    using that by (induction statements arbitrary: db) (simp_all add: execute_ok)
  from this [OF flow_db_empty_ok] show ?thesis
    by (simp add: flow_db_ok_def exact_stats_def mirrors_def Let_def count_of_def is_active_def [abs_def] has_domain_def [abs_def])
qed

section \<open>A row spans its updates\<close>

definition rows_with :: "u64 \<Rightarrow> flow_db \<Rightarrow> flow_row list" where
  "rows_with rid db = filter (\<lambda>row. fr_id row = rid) (fd_rows db)"

lemma rows_with_upsert:
  assumes "fr_id new = rid"
  shows "rows_with rid (sql_upsert new db) = (if rows_with rid db = [] then [new] else map (merge_flow new) (rows_with rid db))"
proof (cases "rid \<in> fr_id ` set (fd_rows db)")
  case True
  have "filter (\<lambda>row. fr_id row = rid) (map (\<lambda>row. if fr_id row = rid then merge_flow new row else row) rows)
      = map (merge_flow new) (filter (\<lambda>row. fr_id row = rid) rows)" for rows
    by (induction rows) auto
  moreover have "rows_with rid db \<noteq> []" using True by (auto simp: rows_with_def filter_empty_conv)
  ultimately show ?thesis using True assms by (simp add: sql_upsert_def sql_update_def rows_with_def Let_def)
next
  case False
  then have "rows_with rid db = []" by (auto simp: rows_with_def filter_empty_conv image_iff)
  then show ?thesis using False assms by (simp add: sql_upsert_def sql_insert_def rows_with_def)
qed

text \<open>
  However often a flow is written, its row has the latest totals and state, spans the earliest to the latest time it was
  seen, and keeps the last service and application that were known.
\<close>

theorem row_spans_updates:
  assumes "rows_with rid db = []" "updates \<noteq> []" "list_all (\<lambda>u. fr_id u = rid) updates"
  shows "\<exists>row. rows_with rid (fold sql_upsert updates db) = [row]
    \<and> fr_packets row = fr_packets (last updates) \<and> fr_bytes row = fr_bytes (last updates)
    \<and> fr_state row = fr_state (last updates) \<and> fr_domains row = fr_domains (last updates)
    \<and> fr_first_seen_ms row = Min (fr_first_seen_ms ` set updates)
    \<and> fr_last_seen_ms row = Max (fr_last_seen_ms ` set updates)
    \<and> fr_service row = fold coalesce (map fr_service updates) None
    \<and> fr_app_id row = fold coalesce (map fr_app_id updates) None"
  using assms(2,3)
proof (induction updates rule: rev_nonempty_induct)
  case (single u)
  then show ?case using assms(1) by (simp add: rows_with_upsert coalesce_def split: option.split)
next
  case (snoc u updates)
  then obtain row where row: "rows_with rid (fold sql_upsert updates db) = [row]"
    "fr_first_seen_ms row = Min (fr_first_seen_ms ` set updates)" "fr_last_seen_ms row = Max (fr_last_seen_ms ` set updates)"
    "fr_service row = fold coalesce (map fr_service updates) None" "fr_app_id row = fold coalesce (map fr_app_id updates) None"
    by auto
  have "rows_with rid (fold sql_upsert (updates @ [u]) db) = [merge_flow u row]"
    using row(1) snoc.prems by (simp add: rows_with_upsert)
  then show ?case
    using row(2-) snoc.hyps by (simp add: merge_flow_def Let_def min.commute max.commute)
qed

section \<open>Capacity and retention\<close>

lemma filter_not_taken:
  assumes "distinct (map fr_id xs)"
  shows "filter (\<lambda>row. fr_id row \<notin> fr_id ` set (take n xs)) xs = drop n xs"
proof -
  have d: "distinct (map fr_id (take n xs @ drop n xs))" using assms by simp
  then have "fr_id ` set (take n xs) \<inter> fr_id ` set (drop n xs) = {}" unfolding map_append distinct_append by simp
  then have "filter (\<lambda>row. fr_id row \<notin> fr_id ` set (take n xs)) (drop n xs) = drop n xs"
    by (intro filter_True) auto
  moreover have "filter (\<lambda>row. fr_id row \<notin> fr_id ` set (take n xs)) (take n xs) = []" by (simp add: filter_empty_conv)
  ultimately have "filter (\<lambda>row. fr_id row \<notin> fr_id ` set (take n xs)) (take n xs @ drop n xs) = drop n xs"
    unfolding filter_append by simp
  then show ?thesis by simp
qed

lemma kept_rows:
  assumes "flow_db_ok db" "capacity < length (fd_rows db)"
  shows "mset (fd_rows (enforce_capacity capacity db))
    = mset (drop (length (fd_rows db) - capacity) (sort_key fr_last_seen_ms (fd_rows db)))"
proof -
  let ?n = "length (fd_rows db) - capacity" and ?s = "sort_key fr_last_seen_ms (fd_rows db)"
  have t: "fs_total (fd_stats db) - int capacity = int ?n"
    using assms by (simp add: flow_db_ok_def exact_stats_def of_nat_diff)
  have "distinct (map fr_id (fd_rows db))" using assms(1) by (simp add: flow_db_ok_def)
  then have "distinct (map fr_id ?s)" by (metis mset_map mset_sort mset_eq_imp_distinct_iff)
  note f = filter_not_taken [OF this, of ?n]
  have "fd_rows (enforce_capacity capacity db) = filter (\<lambda>row. fr_id row \<notin> oldest (int ?n) (fd_rows db)) (fd_rows db)"
    using t assms(2) by (simp add: enforce_capacity_def Let_def sql_delete_def)
  then have "mset (fd_rows (enforce_capacity capacity db)) = mset (filter (\<lambda>row. fr_id row \<notin> fr_id ` set (take ?n ?s)) ?s)"
    by (simp add: oldest_def mset_filter)
  then show ?thesis unfolding f .
qed

text \<open>
  Enforcing the capacity leaves as many flows as fit, and every flow it removes was last seen no later than any it keeps.
\<close>

theorem capacity_removes_oldest:
  assumes "flow_db_ok db" "db' = enforce_capacity capacity db"
  shows "length (fd_rows db') = min (length (fd_rows db)) capacity \<and> set (fd_rows db') \<subseteq> set (fd_rows db)
    \<and> (removed \<in> set (fd_rows db) - set (fd_rows db') \<and> kept \<in> set (fd_rows db')
        \<longrightarrow> fr_last_seen_ms removed \<le> fr_last_seen_ms kept)"
proof (cases "capacity < length (fd_rows db)")
  case True
  let ?n = "length (fd_rows db) - capacity" and ?s = "sort_key fr_last_seen_ms (fd_rows db)"
  have m: "mset (fd_rows db') = mset (drop ?n ?s)" using kept_rows [OF assms(1) True] assms(2) by simp
  then have s: "set (fd_rows db') = set (drop ?n ?s)" and l: "length (fd_rows db') = capacity"
    using True by (metis set_mset_mset) (metis True length_drop length_sort mset_eq_length diff_diff_cancel less_imp_le m)
  have so: "sorted (map fr_last_seen_ms (take ?n ?s @ drop ?n ?s))" by simp
  have "fr_last_seen_ms removed \<le> fr_last_seen_ms kept"
    if r: "removed \<in> set (fd_rows db) - set (fd_rows db')" "kept \<in> set (fd_rows db')"
  proof -
    have "removed \<in> set ?s" using r(1) by simp
    then have "removed \<in> set (take ?n ?s) \<union> set (drop ?n ?s)" by (metis append_take_drop_id set_append)
    then have "removed \<in> set (take ?n ?s)" using r(1) s by blast
    then show ?thesis using so r(2) unfolding s map_append sorted_append by auto
  qed
  moreover have "set (drop ?n ?s) \<subseteq> set (fd_rows db)" using set_drop_subset [of ?n ?s] by simp
  ultimately show ?thesis using l s True by simp
next
  case False
  then have "db' = db" using assms by (simp add: enforce_capacity_def Let_def flow_db_ok_def exact_stats_def)
  then show ?thesis using False by simp
qed

text \<open>After the retention there is no ended flow from before the cutoff, and none at all while history is off.\<close>

lemma retention_removes_ended:
  "fst (enforce_retention h now_ms (db, applications)) = db' \<Longrightarrow> row \<in> set (fd_rows db') \<Longrightarrow> fr_state row = ''ended''
     \<Longrightarrow> hs_enabled h \<and> retention_cutoff h now_ms \<le> fr_last_seen_ms row"
  by (auto simp: enforce_retention_def sql_delete_def Let_def split: if_splits)

lemma enforce_flows_ok:
  "flow_db_ok db \<Longrightarrow> flow_db_ok (enforce_capacity capacity db)"
  "flow_db_ok db \<Longrightarrow> flow_db_ok (fst (enforce_retention h now_ms (db, applications)))"
  by (simp_all add: enforce_capacity_def enforce_retention_def sql_delete_ok Let_def)

section \<open>Examples\<close>

definition example_flow :: "u64 \<Rightarrow> int \<Rightarrow> flow_row" where
  "example_flow rid seen =
     \<lparr>fr_id = rid, fr_direction = FlowOutbound, fr_protocol = ProtoTcp,
      fr_source = \<lparr>ep_address = IpV4 (Ipv4 192 168 1 2), ep_port = Some 40000\<rparr>,
      fr_destination = \<lparr>ep_address = IpV4 (Ipv4 1 1 1 1), ep_port = Some 443\<rparr>, fr_ifindex = 2, fr_interface = None,
      fr_packets = seen, fr_bytes = 0, fr_first_seen_ms = seen, fr_last_seen_ms = seen, fr_state = ''active'', fr_end_reason = None,
      fr_remote = \<lparr>ep_address = IpV4 (Ipv4 1 1 1 1), ep_port = Some 443\<rparr>, fr_remote_scope = Public, fr_country = None,
      fr_region = None, fr_city = None, fr_asn = None, fr_org = None, fr_db_version = None, fr_enriched_at_ms = 0,
      fr_domains = [], fr_service = None, fr_app_id = None, fr_dst_scope = Public\<rparr>"

lemma row_spans_updates_witness:
  "\<exists>row. rows_with 7 (fold sql_upsert [example_flow 7 30, example_flow 7 10, example_flow 7 20] flow_db_empty) = [row]
    \<and> fr_packets row = 20 \<and> fr_first_seen_ms row = 10 \<and> fr_last_seen_ms row = 30"
  using row_spans_updates [of 7 flow_db_empty "[example_flow 7 30, example_flow 7 10, example_flow 7 20]"]
  by (auto simp: rows_with_def flow_db_empty_def example_flow_def)

lemma capacity_removes_oldest_witness:
  "length (fd_rows (enforce_capacity 1 (fold sql_upsert [example_flow 7 30, example_flow 8 10] flow_db_empty))) = 1"
proof -
  have "fold sql_upsert [example_flow 7 30, example_flow 8 10] flow_db_empty
      = fold execute [Upsert (example_flow 7 30), Upsert (example_flow 8 10)] flow_db_empty" by simp
  then have "flow_db_ok (fold sql_upsert [example_flow 7 30, example_flow 8 10] flow_db_empty)"
    by (simp add: sql_upsert_ok flow_db_empty_ok)
  moreover have "length (fd_rows (fold sql_upsert [example_flow 7 30, example_flow 8 10] flow_db_empty)) = 2"
    by (simp add: sql_upsert_def sql_insert_def flow_db_empty_def example_flow_def)
  ultimately show ?thesis using capacity_removes_oldest [OF _ refl, of "fold sql_upsert [example_flow 7 30, example_flow 8 10] flow_db_empty" 1] by simp
qed

end
