(* ===== verification/Rates.thy ===== *)
theory Rates
  imports Model Db_Common "HOL-Library.AList"
begin

text \<open>
  The live rates of \<^verbatim>\<open>api/db.rs\<close>: the trailing window of a direction, the rates of an entity, the tables of
  entities that an interval rolls, and the mirror of them in \<^verbatim>\<open>entity_rates\<close>. The floating-point numbers
  are an argument: their operations on seconds, and the rate of a number of bytes in a time.
  Proved: a rate is that of the latest interval's bytes, and the stored table is exactly the rates in memory
  after every interval; a history that was cleared only in part leaves rates behind for good.
\<close>

section \<open>Windows\<close>

record 'f float_ops =
  fl_zero :: 'f
  fl_add :: "'f \<Rightarrow> 'f \<Rightarrow> 'f"
  fl_sub :: "'f \<Rightarrow> 'f \<Rightarrow> 'f"
  fl_bps :: "u64 \<Rightarrow> 'f \<Rightarrow> u64"

text \<open>\<open>fl_bps bytes seconds\<close> is \<^verbatim>\<open>bps\<close> of the source: 0 unless the time is positive.\<close>

definition RATE_WINDOW_TICKS :: nat where "RATE_WINDOW_TICKS = 1"

record 'f rate_window =
  rw_samples :: "(u64 \<times> 'f) list"
  rw_bytes :: u64
  rw_seconds :: 'f

definition rate_window_default :: "'f float_ops \<Rightarrow> 'f rate_window" where
  "rate_window_default fl = \<lparr>rw_samples = [], rw_bytes = 0, rw_seconds = fl_zero fl\<rparr>"

fun pop_samples :: "'f float_ops \<Rightarrow> (u64 \<times> 'f) list \<Rightarrow> u64 \<Rightarrow> 'f \<Rightarrow> 'f rate_window" where
  "pop_samples fl [] bytes secs = \<lparr>rw_samples = [], rw_bytes = bytes, rw_seconds = secs\<rparr>"
| "pop_samples fl ((b, s) # samples) bytes secs =
     (if RATE_WINDOW_TICKS < length ((b, s) # samples)
      then pop_samples fl samples (sat_sub bytes b) (fl_sub fl secs s)
      else \<lparr>rw_samples = (b, s) # samples, rw_bytes = bytes, rw_seconds = secs\<rparr>)"

definition push_sample :: "'f float_ops \<Rightarrow> u64 \<Rightarrow> 'f \<Rightarrow> 'f rate_window \<Rightarrow> 'f rate_window" where
  "push_sample fl bytes interval w =
     pop_samples fl (rw_samples w @ [(bytes, interval)]) (sat_add (rw_bytes w) bytes) (fl_add fl (rw_seconds w) interval)"

definition add_bytes :: "u64 \<Rightarrow> 'f rate_window \<Rightarrow> 'f rate_window" where
  "add_bytes bytes w =
     w\<lparr>rw_samples := (if rw_samples w = [] then []
                      else butlast (rw_samples w) @ [(sat_add (fst (last (rw_samples w))) bytes, snd (last (rw_samples w)))]),
       rw_bytes := sat_add (rw_bytes w) bytes\<rparr>"

definition bps :: "'f float_ops \<Rightarrow> 'f rate_window \<Rightarrow> u64" where
  "bps fl w = fl_bps fl (rw_bytes w) (rw_seconds w)"

record 'f entity_rates =
  er_inbound :: "'f rate_window"
  er_outbound :: "'f rate_window"

definition entity_rates_default :: "'f float_ops \<Rightarrow> 'f entity_rates" where
  "entity_rates_default fl = \<lparr>er_inbound = rate_window_default fl, er_outbound = rate_window_default fl\<rparr>"

definition roll_rates :: "'f float_ops \<Rightarrow> 'f \<Rightarrow> 'f entity_rates \<Rightarrow> 'f entity_rates" where
  "roll_rates fl interval r =
     \<lparr>er_inbound = push_sample fl 0 interval (er_inbound r), er_outbound = push_sample fl 0 interval (er_outbound r)\<rparr>"

definition rates_started :: "'f float_ops \<Rightarrow> 'f \<Rightarrow> 'f entity_rates" where
  "rates_started fl interval = roll_rates fl interval (entity_rates_default fl)"

definition add_rates :: "flow_direction \<Rightarrow> u64 \<Rightarrow> 'f entity_rates \<Rightarrow> 'f entity_rates" where
  "add_rates direction bytes r =
     (case direction of
        FlowInbound \<Rightarrow> r\<lparr>er_inbound := add_bytes bytes (er_inbound r)\<rparr>
      | FlowOutbound \<Rightarrow> r\<lparr>er_outbound := add_bytes bytes (er_outbound r)\<rparr>)"

definition inbound_bps :: "'f float_ops \<Rightarrow> 'f entity_rates \<Rightarrow> u64" where
  "inbound_bps fl r = bps fl (er_inbound r)"

definition outbound_bps :: "'f float_ops \<Rightarrow> 'f entity_rates \<Rightarrow> u64" where
  "outbound_bps fl r = bps fl (er_outbound r)"

definition rates_active :: "'f entity_rates \<Rightarrow> bool" where
  "rates_active r \<longleftrightarrow> rw_bytes (er_inbound r) > 0 \<or> rw_bytes (er_outbound r) > 0"

section \<open>Entities\<close>

text \<open>
  The five maps of the source in one: an entity is its kind and its key. The text of a key in the table stands for it.
\<close>

datatype entity =
  FlowEntity u64
| ConnectionEntity string
| EndpointEntity string
| DomainEntity string
| ApplicationEntity string

type_synonym 'f rates_table = "(entity \<times> 'f entity_rates) list"

definition roll_entity_rates :: "'f float_ops \<Rightarrow> 'f \<Rightarrow> 'f rates_table \<Rightarrow> 'f rates_table" where
  "roll_entity_rates fl interval table =
     filter (\<lambda>(_, r). rates_active r) (map (\<lambda>(k, r). (k, roll_rates fl interval r)) table)"

text \<open>\<^verbatim>\<open>entry().or_insert_with().add()\<close>\<close>

definition count_bytes ::
  "'f float_ops \<Rightarrow> 'f \<Rightarrow> entity \<Rightarrow> flow_direction \<Rightarrow> u64 \<Rightarrow> 'f rates_table \<Rightarrow> 'f rates_table" where
  "count_bytes fl interval k direction bytes table =
     AList.update k
       (add_rates direction bytes (case map_of table k of Some r \<Rightarrow> r | None \<Rightarrow> rates_started fl interval)) table"

section \<open>The stored mirror\<close>

type_synonym stored_rates = "(entity \<times> (int \<times> int)) list"

definition ENTITY_RATE_CHUNK :: nat where "ENTITY_RATE_CHUNK = 64"

function chunks :: "'a list \<Rightarrow> 'a list list" where
  "chunks xs = (if xs = [] then [] else take ENTITY_RATE_CHUNK xs # chunks (drop ENTITY_RATE_CHUNK xs))"
  by pat_completeness auto
termination
  by (relation "measure length") (auto simp: ENTITY_RATE_CHUNK_def)

declare chunks.simps [simp del]

definition recorded_rates :: "'f float_ops \<Rightarrow> 'f rates_table \<Rightarrow> stored_rates" where
  "recorded_rates fl table = map (\<lambda>(k, r). (k, sint (inbound_bps fl r), sint (outbound_bps fl r))) table"

definition same_rates :: "stored_rates \<Rightarrow> stored_rates \<Rightarrow> bool" where
  "same_rates a b \<longleftrightarrow> length a = length b \<and> list_all (\<lambda>(k, v). map_of b k = Some v) a"

text \<open>One statement per chunk, its rows in their order; then one deletion per key that left.\<close>

definition upsert_rates :: "stored_rates \<Rightarrow> stored_rates \<Rightarrow> stored_rates" where
  "upsert_rates chunk rows = fold (\<lambda>(k, v). AList.update k v) chunk rows"

definition store_entity_rates ::
  "'f float_ops \<Rightarrow> 'f rates_table \<Rightarrow> stored_rates \<times> stored_rates \<Rightarrow> stored_rates \<times> stored_rates" where
  "store_entity_rates fl table st =
     (let (rows, stored) = st; fresh = recorded_rates fl table in
      if same_rates fresh stored then (rows, stored)
      else
        let upserts = filter (\<lambda>(k, v). map_of stored k \<noteq> Some v) fresh;
            rows = fold upsert_rates (chunks upserts) rows;
            rows = fold (\<lambda>k rows. if map_of fresh k = None then AList.delete k rows else rows) (map fst stored) rows in
        (rows, fresh))"

section \<open>A rate is the latest interval's\<close>

text \<open>Between intervals a window holds at most its newest sample, whose bytes are all its bytes.\<close>

definition window_ok :: "'f rate_window \<Rightarrow> bool" where
  "window_ok w \<longleftrightarrow> (case rw_samples w of [] \<Rightarrow> rw_bytes w = 0 | [(b, _)] \<Rightarrow> rw_bytes w = b | _ \<Rightarrow> False)"

lemma sat_sub_self [simp]: "sat_sub b b = 0"
  by (simp add: sat_sub_def)

lemma push_ok:
  assumes "window_ok w"
  shows "window_ok (push_sample fl 0 interval w)" "rw_bytes (push_sample fl 0 interval w) = 0"
    "rw_samples (push_sample fl 0 interval w) = [(0, interval)]"
proof -
  consider "rw_samples w = []" "rw_bytes w = 0" | b s where "rw_samples w = [(b, s)]" "rw_bytes w = b"
    using assms by (auto simp: window_ok_def split: list.splits)
  then show "window_ok (push_sample fl 0 interval w)" "rw_bytes (push_sample fl 0 interval w) = 0"
    "rw_samples (push_sample fl 0 interval w) = [(0, interval)]"
    by (cases; simp add: push_sample_def RATE_WINDOW_TICKS_def window_ok_def)+
qed

lemma add_bytes_ok:
  assumes "window_ok w" "rw_samples w \<noteq> []"
  shows "window_ok (add_bytes bytes w)" "rw_samples (add_bytes bytes w) \<noteq> []"
    "rw_bytes (add_bytes bytes w) = sat_add (rw_bytes w) bytes" "rw_seconds (add_bytes bytes w) = rw_seconds w"
  using assms by (auto simp: window_ok_def add_bytes_def split: list.splits)

definition rates_ok :: "'f entity_rates \<Rightarrow> bool" where
  "rates_ok r \<longleftrightarrow> window_ok (er_inbound r) \<and> window_ok (er_outbound r)"

definition table_rates_ok :: "'f rates_table \<Rightarrow> bool" where
  "table_rates_ok table \<longleftrightarrow> distinct (map fst table) \<and> (\<forall>(k, r) \<in> set table. rates_ok r
     \<and> rw_samples (er_inbound r) \<noteq> [] \<and> rw_samples (er_outbound r) \<noteq> [])"

text \<open>With a window of one interval every interval starts from nothing.\<close>

lemma roll_entity_rates_empty: "table_rates_ok table \<Longrightarrow> roll_entity_rates fl interval table = []"
  by (auto simp: roll_entity_rates_def filter_empty_conv table_rates_ok_def rates_active_def roll_rates_def rates_ok_def push_ok)

definition window_started :: "'f float_ops \<Rightarrow> 'f \<Rightarrow> 'f rate_window" where
  "window_started fl interval = \<lparr>rw_samples = [(0, interval)], rw_bytes = 0, rw_seconds = fl_add fl (fl_zero fl) interval\<rparr>"

lemma rates_started_eq:
  "rates_started fl interval = \<lparr>er_inbound = window_started fl interval, er_outbound = window_started fl interval\<rparr>"
  by (simp add: rates_started_def roll_rates_def entity_rates_default_def rate_window_default_def push_sample_def
      RATE_WINDOW_TICKS_def window_started_def)

text \<open>The bytes an interval counts for an entity, saturating like the counters of the source.\<close>

definition counted :: "entity \<Rightarrow> flow_direction \<Rightarrow> (entity \<times> flow_direction \<times> u64) list \<Rightarrow> u64" where
  "counted k direction moves =
     fold (\<lambda>(k', d, b) acc. if k' = k \<and> d = direction then sat_add acc b else acc) moves 0"

definition count_all :: "'f float_ops \<Rightarrow> 'f \<Rightarrow> (entity \<times> flow_direction \<times> u64) list \<Rightarrow> 'f rates_table \<Rightarrow> 'f rates_table" where
  "count_all fl interval moves table = fold (\<lambda>(k, d, b). count_bytes fl interval k d b) moves table"

lemma count_all_windows:
  "(case map_of (count_all fl interval moves []) k of
      None \<Rightarrow> \<forall>(k', d, b) \<in> set moves. k' \<noteq> k
    | Some r \<Rightarrow> window_ok (er_inbound r) \<and> window_ok (er_outbound r)
        \<and> rw_samples (er_inbound r) \<noteq> [] \<and> rw_samples (er_outbound r) \<noteq> []
        \<and> rw_bytes (er_inbound r) = counted k FlowInbound moves \<and> rw_bytes (er_outbound r) = counted k FlowOutbound moves
        \<and> rw_seconds (er_inbound r) = fl_add fl (fl_zero fl) interval \<and> rw_seconds (er_outbound r) = fl_add fl (fl_zero fl) interval)
   \<and> distinct (map fst (count_all fl interval moves []))"
proof (induction moves rule: rev_induct)
  case Nil
  then show ?case by (simp add: count_all_def)
next
  case (snoc move moves)
  obtain k' d b where move: "move = (k', d, b)" by (cases move)
  have c: "count_all fl interval (moves @ [(k', d, b)]) [] = count_bytes fl interval k' d b (count_all fl interval moves [])"
    for k' d b by (simp add: count_all_def)
  have n: "counted k e (moves @ [(k', d, b)]) = (if k' = k \<and> d = e then sat_add (counted k e moves) b else counted k e moves)" for k' d b e
    by (simp add: counted_def)
  have z: "counted k e moves = 0" if "\<forall>(k', d, b) \<in> set moves. k' \<noteq> k" for e
    using that unfolding counted_def by (induction moves rule: rev_induct) auto
  have w: "window_ok (window_started fl interval)" "rw_samples (window_started fl interval) \<noteq> []"
    "rw_bytes (window_started fl interval) = 0" "rw_seconds (window_started fl interval) = fl_add fl (fl_zero fl) interval"
    by (simp_all add: window_started_def window_ok_def)
  show ?case
  proof (cases "k' = k")
    case True
    show ?thesis
    proof (cases "map_of (count_all fl interval moves []) k")
      case None
      then show ?thesis using snoc True w z
        by (cases d) (auto simp: move c n count_bytes_def update_conv' add_rates_def rates_started_eq add_bytes_ok distinct_update)
    next
      case (Some r)
      then show ?thesis using snoc True
        by (cases d) (auto simp: move c n count_bytes_def update_conv' add_rates_def add_bytes_ok distinct_update)
    qed
  next
    case False
    then show ?thesis using snoc
      by (auto simp: move c n count_bytes_def update_conv' distinct_update simp del: map_of_eq_Some_iff split: option.splits)
  qed
qed

text \<open>
  After an interval an entity's rates are those of the bytes that were counted for it in the interval and the time of the
  interval alone, whatever happened before; an entity without bytes has none. Adding to the zero of the floating-point numbers is exact.
\<close>

theorem rates_of_latest_interval:
  assumes "table_rates_ok before" "\<forall>x. fl_add fl (fl_zero fl) x = x"
    and "table = count_all fl interval moves (roll_entity_rates fl interval before)"
  shows "table_rates_ok table
    \<and> map_option (\<lambda>r. (inbound_bps fl r, outbound_bps fl r)) (map_of table k)
      = (if k \<in> fst ` set moves
         then Some (fl_bps fl (counted k FlowInbound moves) interval, fl_bps fl (counted k FlowOutbound moves) interval)
         else None)"
proof -
  have t: "table = count_all fl interval moves []" by (simp add: assms(3) roll_entity_rates_empty [OF assms(1)])
  note c = count_all_windows [where fl = fl and interval = interval and moves = moves]
  have "rates_ok r \<and> rw_samples (er_inbound r) \<noteq> [] \<and> rw_samples (er_outbound r) \<noteq> []" if "(k, r) \<in> set table" for k r
  proof -
    have "map_of table k = Some r" using that c [where k = k] by (simp add: t)
    then show ?thesis using c [where k = k] by (simp add: t rates_ok_def del: map_of_eq_Some_iff)
  qed
  then have ok: "table_rates_ok table" using c by (auto simp: table_rates_ok_def t)
  have present: "map_of (count_all fl interval moves []) k \<noteq> None" if "k \<in> fst ` set moves"
    using c [where k = k] that by (force split: option.splits)
  have absent: "map_of (count_all fl interval moves []) k = None" if "k \<notin> fst ` set moves"
  proof -
    have "map_of (count_all fl interval ms []) k = None" if "k \<notin> fst ` set ms" for ms
      using that unfolding count_all_def by (induction ms rule: rev_induct) (auto simp: count_bytes_def update_conv')
    then show ?thesis using that by blast
  qed
  show ?thesis
    using ok c [where k = k] present absent assms(2)
    by (cases "k \<in> fst ` set moves") (auto simp: t inbound_bps_def outbound_bps_def bps_def split: option.splits)
qed

section \<open>The mirror\<close>

lemma concat_chunks: "concat (chunks xs) = xs"
proof (induction xs rule: chunks.induct)
  case (1 xs)
  show ?case by (subst chunks.simps) (simp add: 1)
qed

lemma upsert_chunks: "fold upsert_rates (chunks xs) rows = upsert_rates xs rows"
proof -
  have "fold upsert_rates css rows = upsert_rates (concat css) rows" for css
    by (induction css arbitrary: rows) (simp_all add: upsert_rates_def)
  then show ?thesis by (simp add: concat_chunks)
qed

lemma upsert_rates_lookup:
  "distinct (map fst xs) \<Longrightarrow> map_of (upsert_rates xs rows) k = (case map_of xs k of Some v \<Rightarrow> Some v | None \<Rightarrow> map_of rows k)"
proof (induction xs arbitrary: rows)
  case (Cons x xs)
  obtain k' v where x: "x = (k', v)" by (cases x)
  have "map_of xs k' = None" using Cons.prems by (simp add: x map_of_eq_None_iff)
  then show ?case using Cons by (auto simp: x upsert_rates_def update_conv' split: option.split)
qed (simp add: upsert_rates_def)

lemma delete_left:
  "map_of (fold (\<lambda>k rows. if map_of fresh k = None then AList.delete k rows else rows) ks rows) k
    = (if k \<in> set ks \<and> map_of fresh k = None then None else map_of rows k)"
  by (induction ks arbitrary: rows) (auto simp: delete_conv')

lemma same_rates_lookup:
  assumes "distinct (map fst a)" "distinct (map fst b)" "same_rates a b"
  shows "map_of a = map_of b"
proof -
  have s: "set a \<subseteq> set b" using assms(2,3) by (auto simp: same_rates_def list_all_iff)
  moreover have "card (set a) = card (set b)"
    using assms by (simp add: same_rates_def distinct_card distinct_map)
  ultimately have "set a = set b" by (simp add: card_subset_eq)
  then show ?thesis using assms(1,2) by (metis map_of_inject_set)
qed

lemma changed_lookup:
  assumes "distinct (map fst xs)"
  shows "map_of (filter (\<lambda>(k, v). m k \<noteq> Some v) xs) k
    = (case map_of xs k of Some v \<Rightarrow> if m k = Some v then None else Some v | None \<Rightarrow> None)"
  using assms
proof (induction xs)
  case (Cons x xs)
  obtain k' v where x: "x = (k', v)" by (cases x)
  have "map_of xs k' = None" using Cons.prems by (simp add: x map_of_eq_None_iff)
  then show ?case using Cons by (auto simp: x simp del: map_of_eq_Some_iff)
qed simp

lemma store_entity_rates_mirror:
  assumes "map_of rows = map_of stored" "distinct (map fst stored)" "distinct (map fst table)"
    and "store_entity_rates fl table (rows, stored) = (rows', stored')"
  shows "map_of rows' = map_of (recorded_rates fl table)" "map_of stored' = map_of (recorded_rates fl table)"
    "distinct (map fst stored')"
proof -
  let ?fresh = "recorded_rates fl table"
  have f: "distinct (map fst ?fresh)" using assms(3) by (simp add: recorded_rates_def comp_def split_beta)
  have "map_of rows' = map_of ?fresh \<and> map_of stored' = map_of ?fresh \<and> distinct (map fst stored')"
  proof (cases "same_rates ?fresh stored")
    case True
    then show ?thesis
      using assms same_rates_lookup [OF f assms(2) True] by (simp_all add: store_entity_rates_def)
  next
    case False
    let ?upserts = "filter (\<lambda>(k, v). map_of stored k \<noteq> Some v) ?fresh"
    have u: "map_of ?upserts k = (case map_of ?fresh k of Some v \<Rightarrow> if map_of stored k = Some v then None else Some v | None \<Rightarrow> None)" for k
      by (rule changed_lookup [OF f])
    have "distinct (map fst ?upserts)" using f by (rule distinct_map_filter)
    note l = upsert_rates_lookup [OF this]
    have r: "rows' = fold (\<lambda>k rows. if map_of ?fresh k = None then AList.delete k rows else rows) (map fst stored) (upsert_rates ?upserts rows)"
      "stored' = ?fresh"
      using assms(4) False by (auto simp: store_entity_rates_def Let_def upsert_chunks)
    have "map_of rows' k = map_of ?fresh k" for k
    proof -
      have m: "k \<in> set (map fst stored) \<longleftrightarrow> map_of stored k \<noteq> None" by (simp add: map_of_eq_None_iff)
      show ?thesis
        unfolding r(1) delete_left l u assms(1) m
        by (cases "map_of ?fresh k"; cases "map_of stored k") (simp_all del: map_of_eq_Some_iff)
    qed
    then show ?thesis
      using f by (auto simp: r(2))
  qed
  then show "map_of rows' = map_of ?fresh" "map_of stored' = map_of ?fresh" "distinct (map fst stored')" by blast+
qed

text \<open>
  The life of the rates: intervals, clearings of the history, and restarts, which read the mirror back. A
  clearing that fails executes only its first statements; the rates of entities go with the fifth of them.
\<close>

record 'f rate_store =
  sr_table :: "'f rates_table"
  sr_rows :: stored_rates
  sr_stored :: stored_rates

definition rate_interval ::
  "'f float_ops \<Rightarrow> 'f \<times> (entity \<times> flow_direction \<times> u64) list \<Rightarrow> 'f rate_store \<Rightarrow> 'f rate_store" where
  "rate_interval fl turn st =
     (let (interval, moves) = turn;
          table = count_all fl interval moves (roll_entity_rates fl interval (sr_table st));
          (rows, stored) = store_entity_rates fl table (sr_rows st, sr_stored st) in
      \<lparr>sr_table = table, sr_rows = rows, sr_stored = stored\<rparr>)"

definition clear_rates :: "nat \<Rightarrow> 'f rate_store \<Rightarrow> 'f rate_store" where
  "clear_rates executed st = \<lparr>sr_table = [], sr_rows = (if 5 \<le> executed then [] else sr_rows st), sr_stored = []\<rparr>"

definition restart_rates :: "'f rate_store \<Rightarrow> 'f rate_store" where
  "restart_rates st = \<lparr>sr_table = [], sr_rows = sr_rows st, sr_stored = sr_rows st\<rparr>"

datatype 'f rate_event = RateInterval 'f "(entity \<times> flow_direction \<times> u64) list" | RateCleared | RateRestart

fun run_rate_event :: "'f float_ops \<Rightarrow> 'f rate_event \<Rightarrow> 'f rate_store \<Rightarrow> 'f rate_store" where
  "run_rate_event fl (RateInterval interval moves) = rate_interval fl (interval, moves)"
| "run_rate_event fl RateCleared = clear_rates 7"
| "run_rate_event fl RateRestart = restart_rates"

definition rate_store_ok :: "'f rate_store \<Rightarrow> bool" where
  "rate_store_ok st \<longleftrightarrow> table_rates_ok (sr_table st) \<and> distinct (map fst (sr_rows st)) \<and> distinct (map fst (sr_stored st))
     \<and> map_of (sr_rows st) = map_of (sr_stored st)"

definition rate_store_empty :: "'f rate_store" where
  "rate_store_empty = \<lparr>sr_table = [], sr_rows = [], sr_stored = []\<rparr>"

lemma upsert_rates_distinct: "distinct (map fst rows) \<Longrightarrow> distinct (map fst (upsert_rates xs rows))"
  by (induction xs arbitrary: rows) (auto simp: upsert_rates_def distinct_update)

lemma store_entity_rates_distinct:
  assumes "distinct (map fst rows)"
  shows "distinct (map fst (fst (store_entity_rates fl table (rows, stored))))"
proof -
  have "distinct (map fst (fold (\<lambda>k rows. if map_of fresh k = None then AList.delete k rows else rows) ks rs))"
    if "distinct (map fst rs)" for fresh :: stored_rates and ks and rs :: stored_rates
    using that by (induction ks arbitrary: rs) (auto simp: distinct_delete)
  then show ?thesis using assms by (simp add: store_entity_rates_def Let_def upsert_chunks upsert_rates_distinct)
qed

lemma counted_table_ok: "table_rates_ok table \<Longrightarrow> table_rates_ok (count_all fl interval moves (roll_entity_rates fl interval table))"
proof -
  assume t: "table_rates_ok table"
  have "rates_ok r \<and> rw_samples (er_inbound r) \<noteq> [] \<and> rw_samples (er_outbound r) \<noteq> []"
    if "(k, r) \<in> set (count_all fl interval moves [])" for k r
  proof -
    have "map_of (count_all fl interval moves []) k = Some r"
      using that count_all_windows [where fl = fl and interval = interval and moves = moves and k = k] by simp
    then show ?thesis using count_all_windows [where fl = fl and interval = interval and moves = moves and k = k] by (simp add: rates_ok_def del: map_of_eq_Some_iff)
  qed
  then show ?thesis
    using count_all_windows [where fl = fl and interval = interval and moves = moves] by (auto simp: roll_entity_rates_empty [OF t] table_rates_ok_def)
qed

lemma run_rate_event_ok:
  assumes "rate_store_ok st"
  shows "rate_store_ok (run_rate_event fl e st)"
proof (cases e)
  case (RateInterval interval moves)
  let ?table = "count_all fl interval moves (roll_entity_rates fl interval (sr_table st))"
  obtain rows stored where s: "store_entity_rates fl ?table (sr_rows st, sr_stored st) = (rows, stored)" by fastforce
  have t: "table_rates_ok ?table" using assms by (intro counted_table_ok) (simp add: rate_store_ok_def)
  then have "distinct (map fst ?table)" by (simp add: table_rates_ok_def)
  note m = store_entity_rates_mirror [OF _ _ this s]
  show ?thesis
    using assms t m s store_entity_rates_distinct [of "sr_rows st" fl ?table "sr_stored st"]
    by (simp add: RateInterval rate_interval_def rate_store_ok_def Let_def)
qed (use assms in \<open>simp_all add: rate_store_ok_def clear_rates_def restart_rates_def table_rates_ok_def\<close>)

text \<open>
  After any intervals, clearings and restarts, once an interval was stored the table of rates holds exactly the rates in memory.
\<close>

theorem stored_rates_mirror:
  "map_of (sr_rows (run_rate_event fl (RateInterval interval moves) (fold (run_rate_event fl) events rate_store_empty))) k
    = map_of (recorded_rates fl (sr_table (run_rate_event fl (RateInterval interval moves) (fold (run_rate_event fl) events rate_store_empty)))) k"
proof -
  have "rate_store_ok (fold (run_rate_event fl) events st)" if "rate_store_ok st" for st
    using that by (induction events arbitrary: st) (simp_all add: run_rate_event_ok)
  moreover have "rate_store_ok rate_store_empty" by (simp add: rate_store_ok_def rate_store_empty_def table_rates_ok_def)
  ultimately have ok: "rate_store_ok (fold (run_rate_event fl) events rate_store_empty)" by blast
  let ?st = "fold (run_rate_event fl) events rate_store_empty"
  let ?table = "count_all fl interval moves (roll_entity_rates fl interval (sr_table ?st))"
  obtain rows stored where s: "store_entity_rates fl ?table (sr_rows ?st, sr_stored ?st) = (rows, stored)" by fastforce
  have "table_rates_ok ?table" using ok by (intro counted_table_ok) (simp add: rate_store_ok_def)
  then have "distinct (map fst ?table)" by (simp add: table_rates_ok_def)
  then show ?thesis
    using store_entity_rates_mirror(1) [OF _ _ _ s] ok s by (simp add: rate_interval_def rate_store_ok_def Let_def)
qed

text \<open>
  A clearing that fails before the rates are deleted forgets the mirror all the same. The rows that remain are never
  deleted again: whatever intervals follow, an entity that moves no more keeps its old rate.
\<close>

theorem failed_clearing_leaves_rates:
  assumes "executed < 5" "map_of (sr_rows st) k = Some v" "\<forall>(interval, moves) \<in> set turns. k \<notin> fst ` set moves"
  shows "map_of (sr_rows (fold (rate_interval fl) turns (clear_rates executed st))) k = Some v"
proof -
  have absent: "map_of (count_all fl interval ms []) k = None" if "k \<notin> fst ` set ms" for interval ms
    using that unfolding count_all_def by (induction ms rule: rev_induct) (auto simp: count_bytes_def update_conv')
  have step: "map_of (sr_rows st') k = Some v \<and> k \<notin> fst ` set (sr_stored st') \<and> table_rates_ok (sr_table st')"
    if "map_of (sr_rows st) k = Some v" "k \<notin> fst ` set (sr_stored st)" "table_rates_ok (sr_table st)" "k \<notin> fst ` set moves"
      "st' = rate_interval fl (interval, moves) st" for st st' :: "'a rate_store" and interval moves
  proof -
    let ?table = "count_all fl interval moves []"
    have t: "count_all fl interval moves (roll_entity_rates fl interval (sr_table st)) = ?table"
      by (simp add: roll_entity_rates_empty [OF that(3)])
    have ok: "table_rates_ok ?table" using counted_table_ok [OF that(3), of fl interval moves] by (simp add: t)
    have "k \<notin> fst ` set ?table" using absent [OF that(4), of interval] by (simp add: map_of_eq_None_iff)
    then have n: "map_of (recorded_rates fl ?table) k = None"
      by (force simp: map_of_eq_None_iff recorded_rates_def)
    have "distinct (map fst (recorded_rates fl ?table))"
      using ok by (simp add: table_rates_ok_def recorded_rates_def comp_def split_beta)
    then have d: "distinct (map fst (filter (\<lambda>(k, v). map_of (sr_stored st) k \<noteq> Some v) (recorded_rates fl ?table)))"
      by (rule distinct_map_filter)
    have u: "map_of (filter (\<lambda>(k, v). map_of (sr_stored st) k \<noteq> Some v) (recorded_rates fl ?table)) k = None"
      using n by (auto simp: map_of_eq_None_iff)
    let ?ups = "filter (\<lambda>(k, v). map_of (sr_stored st) k \<noteq> Some v) (recorded_rates fl ?table)"
    have stays: "map_of (fold (\<lambda>k rows. if map_of fresh k = None then AList.delete k rows else rows) (map fst (sr_stored st))
        (upsert_rates ?ups (sr_rows st))) k = Some v" for fresh :: stored_rates
      unfolding delete_left upsert_rates_lookup [OF d] u using that(1,2) by simp
    have fresh: "k \<notin> fst ` set (recorded_rates fl ?table)" using n by (simp add: map_of_eq_None_iff)
    show ?thesis
      using that(1,2) fresh ok stays [of "recorded_rates fl ?table"]
      by (simp add: that(5) rate_interval_def t store_entity_rates_def Let_def upsert_chunks del: map_of_eq_Some_iff)
  qed
  have "map_of (sr_rows (fold (rate_interval fl) turns st)) k = Some v"
    if "map_of (sr_rows st) k = Some v" "k \<notin> fst ` set (sr_stored st)" "table_rates_ok (sr_table st)"
      "\<forall>(interval, moves) \<in> set turns. k \<notin> fst ` set moves" for st :: "'a rate_store"
    using that
  proof (induction turns arbitrary: st)
    case (Cons turn turns)
    obtain interval moves where "turn = (interval, moves)" by (cases turn)
    then show ?case using Cons step [OF Cons.prems(1-3) _ refl, of moves interval] by simp
  qed simp
  then show ?thesis using assms by (simp add: clear_rates_def table_rates_ok_def)
qed

section \<open>Witnesses\<close>

text \<open>Whole seconds, and a rate rounded down.\<close>

definition second_ops :: "int float_ops" where
  "second_ops = \<lparr>fl_zero = 0, fl_add = (+), fl_sub = (-), fl_bps = (\<lambda>b s. if 0 < s then word_of_int (8 * uint b div s) else 0)\<rparr>"

definition rates_before :: "int rates_table" where
  "rates_before = count_all second_ops 1 [(EndpointEntity ''1.2.3.4'', FlowInbound, 500)] []"

lemma rates_before_ok: "table_rates_ok rates_before"
proof -
  have "table_rates_ok ([] :: int rates_table)" by (simp add: table_rates_ok_def)
  then show ?thesis using counted_table_ok [of "[]" second_ops 1] unfolding rates_before_def by (simp add: roll_entity_rates_def)
qed

lemma second_ops_zero: "\<forall>x. fl_add second_ops (fl_zero second_ops) x = x"
  by (simp add: second_ops_def)

theorem rates_of_latest_interval_witness:
  "map_option (\<lambda>r. (inbound_bps second_ops r, outbound_bps second_ops r))
     (map_of (count_all second_ops 2 [(FlowEntity 7, FlowInbound, 100), (FlowEntity 7, FlowInbound, 20)]
       (roll_entity_rates second_ops 2 rates_before)) (FlowEntity 7))
    = Some (480, 0)"
  using conjunct2 [OF rates_of_latest_interval [where moves = "[(FlowEntity 7, FlowInbound, 100), (FlowEntity 7, FlowInbound, 20)]"
        and k = "FlowEntity 7" and interval = 2, OF rates_before_ok second_ops_zero refl]]
  by (simp add: counted_def sat_add_def second_ops_def)

definition rates_left :: "int rate_store" where
  "rates_left = \<lparr>sr_table = [], sr_rows = [(FlowEntity 7, (480, 0))], sr_stored = [(FlowEntity 7, (480, 0))]\<rparr>"

theorem failed_clearing_leaves_rates_witness:
  "map_of (sr_rows (fold (rate_interval second_ops) [(1, []), (1, [(FlowEntity 8, FlowInbound, 5)])] (clear_rates 2 rates_left)))
     (FlowEntity 7) = Some (480, 0)"
  by (rule failed_clearing_leaves_rates) (simp_all add: rates_left_def)

end
