(* ===== verification/Flow_View.thy ===== *)
theory Flow_View
  imports Flow_Store Rates
begin

text \<open>
  Flows as clients see them: the record of a stored row (\<^verbatim>\<open>api/db.rs\<close>, \<^verbatim>\<open>api/dto.rs\<close>), the identity of a connection, the
  filters of the live stream and the tick an interval becomes for a filter, and the search of the lists.
  Proved: ids are read back; both directions of an exchange are one connection; a tick has every flow that passes the
  filter exactly once, as a record or as a patch, and the aggregates of the records only.
\<close>

section \<open>Texts\<close>

definition hex_digits :: "nat \<Rightarrow> nat \<Rightarrow> nat list" where
  "hex_digits n v = map (\<lambda>i. hex_char (v div 16 ^ i mod 16)) (rev [0..<n])"

text \<open>\<^verbatim>\<open>{:016x}\<close>\<close>

definition hex16 :: "u64 \<Rightarrow> string" where
  "hex16 w = map char_of (hex_digits 16 (unat w))"

text \<open>\<^verbatim>\<open>{:x}\<close> of a segment: no leading zeros.\<close>

definition hex_segment :: "u16 \<Rightarrow> string" where
  "hex_segment w = map char_of (let ds = dropWhile (\<lambda>d. d = 48) (hex_digits 4 (unat w)) in if ds = [] then [48] else ds)"

fun segments_of :: "u8 list \<Rightarrow> u16 list" where
  "segments_of (a # b # rest) = word_cat a b # segments_of rest"
| "segments_of _ = []"

fun join_with :: "string \<Rightarrow> string list \<Rightarrow> string" where
  "join_with sep [] = []"
| "join_with sep [x] = x"
| "join_with sep (x # y # xs) = x @ sep @ join_with sep (y # xs)"

text \<open>The first longest span of zero segments: its start and its length.\<close>

fun zero_span :: "nat \<Rightarrow> nat \<times> nat \<Rightarrow> nat \<times> nat \<Rightarrow> u16 list \<Rightarrow> nat \<times> nat" where
  "zero_span i current longest [] = longest"
| "zero_span i current longest (s # ss) =
     (if s = 0 then
        let current = (if snd current = 0 then (i, 1) else (fst current, Suc (snd current))) in
        zero_span (Suc i) current (if snd longest < snd current then current else longest) ss
      else zero_span (Suc i) (0, 0) longest ss)"

fun ipv6_text :: "ipv6 \<Rightarrow> string" where
  "ipv6_text (Ipv6 octets) =
     (if take 12 octets = replicate 10 0 @ [255, 255]
      then ''::ffff:'' @ ipv4_text (Ipv4 (octets ! 12) (octets ! 13) (octets ! 14) (octets ! 15))
      else
        let segments = segments_of octets; (start, len) = zero_span 0 (0, 0) (0, 0) segments in
        if 1 < len
        then join_with '':'' (map hex_segment (take start segments)) @ ''::''
             @ join_with '':'' (map hex_segment (drop (start + len) segments))
        else join_with '':'' (map hex_segment segments))"

fun ip_text :: "ip_addr \<Rightarrow> string" where
  "ip_text (IpV4 a) = ipv4_text a"
| "ip_text (IpV6 a) = ipv6_text a"

fun contains_text :: "string \<Rightarrow> string \<Rightarrow> bool" where
  "contains_text [] q = (q = [])"
| "contains_text (c # cs) q = (starts_with (c # cs) q \<or> contains_text cs q)"

fun direction_text :: "flow_direction \<Rightarrow> string" where
  "direction_text FlowInbound = ''inbound''"
| "direction_text FlowOutbound = ''outbound''"

fun protocol_text :: "protocol \<Rightarrow> string" where
  "protocol_text ProtoTcp = ''tcp''"
| "protocol_text ProtoUdp = ''udp''"

fun end_reason_text :: "end_reason \<Rightarrow> string" where
  "end_reason_text IdleTimeout = ''idle_timeout''"
| "end_reason_text TcpFin = ''tcp_fin''"
| "end_reason_text TcpReset = ''tcp_reset''"
| "end_reason_text EvictedOrUnknown = ''evicted_or_unknown''"

fun evidence_text :: "domain_evidence \<Rightarrow> string" where
  "evidence_text DnsEvidence = ''dns''"
| "evidence_text TlsSniEvidence = ''tls_sni''"
| "evidence_text HttpHostEvidence = ''http_host''"

fun confidence_text :: "association_confidence \<Rightarrow> string" where
  "confidence_text Direct = ''direct''"
| "confidence_text Inferred = ''inferred''"

text \<open>\<^verbatim>\<open>{:?}\<close>\<close>

fun end_reason_debug :: "end_reason \<Rightarrow> string" where
  "end_reason_debug IdleTimeout = ''IdleTimeout''"
| "end_reason_debug TcpFin = ''TcpFin''"
| "end_reason_debug TcpReset = ''TcpReset''"
| "end_reason_debug EvictedOrUnknown = ''EvictedOrUnknown''"

fun evidence_debug :: "domain_evidence \<Rightarrow> string" where
  "evidence_debug DnsEvidence = ''Dns''"
| "evidence_debug TlsSniEvidence = ''TlsSni''"
| "evidence_debug HttpHostEvidence = ''HttpHost''"

fun confidence_debug :: "association_confidence \<Rightarrow> string" where
  "confidence_debug Direct = ''Direct''"
| "confidence_debug Inferred = ''Inferred''"

section \<open>Connections\<close>

definition fnv_step :: "u8 \<Rightarrow> u64 \<Rightarrow> u64" where
  "fnv_step byte hash = (hash XOR ucast byte) * 0x100000001b3"

definition le_bytes :: "int \<Rightarrow> u8 list" where
  "le_bytes n = map (\<lambda>i. word_of_int (n div 256 ^ i)) [0..<8]"

definition text_bytes :: "string \<Rightarrow> u8 list" where
  "text_bytes s = map of_char s"

definition connection_id :: "protocol \<Rightarrow> int \<Rightarrow> string \<Rightarrow> string \<Rightarrow> string" where
  "connection_id protocol ifindex pair_lo pair_hi =
     hex16 (fold fnv_step
       (text_bytes (protocol_text protocol) @ le_bytes ifindex @ text_bytes pair_lo @ [0] @ text_bytes pair_hi) 0xcbf29ce484222325)"

definition pair_side :: "endpoint \<Rightarrow> string" where
  "pair_side e = ip_text (ep_address e) @ '':'' @ (case ep_port e of Some port \<Rightarrow> decimal (unat port) | None \<Rightarrow> ''-1'')"

definition connection_pair :: "flow_key \<Rightarrow> string \<times> string" where
  "connection_pair key =
     (let source = pair_side (key_source key); destination = pair_side (key_destination key) in
      if source \<le> destination then (source, destination) else (destination, source))"

section \<open>The record of a row\<close>

record endpoint_dto =
  ed_address :: string
  ed_port :: "u16 option"

record profile_dto =
  pd_address :: string
  pd_scope :: address_scope
  pd_country :: "string option"
  pd_region :: "string option"
  pd_city :: "string option"
  pd_asn :: "u32 option"
  pd_org :: "string option"
  pd_version :: "string option"
  pd_enriched_at :: int

record application_ref_dto =
  ad_id :: string
  ad_name :: string
  ad_kind :: string

record flow_dto =
  dt_id :: string
  dt_direction :: flow_direction
  dt_protocol :: protocol
  dt_state :: string
  dt_end_reason :: "end_reason option"
  dt_source :: endpoint_dto
  dt_destination :: endpoint_dto
  dt_remote :: endpoint_dto
  dt_profile :: profile_dto
  dt_interface :: "string option"
  dt_packets :: u64
  dt_bytes :: u64
  dt_inbound_bps :: u64
  dt_outbound_bps :: u64
  dt_first_seen :: int
  dt_last_seen :: int
  dt_duration_ms :: u64
  dt_domains :: "domain_ref list"
  dt_application :: "application_ref_dto option"
  dt_unattributed :: bool

definition endpoint_dto :: "endpoint \<Rightarrow> endpoint_dto" where
  "endpoint_dto e = \<lparr>ed_address = ip_text (ep_address e), ed_port = ep_port e\<rparr>"

text \<open>The name and kind come from the row of the application, when there is one.\<close>

definition flow_application :: "application_row list \<Rightarrow> flow_row \<Rightarrow> application_ref_dto option" where
  "flow_application applications row =
     map_option
       (\<lambda>i. let found = List.find (\<lambda>a. ap_id a = i) applications in
            \<lparr>ad_id = i, ad_name = (case found of Some a \<Rightarrow> ap_name a | None \<Rightarrow> []),
             ad_kind = (if map_option ap_kind found = Some ''container'' then ''container'' else ''process'')\<rparr>)
       (fr_app_id row)"

definition unattributed_reason :: "flow_direction \<Rightarrow> address_scope \<Rightarrow> bool \<Rightarrow> bool" where
  "unattributed_reason direction dst_scope unattributed =
     (unattributed \<and> direction = FlowInbound \<and> (dst_scope = Multicast \<or> dst_scope = Broadcast))"

definition flow_dto_from_row :: "application_row list \<Rightarrow> flow_row \<Rightarrow> flow_dto" where
  "flow_dto_from_row applications row =
     (let application = flow_application applications row in
      \<lparr>dt_id = hex16 (fr_id row), dt_direction = fr_direction row, dt_protocol = fr_protocol row,
       dt_state = (if fr_state row = ''active'' then ''active'' else ''ended''), dt_end_reason = fr_end_reason row,
       dt_source = endpoint_dto (fr_source row), dt_destination = endpoint_dto (fr_destination row),
       dt_remote = endpoint_dto (fr_remote row),
       dt_profile = \<lparr>pd_address = ip_text (ep_address (fr_remote row)), pd_scope = fr_remote_scope row, pd_country = fr_country row,
         pd_region = fr_region row, pd_city = fr_city row, pd_asn = fr_asn row, pd_org = fr_org row,
         pd_version = fr_db_version row, pd_enriched_at = fr_enriched_at_ms row\<rparr>,
       dt_interface = fr_interface row, dt_packets = word_of_int (fr_packets row), dt_bytes = word_of_int (fr_bytes row),
       dt_inbound_bps = 0, dt_outbound_bps = 0, dt_first_seen = fr_first_seen_ms row, dt_last_seen = fr_last_seen_ms row,
       dt_duration_ms = word_of_int (max (fr_last_seen_ms row - fr_first_seen_ms row) 0), dt_domains = fr_domains row,
       dt_application = application,
       dt_unattributed = unattributed_reason (fr_direction row) (fr_dst_scope row) (application = None)\<rparr>)"

definition parse_flow_id :: "string \<Rightarrow> u64 option" where
  "parse_flow_id s = map_option of_nat (from_str_radix 16 (2 ^ 64 - 1) (map of_char s))"

definition apply_flow_rate :: "'f float_ops \<Rightarrow> 'f rates_table \<Rightarrow> flow_dto \<Rightarrow> flow_dto" where
  "apply_flow_rate fl table dto =
     (case parse_flow_id (dt_id dto) of
        None \<Rightarrow> dto
      | Some i \<Rightarrow>
          (case map_of table (FlowEntity i) of
             None \<Rightarrow> dto
           | Some r \<Rightarrow> dto\<lparr>dt_inbound_bps := inbound_bps fl r, dt_outbound_bps := outbound_bps fl r\<rparr>))"

definition flow_by_id :: "'f float_ops \<Rightarrow> 'f rates_table \<Rightarrow> application_row list \<Rightarrow> flow_row list \<Rightarrow> u64 \<Rightarrow> flow_dto option" where
  "flow_by_id fl table applications rows i =
     map_option (\<lambda>row. apply_flow_rate fl table (flow_dto_from_row applications row)) (List.find (\<lambda>row. fr_id row = i) rows)"

definition get_flow ::
  "'f float_ops \<Rightarrow> 'f rates_table \<Rightarrow> application_row list \<Rightarrow> flow_row list \<Rightarrow> string \<Rightarrow> string api_error + flow_dto" where
  "get_flow fl table applications rows s =
     (case parse_flow_id s of
        None \<Rightarrow> Inl (ApiBadRequest s)
      | Some i \<Rightarrow> (case flow_by_id fl table applications rows i of None \<Rightarrow> Inl ApiNotFound | Some dto \<Rightarrow> Inr dto))"

definition flow_detail_signature :: "flow_dto \<Rightarrow> string" where
  "flow_detail_signature flow =
     dt_state flow
     @ (case dt_end_reason flow of Some why \<Rightarrow> ''|'' @ end_reason_debug why | None \<Rightarrow> [])
     @ (case dt_application flow of Some a \<Rightarrow> ''|'' @ ad_id a @ '':'' @ ad_kind a | None \<Rightarrow> [])
     @ (if dt_unattributed flow then ''|unattributed'' else [])
     @ concat (map (\<lambda>d. ''|'' @ dr_domain d @ '':'' @ evidence_debug (dr_evidence d) @ '':'' @ confidence_debug (dr_confidence d))
         (dt_domains flow))"

section \<open>Filters of the stream\<close>

datatype flow_state_param = ParamActive | ParamEnded

fun state_param_text :: "flow_state_param \<Rightarrow> string" where
  "state_param_text ParamActive = ''active''"
| "state_param_text ParamEnded = ''ended''"

record stream_query =
  sq_q :: "string option"
  sq_direction :: "flow_direction option"
  sq_protocol :: "protocol option"
  sq_ip :: "ip_addr option"
  sq_src_ip :: "ip_addr option"
  sq_dst_ip :: "ip_addr option"
  sq_port :: "u16 option"
  sq_domain :: "string option"
  sq_application_id :: "string option"
  sq_scope :: "address_scope list"
  sq_exclude_scope :: "address_scope list"
  sq_state :: "flow_state_param option"
  sq_has_domain :: "bool option"

record stream_filter =
  sf_q :: "string option"
  sf_direction :: "flow_direction option"
  sf_protocol :: "protocol option"
  sf_ip :: "string option"
  sf_src_ip :: "string option"
  sf_dst_ip :: "string option"
  sf_port :: "u16 option"
  sf_domain :: "string option"
  sf_application_id :: "string option"
  sf_scope :: "address_scope list"
  sf_exclude_scope :: "address_scope list"
  sf_state :: "flow_state_param option"
  sf_has_domain :: "bool option"

text \<open>\<^verbatim>\<open>Option::filter\<close> of a text that must not be empty.\<close>

definition nonempty :: "string option \<Rightarrow> string option" where
  "nonempty s = (if s = Some [] then None else s)"

definition stream_filter :: "stream_query \<Rightarrow> stream_filter" where
  "stream_filter q =
     \<lparr>sf_q = nonempty (map_option (to_ascii_lowercase \<circ> str_trim) (sq_q q)),
      sf_direction = sq_direction q, sf_protocol = sq_protocol q, sf_ip = map_option ip_text (sq_ip q),
      sf_src_ip = map_option ip_text (sq_src_ip q), sf_dst_ip = map_option ip_text (sq_dst_ip q), sf_port = sq_port q,
      sf_domain = map_option normalize_name (sq_domain q),
      sf_application_id = nonempty (map_option str_trim (sq_application_id q)),
      sf_scope = sq_scope q, sf_exclude_scope = sq_exclude_scope q, sf_state = sq_state q, sf_has_domain = sq_has_domain q\<rparr>"

definition spaced :: "string \<Rightarrow> string" where "spaced s = s @ '' ''"

definition port_text :: "u16 option \<Rightarrow> string" where
  "port_text port = (case port of Some p \<Rightarrow> spaced (decimal (unat p)) | None \<Rightarrow> [])"

definition flow_search_text :: "flow_dto \<Rightarrow> string" where
  "flow_search_text flow =
     to_ascii_lowercase
       (spaced (dt_id flow) @ spaced (direction_text (dt_direction flow)) @ spaced (protocol_text (dt_protocol flow))
        @ spaced (dt_state flow)
        @ (case dt_end_reason flow of Some why \<Rightarrow> spaced (end_reason_text why) | None \<Rightarrow> [])
        @ spaced (ed_address (dt_source flow)) @ port_text (ed_port (dt_source flow))
        @ spaced (ed_address (dt_destination flow)) @ port_text (ed_port (dt_destination flow))
        @ (case dt_interface flow of Some i \<Rightarrow> spaced i | None \<Rightarrow> [])
        @ (case dt_application flow of Some a \<Rightarrow> spaced (ad_id a) @ spaced (ad_name a) | None \<Rightarrow> [])
        @ concat (map (\<lambda>d. spaced (dr_domain d)) (dt_domains flow)))"

definition wants :: "'a option \<Rightarrow> ('a \<Rightarrow> bool) \<Rightarrow> bool" where
  "wants setting test = (case setting of None \<Rightarrow> True | Some v \<Rightarrow> test v)"

definition filter_matches :: "stream_filter \<Rightarrow> flow_dto \<Rightarrow> bool" where
  "filter_matches f flow =
     ((sf_scope f = [] \<or> pd_scope (dt_profile flow) \<in> set (sf_scope f))
      \<and> (sf_exclude_scope f = [] \<or> pd_scope (dt_profile flow) \<notin> set (sf_exclude_scope f))
      \<and> wants (sf_q f) (\<lambda>q. contains_text (flow_search_text flow) q)
      \<and> wants (sf_direction f) (\<lambda>d. dt_direction flow = d)
      \<and> wants (sf_protocol f) (\<lambda>p. dt_protocol flow = p)
      \<and> wants (sf_ip f) (\<lambda>ip. ed_address (dt_source flow) = ip \<or> ed_address (dt_destination flow) = ip)
      \<and> wants (sf_src_ip f) (\<lambda>ip. ed_address (dt_source flow) = ip)
      \<and> wants (sf_dst_ip f) (\<lambda>ip. ed_address (dt_destination flow) = ip)
      \<and> wants (sf_port f) (\<lambda>p. ed_port (dt_source flow) = Some p \<or> ed_port (dt_destination flow) = Some p)
      \<and> wants (sf_domain f) (\<lambda>d. list_ex (\<lambda>r. dr_domain r = d) (dt_domains flow))
      \<and> wants (sf_application_id f) (\<lambda>i. map_option ad_id (dt_application flow) = Some i)
      \<and> wants (sf_state f) (\<lambda>s. dt_state flow = state_param_text s)
      \<and> wants (sf_has_domain f) (\<lambda>b. (dt_domains flow = []) \<noteq> b))"

definition matches_domain :: "stream_filter \<Rightarrow> string \<Rightarrow> bool" where
  "matches_domain f domain = wants (sf_domain f) (\<lambda>d. d = domain)"

section \<open>Ticks\<close>

record domain_observation_dto =
  oo_domain :: string
  oo_address :: string
  oo_evidence :: domain_evidence
  oo_confidence :: association_confidence
  oo_observed_at :: int

text \<open>
  What an interval holds for its subscribers. The summaries of addresses, names and applications are those of the queries; only their keys
  matter here. \<open>None\<close> as an overview is the default one.
\<close>

record ('e, 'd, 'a) stream_event =
  se_sequence :: u64
  se_collected_at :: system_time
  se_interval :: duration
  se_inbound :: traffic_counters
  se_outbound :: traffic_counters
  se_inbound_bps :: u64
  se_outbound_bps :: u64
  se_flows :: "flow_dto list"
  se_patched_flows :: "string set"
  se_endpoints :: "(string \<times> 'e) list"
  se_domain_summaries :: "(string \<times> 'd) list"
  se_applications :: "(string \<times> 'a) list"
  se_observations :: "domain_observation_dto list"
  se_overview :: "flow_stats option"
  se_health :: collector_health

record flow_patch =
  pt_id :: string
  pt_remote :: string
  pt_packets :: u64
  pt_bytes :: u64
  pt_last_seen :: int
  pt_inbound_bps :: u64
  pt_outbound_bps :: u64

definition flow_patch :: "flow_dto \<Rightarrow> flow_patch" where
  "flow_patch flow =
     \<lparr>pt_id = dt_id flow, pt_remote = ed_address (dt_remote flow), pt_packets = dt_packets flow, pt_bytes = dt_bytes flow,
      pt_last_seen = dt_last_seen flow, pt_inbound_bps = dt_inbound_bps flow, pt_outbound_bps = dt_outbound_bps flow\<rparr>"

record ('e, 'd, 'a) tick =
  ti_sequence :: u64
  ti_collected_at :: int
  ti_interval_ms :: u64
  ti_inbound_bps :: u64
  ti_outbound_bps :: u64
  ti_inbound :: traffic_counters
  ti_outbound :: traffic_counters
  ti_flows :: "flow_dto list"
  ti_flow_updates :: "flow_patch list"
  ti_endpoints :: "(string \<times> 'e) list"
  ti_domains :: "(string \<times> 'd) list"
  ti_applications :: "(string \<times> 'a) list"
  ti_observations :: "domain_observation_dto list"
  ti_overview :: "flow_stats option"
  ti_health :: "collector_health option"

definition HEALTH_TICK_INTERVAL :: u64 where "HEALTH_TICK_INTERVAL = 10"

definition tick_for :: "('e, 'd, 'a) stream_event \<Rightarrow> stream_filter \<Rightarrow> ('e, 'd, 'a) tick" where
  "tick_for event f =
     (let matched = filter (filter_matches f) (se_flows event);
          flows = filter (\<lambda>flow. dt_id flow \<notin> se_patched_flows event) matched;
          updates = map flow_patch (filter (\<lambda>flow. dt_id flow \<in> se_patched_flows event) matched) in
      \<lparr>ti_sequence = se_sequence event, ti_collected_at = unix_millis (se_collected_at event),
       ti_interval_ms = of_nat (se_interval event div 1000000),
       ti_inbound_bps = se_inbound_bps event, ti_outbound_bps = se_outbound_bps event,
       ti_inbound = se_inbound event, ti_outbound = se_outbound event,
       ti_flows = flows, ti_flow_updates = updates,
       ti_endpoints = filter (\<lambda>(k, _). k \<in> (\<lambda>flow. ed_address (dt_remote flow)) ` set flows) (se_endpoints event),
       ti_domains = filter (\<lambda>(k, _). k \<in> dr_domain ` (\<Union>flow \<in> set flows. set (dt_domains flow))) (se_domain_summaries event),
       ti_applications = filter (\<lambda>(k, _). Some k \<in> (\<lambda>flow. map_option ad_id (dt_application flow)) ` set flows) (se_applications event),
       ti_observations = filter (\<lambda>ob. matches_domain f (oo_domain ob)) (se_observations event),
       ti_overview = se_overview event,
       ti_health = (if se_sequence event mod HEALTH_TICK_INTERVAL = 0 then Some (se_health event) else None)\<rparr>)"

section \<open>Ids\<close>

lemma hex_digits_Suc: "hex_digits (Suc n) v = hex_char (v div 16 ^ n mod 16) # hex_digits n v"
  by (simp add: hex_digits_def)

lemma digits_value_hex:
  "acc * 16 ^ n + v mod 16 ^ n \<le> largest \<Longrightarrow> digits_value 16 largest acc (hex_digits n v) = Some (acc * 16 ^ n + v mod 16 ^ n)"
proof (induction n arbitrary: acc)
  case (Suc n)
  let ?d = "v div 16 ^ n mod 16" and ?acc = "acc * 16 + v div 16 ^ n mod 16"
  have "v mod 16 ^ Suc n = 16 ^ n * ?d + v mod 16 ^ n" unfolding power_Suc2 by (rule mod_mult2_eq)
  then have e: "?acc * 16 ^ n + v mod 16 ^ n = acc * 16 ^ Suc n + v mod 16 ^ Suc n" by (simp add: algebra_simps)
  have "?acc \<le> ?acc * 16 ^ n" by simp
  then have "?acc \<le> ?acc * 16 ^ n + v mod 16 ^ n" by (rule trans_le_add1)
  then have "?acc \<le> largest" using Suc.prems unfolding e by (rule le_trans)
  moreover have "digits_value 16 largest ?acc (hex_digits n v) = Some (acc * 16 ^ Suc n + v mod 16 ^ Suc n)"
    using Suc.IH [of ?acc] Suc.prems unfolding e by blast
  ultimately show ?case by (simp add: hex_digits_Suc)
qed (simp add: hex_digits_def)

lemma hex_digits_plain: "d \<in> set (hex_digits n v) \<Longrightarrow> d < 128 \<and> d \<noteq> 43 \<and> d \<noteq> 45"
  using hex_char_plain by (auto simp: hex_digits_def)

lemma parse_hex16: "parse_flow_id (hex16 w) = Some w"
proof -
  let ?ds = "hex_digits 16 (unat w)"
  have "map of_char (hex16 w) = ?ds"
  proof -
    have "of_char (char_of d :: char) = d" if "d \<in> set ?ds" for d :: nat using hex_digits_plain [OF that] by simp
    then show ?thesis by (simp add: hex16_def map_idI)
  qed
  moreover obtain d ds where "?ds = d # ds" "d \<noteq> 43" "d \<noteq> 45"
    using hex_digits_plain [of _ 16 "unat w"] hex_digits_Suc [of 15 "unat w"] by (metis list.set_intros(1) numeral_eq_Suc pred_numeral_simps(2) semiring_norm(26) semiring_norm(27) semiring_norm(28))
  moreover have "unat w < 16 ^ 16" using unat_le_max [of w] by simp
  then have "digits_value 16 (2 ^ 64 - 1) 0 ?ds = Some (unat w)"
    using digits_value_hex [of 0 16 "unat w" "2 ^ 64 - 1"] by simp
  ultimately show ?thesis by (simp add: parse_flow_id_def from_str_radix_def of_nat_unat ucast_id)
qed

lemma apply_flow_rate_id [simp]: "dt_id (apply_flow_rate fl table dto) = dt_id dto"
  by (simp add: apply_flow_rate_def split: option.split)

text \<open>
  The id a flow is listed under leads to the flow: its record, with the rates of the flow itself.
\<close>

theorem listed_flow_is_found:
  assumes "distinct (map fr_id rows)" "row \<in> set rows" "dto = flow_dto_from_row applications row"
  shows "\<exists>found. get_flow fl table applications rows (dt_id dto) = Inr found
    \<and> found = (case map_of table (FlowEntity (fr_id row)) of
         None \<Rightarrow> dto | Some r \<Rightarrow> dto\<lparr>dt_inbound_bps := inbound_bps fl r, dt_outbound_bps := outbound_bps fl r\<rparr>)"
proof -
  have "dt_id (flow_dto_from_row applications row) = hex16 (fr_id row)" by (simp add: flow_dto_from_row_def Let_def)
  then show ?thesis
    using find_own [OF assms(1,2)] unfolding assms(3) by (simp add: get_flow_def parse_hex16 flow_by_id_def apply_flow_rate_def)
qed

section \<open>Connections merge directions\<close>

definition reversed :: "flow_key \<Rightarrow> flow_key" where
  "reversed key =
     key\<lparr>key_source := key_destination key, key_destination := key_source key,
        key_direction := (case key_direction key of FlowInbound \<Rightarrow> FlowOutbound | FlowOutbound \<Rightarrow> FlowInbound)\<rparr>"

text \<open>
  Both directions of an exchange on an interface are one connection, under one id, with the endpoints in order.
\<close>

theorem directions_share_connection:
  "connection_pair (reversed key) = connection_pair key
   \<and> fst (connection_pair key) \<le> snd (connection_pair key)
   \<and> {fst (connection_pair key), snd (connection_pair key)} = {pair_side (key_source key), pair_side (key_destination key)}"
  by (auto simp: connection_pair_def reversed_def Let_def)

section \<open>What a tick carries\<close>

lemma flow_patch_id [simp]: "pt_id (flow_patch flow) = dt_id flow"
  by (simp add: flow_patch_def)

text \<open>
  A tick has every flow of the interval that passes the filter exactly once, as a full record or as a patch, and nothing else;
  a patch has the counters of its record.
\<close>

theorem tick_partitions_flows:
  fixes event :: "('e, 'd, 'a) stream_event"
  assumes "t = tick_for event f" "distinct (map dt_id (se_flows event))"
  shows "set (map dt_id (ti_flows t)) \<inter> set (map pt_id (ti_flow_updates t)) = {}
    \<and> distinct (map dt_id (ti_flows t) @ map pt_id (ti_flow_updates t))
    \<and> set (ti_flows t) = {flow \<in> set (se_flows event). filter_matches f flow \<and> dt_id flow \<notin> se_patched_flows event}
    \<and> set (ti_flow_updates t) = flow_patch ` {flow \<in> set (se_flows event). filter_matches f flow \<and> dt_id flow \<in> se_patched_flows event}"
proof -
  have f: "ti_flows t = filter (\<lambda>flow. dt_id flow \<notin> se_patched_flows event) (filter (filter_matches f) (se_flows event))"
    "map pt_id (ti_flow_updates t) = map dt_id (filter (\<lambda>flow. dt_id flow \<in> se_patched_flows event) (filter (filter_matches f) (se_flows event)))"
    "ti_flow_updates t = map flow_patch (filter (\<lambda>flow. dt_id flow \<in> se_patched_flows event) (filter (filter_matches f) (se_flows event)))"
    by (simp_all add: assms(1) tick_for_def Let_def comp_def)
  have d: "distinct (map dt_id (filter P (se_flows event)))" for P by (rule distinct_map_filter [OF assms(2)])
  have "distinct (map dt_id (ti_flows t))" "distinct (map pt_id (ti_flow_updates t))"
    unfolding f(1,2) filter_filter by (rule d)+
  moreover have "set (map dt_id (ti_flows t)) \<inter> set (map pt_id (ti_flow_updates t)) = {}" unfolding f by auto
  moreover have "set (ti_flows t) = {flow \<in> set (se_flows event). filter_matches f flow \<and> dt_id flow \<notin> se_patched_flows event}"
    "set (ti_flow_updates t) = flow_patch ` {flow \<in> set (se_flows event). filter_matches f flow \<and> dt_id flow \<in> se_patched_flows event}"
    unfolding f(1,3) by auto
  ultimately show ?thesis by simp
qed

text \<open>
  The summaries of a tick are those of its full records. What an interval refreshed for the address, the names and the application of a flow that
  travels as a patch reaches no subscriber, unless a full record shares it.
\<close>

theorem patched_flows_carry_no_aggregates:
  fixes event :: "('e, 'd, 'a) stream_event"
  assumes "t = tick_for event f" "list_all (\<lambda>flow. filter_matches f flow \<longrightarrow> dt_id flow \<in> se_patched_flows event) (se_flows event)"
  shows "ti_endpoints t = [] \<and> ti_domains t = [] \<and> ti_applications t = []
    \<and> length (ti_flow_updates t) = length (filter (filter_matches f) (se_flows event))"
proof -
  have "filter (\<lambda>flow. dt_id flow \<notin> se_patched_flows event) (filter (filter_matches f) (se_flows event)) = []"
    using assms(2) by (auto simp: filter_empty_conv list_all_iff)
  moreover have "filter (\<lambda>flow. dt_id flow \<in> se_patched_flows event) (filter (filter_matches f) (se_flows event))
      = filter (filter_matches f) (se_flows event)"
    using assms(2) by (intro filter_True) (auto simp: list_all_iff)
  ultimately show ?thesis by (simp add: assms(1) tick_for_def Let_def del: filter_filter set_filter)
qed

text \<open>
  Neither the profile of the remote address, which an enrichment or a proxy may find later, nor the interface makes a full record
  travel again.
\<close>

lemma signature_ignores_profile:
  "flow_detail_signature (dto\<lparr>dt_profile := p, dt_interface := i\<rparr>) = flow_detail_signature dto"
  by (simp add: flow_detail_signature_def)

section \<open>Examples\<close>

definition any_filter :: stream_filter where
  "any_filter =
     \<lparr>sf_q = None, sf_direction = None, sf_protocol = None, sf_ip = None, sf_src_ip = None, sf_dst_ip = None, sf_port = None,
      sf_domain = None, sf_application_id = None, sf_scope = [], sf_exclude_scope = [], sf_state = None, sf_has_domain = None\<rparr>"

definition example_health :: collector_health where
  "example_health = fst (snapshot Running [] 0 0 \<lparr>ah_attached = False, ah_udp_attached = False, ah_last_error = None\<rparr> health_tracker_new)"

text \<open>One flow, its address refreshed; the flow travels as a patch or as a record.\<close>

definition example_event :: "string set \<Rightarrow> (nat, nat, nat) stream_event" where
  "example_event ids =
     \<lparr>se_sequence = 1, se_collected_at = 0, se_interval = 1000000000, se_inbound = traffic_counters_default,
      se_outbound = traffic_counters_default, se_inbound_bps = 0, se_outbound_bps = 0,
      se_flows = [flow_dto_from_row [] (example_flow 7 30)], se_patched_flows = ids,
      se_endpoints = [(ip_text (IpV4 (Ipv4 1 1 1 1)), 5)], se_domain_summaries = [], se_applications = [], se_observations = [],
      se_overview = None, se_health = example_health\<rparr>"

lemma any_filter_matches [simp]: "filter_matches any_filter flow"
  by (simp add: filter_matches_def any_filter_def wants_def)

lemma example_dto_id: "dt_id (flow_dto_from_row [] (example_flow i t)) = hex16 i"
  by (simp add: flow_dto_from_row_def Let_def example_flow_def)

lemma patched_flows_carry_no_aggregates_witness:
  "ti_endpoints (tick_for (example_event {hex16 7}) any_filter) = []
   \<and> length (ti_flow_updates (tick_for (example_event {hex16 7}) any_filter)) = 1
   \<and> ti_endpoints (tick_for (example_event {}) any_filter) = [(ip_text (IpV4 (Ipv4 1 1 1 1)), 5)]"
proof -
  have "list_all (\<lambda>flow. filter_matches any_filter flow \<longrightarrow> dt_id flow \<in> se_patched_flows (example_event {hex16 7})) (se_flows (example_event {hex16 7}))"
    by (simp add: example_event_def example_dto_id)
  from patched_flows_carry_no_aggregates [OF refl this] show ?thesis
    by (simp add: example_event_def tick_for_def flow_dto_from_row_def Let_def example_flow_def endpoint_dto_def)
qed

lemma tick_partitions_flows_witness:
  "map pt_id (ti_flow_updates (tick_for (example_event {hex16 7}) any_filter)) = [hex16 7]
   \<and> distinct (map dt_id (ti_flows (tick_for (example_event {hex16 7}) any_filter)) @ map pt_id (ti_flow_updates (tick_for (example_event {hex16 7}) any_filter)))"
  using tick_partitions_flows [OF refl, of "example_event {hex16 7}" any_filter]
  by (simp add: example_event_def tick_for_def example_dto_id)

lemma listed_flow_is_found_witness:
  "\<exists>found. get_flow second_ops [(FlowEntity 7, rates_started second_ops 1)] [] [example_flow 6 1, example_flow 7 30]
     (dt_id (flow_dto_from_row [] (example_flow 7 30))) = Inr found \<and> dt_packets found = 30"
  using listed_flow_is_found [OF _ _ refl, of "[example_flow 6 1, example_flow 7 30]" "example_flow 7 30" second_ops
      "[(FlowEntity 7, rates_started second_ops 1)]" "[]"]
  by (simp add: example_flow_def flow_dto_from_row_def Let_def)

end
