(* ===== verification/Flow_Query.thy ===== *)
theory Flow_Query
  imports Flow_View Selector
begin

text \<open>
  The queries of \<^verbatim>\<open>api/db.rs\<close> over the table of flows: the predicates a query asks for, the orders, and the pages of the list of
  flows. A statement is a function of the rows; a column that holds the text of an address compares that text.
  Proved: the pages of a query are consecutive parts of one sorted list of exactly the flows that satisfy it; the list and the
  live stream apply the same filters; the searches and the order by rate that do not find what they should.
\<close>

section \<open>Values and texts of the database\<close>

text \<open>A missing value is below numbers, and these below texts.\<close>

datatype sql_value = SqlNull | SqlInt int | SqlText string

fun sql_key :: "sql_value \<Rightarrow> nat \<times> int \<times> string" where
  "sql_key SqlNull = (0, 0, [])"
| "sql_key (SqlInt n) = (1, n, [])"
| "sql_key (SqlText s) = (2, 0, s)"

lemma sql_key_inject: "sql_key a = sql_key b \<longleftrightarrow> a = b"
  by (cases a; cases b) auto

instantiation sql_value :: linorder
begin

definition less_eq_sql_value :: "sql_value \<Rightarrow> sql_value \<Rightarrow> bool" where
  "less_eq_sql_value a b \<longleftrightarrow> sql_key a \<le> sql_key b"

definition less_sql_value :: "sql_value \<Rightarrow> sql_value \<Rightarrow> bool" where
  "less_sql_value a b \<longleftrightarrow> sql_key a < sql_key b"

instance
  by standard (auto simp: less_eq_sql_value_def less_sql_value_def sql_key_inject [symmetric] simp del: sql_key.simps)

end

fun opt_text :: "string option \<Rightarrow> sql_value" where
  "opt_text None = SqlNull"
| "opt_text (Some s) = SqlText s"

text \<open>\<^verbatim>\<open>lower\<close> and \<^verbatim>\<open>COLLATE NOCASE\<close> fold ASCII letters.\<close>

definition nocase_eq :: "string \<Rightarrow> string \<Rightarrow> bool" where
  "nocase_eq a b \<longleftrightarrow> to_ascii_lowercase a = to_ascii_lowercase b"

text \<open>A column without a value equals nothing.\<close>

definition column_is :: "'a option \<Rightarrow> ('a \<Rightarrow> bool) \<Rightarrow> bool" where
  "column_is column test = (case column of None \<Rightarrow> False | Some v \<Rightarrow> test v)"

definition int_text :: "int \<Rightarrow> string" where
  "int_text n = (if n < 0 then ''-'' @ decimal (nat (- n)) else decimal (nat n))"

text \<open>
  \<^verbatim>\<open>hex(X)\<close> of the database reads a number as its decimal text and writes two digits for each of its bytes.
\<close>

definition sql_hex :: "string \<Rightarrow> string" where
  "sql_hex s = concat (map (\<lambda>c. map (\<lambda>d. char_of (if d < 10 then 48 + d else 55 + d)) [of_char c div 16, of_char c mod 16 :: nat]) s)"

section \<open>Associated domains as text\<close>

text \<open>Strings as \<^verbatim>\<open>serde_json\<close> writes them.\<close>

definition json_char :: "char \<Rightarrow> string" where
  "json_char c =
     (let n = of_char c :: nat in
      if n = 34 then [CHR 0x5C, c] else if n = 92 then [CHR 0x5C, c]
      else if n = 8 then CHR 0x5C # ''b'' else if n = 9 then CHR 0x5C # ''t'' else if n = 10 then CHR 0x5C # ''n''
      else if n = 12 then CHR 0x5C # ''f'' else if n = 13 then CHR 0x5C # ''r''
      else if n < 32 then CHR 0x5C # ''u00'' @ map char_of [hex_char (n div 16), hex_char (n mod 16)]
      else [c])"

definition quoted :: "string \<Rightarrow> string" where "quoted s = [CHR 0x22] @ s @ [CHR 0x22]"

definition json_string :: "string \<Rightarrow> string" where
  "json_string s = quoted (concat (map json_char s))"

definition json_ref :: "domain_ref \<Rightarrow> string" where
  "json_ref r =
     ''{'' @ quoted ''domain'' @ '':'' @ json_string (dr_domain r) @ '',''
     @ quoted ''evidence'' @ '':'' @ quoted (evidence_text (dr_evidence r)) @ '',''
     @ quoted ''confidence'' @ '':'' @ quoted (confidence_text (dr_confidence r)) @ ''}''"

definition domains_json :: "domain_ref list \<Rightarrow> string" where
  "domains_json refs = ''['' @ join_with '','' (map json_ref refs) @ '']''"

section \<open>Predicates\<close>

datatype query_refusal = RangeAndWindow | StartAfterEnd | HalfWindow | LimitOutOfBounds | UnsupportedSort string

text \<open>An accepted range is one of four texts.\<close>

definition range_seconds :: "string \<Rightarrow> int" where
  "range_seconds window =
     (if window = ''15m'' then 15 * 60 else if window = ''1h'' then 60 * 60
      else if window = ''24h'' then 24 * 60 * 60 else 7 * 24 * 60 * 60)"

definition range_cutoff :: "string \<Rightarrow> system_time \<Rightarrow> system_time" where
  "range_cutoff window now =
     (case system_checked (now - range_seconds window * 1000000000) of Some t \<Rightarrow> t | None \<Rightarrow> 0)"

definition time_clause :: "flow_query \<Rightarrow> system_time \<Rightarrow> query_refusal api_error + (flow_row \<Rightarrow> bool)" where
  "time_clause query now =
     (case (fq_start query, fq_end query) of
        (Some start, Some end_ms) \<Rightarrow>
          if fq_range query \<noteq> None then Inl (ApiUnprocessable RangeAndWindow)
          else if end_ms < start then Inl (ApiUnprocessable StartAfterEnd)
          else Inr (\<lambda>row. start \<le> fr_last_seen_ms row \<and> fr_last_seen_ms row \<le> end_ms)
      | (None, None) \<Rightarrow>
          (case fq_range query of
             Some window \<Rightarrow> Inr (\<lambda>row. unix_millis (range_cutoff window now) \<le> fr_last_seen_ms row)
           | None \<Rightarrow> Inr (\<lambda>row. True))
      | _ \<Rightarrow> Inl (ApiUnprocessable HalfWindow))"

definition or_empty :: "string option \<Rightarrow> string" where
  "or_empty s = (case s of Some v \<Rightarrow> v | None \<Rightarrow> [])"

definition port_column :: "u16 option \<Rightarrow> string" where
  "port_column port = (case port of Some p \<Rightarrow> decimal (unat p) | None \<Rightarrow> [])"

definition row_search_text :: "flow_row \<Rightarrow> string" where
  "row_search_text row =
     to_ascii_lowercase
       (spaced (sql_hex (int_text (sint (fr_id row)))) @ spaced (direction_text (fr_direction row))
        @ spaced (protocol_text (fr_protocol row)) @ spaced (fr_state row)
        @ spaced (case fr_end_reason row of Some why \<Rightarrow> end_reason_text why | None \<Rightarrow> [])
        @ spaced (ip_text (ep_address (fr_source row))) @ spaced (port_column (ep_port (fr_source row)))
        @ spaced (ip_text (ep_address (fr_destination row))) @ spaced (port_column (ep_port (fr_destination row)))
        @ spaced (or_empty (fr_interface row)) @ spaced (or_empty (fr_app_id row)) @ spaced (or_empty (fr_service row))
        @ domains_json (fr_domains row))"

definition search_of :: "string option \<Rightarrow> string option" where
  "search_of q = nonempty (map_option (to_ascii_lowercase \<circ> str_trim) q)"

definition address_is :: "endpoint \<Rightarrow> ip_addr \<Rightarrow> bool" where
  "address_is e ip \<longleftrightarrow> ip_text (ep_address e) = ip_text ip"

text \<open>The predicates on the associated domains search their text.\<close>

definition association_clauses :: "flow_query \<Rightarrow> flow_row \<Rightarrow> bool" where
  "association_clauses query row =
     (wants (map_option normalize_name (fq_domain query)) (\<lambda>d. contains_text (domains_json (fr_domains row)) (quoted d))
      \<and> wants (fq_evidence query) (\<lambda>e. contains_text (domains_json (fr_domains row)) (quoted ''evidence'' @ '':'' @ quoted e))
      \<and> wants (fq_confidence query) (\<lambda>c. contains_text (domains_json (fr_domains row)) (quoted ''confidence'' @ '':'' @ quoted c)))"

definition row_clauses :: "flow_query \<Rightarrow> bool \<Rightarrow> flow_row \<Rightarrow> bool" where
  "row_clauses query association_filters row =
     (wants (search_of (fq_q query)) (\<lambda>q. contains_text (row_search_text row) q)
      \<and> wants (fq_direction query) (\<lambda>d. fr_direction row = d)
      \<and> wants (fq_protocol query) (\<lambda>p. fr_protocol row = p)
      \<and> wants (nonempty (map_option str_trim (fq_interface query))) (\<lambda>i. column_is (fr_interface row) (nocase_eq i))
      \<and> wants (nonempty (map_option str_trim (fq_service query))) (\<lambda>s. column_is (fr_service row) (nocase_eq s))
      \<and> wants (fq_ip query) (\<lambda>ip. address_is (fr_source row) ip \<or> address_is (fr_destination row) ip)
      \<and> wants (fq_src_ip query) (address_is (fr_source row))
      \<and> wants (fq_dst_ip query) (address_is (fr_destination row))
      \<and> wants (fq_port query) (\<lambda>p. ep_port (fr_source row) = Some p \<or> ep_port (fr_destination row) = Some p)
      \<and> wants (fq_application_id query) (\<lambda>i. column_is (fr_app_id row) (\<lambda>a. a = i))
      \<and> (association_filters \<longrightarrow> association_clauses query row)
      \<and> wants (fq_country query) (\<lambda>c. column_is (fr_country row) (nocase_eq c))
      \<and> wants (fq_asn query) (\<lambda>n. column_is (fr_asn row) (\<lambda>a. a = n))
      \<and> wants (fq_organization query) (\<lambda>org. contains_text (to_ascii_lowercase (or_empty (fr_org row))) (to_ascii_lowercase org))
      \<and> (fq_scope query = [] \<or> fr_remote_scope row \<in> set (fq_scope query))
      \<and> (fq_exclude_scope query = [] \<or> fr_remote_scope row \<notin> set (fq_exclude_scope query))
      \<and> wants (fq_state query) (\<lambda>s. fr_state row = s)
      \<and> wants (fq_has_domain query) (\<lambda>b. (domains_json (fr_domains row) \<noteq> ''[]'') = b))"

definition flow_clauses :: "flow_query \<Rightarrow> system_time \<Rightarrow> bool \<Rightarrow> query_refusal api_error + (flow_row \<Rightarrow> bool)" where
  "flow_clauses query now association_filters =
     (case time_clause query now of
        Inl e \<Rightarrow> Inl e
      | Inr in_time \<Rightarrow> Inr (\<lambda>row. in_time row \<and> row_clauses query association_filters row))"

section \<open>Orders\<close>

definition split_sort :: "string option \<Rightarrow> string \<Rightarrow> string \<times> bool" where
  "split_sort wanted dflt =
     (let raw = (case wanted of Some s \<Rightarrow> s | None \<Rightarrow> dflt) in
      case strip_prefix raw ''-'' of
        Some fld \<Rightarrow> (fld, True)
      | None \<Rightarrow> ((case strip_prefix raw ''+'' of Some fld \<Rightarrow> fld | None \<Rightarrow> raw), False))"

text \<open>The nearest number with 53 significant bits, ties to the even one: an integer as \<^verbatim>\<open>f64\<close>.\<close>

definition round_f64 :: "nat \<Rightarrow> nat" where
  "round_f64 n =
     (if n < 2 ^ 53 then n
      else
        let e = length (takeWhile (\<lambda>k. 2 ^ (53 + k) \<le> n) [0..<64]); q = n div 2 ^ e; r = n mod 2 ^ e in
        (if 2 ^ (e - 1) < r \<or> r = 2 ^ (e - 1) \<and> odd q then q + 1 else q) * 2 ^ e)"

fun ip_sort_key :: "ip_addr \<Rightarrow> int" where
  "ip_sort_key (IpV4 a) = uint (ipv4_value a)"
| "ip_sort_key (IpV6 (Ipv6 octets)) =
     int (round_f64 (4294967296 + round_f64 (foldl (\<lambda>acc b. acc * 256 + unat b) 0 (take 8 octets))))"

definition domain_sort_key :: "string \<Rightarrow> string" where
  "domain_sort_key domain = join_with [CHR 0x00] (rev (filter (\<lambda>l. l \<noteq> []) (split_at CHR ''.'' domain)))"

fun entity_kind :: "entity \<Rightarrow> string" where
  "entity_kind (FlowEntity _) = ''flow''"
| "entity_kind (ConnectionEntity _) = ''connection''"
| "entity_kind (EndpointEntity _) = ''endpoint''"
| "entity_kind (DomainEntity _) = ''domain''"
| "entity_kind (ApplicationEntity _) = ''application''"

fun entity_text :: "entity \<Rightarrow> string" where
  "entity_text (FlowEntity i) = decimal (unat i)"
| "entity_text (ConnectionEntity s) = s"
| "entity_text (EndpointEntity s) = s"
| "entity_text (DomainEntity s) = s"
| "entity_text (ApplicationEntity s) = s"

text \<open>The rate of the row of \<^verbatim>\<open>entity_rates\<close> with a kind and a key, both texts.\<close>

definition rate_order :: "stored_rates \<Rightarrow> string \<Rightarrow> string \<Rightarrow> string \<Rightarrow> sql_value" where
  "rate_order rates kind key channel =
     (case List.find (\<lambda>(e, _). entity_kind e = kind \<and> entity_text e = key) rates of
        None \<Rightarrow> SqlInt 0
      | Some (_, (inbound, outbound)) \<Rightarrow>
          SqlInt (if channel = ''in_rate'' then inbound else if channel = ''out_rate'' then outbound else inbound + outbound))"

definition is_rate :: "string \<Rightarrow> bool" where
  "is_rate fld \<longleftrightarrow> fld = ''rate'' \<or> fld = ''in_rate'' \<or> fld = ''out_rate''"

text \<open>The column a field of the list of flows is ordered by.\<close>

definition flow_column :: "stored_rates \<Rightarrow> string \<Rightarrow> (flow_row \<Rightarrow> sql_value) option" where
  "flow_column rates fld =
     (if fld = ''last_seen'' then Some (\<lambda>row. SqlInt (fr_last_seen_ms row))
      else if fld = ''first_seen'' then Some (\<lambda>row. SqlInt (fr_first_seen_ms row))
      else if fld = ''bytes'' then Some (\<lambda>row. SqlInt (fr_bytes row))
      else if fld = ''packets'' then Some (\<lambda>row. SqlInt (fr_packets row))
      else if fld = ''direction'' then Some (\<lambda>row. SqlText (direction_text (fr_direction row)))
      else if fld = ''remote'' then Some (\<lambda>row. SqlInt (ip_sort_key (ep_address (fr_remote row))))
      else if fld = ''application'' then Some (\<lambda>row. opt_text (fr_app_id row))
      else if fld = ''domain''
           then Some (\<lambda>row. opt_text (case fr_domains row of [] \<Rightarrow> None | r # _ \<Rightarrow> Some (domain_sort_key (dr_domain r))))
      else if is_rate fld then Some (\<lambda>row. rate_order rates ''flow'' (int_text (sint (fr_id row))) fld)
      else None)"

text \<open>Ascending by the column and a key that no two rows share, or all of it descending.\<close>

definition ordered :: "('a \<Rightarrow> sql_value) \<Rightarrow> ('a \<Rightarrow> 'k :: linorder) \<Rightarrow> bool \<Rightarrow> 'a list \<Rightarrow> 'a list" where
  "ordered column key descending rows =
     (let sorted_rows = sort_key (\<lambda>row. (column row, key row)) rows in if descending then rev sorted_rows else sorted_rows)"

section \<open>Pages\<close>

definition DEFAULT_PAGE_LIMIT :: nat where "DEFAULT_PAGE_LIMIT = 50"
definition MAX_PAGE_LIMIT :: nat where "MAX_PAGE_LIMIT = 500"

definition page_limit :: "nat option \<Rightarrow> query_refusal api_error + nat" where
  "page_limit limit =
     (let limit = (case limit of Some n \<Rightarrow> n | None \<Rightarrow> DEFAULT_PAGE_LIMIT) in
      if limit = 0 \<or> MAX_PAGE_LIMIT < limit then Inl (ApiBadRequest LimitOutOfBounds) else Inr limit)"

record 'a page =
  pg_items :: "'a list"
  pg_total :: nat
  pg_limit :: nat
  pg_offset :: nat

definition page_rows :: "nat \<Rightarrow> nat \<Rightarrow> 'a list \<Rightarrow> 'a list" where
  "page_rows limit offset rows = take limit (drop offset rows)"

text \<open>The rows of a page and the number of all.\<close>

definition flow_rows ::
  "stored_rates \<Rightarrow> system_time \<Rightarrow> flow_query \<Rightarrow> nat \<Rightarrow> nat \<Rightarrow> flow_row list \<Rightarrow> query_refusal api_error + (flow_row list \<times> nat)" where
  "flow_rows rates now query limit offset rows =
     (case flow_clauses query now True of
        Inl e \<Rightarrow> Inl e
      | Inr wanted \<Rightarrow>
          let (fld, descending) = split_sort (fq_sort query) ''-last_seen'' in
          (case flow_column rates fld of
             None \<Rightarrow> Inl (ApiBadRequest (UnsupportedSort fld))
           | Some column \<Rightarrow>
               Inr (page_rows limit offset (ordered column (\<lambda>row. sint (fr_id row)) descending (filter wanted rows)),
                    length (filter wanted rows))))"

definition list_flows ::
  "'f float_ops \<Rightarrow> 'f rates_table \<Rightarrow> stored_rates \<Rightarrow> system_time \<Rightarrow> application_row list \<Rightarrow> flow_query \<Rightarrow> flow_row list
     \<Rightarrow> query_refusal api_error + flow_dto page" where
  "list_flows fl table rates now applications query rows =
     (case page_limit (fq_limit query) of
        Inl e \<Rightarrow> Inl e
      | Inr limit \<Rightarrow>
          let offset = (case fq_offset query of Some n \<Rightarrow> n | None \<Rightarrow> 0) in
          (case flow_rows rates now query limit offset rows of
             Inl e \<Rightarrow> Inl e
           | Inr (items, found) \<Rightarrow>
               Inr \<lparr>pg_items = map (\<lambda>row. apply_flow_rate fl table (flow_dto_from_row applications row)) items,
                    pg_total = found, pg_limit = limit, pg_offset = offset\<rparr>))"

section \<open>Pages are parts of one list\<close>

lemma mset_ordered [simp]: "mset (ordered column key descending rows) = mset rows"
  by (simp add: ordered_def Let_def)

lemma set_ordered [simp]: "set (ordered column key descending rows) = set rows"
  by (metis mset_ordered set_mset_mset)

lemma length_ordered [simp]: "length (ordered column key descending rows) = length rows"
  by (metis mset_ordered size_mset)

lemma pages_concat: "concat (map (\<lambda>i. page_rows limit (i * limit) rows) [0..<n]) = take (n * limit) rows"
proof (induction n)
  case (Suc n)
  have "take (Suc n * limit) rows = take (n * limit) rows @ take limit (drop (n * limit) rows)"
    by (metis add.commute mult_Suc take_add)
  then show ?case using Suc by (simp add: page_rows_def)
qed simp

text \<open>
  C32: paging through a query visits exactly the flows that satisfy it, each as often as it is stored, in one order: by the column, then by the id,
  ascending or descending; every page names their number.
\<close>

theorem pages_visit_matches_in_order:
  assumes "flow_clauses query now True = Inr wanted" "split_sort (fq_sort query) ''-last_seen'' = (fld, descending)"
    and "flow_column rates fld = Some column" "length (filter wanted rows) \<le> n * limit"
    and "visited = concat (map (\<lambda>i. fst (projr (flow_rows rates now query limit (i * limit) rows))) [0..<n])"
  shows "mset visited = mset (filter wanted rows)
    \<and> sorted (map (\<lambda>row. (column row, sint (fr_id row))) (if descending then rev visited else visited))
    \<and> (\<forall>offset. snd (projr (flow_rows rates now query limit offset rows)) = length visited)"
proof -
  let ?all = "ordered column (\<lambda>row. sint (fr_id row)) descending (filter wanted rows)"
  have p: "flow_rows rates now query limit offset rows = Inr (page_rows limit offset ?all, length (filter wanted rows))" for offset
    using assms(1-3) by (simp add: flow_rows_def)
  then have "visited = ?all" using assms(4,5) by (simp add: pages_concat)
  then show ?thesis by (simp add: p) (simp add: ordered_def Let_def)
qed

section \<open>Searching the associated domains\<close>

lemma contains_text_append: "contains_text s q \<Longrightarrow> contains_text (p @ s) q"
  by (induction p) auto

lemma contains_text_prefix: "starts_with s q \<Longrightarrow> contains_text s q"
  by (cases s) (auto simp: starts_with_def)

lemma contains_textI: "contains_text (p @ q @ s) q"
  by (intro contains_text_append contains_text_prefix) (simp add: starts_with_def)

lemma contains_text_iff: "contains_text s q \<longleftrightarrow> (\<exists>a b. s = a @ q @ b)"
proof
  show "contains_text s q \<Longrightarrow> \<exists>a b. s = a @ q @ b"
  proof (induction s)
    case (Cons c s)
    show ?case
    proof (cases "starts_with (c # s) q")
      case True
      then have "c # s = [] @ q @ drop (length q) (c # s)" unfolding starts_with_def by (metis append_Nil append_take_drop_id)
      then show ?thesis by blast
    next
      case False
      then obtain a b where "s = a @ q @ b" using Cons by auto
      then have "c # s = (c # a) @ q @ b" by simp
      then show ?thesis by blast
    qed
  qed simp
qed (auto intro: contains_textI)

lemma join_with_member: "x \<in> set xs \<Longrightarrow> \<exists>a b. join_with sep xs = a @ x @ b"
proof (induction sep xs rule: join_with.induct)
  case (3 sep y z xs)
  show ?case
  proof (cases "x = y")
    case True
    then have "join_with sep (y # z # xs) = [] @ x @ (sep @ join_with sep (z # xs))" by simp
    then show ?thesis by blast
  next
    case False
    then obtain a b where "join_with sep (z # xs) = a @ x @ b" using 3 by auto
    then have "join_with sep (y # z # xs) = (y @ sep @ a) @ x @ b" by simp
    then show ?thesis by blast
  qed
next
  case (2 sep y)
  then have "join_with sep [y] = [] @ x @ []" by simp
  then show ?case by blast
qed simp

lemma domains_json_member: "r \<in> set refs \<Longrightarrow> contains_text (json_ref r) q \<Longrightarrow> contains_text (domains_json refs) q"
proof -
  assume r: "r \<in> set refs" "contains_text (json_ref r) q"
  obtain a b where "join_with '','' (map json_ref refs) = a @ json_ref r @ b" using r(1) join_with_member by (metis image_eqI list.set_map)
  moreover obtain c d where "json_ref r = c @ q @ d" using r(2) by (auto simp: contains_text_iff)
  ultimately have "domains_json refs = (''['' @ a @ c) @ q @ (d @ b @ '']'')" by (simp add: domains_json_def)
  then show ?thesis by (simp only: contains_textI)
qed

lemma domains_json_empty: "domains_json refs = ''[]'' \<longleftrightarrow> refs = []"
proof (cases refs)
  case (Cons r rs)
  then have "\<exists>s. domains_json refs = CHR ''['' # CHR ''{'' # s" by (cases rs) (simp_all add: domains_json_def json_ref_def)
  then show ?thesis using Cons by auto
qed (simp add: domains_json_def)

definition unescaped :: "string \<Rightarrow> bool" where
  "unescaped s \<longleftrightarrow> list_all (\<lambda>c. json_char c = [c]) s"

lemma json_string_unescaped: "unescaped s \<Longrightarrow> json_string s = quoted s"
proof -
  assume "unescaped s"
  then have "concat (map json_char s) = s" unfolding unescaped_def by (induction s) auto
  then show ?thesis by (simp add: json_string_def)
qed

text \<open>
  The list finds every flow associated with a domain. It finds others: since the text of the associations is searched, the names of its
  fields are domains of every flow that has one, and so are the words for their evidence and confidence.
\<close>

theorem domain_filter_finds_more:
  assumes "r \<in> set (fr_domains row)"
  shows "(unescaped (normalize_name d) \<and> dr_domain r = normalize_name d \<longrightarrow> association_clauses (query\<lparr>fq_domain := Some d, fq_evidence := None, fq_confidence := None\<rparr>) row)
    \<and> (normalize_name d \<in> {''domain'', ''evidence'', ''confidence'', evidence_text (dr_evidence r), confidence_text (dr_confidence r)}
        \<longrightarrow> association_clauses (query\<lparr>fq_domain := Some d, fq_evidence := None, fq_confidence := None\<rparr>) row)"
proof -
  have found: "association_clauses (query\<lparr>fq_domain := Some d, fq_evidence := None, fq_confidence := None\<rparr>) row"
    if "contains_text (json_ref r) (quoted (normalize_name d))"
    using domains_json_member [OF assms that] by (simp add: association_clauses_def wants_def)
  have c: "contains_text (json_ref r) (quoted s)" if "json_ref r = a @ quoted s @ b" for a s b
    unfolding that by (rule contains_textI)
  have "contains_text (json_ref r) (quoted ''domain'')" by (rule c [of "''{''"]) (simp add: json_ref_def)
  moreover have "contains_text (json_ref r) (quoted ''evidence'')"
    by (rule c [of "''{'' @ quoted ''domain'' @ '':'' @ json_string (dr_domain r) @ '',''"]) (simp add: json_ref_def)
  moreover have "contains_text (json_ref r) (quoted (evidence_text (dr_evidence r)))"
    by (rule c [of "''{'' @ quoted ''domain'' @ '':'' @ json_string (dr_domain r) @ '','' @ quoted ''evidence'' @ '':''"])
      (simp add: json_ref_def)
  moreover have "contains_text (json_ref r) (quoted ''confidence'')"
    by (rule c [of "''{'' @ quoted ''domain'' @ '':'' @ json_string (dr_domain r) @ '','' @ quoted ''evidence'' @ '':'' @ quoted (evidence_text (dr_evidence r)) @ '',''"])
      (simp add: json_ref_def)
  moreover have "contains_text (json_ref r) (quoted (confidence_text (dr_confidence r)))"
    by (rule c [of "''{'' @ quoted ''domain'' @ '':'' @ json_string (dr_domain r) @ '','' @ quoted ''evidence'' @ '':'' @ quoted (evidence_text (dr_evidence r)) @ '','' @ quoted ''confidence'' @ '':''"])
      (simp add: json_ref_def)
  moreover have "contains_text (json_ref r) (quoted (dr_domain r))" if "unescaped (dr_domain r)"
    by (rule c [of "''{'' @ quoted ''domain'' @ '':''"]) (simp add: json_ref_def json_string_unescaped [OF that])
  ultimately show ?thesis using found by auto
qed

section \<open>Live filters\<close>

text \<open>The query of the lists with the filters of a stream.\<close>

definition list_query :: "stream_query \<Rightarrow> flow_query" where
  "list_query q =
     \<lparr>fq_q = sq_q q, fq_range = None, fq_start = None, fq_end = None, fq_direction = sq_direction q, fq_protocol = sq_protocol q,
      fq_interface = None, fq_service = None, fq_ip = sq_ip q, fq_src_ip = sq_src_ip q, fq_dst_ip = sq_dst_ip q, fq_port = sq_port q,
      fq_domain = sq_domain q, fq_application_id = sq_application_id q, fq_country = None, fq_asn = None, fq_organization = None,
      fq_scope = sq_scope q, fq_exclude_scope = sq_exclude_scope q, fq_state = map_option state_param_text (sq_state q),
      fq_has_domain = sq_has_domain q, fq_evidence = None, fq_confidence = None, fq_hide_noise = None, fq_sort = None,
      fq_limit = None, fq_offset = None\<rparr>"


section \<open>Ordering by rate\<close>

lemma decimal_inject: "decimal m = decimal n \<longleftrightarrow> m = n"
proof
  assume "decimal m = decimal n"
  then have "Some m = Some n" using parse_decimal [of m "max m n"] parse_decimal [of n "max m n"] by (metis max.cobounded1 max.cobounded2)
  then show "m = n" by simp
qed simp

lemma decimal_not_minus: "decimal m \<noteq> ''-'' @ s"
proof
  assume "decimal m = ''-'' @ s"
  then have "decimal_digits m = map of_char (''-'' @ s)" using decimal_codes by metis
  then have "45 \<in> set (decimal_digits m)" by simp
  then show False using decimal_digits_range by fastforce
qed

text \<open>
  The list orders a flow by the rate of the interval only when its id is below half of the range of ids: above, the column of ids holds a negative
  number, whose text is no key of the table, and the flow is ordered as if it were idle.
\<close>

theorem rate_order_of_flow:
  assumes "distinct (map fst rates)"
  shows "rate_order rates ''flow'' (int_text (sint i)) channel
    = (if unat i < 2 ^ 63
       then (case map_of rates (FlowEntity i) of
               None \<Rightarrow> SqlInt 0
             | Some (inbound, outbound) \<Rightarrow>
                 SqlInt (if channel = ''in_rate'' then inbound else if channel = ''out_rate'' then outbound else inbound + outbound))
       else SqlInt 0)"
proof -
  have found: "List.find (\<lambda>(e, _). entity_kind e = ''flow'' \<and> entity_text e = decimal (unat i)) rates
      = map_option (Pair (FlowEntity i)) (map_of rates (FlowEntity i))" for rates :: stored_rates
  proof (induction rates)
    case (Cons x xs)
    obtain e v where x: "x = (e, v)" by (cases x)
    have "entity_kind e = ''flow'' \<and> entity_text e = decimal (unat i) \<longleftrightarrow> e = FlowEntity i"
      by (cases e) (auto simp: decimal_inject word_unat_eq_iff)
    then show ?case using Cons by (auto simp: x)
  qed simp
  show ?thesis
  proof (cases "unat i < 2 ^ 63")
    case True
    then have "uint i < 2 ^ 63" using of_nat_less_iff [where ?'a = int, of "unat i" "2 ^ 63"] by simp
    moreover have "- (2 ^ 63) \<le> uint i" using uint_ge_0 [of i] by (rule order_trans [rotated]) simp
    ultimately have "signed_take_bit 63 (uint i) = uint i" by (intro signed_take_bit_int_eq_self)
    then have "sint i = uint i" by (simp add: sint_uint)
    then have "int_text (sint i) = decimal (unat i)" by (simp add: int_text_def)
    then show ?thesis using True by (simp add: rate_order_def found split: option.split prod.split)
  next
    case False
    then have "2 ^ 63 \<le> uint i" using of_nat_less_iff [where ?'a = int, of "unat i" "2 ^ 63"] by simp
    then have "uint i div 9223372036854775808 = 1" using uint_lt2p [of i] by simp
    then have "bit (uint i) 63" by (simp add: bit_iff_odd)
    then have "sint i < 0" using uint_lt2p [of i] by (simp add: sint_uint signed_take_bit_eq_if_negative)
    then have "int_text (sint i) = ''-'' @ decimal (nat (- sint i))" by (simp add: int_text_def)
    then have t: "decimal m \<noteq> int_text (sint i)" for m using decimal_not_minus by metis
    have "List.find (\<lambda>(e, _). entity_kind e = ''flow'' \<and> entity_text e = int_text (sint i)) rates = None"
    proof -
      have "\<not> (entity_kind e = ''flow'' \<and> entity_text e = int_text (sint i))" for e using t by (cases e) simp_all
      then show ?thesis by (auto simp: find_None_iff)
    qed
    then show ?thesis using False by (simp add: rate_order_def)
  qed
qed

section \<open>Examples\<close>

definition every_flow :: flow_query where
  "every_flow = list_query \<lparr>sq_q = None, sq_direction = None, sq_protocol = None, sq_ip = None, sq_src_ip = None, sq_dst_ip = None,
     sq_port = None, sq_domain = None, sq_application_id = None, sq_scope = [], sq_exclude_scope = [], sq_state = None,
     sq_has_domain = None\<rparr>"

definition outbound_active :: stream_query where
  "outbound_active =
     \<lparr>sq_q = None, sq_direction = Some FlowOutbound, sq_protocol = None, sq_ip = None, sq_src_ip = None, sq_dst_ip = None,
      sq_port = Some 443, sq_domain = None, sq_application_id = None, sq_scope = [], sq_exclude_scope = [Private],
      sq_state = Some ParamActive, sq_has_domain = Some False\<rparr>"


definition example_rows :: "flow_row list" where
  "example_rows = [example_flow 7 30, example_flow 8 40, example_flow 9 20]"

text \<open>Three pages of one flow each, and their flows.\<close>

definition example_visited :: "flow_row list" where
  "example_visited = concat (map (\<lambda>i. fst (projr (flow_rows [] 0 every_flow 1 (i * 1) example_rows))) [0..<3])"

lemma pages_visit_matches_in_order_witness:
  "mset example_visited = mset example_rows
   \<and> sorted (map (\<lambda>row. (SqlInt (fr_last_seen_ms row), sint (fr_id row))) (rev example_visited))"
proof -
  obtain wanted where w: "flow_clauses every_flow 0 True = Inr wanted" "filter wanted example_rows = example_rows"
    by (simp add: flow_clauses_def time_clause_def every_flow_def list_query_def row_clauses_def wants_def search_of_def nonempty_def
        association_clauses_def)
  have s: "split_sort (fq_sort every_flow) ''-last_seen'' = (''last_seen'', True)"
    by (simp add: every_flow_def list_query_def split_sort_def strip_prefix_def starts_with_def)
  have c: "flow_column [] ''last_seen'' = Some (\<lambda>row. SqlInt (fr_last_seen_ms row))" by (simp add: flow_column_def)
  have "length (filter wanted example_rows) \<le> 3 * 1" unfolding w(2) by (simp add: example_rows_def)
  from pages_visit_matches_in_order [OF w(1) s c this example_visited_def] show ?thesis by (simp add: w(2))
qed

lemma domain_filter_finds_more_witness:
  "association_clauses (every_flow\<lparr>fq_domain := Some ''direct'', fq_evidence := None, fq_confidence := None\<rparr>)
     ((example_flow 7 30)\<lparr>fr_domains := [\<lparr>dr_domain = ''a.b'', dr_evidence = TlsSniEvidence, dr_confidence = Direct\<rparr>]\<rparr>)"
proof -
  have l: "to_ascii_lowercase ''direct'' = ''direct''"
    by (simp add: to_ascii_lowercase_simps ascii_lower_def char_of_def bit_0)
  have "normalize_name ''direct'' = ''direct''"
    by (simp add: normalize_name_def trim_plain plain_text_def trim_end_char_def l del: to_ascii_lowercase_simps)
  then show ?thesis
    using domain_filter_finds_more [of "\<lparr>dr_domain = ''a.b'', dr_evidence = TlsSniEvidence, dr_confidence = Direct\<rparr>"
        "(example_flow 7 30)\<lparr>fr_domains := [\<lparr>dr_domain = ''a.b'', dr_evidence = TlsSniEvidence, dr_confidence = Direct\<rparr>]\<rparr>" "''direct''" every_flow]
    by simp
qed

lemma rate_order_of_flow_witness:
  "rate_order [(FlowEntity 9223372036854775809, (800, 0)), (FlowEntity 9, (700, 1))] ''flow'' (int_text (sint (9223372036854775809 :: u64))) ''rate'' = SqlInt 0
   \<and> rate_order [(FlowEntity 9223372036854775809, (800, 0)), (FlowEntity 9, (700, 1))] ''flow'' (int_text (sint (9 :: u64))) ''rate'' = SqlInt 701"
  using rate_order_of_flow [of "[(FlowEntity 9223372036854775809, (800, 0)), (FlowEntity 9, (700, 1))]" 9223372036854775809 "''rate''"]
    rate_order_of_flow [of "[(FlowEntity 9223372036854775809, (800, 0)), (FlowEntity 9, (700, 1))]" 9 "''rate''"]
  by simp

end
