(* ===== verification/Buckets.thy ===== *)
theory Buckets
  imports Flow_Query
begin

text \<open>
  The time buckets of \<^verbatim>\<open>api/db.rs\<close>: the traffic of every interface and of every endpoint, domain and
  application is added up per minute and per hour, old buckets are deleted, and a timeline reads the buckets of a range.
  The table of the whole boundary has the key \<open>()\<close>, that of the entities their kind and name.
  Proved: whatever was added and deleted before it, a timeline has a point for every step of its range with exactly the
  traffic counted in that step; counting by interface and by entity agree.
\<close>

section \<open>Tables of buckets\<close>

datatype resolution = Minute | Hour

fun resolution_text :: "resolution \<Rightarrow> string" where
  "resolution_text Minute = ''minute''"
| "resolution_text Hour = ''hour''"

record 'k bucket =
  bk_key :: 'k
  bk_resolution :: resolution
  bk_start_ms :: int
  bk_ifindex :: int
  bk_interface :: string
  bk_in_packets :: int
  bk_in_bytes :: int
  bk_out_packets :: int
  bk_out_bytes :: int

definition bucket_slot :: "'k bucket \<Rightarrow> 'k \<times> resolution \<times> int \<times> int" where
  "bucket_slot b = (bk_key b, bk_resolution b, bk_start_ms b, bk_ifindex b)"

text \<open>\<^verbatim>\<open>ON CONFLICT DO UPDATE\<close>\<close>

definition merge_bucket :: "'k bucket \<Rightarrow> 'k bucket \<Rightarrow> 'k bucket" where
  "merge_bucket excluded row =
     row\<lparr>bk_interface := bk_interface excluded,
         bk_in_packets := bk_in_packets row + bk_in_packets excluded, bk_in_bytes := bk_in_bytes row + bk_in_bytes excluded,
         bk_out_packets := bk_out_packets row + bk_out_packets excluded, bk_out_bytes := bk_out_bytes row + bk_out_bytes excluded\<rparr>"

definition upsert_bucket :: "'k bucket \<Rightarrow> 'k bucket list \<Rightarrow> 'k bucket list" where
  "upsert_bucket new rows =
     (if bucket_slot new \<in> bucket_slot ` set rows
      then map (\<lambda>row. if bucket_slot row = bucket_slot new then merge_bucket new row else row) rows
      else rows @ [new])"

text \<open>The columns hold the counters \<^verbatim>\<open>as i64\<close>.\<close>

definition bucket_row :: "'k \<Rightarrow> resolution \<Rightarrow> system_time \<Rightarrow> int \<Rightarrow> string \<Rightarrow> traffic_counters \<Rightarrow> traffic_counters \<Rightarrow> 'k bucket" where
  "bucket_row k r start ifindex interface inbound outbound =
     \<lparr>bk_key = k, bk_resolution = r, bk_start_ms = unix_millis start, bk_ifindex = ifindex, bk_interface = interface,
      bk_in_packets = sint (tc_packets inbound), bk_in_bytes = sint (tc_bytes inbound),
      bk_out_packets = sint (tc_packets outbound), bk_out_bytes = sint (tc_bytes outbound)\<rparr>"

definition add_bucket ::
  "resolution \<Rightarrow> system_time \<Rightarrow> int \<Rightarrow> string \<Rightarrow> traffic_counters \<Rightarrow> traffic_counters \<Rightarrow> unit bucket list \<Rightarrow> unit bucket list" where
  "add_bucket r start ifindex interface inbound outbound =
     upsert_bucket (bucket_row () r start ifindex interface inbound outbound)"

definition no_traffic :: traffic_counters where
  "no_traffic = \<lparr>tc_packets = 0, tc_bytes = 0\<rparr>"

type_synonym entity_key = "string \<times> string"

definition add_entity_bucket ::
  "entity_key \<Rightarrow> resolution \<Rightarrow> system_time \<Rightarrow> int \<Rightarrow> string \<Rightarrow> flow_direction \<Rightarrow> traffic_counters
     \<Rightarrow> entity_key bucket list \<Rightarrow> entity_key bucket list" where
  "add_entity_bucket k r start ifindex interface direction delta =
     (case direction of
        FlowInbound \<Rightarrow> upsert_bucket (bucket_row k r start ifindex interface delta no_traffic)
      | FlowOutbound \<Rightarrow> upsert_bucket (bucket_row k r start ifindex interface no_traffic delta))"

definition add_counters :: "traffic_counters \<Rightarrow> traffic_counters \<Rightarrow> traffic_counters" where
  "add_counters target delta =
     \<lparr>tc_packets = sat_add (tc_packets target) (tc_packets delta), tc_bytes = sat_add (tc_bytes target) (tc_bytes delta)\<rparr>"

text \<open>A time before the epoch is taken for it.\<close>

definition truncate_time :: "system_time \<Rightarrow> int \<Rightarrow> system_time" where
  "truncate_time t step_secs = max t 0 div 1000000000 div step_secs * step_secs * 1000000000"

definition step_seconds :: "resolution \<Rightarrow> int" where
  "step_seconds r = (case r of Minute \<Rightarrow> 60 | Hour \<Rightarrow> 3600)"

section \<open>Deletion\<close>

definition MINUTE_BUCKET_RETENTION_MS :: int where "MINUTE_BUCKET_RETENTION_MS = 2 * 60 * 60 * 1000"
definition HOUR_BUCKET_RETENTION_MS :: int where "HOUR_BUCKET_RETENTION_MS = 8 * 24 * 60 * 60 * 1000"

definition bucket_retention :: "resolution \<Rightarrow> int" where
  "bucket_retention r = (case r of Minute \<Rightarrow> MINUTE_BUCKET_RETENTION_MS | Hour \<Rightarrow> HOUR_BUCKET_RETENTION_MS)"

text \<open>One statement for each resolution.\<close>

definition purge_buckets :: "int \<Rightarrow> 'k bucket list \<Rightarrow> 'k bucket list" where
  "purge_buckets now_ms rows =
     fold (\<lambda>r. filter (\<lambda>b. \<not> (bk_resolution b = r \<and> bk_start_ms b < now_ms - bucket_retention r))) [Minute, Hour] rows"

section \<open>Timelines\<close>

record timeline_point =
  tp_start :: int
  tp_inbound :: traffic_counters
  tp_outbound :: traffic_counters

record timeline =
  tl_resolution :: string
  tl_points :: "timeline_point list"

definition range_resolution :: "string \<Rightarrow> resolution" where
  "range_resolution window = (if window = ''15m'' \<or> window = ''1h'' then Minute else Hour)"

definition step_ms :: "resolution \<Rightarrow> int" where
  "step_ms r = (case r of Minute \<Rightarrow> 60000 | Hour \<Rightarrow> 3600000)"

definition floor_ms :: "int \<Rightarrow> int \<Rightarrow> int" where
  "floor_ms step ms = ms div step * step"

text \<open>The group of a start, its sums \<^verbatim>\<open>as u64\<close>.\<close>

definition point_of :: "'k bucket list \<Rightarrow> int \<Rightarrow> timeline_point" where
  "point_of rows at =
     \<lparr>tp_start = at,
      tp_inbound = \<lparr>tc_packets = word_of_int (\<Sum>b \<leftarrow> rows. bk_in_packets b), tc_bytes = word_of_int (\<Sum>b \<leftarrow> rows. bk_in_bytes b)\<rparr>,
      tp_outbound = \<lparr>tc_packets = word_of_int (\<Sum>b \<leftarrow> rows. bk_out_packets b), tc_bytes = word_of_int (\<Sum>b \<leftarrow> rows. bk_out_bytes b)\<rparr>\<rparr>"

definition empty_point :: "int \<Rightarrow> timeline_point" where
  "empty_point at = \<lparr>tp_start = at, tp_inbound = no_traffic, tp_outbound = no_traffic\<rparr>"

text \<open>The points of the rows that are asked for, by their start.\<close>

definition stored_points :: "'k bucket list \<Rightarrow> int \<Rightarrow> timeline_point option" where
  "stored_points rows at =
     (case filter (\<lambda>b. bk_start_ms b = at) rows of [] \<Rightarrow> None | b # bs \<Rightarrow> Some (point_of (b # bs) at))"

text \<open>The loop from the first start to the last.\<close>

function ordered_points :: "int \<Rightarrow> (int \<Rightarrow> timeline_point option) \<Rightarrow> int \<Rightarrow> int \<Rightarrow> timeline_point list" where
  "ordered_points step points last_start at =
     (if at \<le> last_start \<and> 0 < step
      then (case points at of Some p \<Rightarrow> p | None \<Rightarrow> empty_point at) # ordered_points step points last_start (at + step)
      else [])"
  by auto
termination by (relation "measure (\<lambda>(step, _, last_start, at). nat (last_start - at + 1))") auto

declare ordered_points.simps [simp del]

definition buckets_timeline :: "string \<Rightarrow> system_time \<Rightarrow> 'k \<Rightarrow> string option \<Rightarrow> 'k bucket list \<Rightarrow> timeline" where
  "buckets_timeline window now k interface rows =
     (let r = range_resolution window; step = step_ms r;
          last_start = floor_ms step (unix_millis now); start = floor_ms step (unix_millis (range_cutoff window now));
          asked = filter (\<lambda>b. bk_resolution b = r \<and> start \<le> bk_start_ms b \<and> bk_start_ms b \<le> last_start \<and> bk_key b = k
            \<and> wants (nonempty (map_option str_trim interface)) (nocase_eq (bk_interface b))) rows in
      \<lparr>tl_resolution = resolution_text r, tl_points = ordered_points step (stored_points asked) last_start start\<rparr>)"

definition boundary_timeline :: "string \<Rightarrow> string option \<Rightarrow> system_time \<Rightarrow> unit bucket list \<Rightarrow> timeline" where
  "boundary_timeline window interface now rows = buckets_timeline window now () interface rows"

definition endpoint_timeline ::
  "string \<Rightarrow> string \<Rightarrow> string option \<Rightarrow> system_time \<Rightarrow> entity_key bucket list \<Rightarrow> string api_error + timeline" where
  "endpoint_timeline address window interface now rows =
     (case parse_ip_text address of
        None \<Rightarrow> Inl (ApiBadRequest address)
      | Some a \<Rightarrow> Inr (buckets_timeline window now (''endpoint'', ip_text a) interface rows))"

definition domain_timeline ::
  "string \<Rightarrow> string \<Rightarrow> string option \<Rightarrow> system_time \<Rightarrow> entity_key bucket list \<Rightarrow> string api_error + timeline" where
  "domain_timeline domain window interface now rows =
     (let domain = normalize_name domain in
      if domain = [] then Inl (ApiBadRequest domain)
      else Inr (buckets_timeline window now (''domain'', domain) interface rows))"

section \<open>What a table adds up to\<close>

definition slots_distinct :: "'k bucket list \<Rightarrow> bool" where
  "slots_distinct rows \<longleftrightarrow> distinct (map bucket_slot rows)"

lemma slot_merge [simp]: "bucket_slot (merge_bucket new row) = bucket_slot row"
  by (simp add: bucket_slot_def merge_bucket_def)

lemma slots_upsert: "slots_distinct rows \<Longrightarrow> slots_distinct (upsert_bucket new rows)"
proof -
  have "map bucket_slot (map (\<lambda>row. if bucket_slot row = bucket_slot new then merge_bucket new row else row) rows) = map bucket_slot rows"
    by simp
  then show "slots_distinct rows \<Longrightarrow> slots_distinct (upsert_bucket new rows)"
    by (auto simp: slots_distinct_def upsert_bucket_def simp del: map_map)
qed

lemma slots_purge: "slots_distinct rows \<Longrightarrow> slots_distinct (purge_buckets now_ms rows)"
  by (simp add: slots_distinct_def purge_buckets_def distinct_map_filter)

text \<open>An amount that merging adds is added once.\<close>

lemma sum_upsert:
  fixes c :: "'k bucket \<Rightarrow> int"
  assumes "slots_distinct rows" "\<And>row. bucket_slot row = bucket_slot new \<Longrightarrow> c (merge_bucket new row) = c row + c new"
  shows "(\<Sum>b \<leftarrow> upsert_bucket new rows. c b) = (\<Sum>b \<leftarrow> rows. c b) + c new"
proof (cases "bucket_slot new \<in> bucket_slot ` set rows")
  case True
  have "(\<Sum>b \<leftarrow> map (\<lambda>row. if bucket_slot row = bucket_slot new then merge_bucket new row else row) rows. c b)
      = (\<Sum>b \<leftarrow> rows. c b) + c new" if "distinct (map bucket_slot rows)" "bucket_slot new \<in> bucket_slot ` set rows" for rows
    using that
  proof (induction rows)
    case (Cons b rows)
    show ?case
    proof (cases "bucket_slot b = bucket_slot new")
      case True
      then have "map (\<lambda>row. if bucket_slot row = bucket_slot new then merge_bucket new row else row) rows = rows"
        using Cons.prems(1) by (auto intro!: map_idI) (metis image_eqI)
      then show ?thesis using True assms(2) by simp
    next
      case False
      then show ?thesis using Cons by auto
    qed
  qed simp
  then show ?thesis using True assms(1) by (simp add: upsert_bucket_def slots_distinct_def)
qed (simp add: upsert_bucket_def)

text \<open>The four columns.\<close>

definition bucket_columns :: "('k bucket \<Rightarrow> int) set" where
  "bucket_columns = {bk_in_packets, bk_in_bytes, bk_out_packets, bk_out_bytes}"

lemma column_merge: "column \<in> bucket_columns \<Longrightarrow> column (merge_bucket new row) = column row + column new"
  by (auto simp: bucket_columns_def merge_bucket_def)

lemma sum_upsert_slot:
  assumes "slots_distinct rows" "column \<in> bucket_columns"
  shows "(\<Sum>b \<leftarrow> upsert_bucket new rows. if P (bucket_slot b) then column b else 0)
    = (\<Sum>b \<leftarrow> rows. if P (bucket_slot b) then column b else 0) + (if P (bucket_slot new) then column new else 0)"
  using sum_upsert [OF assms(1), of new "\<lambda>b. if P (bucket_slot b) then column b else 0"] column_merge [OF assms(2)] by simp

section \<open>The traffic of a run\<close>

text \<open>Per update both resolutions are counted; the policy deletes.\<close>

definition count_traffic :: "'k \<Rightarrow> system_time \<Rightarrow> int \<Rightarrow> string \<Rightarrow> traffic_counters \<Rightarrow> traffic_counters \<Rightarrow> 'k bucket list \<Rightarrow> 'k bucket list" where
  "count_traffic k at ifindex interface inbound outbound =
     fold (\<lambda>r. upsert_bucket (bucket_row k r (truncate_time at (step_seconds r)) ifindex interface inbound outbound)) [Minute, Hour]"

datatype 'k bucket_event = TrafficCounted 'k system_time int string traffic_counters traffic_counters | BucketsPurged system_time

fun run_bucket_event :: "'k bucket_event \<Rightarrow> 'k bucket list \<Rightarrow> 'k bucket list" where
  "run_bucket_event (TrafficCounted k at ifindex interface inbound outbound) = count_traffic k at ifindex interface inbound outbound"
| "run_bucket_event (BucketsPurged now) = purge_buckets (unix_millis now)"

text \<open>Their specification: the traffic of a key in one step, counted as the counters are.\<close>

fun counted_in :: "resolution \<Rightarrow> 'k \<Rightarrow> int \<Rightarrow> (traffic_counters \<Rightarrow> traffic_counters \<Rightarrow> u64) \<Rightarrow> 'k bucket_event \<Rightarrow> u64" where
  "counted_in r k start amount (TrafficCounted k' at ifindex interface inbound outbound) =
     (if k' = k \<and> unix_millis (truncate_time at (step_seconds r)) = start then amount inbound outbound else 0)"
| "counted_in r k start amount (BucketsPurged now) = 0"

definition traffic_point :: "'k bucket_event list \<Rightarrow> resolution \<Rightarrow> 'k \<Rightarrow> int \<Rightarrow> timeline_point" where
  "traffic_point events r k start =
     (let total = (\<lambda>amount. \<Sum>e \<leftarrow> events. counted_in r k start amount e) in
      \<lparr>tp_start = start,
       tp_inbound = \<lparr>tc_packets = total (\<lambda>i out. tc_packets i), tc_bytes = total (\<lambda>i out. tc_bytes i)\<rparr>,
       tp_outbound = \<lparr>tc_packets = total (\<lambda>i out. tc_packets out), tc_bytes = total (\<lambda>i out. tc_bytes out)\<rparr>\<rparr>)"

definition timeline_starts :: "string \<Rightarrow> system_time \<Rightarrow> int list" where
  "timeline_starts window now =
     (let step = step_ms (range_resolution window); last_start = floor_ms step (unix_millis now);
          start = floor_ms step (unix_millis (range_cutoff window now)) in
      map (\<lambda>i. start + int i * step) [0..<nat ((last_start - start) div step + 1)])"

lemma ordered_points_eq:
  "0 < step \<Longrightarrow> ordered_points step points last_start at
    = map (\<lambda>i. case points (at + int i * step) of Some p \<Rightarrow> p | None \<Rightarrow> empty_point (at + int i * step)) [0..<nat ((last_start - at) div step + 1)]"
proof (induction step points last_start at rule: ordered_points.induct)
  case (1 step points last_start at)
  show ?case
  proof (cases "at \<le> last_start")
    case True
    have d: "(last_start - at) div step = (last_start - (at + step)) div step + 1"
      using div_add_self2 [of step "last_start - (at + step)"] \<open>0 < step\<close> by (simp add: algebra_simps)
    have n: "nat ((last_start - at) div step + 1) = Suc (nat ((last_start - (at + step)) div step + 1))"
      using True \<open>0 < step\<close> pos_imp_zdiv_nonneg_iff [of step "last_start - at"] unfolding d by (simp add: nat_add_distrib)
    show ?thesis
      using 1 True unfolding n
      by (subst ordered_points.simps) (simp add: upt_conv_Cons map_Suc_upt [symmetric] comp_def algebra_simps del: upt_Suc,
          auto simp: algebra_simps split: option.split)
  next
    case False
    then have "(last_start - at) div step < 0" using \<open>0 < step\<close> by (simp add: div_neg_pos_less0)
    then show ?thesis using False by (subst ordered_points.simps) simp
  qed
qed

text \<open>A column of the table and the amount it holds.\<close>

definition holds_amount :: "('k bucket \<Rightarrow> int) \<Rightarrow> (traffic_counters \<Rightarrow> traffic_counters \<Rightarrow> u64) \<Rightarrow> bool" where
  "holds_amount column amount \<longleftrightarrow> column \<in> bucket_columns
     \<and> (\<forall>k r start ifindex interface inbound outbound.
          column (bucket_row k r start ifindex interface inbound outbound) = sint (amount inbound outbound))"

lemma holds_amounts:
  "holds_amount bk_in_packets (\<lambda>i out. tc_packets i)" "holds_amount bk_in_bytes (\<lambda>i out. tc_bytes i)"
  "holds_amount bk_out_packets (\<lambda>i out. tc_packets out)" "holds_amount bk_out_bytes (\<lambda>i out. tc_bytes out)"
  by (simp_all add: holds_amount_def bucket_columns_def bucket_row_def)

definition slot_of :: "'k \<Rightarrow> resolution \<Rightarrow> int \<Rightarrow> 'k \<times> resolution \<times> int \<times> int \<Rightarrow> bool" where
  "slot_of k r start slot \<longleftrightarrow> (case slot of (k', r', start', _) \<Rightarrow> k' = k \<and> r' = r \<and> start' = start)"

lemma slots_count: "slots_distinct rows \<Longrightarrow> slots_distinct (count_traffic k at ifindex interface inbound outbound rows)"
  by (simp add: count_traffic_def slots_upsert)

lemma slots_run: "slots_distinct (fold run_bucket_event events rows)" if "slots_distinct rows"
  using that
proof (induction events arbitrary: rows)
  case (Cons e events)
  then show ?case by (cases e) (simp_all add: slots_count slots_purge)
qed simp

lemma sum_count:
  assumes "slots_distinct rows" "holds_amount column amount"
  shows "(\<Sum>b \<leftarrow> count_traffic k' at ifindex interface inbound outbound rows. if slot_of k r start (bucket_slot b) then column b else 0)
    = (\<Sum>b \<leftarrow> rows. if slot_of k r start (bucket_slot b) then column b else 0)
      + (if k' = k \<and> unix_millis (truncate_time at (step_seconds r)) = start then sint (amount inbound outbound) else 0)"
proof -
  have c: "column \<in> bucket_columns" "column (bucket_row k r st ifindex interface inbound outbound) = sint (amount inbound outbound)" for k r st
    using assms(2) by (simp_all add: holds_amount_def)
  show ?thesis
    by (cases r) (simp_all add: count_traffic_def sum_upsert_slot slots_upsert assms(1) c, simp_all add: slot_of_def bucket_slot_def bucket_row_def)
qed

lemma sum_purge:
  assumes "now_ms - bucket_retention r \<le> start"
  shows "(\<Sum>b \<leftarrow> purge_buckets now_ms rows. if slot_of k r start (bucket_slot b) then column b else (0 :: int))
    = (\<Sum>b \<leftarrow> rows. if slot_of k r start (bucket_slot b) then column b else 0)"
proof (induction rows)
  case (Cons b rows)
  have "purge_buckets now_ms (b # rows) = purge_buckets now_ms [b] @ purge_buckets now_ms rows" by (simp add: purge_buckets_def)
  moreover have "(\<Sum>b \<leftarrow> purge_buckets now_ms [b]. if slot_of k r start (bucket_slot b) then column b else (0 :: int))
      = (if slot_of k r start (bucket_slot b) then column b else 0)"
    using assms by (auto simp: purge_buckets_def slot_of_def bucket_slot_def)
  ultimately show ?case using Cons by simp
qed (simp add: purge_buckets_def)

lemma word_of_int_sint_add: "word_of_int (n + sint w) = word_of_int n + (w :: u64)"
  by (simp add: wi_hom_add [symmetric])

lemma sum_run:
  assumes "slots_distinct rows" "holds_amount column amount"
    and "\<And>t. BucketsPurged t \<in> set events \<Longrightarrow> unix_millis t - bucket_retention r \<le> start"
  shows "word_of_int (\<Sum>b \<leftarrow> fold run_bucket_event events rows. if slot_of k r start (bucket_slot b) then column b else 0)
    = word_of_int (\<Sum>b \<leftarrow> rows. if slot_of k r start (bucket_slot b) then column b else 0)
      + (\<Sum>e \<leftarrow> events. counted_in r k start amount e)"
  using assms(1,3)
proof (induction events arbitrary: rows)
  case (Cons e events)
  have d: "slots_distinct (run_bucket_event e rows)" using slots_run [OF Cons.prems(1), of "[e]"] by simp
  have "word_of_int (\<Sum>b \<leftarrow> run_bucket_event e rows. if slot_of k r start (bucket_slot b) then column b else 0)
      = word_of_int (\<Sum>b \<leftarrow> rows. if slot_of k r start (bucket_slot b) then column b else 0) + counted_in r k start amount e"
  proof (cases e)
    case (TrafficCounted k' at ifindex interface inbound outbound)
    then show ?thesis using sum_count [OF Cons.prems(1) assms(2)] by (simp add: word_of_int_sint_add)
  next
    case (BucketsPurged t)
    then show ?thesis using sum_purge [of "unix_millis t" r start k column rows] Cons.prems(2) by simp
  qed
  then show ?case using Cons.IH [OF d] Cons.prems(2) by simp
qed simp

section \<open>A timeline reports what was counted\<close>

lemma cutoff_in_range:
  assumes "0 \<le> now" "now < 2 ^ 63 * 1000000000"
  shows "unix_millis now - range_seconds window * 1000 \<le> unix_millis (range_cutoff window now)"
proof -
  let ?s = "range_seconds window"
  have s: "0 \<le> ?s" "?s \<le> 604800" by (simp_all add: range_seconds_def)
  then have c: "range_cutoff window now = now - ?s * 1000000000" using assms by (simp add: range_cutoff_def system_checked_def)
  have "unix_millis now = min (now div 1000000) I64_MAX" using assms(1) by (simp add: unix_millis_def)
  moreover have "min (now div 1000000) I64_MAX - ?s * 1000 \<le> unix_millis (now - ?s * 1000000000)"
  proof (cases "0 \<le> now - ?s * 1000000000")
    case True
    have "(now - ?s * 1000000000) div 1000000 = now div 1000000 - ?s * 1000"
      using div_mult_self1 [of 1000000 now "- (?s * 1000)"] by (simp add: algebra_simps)
    then show ?thesis using True s(1) by (auto simp: unix_millis_def I64_MAX_def min_def)
  next
    case False
    have "(?s * 1000000000 - now) div 1000000 = ?s * 1000 + (- now) div 1000000"
      using div_mult_self1 [of 1000000 "- now" "?s * 1000"] by (simp add: algebra_simps)
    moreover have "(- now) div 1000000 \<le> - (now div 1000000)" by linarith
    ultimately show ?thesis using False by (simp add: unix_millis_def min_def)
  qed
  ultimately show ?thesis using c by simp
qed

text \<open>Every bucket of a range is kept: the range ends at a time of the policy or later.\<close>

lemma range_is_kept:
  assumes "0 \<le> now" "now < 2 ^ 63 * 1000000000" "t \<le> now"
  shows "unix_millis t - bucket_retention (range_resolution window)
    \<le> floor_ms (step_ms (range_resolution window)) (unix_millis (range_cutoff window now))"
proof -
  let ?r = "range_resolution window" and ?c = "unix_millis (range_cutoff window now)"
  have "?c - step_ms ?r \<le> floor_ms (step_ms ?r) ?c"
    using mult_div_mod_eq [of "step_ms ?r" ?c] pos_mod_bound [of "step_ms ?r" ?c]
    by (cases ?r) (simp_all add: floor_ms_def step_ms_def mult.commute)
  moreover have "range_seconds window * 1000 + step_ms ?r \<le> bucket_retention ?r"
    by (simp add: range_resolution_def range_seconds_def step_ms_def bucket_retention_def MINUTE_BUCKET_RETENTION_MS_def
        HOUR_BUCKET_RETENTION_MS_def)
  ultimately show ?thesis
    using cutoff_in_range [OF assms(1,2), of window] unix_millis_mono [OF assms(3)] by linarith
qed

lemma start_in_range:
  assumes "at \<in> set (timeline_starts window now)"
  shows "floor_ms (step_ms (range_resolution window)) (unix_millis (range_cutoff window now)) \<le> at"
    "at \<le> floor_ms (step_ms (range_resolution window)) (unix_millis now)"
proof -
  let ?step = "step_ms (range_resolution window)"
  let ?s = "floor_ms ?step (unix_millis (range_cutoff window now))" and ?l = "floor_ms ?step (unix_millis now)"
  have p: "0 < ?step" by (cases "range_resolution window") (simp_all add: step_ms_def)
  have "at \<in> (\<lambda>i. ?s + int i * ?step) ` set [0..<nat ((?l - ?s) div ?step + 1)]"
    using assms by (simp add: timeline_starts_def Let_def del: set_upt)
  then obtain i where i: "at = ?s + int i * ?step" "i \<in> set [0..<nat ((?l - ?s) div ?step + 1)]" by (rule imageE)
  then have "int i \<le> (?l - ?s) div ?step" by simp
  then have "int i * ?step \<le> (?l - ?s) div ?step * ?step" using p by (intro mult_right_mono) simp_all
  also have "\<dots> \<le> ?l - ?s" using p div_mult_mod_eq [of "?l - ?s" ?step] pos_mod_sign [of ?step "?l - ?s"] by linarith
  finally have "int i * ?step \<le> ?l - ?s" .
  then show "?s \<le> at" "at \<le> ?l" using i(1) p by (simp_all)
qed

text \<open>
  C36: after any run of intervals and policy runs that are not later than it, an unfiltered timeline has one point for each step
  of its range, in order, with exactly the traffic of its key that the run counted in that step: deletion never takes a bucket
  that can still be asked for, and no update is counted twice or under another step.
\<close>

theorem timeline_reports_traffic:
  assumes "0 \<le> now" "now < 2 ^ 63 * 1000000000" "\<And>t. BucketsPurged t \<in> set events \<Longrightarrow> t \<le> now"
  shows "tl_points (buckets_timeline window now k None (fold run_bucket_event events []))
    = map (traffic_point events (range_resolution window) k) (timeline_starts window now)"
proof -
  let ?r = "range_resolution window" and ?rows = "fold run_bucket_event events []"
  let ?step = "step_ms ?r"
  let ?s = "floor_ms ?step (unix_millis (range_cutoff window now))" and ?l = "floor_ms ?step (unix_millis now)"
  let ?asked = "filter (\<lambda>b. bk_resolution b = ?r \<and> ?s \<le> bk_start_ms b \<and> bk_start_ms b \<le> ?l \<and> bk_key b = k) ?rows"
  have p: "0 < ?step" by (cases ?r) (simp_all add: step_ms_def)
  have "(case stored_points ?asked at of Some p \<Rightarrow> p | None \<Rightarrow> empty_point at) = traffic_point events ?r k at"
    if at: "at \<in> set (timeline_starts window now)" for at
  proof -
    have f: "filter (\<lambda>b. bk_start_ms b = at) ?asked = filter (\<lambda>b. slot_of k ?r at (bucket_slot b)) ?rows"
      using start_in_range [OF at] by (auto simp: slot_of_def bucket_slot_def intro: filter_cong)
    have "(case stored_points ?asked at of Some p \<Rightarrow> p | None \<Rightarrow> empty_point at) = point_of (filter (\<lambda>b. slot_of k ?r at (bucket_slot b)) ?rows) at"
      unfolding stored_points_def f by (auto simp: empty_point_def point_of_def no_traffic_def split: list.split)
    moreover have "word_of_int (\<Sum>b \<leftarrow> filter (\<lambda>b. slot_of k ?r at (bucket_slot b)) ?rows. column b)
        = (\<Sum>e \<leftarrow> events. counted_in ?r k at amount e)" if "holds_amount column amount" for column amount
    proof -
      have "unix_millis t - bucket_retention ?r \<le> at" if "BucketsPurged t \<in> set events" for t
        using range_is_kept [OF assms(1,2) assms(3) [OF that], of window] start_in_range(1) [OF at] by linarith
      from sum_run [OF _ \<open>holds_amount column amount\<close> this, where rows = "[]" and k = k] show ?thesis
        by (simp add: slots_distinct_def sum_list_map_filter')
    qed
    ultimately show ?thesis by (simp add: point_of_def traffic_point_def Let_def holds_amounts)
  qed
  then have "map (\<lambda>at. case stored_points ?asked at of Some p \<Rightarrow> p | None \<Rightarrow> empty_point at) (timeline_starts window now)
      = map (traffic_point events ?r k) (timeline_starts window now)" by simp
  then show ?thesis
    by (simp add: buckets_timeline_def Let_def wants_def nonempty_def ordered_points_eq [OF p] timeline_starts_def comp_def)
qed

section \<open>Examples\<close>

definition hundred_bytes :: traffic_counters where
  "hundred_bytes = \<lparr>tc_packets = 1, tc_bytes = 100\<rparr>"

text \<open>Two updates in the same minute, one of them before the policy ran, and one an hour earlier.\<close>

definition counted_events :: "unit bucket_event list" where
  "counted_events =
     [TrafficCounted () 100000000000 2 ''eth0'' hundred_bytes no_traffic, TrafficCounted () 3660000000000 2 ''eth0'' hundred_bytes no_traffic,
      BucketsPurged 3661000000000, TrafficCounted () 3661000000000 3 ''eth1'' hundred_bytes no_traffic]"

lemma timeline_reports_traffic_witness:
  "map tp_start (tl_points (boundary_timeline ''15m'' None 3662000000000 (fold run_bucket_event counted_events [])))
     = map (\<lambda>i. 2760000 + int i * 60000) [0..<16]
   \<and> tc_bytes (tp_inbound (last (tl_points (boundary_timeline ''15m'' None 3662000000000 (fold run_bucket_event counted_events []))))) = 200"
proof -
  have s: "timeline_starts ''15m'' 3662000000000 = map (\<lambda>i. 2760000 + int i * 60000) [0..<16]"
    by (simp add: timeline_starts_def range_resolution_def range_seconds_def step_ms_def floor_ms_def unix_millis_def I64_MAX_def
        range_cutoff_def system_checked_def)
  have "tl_points (buckets_timeline ''15m'' 3662000000000 () None (fold run_bucket_event counted_events []))
      = map (traffic_point counted_events (range_resolution ''15m'') ()) (timeline_starts ''15m'' 3662000000000)"
    by (rule timeline_reports_traffic) (auto simp: counted_events_def)
  then show ?thesis
    by (simp add: boundary_timeline_def s traffic_point_def counted_events_def last_map comp_def truncate_time_def step_seconds_def
        range_resolution_def unix_millis_def I64_MAX_def hundred_bytes_def)
qed

end
