(* ===== verification/Flow_Summary.thy ===== *)
theory Flow_Summary
  imports Flow_Query
begin

text \<open>
  The aggregates of \<^verbatim>\<open>api/db.rs\<close> over the table of flows: the lists of endpoints, domains, applications and connections,
  and the summaries a tick carries. A group is a key and its rows; \<^verbatim>\<open>SUM\<close> adds integers, \<^verbatim>\<open>MAX\<close> ignores missing values.
  Proved: groups partition the rows, so that what the entries of a list sum up is what the flows that satisfy the
  query sum up, in both directions; the two directions of an exchange are one entry, whose rate is the one the
  intervals count for it.
\<close>

section \<open>Groups\<close>

definition grouped :: "('a \<Rightarrow> 'k) \<Rightarrow> 'a list \<Rightarrow> ('k \<times> 'a list) list" where
  "grouped key rows = map (\<lambda>k. (k, filter (\<lambda>row. key row = k) rows)) (remdups (map key rows))"

definition max_of :: "'a :: linorder option list \<Rightarrow> 'a option" where
  "max_of vs = (case List.map_filter id vs of [] \<Rightarrow> None | w # ws \<Rightarrow> Some (fold max ws w))"

definition min_of :: "'a :: linorder option list \<Rightarrow> 'a option" where
  "min_of vs = (case List.map_filter id vs of [] \<Rightarrow> None | w # ws \<Rightarrow> Some (fold min ws w))"

text \<open>What every aggregate sums: packets, bytes, these of a direction, the number of flows and the time they span.\<close>

record flow_sums =
  fm_packets :: int
  fm_bytes :: int
  fm_in_packets :: int
  fm_in_bytes :: int
  fm_out_packets :: int
  fm_out_bytes :: int
  fm_count :: int
  fm_first_seen :: int
  fm_last_seen :: int

definition sum_where :: "flow_direction \<Rightarrow> (flow_row \<Rightarrow> int) \<Rightarrow> flow_row list \<Rightarrow> int" where
  "sum_where direction column rows = (\<Sum>row \<leftarrow> rows. if fr_direction row = direction then column row else 0)"

definition sums_of :: "flow_row list \<Rightarrow> flow_sums" where
  "sums_of rows =
     \<lparr>fm_packets = (\<Sum>row \<leftarrow> rows. fr_packets row), fm_bytes = (\<Sum>row \<leftarrow> rows. fr_bytes row),
      fm_in_packets = sum_where FlowInbound fr_packets rows, fm_in_bytes = sum_where FlowInbound fr_bytes rows,
      fm_out_packets = sum_where FlowOutbound fr_packets rows, fm_out_bytes = sum_where FlowOutbound fr_bytes rows,
      fm_count = int (length rows),
      fm_first_seen = Min (fr_first_seen_ms ` set rows), fm_last_seen = Max (fr_last_seen_ms ` set rows)\<rparr>"

record direction_totals =
  to_inbound :: traffic_counters
  to_outbound :: traffic_counters

text \<open>\<^verbatim>\<open>as u64\<close>\<close>

definition counters_dto :: "int \<Rightarrow> int \<Rightarrow> traffic_counters" where
  "counters_dto packets bytes = \<lparr>tc_packets = word_of_int packets, tc_bytes = word_of_int bytes\<rparr>"

definition totals_dto :: "flow_sums \<Rightarrow> direction_totals" where
  "totals_dto s = \<lparr>to_inbound = counters_dto (fm_in_packets s) (fm_in_bytes s), to_outbound = counters_dto (fm_out_packets s) (fm_out_bytes s)\<rparr>"

fun scope_text :: "address_scope \<Rightarrow> string" where
  "scope_text Public = ''public''"
| "scope_text Private = ''private''"
| "scope_text Shared = ''shared''"
| "scope_text FakeIp = ''fake_ip''"
| "scope_text address_scope.Loopback = ''loopback''"
| "scope_text LinkLocal = ''link_local''"
| "scope_text UniqueLocal = ''unique_local''"
| "scope_text Multicast = ''multicast''"
| "scope_text Broadcast = ''broadcast''"
| "scope_text Documentation = ''documentation''"
| "scope_text Reserved = ''reserved''"
| "scope_text Unspecified = ''unspecified''"

text \<open>\<^verbatim>\<open>MAX\<close> compares the texts of the scopes.\<close>

definition max_scope :: "flow_row list \<Rightarrow> address_scope" where
  "max_scope rows =
     (case sort_key scope_text (map fr_remote_scope rows) of [] \<Rightarrow> Reserved | scopes \<Rightarrow> last scopes)"

text \<open>The rates that the maps of the interval hold for an entity.\<close>

definition entity_rate :: "'f float_ops \<Rightarrow> 'f rates_table \<Rightarrow> entity \<Rightarrow> u64 \<times> u64" where
  "entity_rate fl table e = (case map_of table e of Some r \<Rightarrow> (inbound_bps fl r, outbound_bps fl r) | None \<Rightarrow> (0, 0))"

section \<open>Endpoints\<close>

record endpoint_summary =
  es_address :: string
  es_scope :: address_scope
  es_country :: "string option"
  es_region :: "string option"
  es_asn :: "u32 option"
  es_org :: "string option"
  es_sums :: flow_sums

definition remote_text :: "flow_row \<Rightarrow> string" where
  "remote_text row = ip_text (ep_address (fr_remote row))"

definition endpoint_summary :: "string \<times> flow_row list \<Rightarrow> endpoint_summary" where
  "endpoint_summary g =
     (let (address, rows) = g in
      \<lparr>es_address = address, es_scope = max_scope rows, es_country = max_of (map fr_country rows),
       es_region = max_of (map fr_region rows), es_asn = max_of (map fr_asn rows), es_org = max_of (map fr_org rows),
       es_sums = sums_of rows\<rparr>)"

definition opt_int :: "u32 option \<Rightarrow> sql_value" where
  "opt_int v = (case v of None \<Rightarrow> SqlNull | Some n \<Rightarrow> SqlInt (uint n))"

text \<open>The columns all four lists share.\<close>

definition sums_column :: "string \<Rightarrow> (flow_sums \<Rightarrow> sql_value) option" where
  "sums_column fld =
     (if fld = ''bytes'' then Some (\<lambda>s. SqlInt (fm_bytes s))
      else if fld = ''packets'' then Some (\<lambda>s. SqlInt (fm_packets s))
      else if fld = ''in_bytes'' then Some (\<lambda>s. SqlInt (fm_in_bytes s))
      else if fld = ''out_bytes'' then Some (\<lambda>s. SqlInt (fm_out_bytes s))
      else if fld = ''last_seen'' then Some (\<lambda>s. SqlInt (fm_last_seen s))
      else None)"

text \<open>\<open>parse\<close> reads the text of an address, as \<^verbatim>\<open>ip_sort_key\<close> does.\<close>

definition text_sort_key :: "string \<Rightarrow> sql_value" where
  "text_sort_key s = (case parse_ip_text s of None \<Rightarrow> SqlNull | Some a \<Rightarrow> SqlInt (ip_sort_key a))"

definition endpoint_column :: "stored_rates \<Rightarrow> string \<Rightarrow> (endpoint_summary \<Rightarrow> sql_value) option" where
  "endpoint_column rates fld =
     (case sums_column fld of
        Some column \<Rightarrow> Some (\<lambda>e. column (es_sums e))
      | None \<Rightarrow>
          if fld = ''address'' then Some (\<lambda>e. text_sort_key (es_address e))
          else if fld = ''country'' then Some (\<lambda>e. opt_text (es_country e))
          else if fld = ''organization'' then Some (\<lambda>e. opt_text (es_org e))
          else if fld = ''asn'' then Some (\<lambda>e. opt_int (es_asn e))
          else if is_rate fld then Some (\<lambda>e. rate_order rates ''endpoint'' (es_address e) fld)
          else None)"

text \<open>
  The rows a list of groups shows: refused or the groups of the rows that satisfy the query, ordered, the part of the page, and
  their number.
\<close>

definition group_rows ::
  "query_refusal api_error + ('r \<Rightarrow> bool) \<Rightarrow> (string \<Rightarrow> ('g \<Rightarrow> sql_value) option) \<Rightarrow> string option \<Rightarrow> string
     \<Rightarrow> ('r \<Rightarrow> 'k) \<Rightarrow> ('k \<times> 'r list \<Rightarrow> 'g) \<Rightarrow> ('g \<Rightarrow> 'o :: linorder) \<Rightarrow> nat \<Rightarrow> nat \<Rightarrow> 'r list
     \<Rightarrow> query_refusal api_error + ('g list \<times> nat)" where
  "group_rows clauses columns sort_by dflt key summary tie limit offset rows =
     (case clauses of
        Inl e \<Rightarrow> Inl e
      | Inr wanted \<Rightarrow>
          let groups = map summary (grouped key (filter wanted rows)); (fld, descending) = split_sort sort_by dflt in
          (case columns fld of
             None \<Rightarrow> Inl (ApiBadRequest (UnsupportedSort fld))
           | Some column \<Rightarrow> Inr (page_rows limit offset (ordered column tie descending groups), length groups)))"

definition endpoint_rows ::
  "stored_rates \<Rightarrow> system_time \<Rightarrow> flow_query \<Rightarrow> nat \<Rightarrow> nat \<Rightarrow> flow_row list \<Rightarrow> query_refusal api_error + (endpoint_summary list \<times> nat)" where
  "endpoint_rows rates now query =
     group_rows (flow_clauses query now True) (endpoint_column rates) (fq_sort query) ''-bytes'' remote_text endpoint_summary es_address"

definition TICK_AGGREGATE_LIMIT :: nat where "TICK_AGGREGATE_LIMIT = 256"

text \<open>The summaries of a tick: those of the touched keys, the largest first.\<close>

definition tick_groups :: "('r \<Rightarrow> 'k option) \<Rightarrow> ('k \<times> 'r list \<Rightarrow> 'g) \<Rightarrow> ('g \<Rightarrow> flow_sums) \<Rightarrow> ('g \<Rightarrow> string) \<Rightarrow> 'k set \<Rightarrow> 'r list \<Rightarrow> 'g list" where
  "tick_groups key summary sums name keys rows =
     take TICK_AGGREGATE_LIMIT
       (sort_key (\<lambda>g. (- fm_bytes (sums g), name g))
         (map summary (grouped (\<lambda>row. the (key row)) (filter (\<lambda>row. \<exists>k \<in> keys. key row = Some k) rows))))"

definition endpoint_summaries_for :: "string set \<Rightarrow> flow_row list \<Rightarrow> endpoint_summary list" where
  "endpoint_summaries_for addresses = tick_groups (\<lambda>row. Some (remote_text row)) endpoint_summary es_sums es_address addresses"

section \<open>Domains\<close>

text \<open>The join of the index of domains with the flows: a flow appears once for each of its names, with the entry of the index.\<close>

record joined =
  jo_domain :: string
  jo_evidence :: domain_evidence
  jo_confidence :: association_confidence
  jo_flow :: flow_row

definition joined_rows :: "flow_db \<Rightarrow> joined list" where
  "joined_rows db =
     concat (map (\<lambda>row. List.map_filter
         (\<lambda>d. map_option (\<lambda>(e, c). \<lparr>jo_domain = d, jo_evidence = e, jo_confidence = c, jo_flow = row\<rparr>) (fd_domains db (fr_id row, d)))
         (remdups (map dr_domain (fr_domains row)))) (fd_rows db))"

record domain_summary =
  ds_domain :: string
  ds_sums :: flow_sums
  ds_evidence :: "domain_evidence list"

definition domain_summary :: "string \<times> joined list \<Rightarrow> domain_summary" where
  "domain_summary g =
     (let (domain, rows) = g in
      \<lparr>ds_domain = domain, ds_sums = sums_of (map jo_flow rows), ds_evidence = remdups (map jo_evidence rows)\<rparr>)"

definition domain_column :: "stored_rates \<Rightarrow> string \<Rightarrow> (domain_summary \<Rightarrow> sql_value) option" where
  "domain_column rates fld =
     (case sums_column fld of
        Some column \<Rightarrow> Some (\<lambda>d. column (ds_sums d))
      | None \<Rightarrow>
          if fld = ''domain'' then Some (\<lambda>d. SqlText (domain_sort_key (ds_domain d)))
          else if fld = ''evidence'' then Some (\<lambda>d. SqlText (join_with '','' (map evidence_text (ds_evidence d))))
          else if is_rate fld then Some (\<lambda>d. rate_order rates ''domain'' (ds_domain d) fld)
          else None)"

text \<open>The predicates on the association apply to its entry in the index.\<close>

definition domain_clauses :: "flow_query \<Rightarrow> system_time \<Rightarrow> query_refusal api_error + (joined \<Rightarrow> bool)" where
  "domain_clauses query now =
     (case flow_clauses query now False of
        Inl e \<Rightarrow> Inl e
      | Inr wanted \<Rightarrow>
          Inr (\<lambda>j. wanted (jo_flow j)
            \<and> wants (map_option normalize_name (fq_domain query)) (\<lambda>d. jo_domain j = d)
            \<and> wants (fq_evidence query) (\<lambda>e. evidence_text (jo_evidence j) = e)
            \<and> wants (fq_confidence query) (\<lambda>c. confidence_text (jo_confidence j) = c)))"

definition domain_rows ::
  "stored_rates \<Rightarrow> system_time \<Rightarrow> flow_query \<Rightarrow> nat \<Rightarrow> nat \<Rightarrow> flow_db \<Rightarrow> query_refusal api_error + (domain_summary list \<times> nat)" where
  "domain_rows rates now query limit offset db =
     group_rows (domain_clauses query now) (domain_column rates) (fq_sort query) ''-bytes'' jo_domain domain_summary ds_domain limit offset
       (joined_rows db)"

definition domain_summaries_for :: "string set \<Rightarrow> flow_db \<Rightarrow> domain_summary list" where
  "domain_summaries_for domains db = tick_groups (\<lambda>j. Some (jo_domain j)) domain_summary ds_sums ds_domain domains (joined_rows db)"

section \<open>Applications\<close>

record application_summary =
  as_id :: string
  as_name :: string
  as_kind :: string
  as_exe :: "string option"
  as_comm :: "string option"
  as_uid :: "int option"
  as_container_id :: "string option"
  as_sums :: flow_sums

definition found_application :: "application_row list \<Rightarrow> string \<Rightarrow> application_row option" where
  "found_application applications i = List.find (\<lambda>a. ap_id a = i) applications"

definition application_summary :: "application_row list \<Rightarrow> string \<times> flow_row list \<Rightarrow> application_summary" where
  "application_summary applications g =
     (let (i, rows) = g; a = found_application applications i in
      \<lparr>as_id = i, as_name = (case nonempty (map_option ap_name a) of Some name \<Rightarrow> name | None \<Rightarrow> i),
       as_kind = (if map_option ap_kind a = Some ''container'' then ''container'' else ''process''),
       as_exe = Option.bind a ap_exe, as_comm = map_option ap_comm a, as_uid = map_option ap_uid a,
       as_container_id = Option.bind a ap_container_id, as_sums = sums_of rows\<rparr>)"

definition application_column :: "application_row list \<Rightarrow> stored_rates \<Rightarrow> string \<Rightarrow> (application_summary \<Rightarrow> sql_value) option" where
  "application_column applications rates fld =
     (case sums_column fld of
        Some column \<Rightarrow> Some (\<lambda>a. column (as_sums a))
      | None \<Rightarrow>
          if fld = ''flows'' then Some (\<lambda>a. SqlInt (fm_count (as_sums a)))
          else if fld = ''name''
               then Some (\<lambda>a. opt_text (map_option (to_ascii_lowercase \<circ> ap_name) (found_application applications (as_id a))))
          else if is_rate fld then Some (\<lambda>a. rate_order rates ''application'' (as_id a) fld)
          else None)"

definition application_search_text :: "application_row list \<Rightarrow> string \<Rightarrow> string" where
  "application_search_text applications i =
     (let a = found_application applications i in
      to_ascii_lowercase (spaced (or_empty (map_option ap_name a)) @ spaced (or_empty (Option.bind a ap_exe))
        @ spaced (or_empty (map_option ap_comm a)) @ i))"

text \<open>The search looks at the application instead of the flow; flows without one are left out.\<close>

definition application_clauses :: "application_row list \<Rightarrow> flow_query \<Rightarrow> system_time \<Rightarrow> query_refusal api_error + (flow_row \<Rightarrow> bool)" where
  "application_clauses applications query now =
     (case flow_clauses (query\<lparr>fq_q := None\<rparr>) now False of
        Inl e \<Rightarrow> Inl e
      | Inr wanted \<Rightarrow>
          Inr (\<lambda>row. wanted row
            \<and> (case fr_app_id row of
                 None \<Rightarrow> False
               | Some i \<Rightarrow> wants (search_of (fq_q query)) (contains_text (application_search_text applications i)))))"

definition application_rows ::
  "application_row list \<Rightarrow> stored_rates \<Rightarrow> system_time \<Rightarrow> flow_query \<Rightarrow> nat \<Rightarrow> nat \<Rightarrow> flow_row list
     \<Rightarrow> query_refusal api_error + (application_summary list \<times> nat)" where
  "application_rows applications rates now query =
     group_rows (application_clauses applications query now) (application_column applications rates) (fq_sort query) ''-bytes''
       (\<lambda>row. the (fr_app_id row)) (application_summary applications) as_id"

definition application_summaries_for :: "application_row list \<Rightarrow> string set \<Rightarrow> flow_row list \<Rightarrow> application_summary list" where
  "application_summaries_for applications ids = tick_groups fr_app_id (application_summary applications) as_sums as_id ids"

section \<open>Connections\<close>

definition push_domain :: "domain_ref list \<Rightarrow> domain_ref \<Rightarrow> domain_ref list" where
  "push_domain domains r =
     (if dr_domain r \<in> dr_domain ` set domains
      then map (\<lambda>d. if dr_domain d = dr_domain r
                    then d\<lparr>dr_evidence := (if evidence_rank (dr_evidence d) < evidence_rank (dr_evidence r) then dr_evidence r else dr_evidence d),
                           dr_confidence := (if dr_confidence r = Direct then Direct else dr_confidence d)\<rparr>
                    else d) domains
      else domains @ [r])"

definition evidence_service :: "domain_ref list \<Rightarrow> string option" where
  "evidence_service domains =
     (case List.map_filter (\<lambda>d. case dr_evidence d of TlsSniEvidence \<Rightarrow> Some ''TLS'' | HttpHostEvidence \<Rightarrow> Some ''HTTP'' | DnsEvidence \<Rightarrow> None) domains of
        [] \<Rightarrow> None | name # _ \<Rightarrow> Some name)"

definition row_pair :: "flow_row \<Rightarrow> string \<times> string" where
  "row_pair row =
     (let source = pair_side (fr_source row); destination = pair_side (fr_destination row) in
      (min source destination, max source destination))"

type_synonym connection_key = "protocol \<times> int \<times> string \<times> string"

definition connection_key_of :: "flow_row \<Rightarrow> connection_key" where
  "connection_key_of row = (fr_protocol row, fr_ifindex row, row_pair row)"

record connection =
  cn_id :: string
  cn_pair :: "string \<times> string"
  cn_protocol :: protocol
  cn_service :: "string option"
  cn_state :: string
  cn_end_reason :: "string option"
  cn_host :: endpoint_dto
  cn_remote :: endpoint_dto
  cn_scope :: address_scope
  cn_country :: "string option"
  cn_region :: "string option"
  cn_city :: "string option"
  cn_asn :: "u32 option"
  cn_org :: "string option"
  cn_version :: "string option"
  cn_enriched_at :: int
  cn_interface :: "string option"
  cn_sums :: flow_sums
  cn_rates :: "u64 \<times> u64"
  cn_duration_ms :: u64
  cn_domains :: "domain_ref list"
  cn_application :: "application_ref_dto option"
  cn_unattributed :: bool
  cn_stored_service :: "string option"
  cn_app_id :: "string option"
  cn_first_domain :: "string option"

definition host_of :: "flow_row \<Rightarrow> endpoint" where
  "host_of row = (case fr_direction row of FlowOutbound \<Rightarrow> fr_source row | FlowInbound \<Rightarrow> fr_destination row)"

definition max_endpoint :: "endpoint list \<Rightarrow> endpoint_dto" where
  "max_endpoint es =
     \<lparr>ed_address = or_empty (max_of (map (\<lambda>e. Some (ip_text (ep_address e))) es)), ed_port = max_of (map ep_port es)\<rparr>"

definition group_domains :: "flow_row list \<Rightarrow> domain_ref list" where
  "group_domains rows = sort_key dr_domain (foldl push_domain [] (concat (map fr_domains rows)))"

text \<open>The application of the outbound flows, else of any.\<close>

definition group_application :: "flow_row list \<Rightarrow> string option" where
  "group_application rows =
     coalesce (max_of (map fr_app_id (filter (\<lambda>row. fr_direction row = FlowOutbound) rows))) (max_of (map fr_app_id rows))"

definition application_of :: "application_row list \<Rightarrow> string \<Rightarrow> application_ref_dto" where
  "application_of applications i =
     (case found_application applications i of
        None \<Rightarrow> \<lparr>ad_id = i, ad_name = i, ad_kind = ''process''\<rparr>
      | Some a \<Rightarrow> \<lparr>ad_id = i, ad_name = (if ap_name a = [] then i else ap_name a),
                    ad_kind = (if ap_kind a = ''container'' then ''container'' else ''process'')\<rparr>)"

definition connection_of ::
  "'f float_ops \<Rightarrow> 'f rates_table \<Rightarrow> application_row list \<Rightarrow> connection_key \<times> flow_row list \<Rightarrow> connection" where
  "connection_of fl table applications g =
     (let ((protocol, ifindex, lo, hi), rows) = g; i = connection_id protocol ifindex lo hi; sums = sums_of rows;
          domains = group_domains rows; app = group_application rows; stored = max_of (map fr_service rows) in
      \<lparr>cn_id = i, cn_pair = (lo, hi), cn_protocol = protocol,
       cn_service = coalesce stored (evidence_service domains),
       cn_state = (if list_ex (\<lambda>row. fr_state row = ''active'') rows then ''active'' else ''ended''),
       cn_end_reason = max_of (map (map_option end_reason_text \<circ> fr_end_reason) rows),
       cn_host = max_endpoint (map host_of rows), cn_remote = max_endpoint (map fr_remote rows), cn_scope = max_scope rows,
       cn_country = max_of (map fr_country rows), cn_region = max_of (map fr_region rows), cn_city = max_of (map fr_city rows),
       cn_asn = max_of (map fr_asn rows), cn_org = max_of (map fr_org rows), cn_version = max_of (map fr_db_version rows),
       cn_enriched_at = Max (fr_enriched_at_ms ` set rows), cn_interface = max_of (map fr_interface rows), cn_sums = sums,
       cn_rates = entity_rate fl table (ConnectionEntity i),
       cn_duration_ms = word_of_int (max (fm_last_seen sums - fm_first_seen sums) 0), cn_domains = domains,
       cn_application = map_option (application_of applications) app,
       cn_unattributed = (app = None \<and> list_ex (\<lambda>row. fr_direction row = FlowInbound \<and> (fr_dst_scope row = Multicast \<or> fr_dst_scope row = Broadcast)) rows),
       cn_stored_service = stored, cn_app_id = app,
       cn_first_domain = min_of (map (\<lambda>row. case fr_domains row of [] \<Rightarrow> None | r # _ \<Rightarrow> Some (dr_domain r)) rows)\<rparr>)"

text \<open>The predicates on whole groups: the service, the state, and the noise of name lookups and short exchanges.\<close>

definition is_lookup :: "flow_row \<Rightarrow> bool" where
  "is_lookup row \<longleftrightarrow> ep_port (fr_source row) = Some 53 \<or> ep_port (fr_destination row) = Some 53"

definition having :: "flow_query \<Rightarrow> flow_row list \<Rightarrow> bool" where
  "having query rows =
     (wants (fq_service query) (\<lambda>s. column_is (max_of (map fr_service rows)) (nocase_eq s))
      \<and> wants (fq_state query) (\<lambda>s. list_ex (\<lambda>row. fr_state row = ''active'') rows \<longleftrightarrow> s = ''active'')
      \<and> (fq_hide_noise query = Some True
          \<longrightarrow> \<not> list_ex is_lookup rows \<and> 1000 \<le> fm_last_seen (sums_of rows) - fm_first_seen (sums_of rows)))"

definition connection_column :: "stored_rates \<Rightarrow> string \<Rightarrow> (connection \<Rightarrow> sql_value) option" where
  "connection_column rates fld =
     (case sums_column fld of
        Some column \<Rightarrow> Some (\<lambda>c. column (cn_sums c))
      | None \<Rightarrow>
          if fld = ''first_seen'' then Some (\<lambda>c. SqlInt (fm_first_seen (cn_sums c)))
          else if fld = ''duration_ms'' then Some (\<lambda>c. SqlInt (fm_last_seen (cn_sums c) - fm_first_seen (cn_sums c)))
          else if fld = ''service'' then Some (\<lambda>c. opt_text (cn_stored_service c))
          else if fld = ''application'' then Some (\<lambda>c. opt_text (cn_app_id c))
          else if fld = ''remote'' then Some (\<lambda>c. text_sort_key (ed_address (cn_remote c)))
          else if fld = ''domain'' then Some (\<lambda>c. opt_text (map_option domain_sort_key (cn_first_domain c)))
          else if is_rate fld then Some (\<lambda>c. rate_order rates ''connection'' (cn_id c) fld)
          else None)"

definition connection_rows ::
  "'f float_ops \<Rightarrow> 'f rates_table \<Rightarrow> application_row list \<Rightarrow> stored_rates \<Rightarrow> system_time \<Rightarrow> flow_query \<Rightarrow> nat \<Rightarrow> nat \<Rightarrow> flow_row list
     \<Rightarrow> query_refusal api_error + (connection list \<times> nat)" where
  "connection_rows fl table applications rates now query limit offset rows =
     (case flow_clauses (query\<lparr>fq_direction := None, fq_state := None, fq_service := None\<rparr>) now True of
        Inl e \<Rightarrow> Inl e
      | Inr wanted \<Rightarrow>
          let groups = map (connection_of fl table applications)
                (filter (\<lambda>(_, rows). having query rows) (grouped connection_key_of (filter wanted rows)));
              (fld, descending) = split_sort (fq_sort query) ''-last_seen'' in
          (case connection_column rates fld of
             None \<Rightarrow> Inl (ApiBadRequest (UnsupportedSort fld))
           | Some column \<Rightarrow> Inr (page_rows limit offset (ordered column cn_pair descending groups), length groups)))"

section \<open>The lists\<close>

text \<open>Every list reads the limit and the offset of its query first.\<close>

definition list_page ::
  "(nat \<Rightarrow> nat \<Rightarrow> query_refusal api_error + ('g list \<times> nat)) \<Rightarrow> flow_query \<Rightarrow> query_refusal api_error + 'g page" where
  "list_page rows_of query =
     (case page_limit (fq_limit query) of
        Inl e \<Rightarrow> Inl e
      | Inr limit \<Rightarrow>
          let offset = (case fq_offset query of Some n \<Rightarrow> n | None \<Rightarrow> 0) in
          (case rows_of limit offset of
             Inl e \<Rightarrow> Inl e
           | Inr (items, found) \<Rightarrow> Inr \<lparr>pg_items = items, pg_total = found, pg_limit = limit, pg_offset = offset\<rparr>))"

definition list_endpoints :: "stored_rates \<Rightarrow> system_time \<Rightarrow> flow_query \<Rightarrow> flow_row list \<Rightarrow> query_refusal api_error + endpoint_summary page" where
  "list_endpoints rates now query rows = list_page (\<lambda>limit offset. endpoint_rows rates now query limit offset rows) query"

definition list_domains :: "stored_rates \<Rightarrow> system_time \<Rightarrow> flow_query \<Rightarrow> flow_db \<Rightarrow> query_refusal api_error + domain_summary page" where
  "list_domains rates now query db = list_page (\<lambda>limit offset. domain_rows rates now query limit offset db) query"

definition list_applications ::
  "application_row list \<Rightarrow> stored_rates \<Rightarrow> system_time \<Rightarrow> flow_query \<Rightarrow> flow_row list \<Rightarrow> query_refusal api_error + application_summary page" where
  "list_applications applications rates now query rows =
     list_page (\<lambda>limit offset. application_rows applications rates now query limit offset rows) query"

definition list_connections ::
  "'f float_ops \<Rightarrow> 'f rates_table \<Rightarrow> application_row list \<Rightarrow> stored_rates \<Rightarrow> system_time \<Rightarrow> flow_query \<Rightarrow> flow_row list
     \<Rightarrow> query_refusal api_error + connection page" where
  "list_connections fl table applications rates now query rows =
     list_page (\<lambda>limit offset. connection_rows fl table applications rates now query limit offset rows) query"

section \<open>Groups account for their rows\<close>

lemma keys_grouped [simp]: "map fst (grouped key rows) = remdups (map key rows)"
  by (simp add: grouped_def comp_def)

lemma sum_over_groups:
  fixes c :: "'a \<Rightarrow> int"
  shows "(\<Sum>g \<leftarrow> grouped key rows. \<Sum>row \<leftarrow> snd g. c row) = (\<Sum>row \<leftarrow> rows. c row)"
proof -
  have "(\<Sum>k \<in> K. \<Sum>row \<leftarrow> filter (\<lambda>row. key row = k) rows. c row) = (\<Sum>row \<leftarrow> rows. c row)"
    if "finite K" "key ` set rows \<subseteq> K" for K
    using that(2)
  proof (induction rows)
    case (Cons r rows)
    have "(\<Sum>k \<in> K. \<Sum>row \<leftarrow> filter (\<lambda>row. key row = k) (r # rows). c row)
        = (\<Sum>k \<in> K. (if key r = k then c r else 0) + (\<Sum>row \<leftarrow> filter (\<lambda>row. key row = k) rows. c row))"
      by (rule sum.cong) auto
    also have "\<dots> = (\<Sum>k \<in> K. if key r = k then c r else 0) + (\<Sum>row \<leftarrow> rows. c row)"
      using Cons by (simp add: sum.distrib)
    also have "(\<Sum>k \<in> K. if key r = k then c r else 0) = c r" using Cons.prems that(1) by (simp add: sum.delta')
    finally show ?case by simp
  qed simp
  from this [of "key ` set rows"] show ?thesis
    by (simp add: grouped_def comp_def sum_list_distinct_conv_sum_set)
qed

lemma sum_list_ordered: "(\<Sum>g \<leftarrow> ordered column key descending gs. (f g :: int)) = (\<Sum>g \<leftarrow> gs. f g)"
  by (metis mset_map mset_ordered sum_mset_sum_list)

lemma both_directions:
  "fm_bytes (sums_of rows) = fm_in_bytes (sums_of rows) + fm_out_bytes (sums_of rows)"
  "fm_packets (sums_of rows) = fm_in_packets (sums_of rows) + fm_out_packets (sums_of rows)"
proof -
  have "(\<Sum>row \<leftarrow> rows. c row) = sum_where FlowInbound c rows + sum_where FlowOutbound c rows" for c :: "flow_row \<Rightarrow> int"
  proof (induction rows)
    case (Cons row rows)
    then show ?case by (cases "fr_direction row") (simp_all add: sum_where_def)
  qed (simp add: sum_where_def)
  then show "fm_bytes (sums_of rows) = fm_in_bytes (sums_of rows) + fm_out_bytes (sums_of rows)"
    "fm_packets (sums_of rows) = fm_in_packets (sums_of rows) + fm_out_packets (sums_of rows)"
    by (simp_all add: sums_of_def)
qed

text \<open>What holds of every list of groups that shows all of them.\<close>

lemma group_rows_account:
  fixes rows :: "'r list" and flow :: "'r \<Rightarrow> flow_row" and tie :: "'g \<Rightarrow> 'o :: linorder"
  assumes "group_rows (Inr wanted) columns sort_by dflt key summary tie limit 0 rows = Inr (items, n)" "n \<le> limit"
    and "\<And>k rs. sums (summary (k, rs)) = sums_of (map flow rs)" "\<And>k rs. name (summary (k, rs)) = k"
  shows "(\<Sum>g \<leftarrow> items. fm_bytes (sums g)) = (\<Sum>row \<leftarrow> filter wanted rows. fr_bytes (flow row))"
    "(\<Sum>g \<leftarrow> items. fm_in_bytes (sums g)) = (\<Sum>row \<leftarrow> filter wanted rows. if fr_direction (flow row) = FlowInbound then fr_bytes (flow row) else 0)"
    "(\<Sum>g \<leftarrow> items. fm_count (sums g)) = int (length (filter wanted rows))"
    "distinct (map name items)" "name ` set items = key ` set (filter wanted rows)" "n = length items"
    "\<forall>g \<in> set items. sums g = sums_of (map flow (filter (\<lambda>row. key row = name g) (filter wanted rows)))"
proof -
  let ?gs = "grouped key (filter wanted rows)"
  obtain column descending where i: "items = page_rows limit 0 (ordered column tie descending (map summary ?gs))" "n = length ?gs"
    using assms(1) by (auto simp: group_rows_def Let_def split: option.splits prod.splits)
  then have all: "items = ordered column tie descending (map summary ?gs)" using assms(2) by (simp add: page_rows_def)
  have s: "(\<Sum>g \<leftarrow> items. (f (sums g) :: int)) = (\<Sum>g \<leftarrow> ?gs. f (sums_of (map flow (snd g))))" for f
  proof -
    have c: "sums (summary g) = sums_of (map flow (snd g))" for g using assms(3) [of "fst g" "snd g"] by simp
    have "(\<Sum>g \<leftarrow> items. f (sums g)) = (\<Sum>g \<leftarrow> map summary ?gs. f (sums g))" unfolding all by (rule sum_list_ordered)
    also have "\<dots> = (\<Sum>g \<leftarrow> ?gs. f (sums_of (map flow (snd g))))" by (simp add: comp_def c)
    finally show ?thesis .
  qed
  show "(\<Sum>g \<leftarrow> items. fm_bytes (sums g)) = (\<Sum>row \<leftarrow> filter wanted rows. fr_bytes (flow row))"
    unfolding s by (simp add: sums_of_def comp_def sum_over_groups)
  show "(\<Sum>g \<leftarrow> items. fm_in_bytes (sums g))
      = (\<Sum>row \<leftarrow> filter wanted rows. if fr_direction (flow row) = FlowInbound then fr_bytes (flow row) else 0)"
    unfolding s by (simp add: sums_of_def sum_where_def comp_def sum_over_groups)
  have "(\<Sum>g \<leftarrow> items. fm_count (sums g)) = (\<Sum>g \<leftarrow> ?gs. \<Sum>row \<leftarrow> snd g. 1)"
    unfolding s by (simp add: sums_of_def sum_list_triv)
  then show "(\<Sum>g \<leftarrow> items. fm_count (sums g)) = int (length (filter wanted rows))"
    unfolding sum_over_groups by (simp add: sum_list_triv)
  have "name (summary g) = fst g" for g using assms(4) [of "fst g" "snd g"] by simp
  then have names: "map name (map summary ?gs) = remdups (map key (filter wanted rows))"
    by (simp add: comp_def del: keys_grouped) (rule keys_grouped)
  have "mset (map name items) = mset (map name (map summary ?gs))" unfolding all mset_map mset_ordered ..
  then have "mset (map name items) = mset (remdups (map key (filter wanted rows)))" unfolding names .
  then show "distinct (map name items)" by (metis distinct_remdups mset_eq_imp_distinct_iff)
  show "name ` set items = key ` set (filter wanted rows)"
    using \<open>mset (map name items) = mset (remdups (map key (filter wanted rows)))\<close>
    by (metis list.set_map set_mset_mset set_remdups)
  show "n = length items" using all i(2) by simp
  show "\<forall>g \<in> set items. sums g = sums_of (map flow (filter (\<lambda>row. key row = name g) (filter wanted rows)))"
    using assms(3,4) by (auto simp: all grouped_def simp del: filter_filter)
qed


section \<open>What the lists show\<close>

text \<open>
  A list of endpoints that shows all its entries accounts for exactly the flows that satisfy the query: the addresses are
  distinct and are those of the flows, every entry sums up the flows of its address, in both directions, and together the
  entries sum up all of them.
\<close>

theorem endpoint_list_accounts:
  assumes "list_endpoints rates now query rows = Inr page" "flow_clauses query now True = Inr wanted"
    and "pg_offset page = 0" "pg_total page \<le> pg_limit page"
  shows "distinct (map es_address (pg_items page)) \<and> es_address ` set (pg_items page) = remote_text ` set (filter wanted rows)
    \<and> (\<forall>e \<in> set (pg_items page).
         es_sums e = sums_of (filter (\<lambda>row. remote_text row = es_address e) (filter wanted rows))
         \<and> fm_bytes (es_sums e) = fm_in_bytes (es_sums e) + fm_out_bytes (es_sums e)
         \<and> fm_packets (es_sums e) = fm_in_packets (es_sums e) + fm_out_packets (es_sums e))
    \<and> (\<Sum>e \<leftarrow> pg_items page. fm_bytes (es_sums e)) = (\<Sum>row \<leftarrow> filter wanted rows. fr_bytes row)
    \<and> (\<Sum>e \<leftarrow> pg_items page. fm_count (es_sums e)) = int (length (filter wanted rows))"
proof -
  obtain items n limit where l: "endpoint_rows rates now query limit 0 rows = Inr (items, n)" "n \<le> limit" "pg_items page = items"
    using assms(1,3,4) by (auto simp: list_endpoints_def list_page_def Let_def split: sum.splits prod.splits)
  have "endpoint_summary g = endpoint_summary (fst g, snd g)" for g by simp
  note acc = group_rows_account [where sums = es_sums and name = es_address and flow = "\<lambda>row. row",
      OF l(1) [unfolded endpoint_rows_def assms(2)] l(2)]
  have s: "es_sums (endpoint_summary (k, rs)) = sums_of (map (\<lambda>row. row) rs)" "es_address (endpoint_summary (k, rs)) = k" for k rs
    by (simp_all add: endpoint_summary_def)
  have each: "\<forall>e \<in> set items. es_sums e = sums_of (filter (\<lambda>row. remote_text row = es_address e) (filter wanted rows))"
    using acc(7) [OF s] by (simp del: filter_filter)
  show ?thesis
    using acc(1) [OF s] acc(3) [OF s] acc(4) [OF s] acc(5) [OF s] each both_directions unfolding l(3) by metis
qed

text \<open>The key of a connection is its unordered pair of endpoints, with the protocol and the interface.\<close>

lemma connection_key_eq_iff:
  "connection_key_of r = connection_key_of row \<longleftrightarrow>
     fr_protocol r = fr_protocol row \<and> fr_ifindex r = fr_ifindex row
     \<and> {pair_side (fr_source r), pair_side (fr_destination r)} = {pair_side (fr_source row), pair_side (fr_destination row)}"
  by (auto simp: connection_key_of_def row_pair_def Let_def min_def max_def doubleton_eq_iff split: if_splits)

lemma row_pair_of_update: "row_pair (flow_row_of wv rid update p refs a) = connection_pair (fu_key update)"
  by (auto simp: row_pair_def connection_pair_def flow_row_of_def Let_def min_def max_def)

text \<open>
  C40: where the list of connections shows all its entries, every flow that satisfies the query is in one whose identifier is
  that of its protocol, interface and pair of endpoints, unless the predicates on whole connections leave it out; that entry
  sums up exactly the flows between these two endpoints, whichever of them is the source.
\<close>

theorem connection_list_merges_directions:
  assumes "connection_rows fl table applications rates now query limit 0 rows = Inr (items, n)" "n \<le> limit"
    and "flow_clauses (query\<lparr>fq_direction := None, fq_state := None, fq_service := None\<rparr>) now True = Inr wanted"
    and "row \<in> set rows" "wanted row"
    and "exchange = filter (\<lambda>r. wanted r \<and> fr_protocol r = fr_protocol row \<and> fr_ifindex r = fr_ifindex row
           \<and> {pair_side (fr_source r), pair_side (fr_destination r)} = {pair_side (fr_source row), pair_side (fr_destination row)}) rows"
    and "having query exchange"
  shows "\<exists>c \<in> set items. cn_id c = connection_id (fr_protocol row) (fr_ifindex row) (fst (row_pair row)) (snd (row_pair row))
    \<and> cn_sums c = sums_of exchange \<and> fm_bytes (cn_sums c) = fm_in_bytes (cn_sums c) + fm_out_bytes (cn_sums c)
    \<and> cn_rates c = entity_rate fl table (ConnectionEntity (cn_id c))"
proof -
  let ?g = "(connection_key_of row, filter (\<lambda>r. connection_key_of r = connection_key_of row) (filter wanted rows))"
  have e: "snd ?g = exchange"
    unfolding assms(6) by (auto simp: connection_key_eq_iff filter_filter intro!: filter_cong)
  have "?g \<in> set (grouped connection_key_of (filter wanted rows))"
    using assms(4,5) by (auto simp: grouped_def)
  moreover have "having query (snd ?g)" unfolding e by (rule assms(7))
  ultimately have "connection_of fl table applications ?g
      \<in> set (map (connection_of fl table applications) (filter (\<lambda>(_, rows). having query rows) (grouped connection_key_of (filter wanted rows))))"
    by (auto simp del: filter_filter)
  moreover have "set items = set (map (connection_of fl table applications)
      (filter (\<lambda>(_, rows). having query rows) (grouped connection_key_of (filter wanted rows))))"
    using assms(1,2) unfolding connection_rows_def assms(3)
    by (auto simp: Let_def page_rows_def set_ordered split: option.splits prod.splits)
  moreover have "cn_sums (connection_of fl table applications ?g) = sums_of exchange"
    unfolding e [symmetric] by (simp add: connection_of_def connection_key_of_def Let_def del: filter_filter split: prod.split)
  moreover have "cn_id (connection_of fl table applications ?g)
      = connection_id (fr_protocol row) (fr_ifindex row) (fst (row_pair row)) (snd (row_pair row))"
    by (simp add: connection_of_def connection_key_of_def Let_def del: filter_filter split: prod.split)
  moreover have "cn_rates (connection_of fl table applications ?g)
      = entity_rate fl table (ConnectionEntity (cn_id (connection_of fl table applications ?g)))"
    by (simp add: connection_of_def Let_def del: filter_filter split: prod.split)
  ultimately show ?thesis using both_directions by metis
qed

section \<open>Examples\<close>

lemma every_flow_clauses: "\<exists>wanted. flow_clauses every_flow now True = Inr wanted \<and> (\<forall>row. wanted row)"
  by (simp add: flow_clauses_def time_clause_def every_flow_def list_query_def row_clauses_def wants_def search_of_def nonempty_def
      association_clauses_def)

lemma every_flow_sort: "split_sort (fq_sort every_flow) ''-bytes'' = (''bytes'', True)"
  "split_sort (fq_sort every_flow) ''-last_seen'' = (''last_seen'', True)"
  by (simp_all add: every_flow_def list_query_def split_sort_def strip_prefix_def starts_with_def)

lemma endpoint_list_accounts_witness:
  "case list_endpoints [] 0 every_flow example_rows of
     Inl e \<Rightarrow> False
   | Inr page \<Rightarrow> (\<Sum>e \<leftarrow> pg_items page. fm_count (es_sums e)) = 3 \<and> distinct (map es_address (pg_items page))"
proof -
  obtain wanted where w: "flow_clauses every_flow 0 True = Inr wanted" "\<And>row. wanted row" using every_flow_clauses [of 0] by blast
  have l: "page_limit (fq_limit every_flow) = Inr DEFAULT_PAGE_LIMIT" "fq_offset every_flow = None"
    by (simp_all add: every_flow_def list_query_def page_limit_def DEFAULT_PAGE_LIMIT_def MAX_PAGE_LIMIT_def)
  obtain page where p: "list_endpoints [] 0 every_flow example_rows = Inr page" "pg_offset page = 0" "pg_limit page = DEFAULT_PAGE_LIMIT"
      "pg_total page = length (grouped remote_text example_rows)"
    by (simp add: list_endpoints_def list_page_def l endpoint_rows_def group_rows_def w every_flow_sort endpoint_column_def sums_column_def)
  have "length (grouped remote_text example_rows) \<le> 3"
    using length_remdups_leq [of "map remote_text example_rows"] by (simp add: grouped_def example_rows_def del: length_remdups_leq)
  then have "pg_total page \<le> pg_limit page" using p by (simp add: DEFAULT_PAGE_LIMIT_def)
  from endpoint_list_accounts [OF p(1) w(1) p(2) this] show ?thesis
    using w(2) by (simp add: p(1)) (simp add: example_rows_def)
qed

text \<open>A flow and its reply are one connection.\<close>

definition example_reply :: flow_row where
  "example_reply = (example_flow 8 40)\<lparr>fr_direction := FlowInbound, fr_source := fr_destination (example_flow 8 40),
     fr_destination := fr_source (example_flow 8 40), fr_packets := 5\<rparr>"

lemma connection_list_merges_directions_witness:
  "case connection_rows second_ops [] [] [] 0 every_flow 10 0 [example_flow 7 30, example_reply] of
     Inl e \<Rightarrow> False
   | Inr (items, n) \<Rightarrow> \<exists>c \<in> set items. cn_sums c = sums_of [example_flow 7 30, example_reply]"
proof -
  let ?rows = "[example_flow 7 30, example_reply]"
  have q: "every_flow\<lparr>fq_direction := None, fq_state := None, fq_service := None\<rparr> = every_flow"
    "fq_service every_flow = None" "fq_state every_flow = None" "fq_hide_noise every_flow = None"
    by (simp_all add: every_flow_def list_query_def)
  obtain wanted where w: "flow_clauses every_flow 0 True = Inr wanted" "\<And>row. wanted row" using every_flow_clauses [of 0] by blast
  have h: "having every_flow rs" for rs by (simp add: having_def q wants_def)
  obtain items n where c: "connection_rows second_ops [] [] [] 0 every_flow 10 0 ?rows = Inr (items, n)"
      "n = length (grouped connection_key_of ?rows)"
    by (simp add: connection_rows_def q w h every_flow_sort connection_column_def sums_column_def Let_def case_prod_beta)
  have n: "n \<le> 10"
    unfolding c(2) using length_remdups_leq [of "map connection_key_of ?rows"] by (simp add: grouped_def del: length_remdups_leq)
  have e: "?rows = filter (\<lambda>r. wanted r \<and> fr_protocol r = fr_protocol (example_flow 7 30) \<and> fr_ifindex r = fr_ifindex (example_flow 7 30)
      \<and> {pair_side (fr_source r), pair_side (fr_destination r)}
          = {pair_side (fr_source (example_flow 7 30)), pair_side (fr_destination (example_flow 7 30))}) ?rows"
    by (simp add: w(2) example_reply_def example_flow_def insert_commute)
  show ?thesis
    using connection_list_merges_directions [OF c(1) n _ _ _ e h, unfolded q, OF w(1)] w(2) by (auto simp: c(1))
qed

end
