(* ===== verification/Ingest.thy ===== *)
theory Ingest
  imports History
begin

text \<open>
  What holds of the intervals of \<^verbatim>\<open>Db::ingest\<close> and of runs of them, whatever fails in them.
\<close>

section \<open>What an interval does to the tables\<close>

lemma fold_fst:
  "(\<And>u st. p (f u st) = g u (p st)) \<Longrightarrow> p (fold f us st) = fold g us (p st)"
  by (induction us arbitrary: st) simp_all

lemma begin_interval_tables [simp]:
  "hi_db (begin_interval fl inp batch h) = hi_db h" "hi_traffic (begin_interval fl inp batch h) = hi_traffic h"
  "hi_entities (begin_interval fl inp batch h) = hi_entities h" "hi_applications (begin_interval fl inp batch h) = hi_applications h"
  "hi_tick_details (begin_interval fl inp batch h) = hi_tick_details h" "hi_last_policy_at (begin_interval fl inp batch h) = hi_last_policy_at h"
  by (simp_all add: begin_interval_def)

lemma written_row:
  "fr_id (flow_row_of wv rid u p refs a) = rid" "fr_state (flow_row_of wv rid u p refs a) = flow_state_name (fu_state u)"
  by (simp_all add: flow_row_of_def Let_def)

lemma upsert_flow_row:
  "\<exists>row. fst (upsert_flow wv observations rid u st) = sql_upsert row (fst st) \<and> fr_id row = rid \<and> fr_state row = flow_state_name (fu_state u)"
proof -
  have "\<exists>p refs a. fst (upsert_flow wv observations rid u st) = sql_upsert (flow_row_of wv rid u p refs a) (fst st)"
    by (cases st) (auto simp: upsert_flow_def Let_def split: prod.split)
  then show ?thesis by (metis written_row)
qed

text \<open>The rows an interval writes carry the identifiers and the states of its updates, in their order.\<close>

lemma store_flows_rows:
  "\<exists>news. fst (fst (fold (store_flow fl inp wv observations) us st)) = fold sql_upsert news (fst (fst st))
     \<and> map fr_id news = map (\<lambda>u. ii_flow_id inp (fu_key u)) us \<and> map fr_state news = map (\<lambda>u. flow_state_name (fu_state u)) us"
proof (induction us arbitrary: st)
  case (Cons u us)
  obtain row where row: "fst (fst (store_flow fl inp wv observations u st)) = sql_upsert row (fst (fst st))"
      "fr_id row = ii_flow_id inp (fu_key u)" "fr_state row = flow_state_name (fu_state u)"
    using upsert_flow_row [of wv observations "ii_flow_id inp (fu_key u)" u "fst st"] by (auto simp: store_flow_def)
  obtain news where "fst (fst (fold (store_flow fl inp wv observations) us (store_flow fl inp wv observations u st)))
        = fold sql_upsert news (fst (fst (store_flow fl inp wv observations u st)))"
      "map fr_id news = map (\<lambda>u. ii_flow_id inp (fu_key u)) us" "map fr_state news = map (\<lambda>u. flow_state_name (fu_state u)) us"
    using Cons by blast
  then show ?case using row by (intro exI [of _ "row # news"]) simp
qed simp

text \<open>Its first statements change the associations only.\<close>

lemma reassociate_rows:
  "map (\<lambda>row. row\<lparr>fr_domains := []\<rparr>) (fd_rows (fold (reassociate now observations) changed db)) = map (\<lambda>row. row\<lparr>fr_domains := []\<rparr>) (fd_rows db)"
proof (induction changed arbitrary: db)
  case (Cons c changed)
  have "map (\<lambda>row. row\<lparr>fr_domains := []\<rparr>) (fd_rows (reassociate now observations c db)) = map (\<lambda>row. row\<lparr>fr_domains := []\<rparr>) (fd_rows db)"
    by (auto simp: reassociate_def associate_rows_def sql_update_def Let_def split: prod.split)
  then show ?case using Cons by simp
qed simp

lemma reassociate_ok: "flow_db_ok db \<Longrightarrow> flow_db_ok (fold (reassociate now observations) changed db)"
  by (induction changed arbitrary: db) (simp_all add: reassociate_def associate_rows_def sql_update_ok split: prod.split)

lemma store_interval_db:
  assumes "store_interval fl inp batch h = (stored, touched, h')"
  obtains news db where "hi_db h' = fold sql_upsert news db" "map (\<lambda>row. row\<lparr>fr_domains := []\<rparr>) (fd_rows db) = map (\<lambda>row. row\<lparr>fr_domains := []\<rparr>) (fd_rows (hi_db h))"
    "flow_db_ok (hi_db h) \<Longrightarrow> flow_db_ok db"
    "map fr_id news = map (\<lambda>u. ii_flow_id inp (fu_key u)) (cb_flows batch)" "map fr_state news = map (\<lambda>u. flow_state_name (fu_state u)) (cb_flows batch)"
    "set (map (\<lambda>u. ii_flow_id inp (fu_key u)) (cb_flows batch)) \<subseteq> set touched"
proof -
  have "\<exists>observations changed. hi_db h' = fst (fst (store_batch fl inp observations changed (cb_flows batch) (begin_interval fl inp batch h)))"
    using assms by (auto simp: store_interval_def Let_def split: prod.splits) (metis fst_conv)
  then obtain observations changed
    where o: "hi_db h' = fst (fst (store_batch fl inp observations changed (cb_flows batch) (begin_interval fl inp batch h)))" by blast
  have t: "set (map (\<lambda>u. ii_flow_id inp (fu_key u)) (cb_flows batch)) \<subseteq> set touched"
    using assms by (auto simp: store_interval_def Let_def split: prod.splits)
  let ?db = "fold (reassociate (ii_now_system inp) observations) changed (hi_db h)"
  obtain news where n: "hi_db h' = fold sql_upsert news ?db" "map fr_id news = map (\<lambda>u. ii_flow_id inp (fu_key u)) (cb_flows batch)"
      "map fr_state news = map (\<lambda>u. flow_state_name (fu_state u)) (cb_flows batch)"
    using store_flows_rows [of fl inp "writer_view_of inp (begin_interval fl inp batch h)" observations "cb_flows batch"
        "((?db, hi_applications h, hi_writer (begin_interval fl inp batch h), Map.empty), hi_entity_rates (begin_interval fl inp batch h))"]
    unfolding o store_batch_def by auto
  show ?thesis by (rule that [OF n(1) reassociate_rows reassociate_ok n(2,3) t])
qed

lemma store_interval_tables:
  assumes "store_interval fl inp batch h = (stored, touched, h')"
  shows "hi_traffic h' = hi_traffic h" "hi_entities h' = hi_entities h" "hi_tick_details h' = hi_tick_details h"
    "hi_last_policy_at h' = hi_last_policy_at h"
  using assms by (auto simp: store_interval_def Let_def split: prod.splits)

lemma rolled_back_tables [simp]:
  "hi_db (rolled_back fl inp n batch h) = hi_db h" "hi_traffic (rolled_back fl inp n batch h) = hi_traffic h"
  "hi_entities (rolled_back fl inp n batch h) = hi_entities h" "hi_tick_details (rolled_back fl inp n batch h) = hi_tick_details h"
  by (simp_all add: rolled_back_def split: prod.split)

lemma tell_clients_facts:
  assumes "tell_clients fl publish batch stored observations deltas updated h = (event, h')"
  shows "\<exists>details. fold (tick_flow deltas) updated (hi_tick_details h, [], {}) = (details, se_flows event, se_patched_flows event)
      \<and> (hi_tick_details h' = details \<or> hi_tick_details h' = [])"
    "hi_db h' = hi_db h" "hi_traffic h' = hi_traffic h" "hi_entities h' = hi_entities h"
proof -
  obtain details flows patches where f: "fold (tick_flow deltas) updated (hi_tick_details h, [], {}) = (details, flows, patches)"
    by (metis prod_cases3)
  have s: "se_flows (summarized fl h c st m e) = se_flows e" "se_patched_flows (summarized fl h c st m e) = se_patched_flows e" for c st m e
    by (simp_all add: summarized_def Let_def)
  have e: "se_flows event = flows" "se_patched_flows event = patches"
    using assms by (auto simp: tell_clients_def f s Let_def split: if_splits)
  have h: "h' = h\<lparr>hi_tick_details := (if hi_flow_capacity h < length details then [] else details)\<rparr>"
    using assms by (simp add: tell_clients_def f Let_def)
  show "\<exists>details. fold (tick_flow deltas) updated (hi_tick_details h, [], {}) = (details, se_flows event, se_patched_flows event)
      \<and> (hi_tick_details h' = details \<or> hi_tick_details h' = [])"
    unfolding e by (intro exI [of _ details]) (simp add: f h)
  show "hi_db h' = hi_db h" "hi_traffic h' = hi_traffic h" "hi_entities h' = hi_entities h" by (simp_all add: h)
qed

text \<open>The end of an interval: it may stop before or after its traffic is counted, or make an event.\<close>

lemma finish_cases:
  assumes "finish_interval fl inp publish batch stored touched h = (made, h')"
  obtains table deltas updated h1 where "deltas = flow_deltas (ii_flow_id inp) (cb_flows batch)"
    "updated = read_back fl h deltas (ended_ids (ii_flow_id inp) (cb_flows batch)) touched"
    "h1 = h\<lparr>hi_entity_rates := table\<rparr> \<or> h1 = (count_traffic_of (cb_collected_at batch) (moved_flows deltas updated) (h\<lparr>hi_entity_rates := table\<rparr>))"
    "cb_flows batch = [] \<or> ii_fails inp = Some BucketsFail
      \<or> h1 = (count_traffic_of (cb_collected_at batch) (moved_flows deltas updated) (h\<lparr>hi_entity_rates := table\<rparr>))"
    "made = None \<and> h' = h1 \<or> (\<exists>rates. made = None \<and> h' = h1\<lparr>hi_stored_rates := rates\<rparr>)
      \<or> (\<exists>rates event. made = Some event
          \<and> tell_clients fl publish batch stored (map (observation_dto inp) stored) deltas updated (h1\<lparr>hi_stored_rates := rates\<rparr>) = (event, h'))"
proof -
  define deltas where "deltas = flow_deltas (ii_flow_id inp) (cb_flows batch)"
  define updated where "updated = read_back fl h deltas (ended_ids (ii_flow_id inp) (cb_flows batch)) touched"
  define table where "table = fold (count_entity_rates fl (ii_seconds inp) deltas) updated (hi_entity_rates h)"
  define counts where "counts \<longleftrightarrow> cb_flows batch \<noteq> [] \<and> ii_fails inp \<noteq> Some BucketsFail"
  define h1 where "h1 = (if counts then count_traffic_of (cb_collected_at batch) (moved_flows deltas updated) (h\<lparr>hi_entity_rates := table\<rparr>)
    else h\<lparr>hi_entity_rates := table\<rparr>)"
  show ?thesis
  proof (rule that [of deltas updated h1 table])
    show "made = None \<and> h' = h1 \<or> (\<exists>rates. made = None \<and> h' = h1\<lparr>hi_stored_rates := rates\<rparr>)
      \<or> (\<exists>rates event. made = Some event
          \<and> tell_clients fl publish batch stored (map (observation_dto inp) stored) deltas updated (h1\<lparr>hi_stored_rates := rates\<rparr>) = (event, h'))"
    proof (cases "cb_flows batch \<noteq> [] \<and> ii_fails inp = Some BucketsFail")
      case True
      then show ?thesis
        using assms by (simp add: finish_interval_def Let_def deltas_def [symmetric] updated_def [symmetric] table_def [symmetric] h1_def counts_def)
    next
      case False
      then have h1: "h1 = (if cb_flows batch = [] then h\<lparr>hi_entity_rates := table\<rparr>
          else count_traffic_of (cb_collected_at batch) (moved_flows deltas updated) (h\<lparr>hi_entity_rates := table\<rparr>))"
        by (auto simp: h1_def counts_def)
      have "finish_interval fl inp publish batch stored touched h =
          (if ii_fails inp = Some RatesFail \<and> \<not> same_rates (recorded_rates fl (hi_entity_rates h1)) (snd (hi_stored_rates h1)) then (None, h1)
           else if publish \<and> ii_fails inp = Some AggregatesFail
                then (None, h1\<lparr>hi_stored_rates := store_entity_rates fl (hi_entity_rates h1) (hi_stored_rates h1)\<rparr>)
           else (let (event, h) = tell_clients fl publish batch stored (map (observation_dto inp) stored) deltas updated
                   (h1\<lparr>hi_stored_rates := store_entity_rates fl (hi_entity_rates h1) (hi_stored_rates h1)\<rparr>) in (Some event, h)))"
        unfolding finish_interval_def h1 deltas_def updated_def table_def Let_def using False by (simp only: if_False)
      moreover obtain event h2
        where t: "tell_clients fl publish batch stored (map (observation_dto inp) stored) deltas updated
                   (h1\<lparr>hi_stored_rates := store_entity_rates fl (hi_entity_rates h1) (hi_stored_rates h1)\<rparr>) = (event, h2)"
        by fastforce
      ultimately have "made = None \<and> h' = h1 \<or> made = None \<and> h' = h1\<lparr>hi_stored_rates := store_entity_rates fl (hi_entity_rates h1) (hi_stored_rates h1)\<rparr>
          \<or> made = Some event \<and> h' = h2"
        using assms unfolding t Let_def prod.case by (metis prod.inject)
      then show ?thesis using t by blast
    qed
  qed (auto simp: deltas_def updated_def h1_def counts_def)
qed

text \<open>It does not write the table of flows.\<close>

lemma finish_interval_db: "hi_db (snd (finish_interval fl inp publish batch stored touched h)) = hi_db h"
proof -
  obtain made h' where f: "finish_interval fl inp publish batch stored touched h = (made, h')" by fastforce
  from f have "hi_db h' = hi_db h"
    by (rule finish_cases) (auto simp: count_traffic_of_def dest: tell_clients_facts(2))
  then show ?thesis using f by simp
qed

text \<open>The ways of an interval.\<close>

lemma ingest_cases [consumes 1, case_names rolled policy finished]:
  assumes "ingest fl s inp publish batch h = (event, h')"
  obtains n where "event = empty_event fl batch (rolled_back fl inp n batch h)" "h' = (rolled_back fl inp n batch h)\<lparr>hi_database_error := True\<rparr>"
  | stored touched h1 ok h2 where "store_interval fl inp batch h = (stored, touched, h1)" "enforce_policy s inp h1 = (ok, h2)"
      "event = empty_event fl batch h2" "h' = h2\<lparr>hi_database_error := True\<rparr>"
  | stored touched h1 h2 where "store_interval fl inp batch h = (stored, touched, h1)" "enforce_policy s inp h1 = (True, h2)"
      "(event, h') = (case finish_interval fl inp publish batch stored touched h2 of
         (Some event, h) \<Rightarrow> (event, h) | (None, h) \<Rightarrow> (empty_event fl batch h, h\<lparr>hi_database_error := True\<rparr>))"
  using assms
  by (cases "ii_fails inp"; cases "the (ii_fails inp)") (auto simp: ingest_def try_ingest_def Let_def split: prod.splits if_splits)

section \<open>Who is ended by whom\<close>

lemma enforce_policy_not_due:
  "\<not> policy_due (ii_policy_instant inp) (hi_last_policy_at h) \<Longrightarrow>
     enforce_policy s inp h = (True, h\<lparr>hi_flow_capacity := unat (rs_max_flow_entries (st_resources s))\<rparr>)"
  by (simp add: enforce_policy_def Let_def)

lemma enforce_policy_db:
  "hi_db (snd (enforce_policy s inp h)) \<in> {hi_db h,
     fst (enforce_retention (st_history s) (unix_millis (ii_now_system inp))
       (enforce_capacity (unat (rs_max_flow_entries (st_resources s))) (hi_db h), hi_applications h))}"
  by (simp add: enforce_policy_def Let_def split: prod.split)

lemma ids_upsert: "fr_id ` set (fd_rows (sql_upsert row db)) = insert (fr_id row) (fr_id ` set (fd_rows db))"
proof -
  have "map fr_id (fd_rows (sql_upsert row db))
      = (if fr_id row \<in> fr_id ` set (fd_rows db) then map fr_id (fd_rows db) else map fr_id (fd_rows db) @ [fr_id row])"
    by (simp add: sql_upsert_def sql_insert_def sql_update_def Let_def)
  from arg_cong [OF this, of set] show ?thesis by (auto split: if_splits)
qed

lemma length_upsert: "length (fd_rows (sql_upsert row db)) \<le> Suc (length (fd_rows db))"
  by (simp add: sql_upsert_def sql_insert_def sql_update_def Let_def)

lemma upsert_keeps_row:
  "row \<in> set (fd_rows db) \<Longrightarrow> fr_id new \<noteq> fr_id row \<Longrightarrow> row \<in> set (fd_rows (sql_upsert new db))"
  by (auto simp: sql_upsert_def sql_insert_def sql_update_def Let_def image_iff intro: bexI [of _ row])

lemma upserts_keep_row:
  "row \<in> set (fd_rows db) \<Longrightarrow> fr_id row \<notin> fr_id ` set news \<Longrightarrow> row \<in> set (fd_rows (fold sql_upsert news db))"
  by (induction news arbitrary: db) (auto simp: upsert_keeps_row)

lemma upserts_ok: "flow_db_ok db \<Longrightarrow> flow_db_ok (fold sql_upsert news db)"
  by (induction news arbitrary: db) (simp_all add: sql_upsert_ok)

lemma length_upserts: "length (fd_rows (fold sql_upsert news db)) \<le> length news + length (fd_rows db)"
proof (induction news arbitrary: db)
  case (Cons row news)
  show ?case using Cons [of "sql_upsert row db"] length_upsert [of row db] by simp
qed simp

lemma ids_upserts: "fr_id ` set (fd_rows (fold sql_upsert news db)) = fr_id ` set news \<union> fr_id ` set (fd_rows db)"
  by (induction news arbitrary: db) (simp_all add: ids_upsert)

definition stays_active :: "u64 \<Rightarrow> flow_db \<Rightarrow> bool" where
  "stays_active i db \<longleftrightarrow> (\<exists>row \<in> set (fd_rows db). fr_id row = i \<and> fr_state row = ''active'')"

text \<open>Within the capacity the policy only removes ended flows.\<close>

lemma policy_keeps_active:
  assumes "flow_db_ok db" "length (fd_rows db) \<le> capacity" "stays_active i db"
  shows "stays_active i (fst (enforce_retention hs now_ms (enforce_capacity capacity db, applications)))"
    "length (fd_rows (fst (enforce_retention hs now_ms (enforce_capacity capacity db, applications)))) \<le> length (fd_rows db)"
proof -
  have c: "enforce_capacity capacity db = db"
    using assms(1,2) by (simp add: enforce_capacity_def Let_def flow_db_ok_def exact_stats_def)
  show "stays_active i (fst (enforce_retention hs now_ms (enforce_capacity capacity db, applications)))"
    using assms(3) unfolding c by (auto simp: stays_active_def enforce_retention_def sql_delete_def Let_def)
  show "length (fd_rows (fst (enforce_retention hs now_ms (enforce_capacity capacity db, applications)))) \<le> length (fd_rows db)"
    unfolding c by (simp add: enforce_retention_def sql_delete_def Let_def length_filter_le)
qed

lemma interval_keeps_active:
  assumes "run_interval fl iv h = (event, h')" "flow_db_ok (hi_db h)" "stays_active i (hi_db h)"
    and "i \<notin> (\<lambda>u. ii_flow_id (iv_input iv) (fu_key u)) ` set (cb_flows (iv_batch iv))"
    and "length (fd_rows (hi_db h)) + length (cb_flows (iv_batch iv)) \<le> unat (rs_max_flow_entries (st_resources (iv_settings iv)))"
  shows "flow_db_ok (hi_db h') \<and> stays_active i (hi_db h') \<and> length (fd_rows (hi_db h')) \<le> length (fd_rows (hi_db h)) + length (cb_flows (iv_batch iv))"
proof -
  let ?ok = "\<lambda>db. flow_db_ok db \<and> stays_active i db \<and> length (fd_rows db) \<le> length (fd_rows (hi_db h)) + length (cb_flows (iv_batch iv))"
  have stored: "?ok (hi_db h1)" if st: "store_interval fl (iv_input iv) (iv_batch iv) h = (stored, touched, h1)" for stored touched h1
  proof -
    obtain news db where n: "hi_db h1 = fold sql_upsert news db"
        "map (\<lambda>row. row\<lparr>fr_domains := []\<rparr>) (fd_rows db) = map (\<lambda>row. row\<lparr>fr_domains := []\<rparr>) (fd_rows (hi_db h))" "flow_db_ok db"
        "map fr_id news = map (\<lambda>u. ii_flow_id (iv_input iv) (fu_key u)) (cb_flows (iv_batch iv))"
      using store_interval_db [OF st] assms(2) by metis
    have "length (fd_rows db) = length (fd_rows (hi_db h))" "length news = length (cb_flows (iv_batch iv))" using n(2,4) by (metis length_map)+
    moreover have "i \<notin> fr_id ` set news" using assms(4) n(4) by (metis set_map)
    moreover obtain row where row: "row \<in> set (fd_rows db)" "fr_id row = i" "fr_state row = ''active''"
    proof -
      obtain r where r: "r \<in> set (fd_rows (hi_db h))" "fr_id r = i" "fr_state r = ''active''" using assms(3) by (auto simp: stays_active_def)
      then have "r\<lparr>fr_domains := []\<rparr> \<in> set (map (\<lambda>row. row\<lparr>fr_domains := []\<rparr>) (fd_rows db))" unfolding n(2) by auto
      then obtain row where row: "row \<in> set (fd_rows db)" "r\<lparr>fr_domains := []\<rparr> = row\<lparr>fr_domains := []\<rparr>" by auto
      have "fr_id row = fr_id r" "fr_state row = fr_state r"
        using arg_cong [OF row(2), of fr_id] arg_cong [OF row(2), of fr_state] by simp_all
      then show thesis using that [OF row(1)] r by simp
    qed
    ultimately have "row \<in> set (fd_rows (hi_db h1))" using upserts_keep_row [of row db news] n(1) by simp
    then show ?thesis
      using upserts_ok [of db news] length_upserts [of news db] n(1,3) row \<open>length (fd_rows db) = _\<close> \<open>length news = _\<close> by (auto simp: stays_active_def)
  qed
  have policed: "?ok (hi_db h2)"
    if "store_interval fl (iv_input iv) (iv_batch iv) h = (stored, touched, h1)" "enforce_policy (iv_settings iv) (iv_input iv) h1 = (ok, h2)"
    for stored touched h1 ok h2
  proof -
    have l: "length (fd_rows (hi_db h1)) \<le> unat (rs_max_flow_entries (st_resources (iv_settings iv)))" using stored [OF that(1)] assms(5) by simp
    show ?thesis
      using enforce_policy_db [of "iv_settings iv" "iv_input iv" h1] stored [OF that(1)] that(2)
        policy_keeps_active [OF _ l, of i "st_history (iv_settings iv)" "unix_millis (ii_now_system (iv_input iv))" "hi_applications h1"]
        enforce_flows_ok by (auto dest: order_trans)
  qed
  from assms(1) [unfolded run_interval_def] show ?thesis
  proof (cases rule: ingest_cases)
    case (rolled n)
    then show ?thesis using assms(2,3) by simp
  next
    case (policy stored touched h1 ok h2)
    then show ?thesis using policed [OF policy(1,2)] by simp
  next
    case (finished stored touched h1 h2)
    then have "hi_db h' = hi_db h2"
      using finish_interval_db [of fl "iv_input iv" "iv_publish iv" "iv_batch iv" stored touched h2] by (auto split: prod.splits option.splits)
    then show ?thesis using policed [OF finished(1,2)] by simp
  qed
qed

text \<open>
  C39: a flow that no batch mentions stays active: within the capacity no number of intervals ends or removes its row, with whatever
  settings, failures and clocks, whether history is kept or not. A flow that was active when the daemon stopped, and that the next run never
  sees, is one.
\<close>

theorem unreported_flow_stays_active:
  assumes "flow_db_ok (hi_db h)" "\<exists>row \<in> set (fd_rows (hi_db h)). fr_id row = i \<and> fr_state row = ''active''"
    and "list_all (\<lambda>iv. i \<notin> (\<lambda>u. ii_flow_id (iv_input iv) (fu_key u)) ` set (cb_flows (iv_batch iv))) ivs"
    and "list_all (\<lambda>iv. length (fd_rows (hi_db h)) + (\<Sum>v \<leftarrow> ivs. length (cb_flows (iv_batch v)))
           \<le> unat (rs_max_flow_entries (st_resources (iv_settings iv)))) ivs"
  shows "\<exists>row \<in> set (fd_rows (hi_db (snd (run_intervals fl ivs h)))). fr_id row = i \<and> fr_state row = ''active''"
proof -
  have "stays_active i (hi_db (snd (run_intervals fl ivs h)))"
    if "flow_db_ok (hi_db h)" "stays_active i (hi_db h)"
      "list_all (\<lambda>iv. i \<notin> (\<lambda>u. ii_flow_id (iv_input iv) (fu_key u)) ` set (cb_flows (iv_batch iv))) ivs"
      "list_all (\<lambda>iv. length (fd_rows (hi_db h)) + (\<Sum>v \<leftarrow> ivs. length (cb_flows (iv_batch v)))
         \<le> unat (rs_max_flow_entries (st_resources (iv_settings iv)))) ivs"
    for ivs h
    using that
  proof (induction ivs arbitrary: h)
    case (Cons iv ivs)
    obtain event h1 where r: "run_interval fl iv h = (event, h1)" by fastforce
    have k: "flow_db_ok (hi_db h1) \<and> stays_active i (hi_db h1) \<and> length (fd_rows (hi_db h1)) \<le> length (fd_rows (hi_db h)) + length (cb_flows (iv_batch iv))"
      by (rule interval_keeps_active [OF r]) (use Cons.prems in auto)
    have "list_all (\<lambda>v. length (fd_rows (hi_db h1)) + (\<Sum>v \<leftarrow> ivs. length (cb_flows (iv_batch v)))
        \<le> unat (rs_max_flow_entries (st_resources (iv_settings v)))) ivs"
      using Cons.prems(4) k by (auto simp: list_all_iff)
    then have "stays_active i (hi_db (snd (run_intervals fl ivs h1)))" using Cons.IH [of h1] k Cons.prems(3) by simp
    then show ?case using r by (simp add: split: prod.split) (metis snd_conv)
  qed simp
  from this [OF assms(1) _ assms(3,4)] assms(2) show ?thesis by (simp add: stays_active_def)
qed

section \<open>What the clients are told\<close>

lemma in_map_filter: "y \<in> set (List.map_filter f xs) \<longleftrightarrow> (\<exists>x \<in> set xs. f x = Some y)"
  by (auto simp: List.map_filter_def image_iff intro: bexI)

lemma keys_map_filter:
  "(\<And>i y. f i = Some y \<Longrightarrow> fst y = i) \<Longrightarrow> map fst (List.map_filter f xs) = filter (\<lambda>i. f i \<noteq> None) xs"
  by (induction xs) (auto simp: map_filter_simps split: option.split)

lemma find_holds: "List.find P xs = Some x \<Longrightarrow> P x \<and> x \<in> set xs"
  by (induction xs) (auto split: if_splits)

lemma flow_by_id_row:
  assumes "flow_by_id fl table applications rows i = Some dto"
  obtains row where "row \<in> set rows" "fr_id row = i" "dto = apply_flow_rate fl table (flow_dto_from_row applications row)"
  using assms find_holds [of "\<lambda>row. fr_id row = i" rows] by (auto simp: flow_by_id_def)

lemma row_dto_id: "dt_id (flow_dto_from_row applications row) = hex16 (fr_id row)"
  by (simp add: flow_dto_from_row_def Let_def)

lemma read_back_ids:
  "distinct (map fst (read_back fl h deltas ended touched))"
  "(i, dto) \<in> set (read_back fl h deltas ended touched) \<Longrightarrow>
     dt_id dto = hex16 i \<and> i \<in> fr_id ` set (fd_rows (hi_db h)) \<and> (flow_moved deltas i \<or> i \<in> ended)"
proof -
  let ?f = "\<lambda>i. if flow_moved deltas i \<or> i \<in> ended
      then map_option (Pair i) (flow_by_id fl (hi_entity_rates h) (hi_applications h) (fd_rows (hi_db h)) i) else None"
  have "map fst (List.map_filter ?f is) = filter (\<lambda>i. ?f i \<noteq> None) is" for "is"
    by (rule keys_map_filter) (auto split: if_splits)
  then show "distinct (map fst (read_back fl h deltas ended touched))" by (simp add: read_back_def)
  show "dt_id dto = hex16 i \<and> i \<in> fr_id ` set (fd_rows (hi_db h)) \<and> (flow_moved deltas i \<or> i \<in> ended)"
    if "(i, dto) \<in> set (read_back fl h deltas ended touched)"
  proof -
    have f: "flow_by_id fl (hi_entity_rates h) (hi_applications h) (fd_rows (hi_db h)) i = Some dto" "flow_moved deltas i \<or> i \<in> ended"
      using that by (auto simp: read_back_def in_map_filter split: if_splits)
    from f(1) show ?thesis by (rule flow_by_id_row) (use f(2) in \<open>auto simp: row_dto_id\<close>)
  qed
qed

text \<open>The records of the updated flows that are shown and those that go out as patches.\<close>

definition shown :: "flow_deltas \<Rightarrow> u64 \<times> flow_dto \<Rightarrow> bool" where
  "shown deltas updated \<longleftrightarrow> flow_moved deltas (fst updated) \<or> dt_state (snd updated) = ''ended''"

definition tracked :: "flow_deltas \<Rightarrow> u64 \<times> flow_dto \<Rightarrow> bool" where
  "tracked deltas updated \<longleftrightarrow> flow_moved deltas (fst updated) \<and> dt_state (snd updated) \<noteq> ''ended''"

lemma shown_pair [simp]: "shown deltas (i, dto) \<longleftrightarrow> flow_moved deltas i \<or> dt_state dto = ''ended''"
  by (simp add: shown_def)

lemma tracked_pair [simp]: "tracked deltas (i, dto) \<longleftrightarrow> flow_moved deltas i \<and> dt_state dto \<noteq> ''ended''"
  by (simp add: tracked_def)

lemma hex16_inject: "hex16 a = hex16 b \<longleftrightarrow> a = b"
  by (metis option.inject parse_hex16)

lemma tick_flows:
  assumes "distinct (map fst updated)" "\<forall>(i, dto) \<in> set updated. dt_id dto = hex16 i"
    and "fold (tick_flow deltas) updated (details, [], {}) = (details', flows, patches)"
  shows "flows = map snd (filter (shown deltas) updated)"
    "patches = hex16 ` {i. \<exists>dto. (i, dto) \<in> set updated \<and> tracked deltas (i, dto) \<and> map_of details i = Some (flow_detail_signature dto)}"
    "map_of details' j = (case map_of updated j of
       None \<Rightarrow> map_of details j
     | Some dto \<Rightarrow> if tracked deltas (j, dto) then Some (flow_detail_signature dto) else None)"
proof -
  have "flows = map snd (filter (shown deltas) updated)
    \<and> patches = hex16 ` {i. \<exists>dto. (i, dto) \<in> set updated \<and> tracked deltas (i, dto) \<and> map_of details i = Some (flow_detail_signature dto)}
    \<and> (\<forall>j. map_of details' j = (case map_of updated j of
         None \<Rightarrow> map_of details j
       | Some dto \<Rightarrow> if tracked deltas (j, dto) then Some (flow_detail_signature dto) else None))"
    using assms
  proof (induction updated arbitrary: details' flows patches rule: rev_induct)
    case (snoc u us)
    obtain i dto where u: "u = (i, dto)" by fastforce
    obtain ds fs ps where f: "fold (tick_flow deltas) us (details, [], {}) = (ds, fs, ps)" by (metis prod_cases3)
    have ih: "fs = map snd (filter (shown deltas) us)"
      "ps = hex16 ` {i. \<exists>dto. (i, dto) \<in> set us \<and> tracked deltas (i, dto) \<and> map_of details i = Some (flow_detail_signature dto)}"
      "\<forall>j. map_of ds j = (case map_of us j of
         None \<Rightarrow> map_of details j
       | Some dto \<Rightarrow> if tracked deltas (j, dto) then Some (flow_detail_signature dto) else None)"
      using snoc.IH [OF _ _ f] snoc.prems(1,2) by auto
    have new: "map_of us i = None" "dt_id dto = hex16 i" using snoc.prems(1,2) u by (auto simp: map_of_eq_None_iff)
    then have old: "map_of ds i = map_of details i" using ih(3) by simp
    have t: "tick_flow deltas (i, dto) (ds, fs, ps) = (details', flows, patches)" using snoc.prems(3) f u by simp
    have m: "map_of (us @ [(i, dto)]) j = (if j = i then Some dto else map_of us j)" for j
      using new(1) by (simp add: map_add_def split: option.split)
    have ex: "{j. \<exists>d. (j, d) \<in> set (us @ [(i, dto)]) \<and> tracked deltas (j, d) \<and> map_of details j = Some (flow_detail_signature d)}
        = {j. \<exists>d. (j, d) \<in> set us \<and> tracked deltas (j, d) \<and> map_of details j = Some (flow_detail_signature d)}
          \<union> (if tracked deltas (i, dto) \<and> map_of details i = Some (flow_detail_signature dto) then {i} else {})"
      by auto
    show ?case
      unfolding u ex m using t ih old new(2)
      by (auto simp: tick_flow_def Let_def update_conv' delete_conv' split: if_splits)
  qed simp
  then show "flows = map snd (filter (shown deltas) updated)"
    "patches = hex16 ` {i. \<exists>dto. (i, dto) \<in> set updated \<and> tracked deltas (i, dto) \<and> map_of details i = Some (flow_detail_signature dto)}"
    "map_of details' j = (case map_of updated j of
       None \<Rightarrow> map_of details j
     | Some dto \<Rightarrow> if tracked deltas (j, dto) then Some (flow_detail_signature dto) else None)"
    by blast+
qed

lemma enforce_policy_details: "hi_tick_details (snd (enforce_policy s inp h)) = hi_tick_details h"
  by (simp add: enforce_policy_def Let_def split: prod.split)

text \<open>What a client that sees every event knows of the flows: the descriptive fields of the last full record of each.\<close>

definition learn :: "interval_event \<Rightarrow> (string \<Rightarrow> string option) \<Rightarrow> string \<Rightarrow> string option" where
  "learn event known =
     fold (\<lambda>dto m. m(dt_id dto \<mapsto> flow_detail_signature dto)) (filter (\<lambda>dto. dt_id dto \<notin> se_patched_flows event) (se_flows event)) known"

lemma fold_put_other: "x \<notin> k ` set xs \<Longrightarrow> fold (\<lambda>d m. m(k d \<mapsto> v d)) xs m x = m x"
  by (induction xs arbitrary: m) auto

lemma fold_put_own:
  "d \<in> set xs \<Longrightarrow> \<forall>e \<in> set xs. k e = k d \<longrightarrow> e = d \<Longrightarrow> fold (\<lambda>d m. m(k d \<mapsto> v d)) xs m (k d) = Some (v d)"
proof (induction xs arbitrary: m)
  case (Cons e xs)
  show ?case
  proof (cases "d \<in> set xs")
    case False
    then have "k d \<notin> k ` set xs" using Cons.prems(2) by (auto simp: image_iff)
    then show ?thesis using fold_put_other [of "k d" k xs v "m(k d \<mapsto> v d)"] Cons.prems(1) False
      by (simp del: fun_upd_apply) (simp only: fun_upd_apply if_True simp_thms)
  qed (use Cons in simp)
qed simp

definition details_known :: "(u64 \<times> string) list \<Rightarrow> (string \<Rightarrow> string option) \<Rightarrow> bool" where
  "details_known details known \<longleftrightarrow> (\<forall>i sig. map_of details i = Some sig \<longrightarrow> known (hex16 i) = Some sig)"

lemma tick_keeps_known:
  assumes "distinct (map fst updated)" "\<forall>(i, dto) \<in> set updated. dt_id dto = hex16 i"
    and "fold (tick_flow deltas) updated (details, [], {}) = (details', se_flows event, se_patched_flows event)"
    and "details_known details known"
  shows "details_known details' (learn event known)"
    "dto \<in> set (se_flows event) \<Longrightarrow> dt_id dto \<in> se_patched_flows event \<Longrightarrow> known (dt_id dto) = Some (flow_detail_signature dto)"
proof -
  note t = tick_flows [OF assms(1-3)]
  have own: "d = e" if "(i, d) \<in> set updated" "(j, e) \<in> set updated" "dt_id d = dt_id e" for i j d e
    using that assms(1,2) hex16_inject by (metis (mono_tags, lifting) case_prodD eq_key_imp_eq_value)
  have patched: "map_of details i = Some (flow_detail_signature d)" if u: "(i, d) \<in> set updated" "dt_id d \<in> se_patched_flows event" for i d
  proof -
    obtain j e where j: "hex16 j = dt_id d" "(j, e) \<in> set updated" "map_of details j = Some (flow_detail_signature e)"
      using u(2) unfolding t(2) by auto
    then have "j = i" using u(1) assms(2) hex16_inject by auto
    then show ?thesis using j u(1) assms(1) eq_key_imp_eq_value by metis
  qed
  show "known (dt_id dto) = Some (flow_detail_signature dto)" if d: "dto \<in> set (se_flows event)" "dt_id dto \<in> se_patched_flows event"
  proof -
    obtain i where i: "(i, dto) \<in> set updated" using d(1) unfolding t(1) by auto
    then show ?thesis using patched [OF i d(2)] assms(2,4) by (auto simp: details_known_def)
  qed
  let ?full = "filter (\<lambda>dto. dt_id dto \<notin> se_patched_flows event) (se_flows event)"
  have from_updated: "\<exists>i. (i, d) \<in> set updated" if "d \<in> set ?full" for d using that unfolding t(1) by auto
  show "details_known details' (learn event known)"
    unfolding details_known_def
  proof (intro allI impI)
    fix i sig
    assume s: "map_of details' i = Some sig"
    show "learn event known (hex16 i) = Some sig"
    proof (cases "map_of updated i")
      case None
      then have "map_of details i = Some sig" using s t(3) by simp
      moreover have "hex16 i \<notin> dt_id ` set ?full"
        using from_updated assms(2) None hex16_inject by (force simp: map_of_eq_None_iff)
      ultimately show ?thesis using assms(4) by (simp add: learn_def fold_put_other details_known_def)
    next
      case (Some d)
      then have d: "(i, d) \<in> set updated" "tracked deltas (i, d)" "sig = flow_detail_signature d" "dt_id d = hex16 i"
        using s t(3) [of i] assms(2) by (auto dest: map_of_SomeD split: if_splits)
      show ?thesis
      proof (cases "dt_id d \<in> se_patched_flows event")
        case True
        then have "hex16 i \<notin> dt_id ` set ?full" using d(4) by auto
        then show ?thesis using patched [OF d(1) True] assms(4) d(3) by (simp add: learn_def fold_put_other details_known_def)
      next
        case False
        have "d \<in> set ?full" using d(1,2) False unfolding t(1) by force
        then have "learn event known (dt_id d) = Some (flow_detail_signature d)"
          unfolding learn_def by (rule fold_put_own) (use from_updated own d(1) in blast)
        then show ?thesis using d(3,4) by simp
      qed
    qed
  qed
qed

lemma interval_keeps_known:
  assumes "run_interval fl iv h = (event, h')" "details_known (hi_tick_details h) known"
  shows "details_known (hi_tick_details h') (learn event known)
    \<and> (\<forall>dto \<in> set (se_flows event). dt_id dto \<in> se_patched_flows event \<longrightarrow> known (dt_id dto) = Some (flow_detail_signature dto))"
proof -
  have idle: ?thesis if "hi_tick_details h' = hi_tick_details h" "se_flows event = []"
    using that assms(2) by (simp add: learn_def)
  have details: "hi_tick_details h2 = hi_tick_details h"
    if "store_interval fl (iv_input iv) (iv_batch iv) h = (stored, touched, h1)" "enforce_policy (iv_settings iv) (iv_input iv) h1 = (ok, h2)"
    for stored touched h1 ok h2
    using store_interval_tables(3) [OF that(1)] enforce_policy_details [of "iv_settings iv" "iv_input iv" h1] that(2) by simp
  from assms(1) [unfolded run_interval_def] show ?thesis
  proof (cases rule: ingest_cases)
    case (rolled n)
    then show ?thesis by (intro idle) (simp_all add: empty_event_def)
  next
    case (policy stored touched h1 ok h2)
    then show ?thesis using details [OF policy(1,2)] by (intro idle) (simp_all add: empty_event_def)
  next
    case (finished stored touched h1 h2)
    obtain made h3 where f: "finish_interval fl (iv_input iv) (iv_publish iv) (iv_batch iv) stored touched h2 = (made, h3)" by fastforce
    from f show ?thesis
    proof (rule finish_cases)
      fix table deltas updated h4
      assume u: "updated = read_back fl h2 deltas (ended_ids (ii_flow_id (iv_input iv)) (cb_flows (iv_batch iv))) touched"
        and h4: "h4 = h2\<lparr>hi_entity_rates := table\<rparr>
          \<or> h4 = count_traffic_of (cb_collected_at (iv_batch iv)) (moved_flows deltas updated) (h2\<lparr>hi_entity_rates := table\<rparr>)"
        and m: "made = None \<and> h3 = h4 \<or> (\<exists>rates. made = None \<and> h3 = h4\<lparr>hi_stored_rates := rates\<rparr>)
          \<or> (\<exists>rates event. made = Some event \<and> tell_clients fl (iv_publish iv) (iv_batch iv) stored (map (observation_dto (iv_input iv)) stored) deltas updated
                (h4\<lparr>hi_stored_rates := rates\<rparr>) = (event, h3))"
      have d: "hi_tick_details h4 = hi_tick_details h" using h4 details [OF finished(1,2)] by (auto simp: count_traffic_of_def)
      show ?thesis
      proof (cases made)
        case None
        then have "hi_tick_details h3 = hi_tick_details h" using m d by auto
        then show ?thesis using finished(3) f None by (intro idle) (simp_all add: empty_event_def)
      next
        case (Some e)
        then have e: "e = event" "h3 = h'" using f finished(3) by simp_all
        then obtain rates where "tell_clients fl (iv_publish iv) (iv_batch iv) stored (map (observation_dto (iv_input iv)) stored) deltas updated
            (h4\<lparr>hi_stored_rates := rates\<rparr>) = (event, h')" using m Some by auto
        from tell_clients_facts(1) [OF this] obtain details'
          where t: "fold (tick_flow deltas) updated (hi_tick_details h, [], {}) = (details', se_flows event, se_patched_flows event)"
            "hi_tick_details h' = details' \<or> hi_tick_details h' = []" using d by auto
        have ids: "distinct (map fst updated)" "\<forall>(i, dto) \<in> set updated. dt_id dto = hex16 i"
          using read_back_ids unfolding u by blast+
        show ?thesis using tick_keeps_known [OF ids t(1) assms(2)] t(2) by (auto simp: details_known_def)
      qed
    qed
  qed
qed

text \<open>Every patch of a run stands for a record whose descriptive fields the client has.\<close>

fun patches_known :: "(string \<Rightarrow> string option) \<Rightarrow> interval_event list \<Rightarrow> bool" where
  "patches_known known [] = True"
| "patches_known known (event # events) =
     (list_all (\<lambda>dto. known (dt_id dto) = Some (flow_detail_signature dto)) (filter (\<lambda>dto. dt_id dto \<in> se_patched_flows event) (se_flows event))
      \<and> patches_known (learn event known) events)"


section \<open>Closures without history\<close>

lemma rows_with_other: "fr_id new \<noteq> i \<Longrightarrow> rows_with i (sql_upsert new db) = rows_with i db"
proof -
  assume n: "fr_id new \<noteq> i"
  have "filter (\<lambda>row. fr_id row = i) (map (\<lambda>row. if fr_id row = fr_id new then merge_flow new row else row) rows) = filter (\<lambda>row. fr_id row = i) rows"
    for rows by (induction rows) (use n in auto)
  then show ?thesis using n by (simp add: rows_with_def sql_upsert_def sql_update_def sql_insert_def Let_def)
qed

lemma rows_with_others: "i \<notin> fr_id ` set news \<Longrightarrow> rows_with i (fold sql_upsert news db) = rows_with i db"
  by (induction news arbitrary: db) (auto simp: rows_with_other)

text \<open>The row of an update has its state.\<close>

lemma written_state:
  assumes "distinct (map fr_id news)" "new \<in> set news" "row \<in> set (fd_rows (fold sql_upsert news db))" "fr_id row = fr_id new"
  shows "fr_state row = fr_state new"
proof -
  obtain a b where ab: "news = a @ new # b" using assms(2) by (meson split_list)
  then have "fr_id new \<notin> fr_id ` set b" using assms(1) by auto
  then have "rows_with (fr_id new) (fold sql_upsert news db) = rows_with (fr_id new) (sql_upsert new (fold sql_upsert a db))"
    unfolding ab by (simp add: rows_with_others)
  moreover have "row \<in> set (rows_with (fr_id new) (fold sql_upsert news db))" using assms(3,4) by (simp add: rows_with_def)
  ultimately show ?thesis by (auto simp: rows_with_upsert [OF refl] merge_flow_def Let_def split: if_splits)
qed

lemma flow_deltas_snoc:
  "flow_deltas flow_id (us @ [u])
    = (flow_deltas flow_id us)(flow_id (fu_key u) \<mapsto> (key_direction (fu_key u), fu_delta u, uint (key_interface_index (fu_key u))))"
  by (simp add: flow_deltas_def)

lemma flow_deltas_dom: "flow_deltas flow_id us i = Some x \<Longrightarrow> i \<in> (\<lambda>u. flow_id (fu_key u)) ` set us"
proof (induction us rule: rev_induct)
  case (snoc u us)
  then show ?case by (auto simp: flow_deltas_snoc split: if_splits)
qed (simp add: flow_deltas_def)

lemma moved_in_batch: "flow_moved (flow_deltas flow_id us) i \<Longrightarrow> i \<in> (\<lambda>u. flow_id (fu_key u)) ` set us"
  by (auto simp: flow_moved_def split: option.splits dest: flow_deltas_dom)

lemma enforced_rows:
  assumes "enforce_retention hs now_ms (enforce_capacity capacity db, applications) = (db', applications')"
  shows "set (fd_rows db') \<subseteq> set (fd_rows db)" "\<not> hs_enabled hs \<Longrightarrow> row \<in> set (fd_rows db') \<Longrightarrow> fr_state row \<noteq> ''ended''"
  using assms by (auto simp: enforce_retention_def enforce_capacity_def sql_delete_def Let_def split: if_splits)

text \<open>
  While history is off, the flows that end in an interval whose policy is due are lost: they are deleted before they are read back, so that
  no record of them goes out and no bucket counts their last traffic.
\<close>

theorem closures_lost_without_history:
  assumes "ingest fl s inp publish batch h = (event, h')" "ii_fails inp = None" "\<not> hs_enabled (st_history s)"
    and "policy_due (ii_policy_instant inp) (hi_last_policy_at h)"
    and "distinct (map (\<lambda>u. ii_flow_id inp (fu_key u)) (cb_flows batch))" "list_all (\<lambda>u. is_ended (fu_state u)) (cb_flows batch)"
  shows "se_flows event = [] \<and> hi_traffic h' = purge_buckets (unix_millis (ii_now_system inp)) (hi_traffic h)
    \<and> hi_entities h' = purge_buckets (unix_millis (ii_now_system inp)) (hi_entities h)"
proof -
  obtain stored touched h1 where st: "store_interval fl inp batch h = (stored, touched, h1)" by (metis prod_cases3)
  let ?now = "unix_millis (ii_now_system inp)"
  obtain db applications where r: "enforce_retention (st_history s) ?now
      (enforce_capacity (unat (rs_max_flow_entries (st_resources s))) (hi_db h1), hi_applications h1) = (db, applications)" by fastforce
  obtain ok h2 where p: "enforce_policy s inp h1 = (ok, h2)" by fastforce
  then have h2: "ok" "hi_db h2 = db" "hi_traffic h2 = purge_buckets ?now (hi_traffic h1)" "hi_entities h2 = purge_buckets ?now (hi_entities h1)"
    using assms(2,4) store_interval_tables(4) [OF st] r by (auto simp: enforce_policy_def Let_def split: if_splits)
  have absent: "i \<notin> fr_id ` set (fd_rows db)" if "i \<in> (\<lambda>u. ii_flow_id inp (fu_key u)) ` set (cb_flows batch)" for i
  proof
    assume "i \<in> fr_id ` set (fd_rows db)"
    then obtain row where row: "row \<in> set (fd_rows db)" "fr_id row = i" by auto
    obtain news db0 where n: "hi_db h1 = fold sql_upsert news db0" "map fr_id news = map (\<lambda>u. ii_flow_id inp (fu_key u)) (cb_flows batch)"
        "map fr_state news = map (\<lambda>u. flow_state_name (fu_state u)) (cb_flows batch)"
      using store_interval_db [OF st] by metis
    have "fr_state new = ''ended''" if "new \<in> set news" for new
    proof -
      have "fr_state new \<in> set (map fr_state news)" using that by simp
      then obtain u where u: "u \<in> set (cb_flows batch)" "fr_state new = flow_state_name (fu_state u)" unfolding n(3) by auto
      then have "is_ended (fu_state u)" using assms(6) by (simp add: list_all_iff)
      then show ?thesis using u(2) by (cases "fu_state u") (simp_all add: is_ended_def)
    qed
    moreover have "i \<in> set (map fr_id news)" unfolding n(2) using that by simp
    then obtain new where "new \<in> set news" "fr_id new = i" by auto
    moreover have "row \<in> set (fd_rows (fold sql_upsert news db0))" using row(1) enforced_rows(1) [OF r] n(1) by auto
    moreover have "distinct (map fr_id news)" using assms(5) n(2) by simp
    ultimately have "fr_state row = ''ended''" using written_state row(2) by metis
    then show False using enforced_rows(2) [OF r assms(3) row(1)] by simp
  qed
  obtain made h3 where f: "finish_interval fl inp publish batch stored touched h2 = (made, h3)" by fastforce
  have result: "(event, h') = (case (made, h3) of (Some event, h) \<Rightarrow> (event, h) | (None, h) \<Rightarrow> (empty_event fl batch h, h\<lparr>hi_database_error := True\<rparr>))"
    using assms(1,2) st p h2(1) f by (simp add: ingest_def try_ingest_def)
  from f show ?thesis
  proof (rule finish_cases)
    fix table deltas updated h4
    assume d: "deltas = flow_deltas (ii_flow_id inp) (cb_flows batch)"
      and u: "updated = read_back fl h2 deltas (ended_ids (ii_flow_id inp) (cb_flows batch)) touched"
      and h4: "h4 = h2\<lparr>hi_entity_rates := table\<rparr>
        \<or> h4 = count_traffic_of (cb_collected_at batch) (moved_flows deltas updated) (h2\<lparr>hi_entity_rates := table\<rparr>)"
      and m: "made = None \<and> h3 = h4 \<or> (\<exists>rates. made = None \<and> h3 = h4\<lparr>hi_stored_rates := rates\<rparr>)
        \<or> (\<exists>rates event. made = Some event \<and> tell_clients fl publish batch stored (map (observation_dto inp) stored) deltas updated
              (h4\<lparr>hi_stored_rates := rates\<rparr>) = (event, h3))"
    have "\<not> (i, dto) \<in> set updated" for i dto
    proof
      assume i: "(i, dto) \<in> set updated"
      then have "i \<in> (\<lambda>u. ii_flow_id inp (fu_key u)) ` set (cb_flows batch)"
        using read_back_ids(2) [OF i [unfolded u]] moved_in_batch unfolding d by (auto simp: ended_ids_def)
      then show False using absent read_back_ids(2) [OF i [unfolded u]] h2(2) by simp
    qed
    then have e: "updated = []" by (metis list.set_intros(1) neq_Nil_conv surj_pair)
    then have t: "hi_traffic h4 = hi_traffic h2" "hi_entities h4 = hi_entities h2"
      using h4 by (auto simp: count_traffic_of_def moved_flows_def count_boundary_def map_filter_simps)
    show ?thesis
    proof (cases made)
      case None
      then show ?thesis using m result t h2 store_interval_tables(1,2) [OF st] by (auto simp: empty_event_def)
    next
      case (Some e')
      then obtain rates where c: "tell_clients fl publish batch stored (map (observation_dto inp) stored) deltas updated
          (h4\<lparr>hi_stored_rates := rates\<rparr>) = (event, h')" using m result by auto
      have "se_flows event = []" using tell_clients_facts(1) [OF c] e by simp
      then show ?thesis using tell_clients_facts(3,4) [OF c] t h2 store_interval_tables(1,2) [OF st] by simp
    qed
  qed
qed

section \<open>Examples\<close>

text \<open>A daemon that finds one active flow in its table, and the end of another one.\<close>

definition example_history :: "int history" where
  "example_history =
     \<lparr>hi_db = sql_upsert (example_flow 7 30) flow_db_empty, hi_applications = [], hi_observations = [], hi_traffic = [], hi_entities = [],
      hi_writer = \<lparr>fw_enricher = enricher_new 1, fw_applications = application_resolver_default\<rparr>, hi_interfaces = Map.empty,
      hi_health = None, hi_last_batch_at = None, hi_last_interval = 0, hi_batch_sequence = 0,
      hi_rates = entity_rates_default second_ops, hi_entity_rates = [], hi_stored_rates = ([], []), hi_flow_capacity = 65536,
      hi_last_policy_at = None, hi_tick_details = [], hi_database_error = False\<rparr>"

definition ended_update :: flow_update where
  "ended_update = fake_update\<lparr>fu_state := Ended TcpFin, fu_delta := hundred_bytes, fu_total := hundred_bytes\<rparr>"

definition example_input :: "int ingest_input" where
  "example_input =
     \<lparr>ii_now_instant = 100, ii_now_system = 5000000000, ii_policy_instant = 100, ii_seconds = 1, ii_proxy = (\<lambda>_. None), ii_host = empty_host,
      ii_profile_now = 5, ii_profile_later = 5, ii_flow_id = (\<lambda>_. 8), ii_fails = None\<rparr>"

definition batch_of :: "flow_update list \<Rightarrow> collection_batch" where
  "batch_of flows =
     \<lparr>cb_sequence = 1, cb_collected_at = 5000000000, cb_interval = 1000000000, cb_flows = flows, cb_domains = [], cb_health = example_health\<rparr>"

definition interval_of :: "flow_update list \<Rightarrow> int interval" where
  "interval_of flows = \<lparr>iv_settings = settings_default, iv_input = example_input, iv_publish = True, iv_batch = batch_of flows\<rparr>"

lemma unreported_flow_stays_active_witness:
  "\<exists>row \<in> set (fd_rows (hi_db (snd (run_intervals second_ops [interval_of [], interval_of [ended_update]] example_history)))).
     fr_id row = 7 \<and> fr_state row = ''active''"
proof -
  have "flow_db_ok (hi_db example_history)" by (simp add: example_history_def flow_db_empty_ok sql_upsert_ok)
  moreover have "fd_rows (hi_db example_history) = [example_flow 7 30]"
    by (simp add: example_history_def sql_upsert_def sql_insert_def flow_db_empty_def)
  ultimately show ?thesis
    by (intro unreported_flow_stays_active)
      (simp_all add: example_flow_def interval_of_def batch_of_def example_input_def settings_default_def resource_settings_default_def)
qed

definition without_history :: settings where
  "without_history = settings_default\<lparr>st_history := \<lparr>hs_enabled = False, hs_retention_days = 7\<rparr>\<rparr>"

lemma closures_lost_without_history_witness:
  "case ingest second_ops without_history example_input True (batch_of [ended_update]) example_history of
     (event, h) \<Rightarrow> se_flows event = [] \<and> hi_traffic h = [] \<and> hi_entities h = []"
proof -
  obtain event h where i: "ingest second_ops without_history example_input True (batch_of [ended_update]) example_history = (event, h)"
    by fastforce
  have "se_flows event = [] \<and> hi_traffic h = purge_buckets (unix_millis (ii_now_system example_input)) (hi_traffic example_history)
      \<and> hi_entities h = purge_buckets (unix_millis (ii_now_system example_input)) (hi_entities example_history)"
    by (rule closures_lost_without_history [OF i])
      (simp_all add: example_input_def without_history_def policy_due_def example_history_def batch_of_def ended_update_def is_ended_def)
  moreover have "hi_traffic example_history = []" "hi_entities example_history = []" by (simp_all add: example_history_def)
  ultimately show ?thesis by (simp add: i purge_buckets_def)
qed

end
