(* ===== verification/Traffic_Count.thy ===== *)
theory Traffic_Count
  imports Ingest
begin

text \<open>
  What an interval counts in the buckets. Per step and interface, the boundary and the endpoints grow by the same amounts, and where no
  flow is lost by exactly the deltas of the batch.
\<close>

section \<open>Amounts\<close>

text \<open>One of the four columns, and the counter of an update it adds up.\<close>

definition pick :: "flow_direction \<Rightarrow> 'a \<Rightarrow> 'a \<Rightarrow> 'a" where
  "pick direction i out = (case direction of FlowInbound \<Rightarrow> i | FlowOutbound \<Rightarrow> out)"

definition counter_of :: "bool \<Rightarrow> traffic_counters \<Rightarrow> u64" where
  "counter_of octets = (if octets then tc_bytes else tc_packets)"

definition column_of :: "bool \<Rightarrow> flow_direction \<Rightarrow> 'k bucket \<Rightarrow> int" where
  "column_of octets direction =
     (if octets then pick direction bk_in_bytes bk_out_bytes else pick direction bk_in_packets bk_out_packets)"

lemma column_holds: "holds_amount (column_of o8 d) (\<lambda>i out. counter_of o8 (pick d i out))"
  using holds_amounts by (cases o8; cases d) (simp_all add: column_of_def counter_of_def pick_def)

lemma column_bucket: "column_of o8 d \<in> bucket_columns"
  "column_of o8 d (bucket_row k r st ix nm i out) = sint (counter_of o8 (pick d i out))"
  by (rule column_holds [unfolded holds_amount_def, THEN conjunct1]) (rule column_holds [unfolded holds_amount_def, THEN conjunct2, rule_format])

lemma counter_none [simp]: "counter_of o8 no_traffic = 0"
  by (simp add: counter_of_def no_traffic_def)

lemma counter_add: "counter_of o8 (add_counters a b) = sat_add (counter_of o8 a) (counter_of o8 b)"
  by (simp add: counter_of_def add_counters_def)

lemma uint_sat_add: "uint (a :: u64) + uint b < 2 ^ 63 \<Longrightarrow> uint (sat_add a b) = uint a + uint b"
proof -
  assume "uint a + uint b < 2 ^ 63"
  then have "unat a + unat b < 2 ^ 63" by (simp add: uint_nat del: of_nat_unat)
  then have "unat (sat_add a b) = unat a + unat b" using unat_sat_add [of a b] by simp
  then show ?thesis by (metis of_nat_add uint_nat)
qed

lemma sint_small:
  assumes "uint (w :: u64) < 2 ^ 63"
  shows "sint w = uint w"
proof -
  have "- (2 ^ 63) \<le> uint w" by (rule order_trans [OF _ uint_ge_0]) simp
  then show ?thesis using assms by (simp add: sint_uint signed_take_bit_int_eq_self)
qed

definition moved_amount :: "bool \<Rightarrow> flow_direction \<Rightarrow> moved_flow \<Rightarrow> int" where
  "moved_amount o8 d m = (if mo_direction m = d then uint (counter_of o8 (mo_delta m)) else 0)"

text \<open>The buckets of an interface at a start; of the entities, those of the endpoints.\<close>

definition bucket_total :: "('k \<Rightarrow> bool) \<Rightarrow> bool \<Rightarrow> flow_direction \<Rightarrow> resolution \<Rightarrow> int \<Rightarrow> int \<Rightarrow> 'k bucket list \<Rightarrow> int" where
  "bucket_total wanted o8 d r start ifindex rows =
     (\<Sum>b \<leftarrow> rows. if wanted (bk_key b) \<and> bk_resolution b = r \<and> bk_start_ms b = start \<and> bk_ifindex b = ifindex then column_of o8 d b else 0)"

definition boundary_total :: "bool \<Rightarrow> flow_direction \<Rightarrow> resolution \<Rightarrow> int \<Rightarrow> int \<Rightarrow> 'f history \<Rightarrow> int" where
  "boundary_total o8 d r start ifindex h = bucket_total (\<lambda>_. True) o8 d r start ifindex (hi_traffic h)"

definition endpoint_total :: "bool \<Rightarrow> flow_direction \<Rightarrow> resolution \<Rightarrow> int \<Rightarrow> int \<Rightarrow> 'f history \<Rightarrow> int" where
  "endpoint_total o8 d r start ifindex h = bucket_total (\<lambda>k. fst k = ''endpoint'') o8 d r start ifindex (hi_entities h)"

text \<open>How often an interval at a time counts for a bucket: once, or not at all.\<close>

definition hits :: "system_time \<Rightarrow> resolution \<Rightarrow> int \<Rightarrow> int" where
  "hits at r start = (if unix_millis (truncate_time at (step_seconds r)) = start then 1 else 0)"

lemma bucket_row_fields:
  "bk_key (bucket_row k r st ix nm i out) = k" "bk_resolution (bucket_row k r st ix nm i out) = r"
  "bk_start_ms (bucket_row k r st ix nm i out) = unix_millis st" "bk_ifindex (bucket_row k r st ix nm i out) = ix"
  by (simp_all add: bucket_row_def)

lemma total_upsert:
  assumes "slots_distinct rows"
  shows "bucket_total wanted o8 d r start ix (upsert_bucket (bucket_row k r' st ix' nm i out) rows)
    = bucket_total wanted o8 d r start ix rows
      + (if wanted k \<and> r' = r \<and> unix_millis st = start \<and> ix' = ix then sint (counter_of o8 (pick d i out)) else 0)"
proof -
  let ?P = "\<lambda>(k, r', st, ix'). wanted k \<and> r' = r \<and> st = start \<and> ix' = ix"
  have p: "?P (bucket_slot b) \<longleftrightarrow> wanted (bk_key b) \<and> bk_resolution b = r \<and> bk_start_ms b = start \<and> bk_ifindex b = ix" for b
    by (simp add: bucket_slot_def)
  show ?thesis
    using sum_upsert_slot [OF assms column_bucket(1), where P = ?P and new = "bucket_row k r' st ix' nm i out", of o8 d] unfolding p bucket_total_def
    by (simp add: column_bucket(2) bucket_row_fields)
qed

lemma total_purge: "bucket_total wanted o8 d r start ix (purge_buckets now_ms rows)
    = (if start < now_ms - bucket_retention r then 0 else bucket_total wanted o8 d r start ix rows)"
proof (induction rows)
  case (Cons b rows)
  have "purge_buckets now_ms (b # rows) = purge_buckets now_ms [b] @ purge_buckets now_ms rows" by (simp add: purge_buckets_def)
  then show ?case using Cons by (cases "bk_resolution b") (auto simp: bucket_total_def purge_buckets_def)
qed (simp add: bucket_total_def purge_buckets_def)

section \<open>Counting by endpoint\<close>

lemma add_entity_eq:
  "add_entity_bucket k r st ix nm d delta
    = upsert_bucket (bucket_row k r st ix nm (if d = FlowInbound then delta else no_traffic) (if d = FlowOutbound then delta else no_traffic))"
  by (cases d) (simp_all add: add_entity_bucket_def)

lemma slots_entity: "slots_distinct rows \<Longrightarrow> slots_distinct (add_entity_bucket k r st ix nm d delta rows)"
  by (simp add: add_entity_eq slots_upsert)

lemma slots_entities: "slots_distinct rows \<Longrightarrow> slots_distinct (fold (\<lambda>k. add_entity_bucket k r st ix nm d delta) ks rows)"
  by (induction ks arbitrary: rows) (simp_all add: slots_entity)

lemma total_entity:
  assumes "slots_distinct rows" "uint (counter_of o8 delta) < 2 ^ 63"
  shows "bucket_total wanted o8 d r start ix (add_entity_bucket k r' st ix' nm d' delta rows)
    = bucket_total wanted o8 d r start ix rows
      + (if wanted k \<and> r' = r \<and> unix_millis st = start \<and> ix' = ix \<and> d' = d then uint (counter_of o8 delta) else 0)"
  unfolding add_entity_eq total_upsert [OF assms(1)] using sint_small [OF assms(2)]
  by (cases d; cases d') (simp_all add: pick_def)

lemma total_entities:
  assumes "slots_distinct rows" "uint (counter_of o8 delta) < 2 ^ 63" "\<And>k. k \<in> set ks \<Longrightarrow> \<not> wanted k"
  shows "bucket_total wanted o8 d r start ix (fold (\<lambda>k. add_entity_bucket k r' st ix' nm d' delta) ks rows) = bucket_total wanted o8 d r start ix rows"
  using assms(1,3)
proof (induction ks arbitrary: rows)
  case (Cons k ks)
  then show ?case using total_entity [OF Cons.prems(1) assms(2)] slots_entity [OF Cons.prems(1)] by simp
qed simp

text \<open>A flow has one endpoint.\<close>

lemma total_count_entities:
  assumes "slots_distinct rows" "uint (counter_of o8 (mo_delta m)) < 2 ^ 63"
  shows "slots_distinct (count_entities at m rows)"
    "bucket_total (\<lambda>k. fst k = ''endpoint'') o8 d r start ix (count_entities at m rows)
      = bucket_total (\<lambda>k. fst k = ''endpoint'') o8 d r start ix rows
        + (if mo_ifindex m = ix then hits at r start * moved_amount o8 d m else 0)"
proof -
  define ks where "ks = tl (entity_keys (mo_dto m))"
  have ks: "entity_keys (mo_dto m) = (''endpoint'', remote_address (mo_dto m)) # ks" "\<And>k. k \<in> set ks \<Longrightarrow> fst k \<noteq> ''endpoint''"
    by (auto simp: ks_def entity_keys_def split: option.splits)
  let ?step = "\<lambda>r. fold (\<lambda>k. add_entity_bucket k r (truncate_time at (step_seconds r)) (mo_ifindex m) (mo_interface m) (mo_direction m) (mo_delta m))
    (entity_keys (mo_dto m))"
  have s: "slots_distinct (?step r' rows)" if "slots_distinct rows" for r' rows using slots_entities [OF that] .
  have t: "bucket_total (\<lambda>k. fst k = ''endpoint'') o8 d r start ix (?step r' rows) = bucket_total (\<lambda>k. fst k = ''endpoint'') o8 d r start ix rows
      + (if mo_ifindex m = ix \<and> r' = r then hits at r start * moved_amount o8 d m else 0)" if "slots_distinct rows" for r' rows
    using that assms(2) ks(2)
    by (simp add: ks(1) total_entities [where wanted = "\<lambda>k. fst k = ''endpoint''"] slots_entity total_entity hits_def moved_amount_def)
  show "slots_distinct (count_entities at m rows)" by (simp add: count_entities_def s assms(1))
  show "bucket_total (\<lambda>k. fst k = ''endpoint'') o8 d r start ix (count_entities at m rows)
      = bucket_total (\<lambda>k. fst k = ''endpoint'') o8 d r start ix rows
        + (if mo_ifindex m = ix then hits at r start * moved_amount o8 d m else 0)"
    by (simp add: count_entities_def s t assms(1)) (cases r; simp)
qed

definition amount_small :: "bool \<Rightarrow> moved_flow list \<Rightarrow> bool" where
  "amount_small o8 moved \<longleftrightarrow> (\<Sum>m \<leftarrow> moved. uint (counter_of o8 (mo_delta m))) < 2 ^ 63"

lemma total_all_entities:
  assumes "slots_distinct rows" "\<And>m. m \<in> set moved \<Longrightarrow> uint (counter_of o8 (mo_delta m)) < 2 ^ 63"
  shows "slots_distinct (fold (count_entities at) moved rows)
    \<and> bucket_total (\<lambda>k. fst k = ''endpoint'') o8 d r start ix (fold (count_entities at) moved rows)
      = bucket_total (\<lambda>k. fst k = ''endpoint'') o8 d r start ix rows
        + hits at r start * (\<Sum>m \<leftarrow> moved. if mo_ifindex m = ix then moved_amount o8 d m else 0)"
  using assms
proof (induction moved arbitrary: rows)
  case (Cons m moved)
  have m: "uint (counter_of o8 (mo_delta m)) < 2 ^ 63" using Cons.prems(2) by simp
  note c = total_count_entities [OF Cons.prems(1) m]
  show ?case using Cons.IH [OF c(1)] Cons.prems(2) c(2) by (simp add: distrib_left)
qed simp

section \<open>Counting by interface\<close>

lemma sum_alist_update:
  fixes g :: "'k \<times> 'v \<Rightarrow> int"
  assumes "distinct (map fst xs)"
  shows "(\<Sum>e \<leftarrow> AList.update k v xs. g e) = (\<Sum>e \<leftarrow> xs. g e) + g (k, v) - (case map_of xs k of Some w \<Rightarrow> g (k, w) | None \<Rightarrow> 0)"
  using assms
proof (induction xs)
  case (Cons e xs)
  obtain k' w where e: "e = (k', w)" by fastforce
  have "map_of xs k' = None" using Cons.prems e by (simp add: map_of_eq_None_iff)
  then show ?case using Cons e by simp
qed simp

definition interface_sum :: "bool \<Rightarrow> flow_direction \<Rightarrow> int \<Rightarrow> interface_totals \<Rightarrow> int" where
  "interface_sum o8 d ix totals = (\<Sum>e \<leftarrow> totals. if fst (fst e) = ix then uint (counter_of o8 (pick d (fst (snd e)) (snd (snd e)))) else 0)"

text \<open>Nothing saturates while the deltas add up to less than half of the range.\<close>

lemma interface_totals:
  assumes "amount_small o8 moved"
  shows "distinct (map fst (fold count_interface moved []))
    \<and> (\<forall>k i out. map_of (fold count_interface moved []) k = Some (i, out)
         \<longrightarrow> (\<forall>d. uint (counter_of o8 (pick d i out)) \<le> (\<Sum>m \<leftarrow> moved. uint (counter_of o8 (mo_delta m)))))
    \<and> interface_sum o8 d ix (fold count_interface moved []) = (\<Sum>m \<leftarrow> moved. if mo_ifindex m = ix then moved_amount o8 d m else 0)"
  using assms
proof (induction moved rule: rev_induct)
  case (snoc m moved)
  let ?T = "fold count_interface moved []" and ?k = "(mo_ifindex m, mo_interface m)" and ?b = "\<Sum>m \<leftarrow> moved. uint (counter_of o8 (mo_delta m))"
  obtain i out where io: "(case map_of ?T ?k of Some t \<Rightarrow> t | None \<Rightarrow> (no_traffic, no_traffic)) = (i, out)" by fastforce
  define new where "new = (case mo_direction m of FlowInbound \<Rightarrow> (add_counters i (mo_delta m), out) | FlowOutbound \<Rightarrow> (i, add_counters out (mo_delta m)))"
  have u: "count_interface m ?T = AList.update ?k new ?T" by (simp add: count_interface_def io new_def Let_def)
  have small: "?b + uint (counter_of o8 (mo_delta m)) < 2 ^ 63" using snoc.prems by (simp add: amount_small_def)
  then have "amount_small o8 moved" using uint_ge_0 [of "counter_of o8 (mo_delta m)"] unfolding amount_small_def by linarith
  note ih = snoc.IH [OF this]
  have nonneg: "0 \<le> ?b" by (rule sum_list_nonneg) auto
  have old: "uint (counter_of o8 (pick d i out)) \<le> ?b" for d
  proof (cases "map_of ?T ?k")
    case None
    then show ?thesis using io nonneg by (cases d) (auto simp: pick_def)
  next
    case (Some t)
    then show ?thesis using io ih by auto
  qed
  have fresh: "uint (counter_of o8 (pick d (fst new) (snd new)))
      = uint (counter_of o8 (pick d i out)) + moved_amount o8 d m" for d
    using uint_sat_add [of "counter_of o8 (pick d i out)" "counter_of o8 (mo_delta m)"] old [of d] small
    by (cases d; cases "mo_direction m") (auto simp: new_def pick_def counter_add moved_amount_def)
  have "interface_sum o8 d ix (count_interface m ?T) = interface_sum o8 d ix ?T + (if mo_ifindex m = ix then moved_amount o8 d m else 0)"
  proof -
    define G where "G = (\<lambda>e :: (int \<times> string) \<times> traffic_counters \<times> traffic_counters.
      if fst (fst e) = ix then uint (counter_of o8 (pick d (fst (snd e)) (snd (snd e)))) else 0)"
    have "(case map_of ?T ?k of Some w \<Rightarrow> G (?k, w) | None \<Rightarrow> 0) = (if mo_ifindex m = ix then uint (counter_of o8 (pick d i out)) else 0)"
      using io by (cases d) (auto simp: G_def pick_def split: option.splits)
    moreover have "G (?k, new) = (if mo_ifindex m = ix then uint (counter_of o8 (pick d i out)) + moved_amount o8 d m else 0)"
      by (simp add: G_def fresh)
    ultimately show ?thesis
      using sum_alist_update [where g = G and xs = ?T and k = ?k and v = new] ih unfolding u interface_sum_def G_def [symmetric] by simp
  qed
  moreover have "distinct (map fst (count_interface m ?T))" unfolding u using ih by (simp add: distinct_update)
  moreover have "uint (counter_of o8 (pick e j o')) \<le> ?b + uint (counter_of o8 (mo_delta m))"
    if "map_of (count_interface m ?T) k = Some (j, o')" for k j o' e
  proof (cases "k = ?k")
    case True
    then have "new = (j, o')" using that unfolding u by (simp add: update_conv')
    then have "uint (counter_of o8 (pick e j o')) = uint (counter_of o8 (pick e i out)) + moved_amount o8 e m" using fresh [of e] by simp
    moreover have "moved_amount o8 e m \<le> uint (counter_of o8 (mo_delta m))" by (simp add: moved_amount_def)
    ultimately show ?thesis using old [of e] by linarith
  next
    case False
    then have "map_of ?T k = Some (j, o')" using that unfolding u by (simp add: update_conv')
    then have "uint (counter_of o8 (pick e j o')) \<le> ?b" using ih by blast
    then show ?thesis using uint_ge_0 [of "counter_of o8 (mo_delta m)"] by linarith
  qed
  ultimately show ?case using ih by simp
qed (simp add: interface_sum_def)

lemma total_boundary:
  assumes "slots_distinct rows" "\<And>k i out. ((k, i, out) \<in> set totals) \<Longrightarrow> uint (counter_of o8 (pick d i out)) < 2 ^ 63"
  shows "slots_distinct (count_boundary at totals rows)
    \<and> bucket_total (\<lambda>_. True) o8 d r start ix (count_boundary at totals rows)
      = bucket_total (\<lambda>_. True) o8 d r start ix rows + hits at r start * interface_sum o8 d ix totals"
  using assms
proof (induction totals arbitrary: rows)
  case (Cons e totals)
  obtain ifindex interface i out where e: "e = ((ifindex, interface), i, out)" by (metis prod.exhaust)
  let ?rows = "fold (\<lambda>r. add_bucket r (truncate_time at (step_seconds r)) ifindex interface i out) [Minute, Hour] rows"
  have d: "slots_distinct ?rows" using Cons.prems(1) by (simp add: add_bucket_def slots_upsert)
  have s: "sint (counter_of o8 (pick d i out)) = uint (counter_of o8 (pick d i out))" using sint_small Cons.prems(2) [of "(ifindex, interface)" i out] e by simp
  have "bucket_total (\<lambda>_. True) o8 d r start ix ?rows
      = bucket_total (\<lambda>_. True) o8 d r start ix rows + (if ifindex = ix then hits at r start * uint (counter_of o8 (pick d i out)) else 0)"
    using Cons.prems(1) by (simp add: add_bucket_def total_upsert slots_upsert s) (cases r; simp add: hits_def)
  moreover have "count_boundary at (e # totals) rows = count_boundary at totals ?rows" by (simp add: count_boundary_def e)
  moreover have "interface_sum o8 d ix (e # totals) = (if ifindex = ix then uint (counter_of o8 (pick d i out)) else 0) + interface_sum o8 d ix totals"
    by (simp add: interface_sum_def e)
  moreover have "uint (counter_of o8 (pick d i out)) < 2 ^ 63" if "(k, i, out) \<in> set totals" for k i out
    using Cons.prems(2) [of k i out] that by simp
  note ih = Cons.IH [OF d this]
  ultimately show ?case using ih by (auto simp: distrib_left)
qed (simp add: count_boundary_def interface_sum_def)

text \<open>The two ways of counting agree.\<close>

definition slots_ok :: "'f history \<Rightarrow> bool" where
  "slots_ok h \<longleftrightarrow> slots_distinct (hi_traffic h) \<and> slots_distinct (hi_entities h)"

lemma counted_totals:
  assumes "slots_ok h" "amount_small o8 moved"
  shows "slots_ok (count_traffic_of at moved h)"
    "boundary_total o8 d r start ix (count_traffic_of at moved h)
      = boundary_total o8 d r start ix h + hits at r start * (\<Sum>m \<leftarrow> moved. if mo_ifindex m = ix then moved_amount o8 d m else 0)"
    "endpoint_total o8 d r start ix (count_traffic_of at moved h)
      = endpoint_total o8 d r start ix h + hits at r start * (\<Sum>m \<leftarrow> moved. if mo_ifindex m = ix then moved_amount o8 d m else 0)"
proof -
  let ?T = "fold count_interface moved []"
  have small: "uint (counter_of o8 (mo_delta m)) < 2 ^ 63" if "m \<in> set moved" for m
  proof -
    have "uint (counter_of o8 (mo_delta m)) \<le> (\<Sum>m \<leftarrow> moved. uint (counter_of o8 (mo_delta m)))"
      by (rule member_le_sum_list) (use that in auto)
    then show ?thesis using assms(2) by (simp add: amount_small_def)
  qed
  have t: "uint (counter_of o8 (pick e i out)) < 2 ^ 63" if "(k, i, out) \<in> set ?T" for k i out e
  proof -
    have "map_of ?T k = Some (i, out)" using interface_totals [OF assms(2)] that by (metis map_of_is_SomeI)
    then have "uint (counter_of o8 (pick e i out)) \<le> (\<Sum>m \<leftarrow> moved. uint (counter_of o8 (mo_delta m)))" using interface_totals [OF assms(2)] by blast
    then show ?thesis using assms(2) unfolding amount_small_def by linarith
  qed
  have s: "slots_distinct (hi_traffic h)" "slots_distinct (hi_entities h)" using assms(1) by (simp_all add: slots_ok_def)
  note b = total_boundary [OF s(1) t, where at = at] and e = total_all_entities [OF s(2) small, where at = at]
  show "slots_ok (count_traffic_of at moved h)"
    using b [where d = FlowInbound] e by (simp add: slots_ok_def count_traffic_of_def)
  show "boundary_total o8 d r start ix (count_traffic_of at moved h)
      = boundary_total o8 d r start ix h + hits at r start * (\<Sum>m \<leftarrow> moved. if mo_ifindex m = ix then moved_amount o8 d m else 0)"
    using b interface_totals [OF assms(2)] by (simp add: boundary_total_def count_traffic_of_def)
  show "endpoint_total o8 d r start ix (count_traffic_of at moved h)
      = endpoint_total o8 d r start ix h + hits at r start * (\<Sum>m \<leftarrow> moved. if mo_ifindex m = ix then moved_amount o8 d m else 0)"
    using e by (simp add: endpoint_total_def count_traffic_of_def)
qed

section \<open>The deltas of a batch\<close>

definition delta_value :: "(flow_direction \<Rightarrow> traffic_counters \<Rightarrow> int \<Rightarrow> int) \<Rightarrow> flow_deltas \<Rightarrow> u64 \<Rightarrow> int" where
  "delta_value G deltas i = (case deltas i of None \<Rightarrow> 0 | Some (d, delta, ix) \<Rightarrow> G d delta ix)"

definition update_value :: "(flow_direction \<Rightarrow> traffic_counters \<Rightarrow> int \<Rightarrow> int) \<Rightarrow> flow_update \<Rightarrow> int" where
  "update_value G u = G (key_direction (fu_key u)) (fu_delta u) (uint (key_interface_index (fu_key u)))"

lemma delta_value_snoc:
  "delta_value G (flow_deltas f (us @ [u])) i = (if i = f (fu_key u) then update_value G u else delta_value G (flow_deltas f us) i)"
  by (simp add: delta_value_def flow_deltas_snoc update_value_def)

lemma moved_sum:
  assumes "\<And>d delta ix. \<not> traffic_moved delta \<Longrightarrow> G d delta ix = 0" "distinct (map fst updated)"
  shows "(\<Sum>m \<leftarrow> moved_flows deltas updated. G (mo_direction m) (mo_delta m) (mo_ifindex m)) = (\<Sum>i \<in> fst ` set updated. delta_value G deltas i)"
proof -
  have "(\<Sum>m \<leftarrow> moved_flows deltas updated. G (mo_direction m) (mo_delta m) (mo_ifindex m)) = (\<Sum>e \<leftarrow> updated. delta_value G deltas (fst e))"
  proof (induction updated)
    case (Cons e updated)
    obtain i dto where e: "e = (i, dto)" by fastforce
    show ?case
    proof (cases "deltas i")
      case None
      then show ?thesis using Cons e by (simp add: moved_flows_def map_filter_simps delta_value_def)
    next
      case (Some x)
      obtain d delta ix where x: "x = (d, delta, ix)" by (metis prod_cases3)
      then show ?thesis
        using Cons e Some assms(1) [of delta d ix]
        by (auto simp: moved_flows_def map_filter_simps delta_value_def traffic_moved_def word_gt_0)
    qed
  qed (simp add: moved_flows_def map_filter_simps)
  also have "\<dots> = (\<Sum>i \<leftarrow> map fst updated. delta_value G deltas i)" by (simp add: comp_def)
  also have "\<dots> = (\<Sum>i \<in> set (map fst updated). delta_value G deltas i)" by (rule sum_list_distinct_conv_sum_set [OF assms(2)])
  finally show ?thesis by simp
qed

lemma sum_point: "finite I \<Longrightarrow> (\<Sum>i \<in> I. if i = k then x else g i) = (\<Sum>i \<in> I. g i) + (if k \<in> I then x - g k else (0 :: int))"
proof (induction I rule: finite_induct)
  case (insert j I)
  then show ?case by auto
qed simp

lemma deltas_at_most_batch:
  assumes "finite I" "\<And>d delta ix. 0 \<le> G d delta ix"
  shows "(\<Sum>i \<in> I. delta_value G (flow_deltas f us) i) \<le> (\<Sum>u \<leftarrow> us. update_value G u)"
proof (induction us rule: rev_induct)
  case (snoc u us)
  have "0 \<le> delta_value G (flow_deltas f us) (f (fu_key u))" "0 \<le> update_value G u"
    using assms(2) by (auto simp: delta_value_def update_value_def split: option.split)
  then show ?case using snoc by (auto simp: delta_value_snoc sum_point [OF assms(1)])
qed (simp add: flow_deltas_def delta_value_def)

lemma deltas_are_batch:
  assumes "finite I" "distinct (map (\<lambda>u. f (fu_key u)) us)" "\<And>u. u \<in> set us \<Longrightarrow> update_value G u \<noteq> 0 \<Longrightarrow> f (fu_key u) \<in> I"
  shows "(\<Sum>i \<in> I. delta_value G (flow_deltas f us) i) = (\<Sum>u \<leftarrow> us. update_value G u)"
  using assms(2,3)
proof (induction us rule: rev_induct)
  case (snoc u us)
  have "flow_deltas f us (f (fu_key u)) = None"
    using flow_deltas_dom [of f us "f (fu_key u)"] snoc.prems(1) by (cases "flow_deltas f us (f (fu_key u))") auto
  then have "delta_value G (flow_deltas f us) (f (fu_key u)) = 0" by (simp add: delta_value_def)
  then show ?case using snoc.IH snoc.prems by (auto simp: delta_value_snoc sum_point [OF assms(1)])
qed (simp add: flow_deltas_def delta_value_def)

definition small_batch :: "bool \<Rightarrow> flow_update list \<Rightarrow> bool" where
  "small_batch o8 us \<longleftrightarrow> (\<Sum>u \<leftarrow> us. uint (counter_of o8 (fu_delta u))) < 2 ^ 63"

lemma small_moved:
  assumes "small_batch o8 us" "distinct (map fst updated)"
  shows "amount_small o8 (moved_flows (flow_deltas f us) updated)"
proof -
  let ?G = "\<lambda>d delta ix. uint (counter_of o8 delta)"
  have z: "?G d delta ix = 0" if "\<not> traffic_moved delta" for d delta ix
    using that by (simp add: traffic_moved_def counter_of_def word_gt_0)
  have "(\<Sum>m \<leftarrow> moved_flows (flow_deltas f us) updated. ?G (mo_direction m) (mo_delta m) (mo_ifindex m))
      = (\<Sum>i \<in> fst ` set updated. delta_value ?G (flow_deltas f us) i)"
    by (rule moved_sum [OF z assms(2)])
  also have "\<dots> \<le> (\<Sum>u \<leftarrow> us. update_value ?G u)" by (rule deltas_at_most_batch) simp_all
  finally show ?thesis using assms(1) by (simp add: amount_small_def small_batch_def update_value_def)
qed

section \<open>Boundary and endpoints agree\<close>

definition buckets_agree :: "'f history \<Rightarrow> bool" where
  "buckets_agree h \<longleftrightarrow> slots_ok h \<and> (\<forall>o8 d r start ix. boundary_total o8 d r start ix h = endpoint_total o8 d r start ix h)"

lemma agree_cong: "hi_traffic h' = hi_traffic h \<Longrightarrow> hi_entities h' = hi_entities h \<Longrightarrow> buckets_agree h' = buckets_agree h"
  by (simp add: buckets_agree_def slots_ok_def boundary_total_def endpoint_total_def)

lemma policy_keeps_agreement:
  assumes "enforce_policy s inp h = (ok, h')" "buckets_agree h"
  shows "buckets_agree h'"
proof -
  have "hi_traffic h' = hi_traffic h \<and> hi_entities h' = hi_entities h
      \<or> (\<exists>now. hi_traffic h' = purge_buckets now (hi_traffic h) \<and> hi_entities h' = purge_buckets now (hi_entities h))"
    using assms(1) by (auto simp: enforce_policy_def Let_def split: if_splits prod.splits)
  then show ?thesis
    using assms(2) by (auto simp: buckets_agree_def slots_ok_def boundary_total_def endpoint_total_def total_purge slots_purge)
qed

lemma counting_keeps_agreement:
  assumes "buckets_agree h" "amount_small True moved" "amount_small False moved"
  shows "buckets_agree (count_traffic_of at moved h)"
proof -
  have small: "amount_small o8 moved" for o8 using assms(2,3) by (cases o8) simp_all
  have s: "slots_ok h" using assms(1) by (simp add: buckets_agree_def)
  show ?thesis using assms(1) by (simp add: buckets_agree_def counted_totals [OF s small])
qed

lemma interval_keeps_agreement:
  assumes "run_interval fl iv h = (event, h')" "buckets_agree h"
    and "small_batch True (cb_flows (iv_batch iv))" "small_batch False (cb_flows (iv_batch iv))"
  shows "buckets_agree h'"
proof -
  have policed: "buckets_agree h2"
    if "store_interval fl (iv_input iv) (iv_batch iv) h = (stored, touched, h1)" "enforce_policy (iv_settings iv) (iv_input iv) h1 = (ok, h2)"
    for stored touched h1 ok h2
    using policy_keeps_agreement [OF that(2)] agree_cong [OF store_interval_tables(1,2) [OF that(1)]] assms(2) by simp
  from assms(1) [unfolded run_interval_def] show ?thesis
  proof (cases rule: ingest_cases)
    case (rolled n)
    then have "hi_traffic h' = hi_traffic h" "hi_entities h' = hi_entities h" by simp_all
    then show ?thesis using assms(2) agree_cong by blast
  next
    case (policy stored touched h1 ok h2)
    then have "hi_traffic h' = hi_traffic h2" "hi_entities h' = hi_entities h2" by simp_all
    then show ?thesis using policed [OF policy(1,2)] agree_cong by blast
  next
    case (finished stored touched h1 h2)
    obtain made h3 where f: "finish_interval fl (iv_input iv) (iv_publish iv) (iv_batch iv) stored touched h2 = (made, h3)" by fastforce
    from f have "buckets_agree h3"
    proof (rule finish_cases)
      fix table deltas updated h4
      assume d: "deltas = flow_deltas (ii_flow_id (iv_input iv)) (cb_flows (iv_batch iv))"
        and u: "updated = read_back fl h2 deltas (ended_ids (ii_flow_id (iv_input iv)) (cb_flows (iv_batch iv))) touched"
        and h4: "h4 = h2\<lparr>hi_entity_rates := table\<rparr>
          \<or> h4 = count_traffic_of (cb_collected_at (iv_batch iv)) (moved_flows deltas updated) (h2\<lparr>hi_entity_rates := table\<rparr>)"
        and m: "made = None \<and> h3 = h4 \<or> (\<exists>rates. made = None \<and> h3 = h4\<lparr>hi_stored_rates := rates\<rparr>)
          \<or> (\<exists>rates event. made = Some event \<and> tell_clients fl (iv_publish iv) (iv_batch iv) stored (map (observation_dto (iv_input iv)) stored) deltas updated
                (h4\<lparr>hi_stored_rates := rates\<rparr>) = (event, h3))"
      have ids: "distinct (map fst updated)" using read_back_ids(1) unfolding u .
      have "hi_traffic (h2\<lparr>hi_entity_rates := table\<rparr>) = hi_traffic h2" "hi_entities (h2\<lparr>hi_entity_rates := table\<rparr>) = hi_entities h2" by simp_all
      then have "buckets_agree (h2\<lparr>hi_entity_rates := table\<rparr>)" using policed [OF finished(1,2)] agree_cong by blast
      then have a: "buckets_agree h4"
        using h4 counting_keeps_agreement small_moved [OF assms(3) ids] small_moved [OF assms(4) ids] unfolding d by blast
      have "hi_traffic h3 = hi_traffic h4 \<and> hi_entities h3 = hi_entities h4" using m by (auto dest: tell_clients_facts(3,4))
      then show ?thesis using a agree_cong by blast
    qed
    moreover have "hi_traffic h' = hi_traffic h3" "hi_entities h' = hi_entities h3" using finished(3) f by (auto split: option.splits)
    ultimately show ?thesis using agree_cong by blast
  qed
qed


section \<open>The traffic of a batch is counted\<close>

lemma found_by_id:
  assumes "i \<in> fr_id ` set rows"
  obtains dto where "flow_by_id fl table applications rows i = Some dto"
proof -
  have "List.find (\<lambda>row. fr_id row = i) rows \<noteq> None" using assms by (auto simp: find_None_iff)
  then show thesis using that by (auto simp: flow_by_id_def)
qed

lemma read_back_complete:
  assumes "i \<in> set touched" "flow_moved deltas i" "i \<in> fr_id ` set (fd_rows (hi_db h))"
  shows "i \<in> fst ` set (read_back fl h deltas ended touched)"
proof -
  obtain dto where "flow_by_id fl (hi_entity_rates h) (hi_applications h) (fd_rows (hi_db h)) i = Some dto"
    using assms(3) by (rule found_by_id)
  then have "(i, dto) \<in> set (read_back fl h deltas ended touched)"
    using assms(1,2) by (auto simp: read_back_def in_map_filter intro!: bexI [of _ i])
  then show ?thesis by force
qed

lemma delta_of_update:
  "distinct (map (\<lambda>u. f (fu_key u)) us) \<Longrightarrow> u \<in> set us \<Longrightarrow>
     flow_deltas f us (f (fu_key u)) = Some (key_direction (fu_key u), fu_delta u, uint (key_interface_index (fu_key u)))"
proof (induction us rule: rev_induct)
  case (snoc v us)
  have "f (fu_key u) \<noteq> f (fu_key v)" if "u \<in> set us" using snoc.prems(1) that by (auto simp: image_iff)
  then show ?case using snoc by (cases "u = v") (auto simp: flow_deltas_snoc)
qed simp

text \<open>
  C34: when the policy is not due and the database works, the buckets of the step the batch was collected in grow by exactly the deltas of the
  batch, per interface, direction and counter, those of the boundary and those of the endpoints; the other buckets do not change.
\<close>

theorem interval_counts_batch:
  assumes "ingest fl s inp publish batch h = (event, h')" "ii_fails inp = None"
    and "\<not> policy_due (ii_policy_instant inp) (hi_last_policy_at h)"
    and "distinct (map (\<lambda>u. ii_flow_id inp (fu_key u)) (cb_flows batch))" "small_batch o8 (cb_flows batch)" "slots_ok h"
    and "grown = hits (cb_collected_at batch) r start
      * (\<Sum>u \<leftarrow> cb_flows batch. if key_direction (fu_key u) = d \<and> uint (key_interface_index (fu_key u)) = ix then uint (counter_of o8 (fu_delta u)) else 0)"
  shows "boundary_total o8 d r start ix h' = boundary_total o8 d r start ix h + grown
    \<and> endpoint_total o8 d r start ix h' = endpoint_total o8 d r start ix h + grown"
proof -
  let ?at = "cb_collected_at batch" and ?id = "\<lambda>u. ii_flow_id inp (fu_key u)"
  obtain stored touched h1 where st: "store_interval fl inp batch h = (stored, touched, h1)" by (metis prod_cases3)
  define h2 where "h2 = h1\<lparr>hi_flow_capacity := unat (rs_max_flow_entries (st_resources s))\<rparr>"
  have p: "enforce_policy s inp h1 = (True, h2)"
    using enforce_policy_not_due [of inp h1 s] assms(3) store_interval_tables(4) [OF st] by (simp add: h2_def)
  obtain made h3 where f: "finish_interval fl inp publish batch stored touched h2 = (made, h3)" by fastforce
  have result: "(event, h') = (case (made, h3) of (Some event, h) \<Rightarrow> (event, h) | (None, h) \<Rightarrow> (empty_event fl batch h, h\<lparr>hi_database_error := True\<rparr>))"
    using assms(1,2) st p f by (simp add: ingest_def try_ingest_def)
  then have h3: "hi_traffic h' = hi_traffic h3" "hi_entities h' = hi_entities h3" by (auto split: option.splits)
  from f show ?thesis
  proof (rule finish_cases)
    fix table deltas updated h4
    assume dl: "deltas = flow_deltas (ii_flow_id inp) (cb_flows batch)"
      and u: "updated = read_back fl h2 deltas (ended_ids (ii_flow_id inp) (cb_flows batch)) touched"
      and h4: "h4 = h2\<lparr>hi_entity_rates := table\<rparr>
        \<or> h4 = count_traffic_of ?at (moved_flows deltas updated) (h2\<lparr>hi_entity_rates := table\<rparr>)"
        "cb_flows batch = [] \<or> ii_fails inp = Some BucketsFail
          \<or> h4 = count_traffic_of ?at (moved_flows deltas updated) (h2\<lparr>hi_entity_rates := table\<rparr>)"
      and m: "made = None \<and> h3 = h4 \<or> (\<exists>rates. made = None \<and> h3 = h4\<lparr>hi_stored_rates := rates\<rparr>)
        \<or> (\<exists>rates event. made = Some event \<and> tell_clients fl publish batch stored (map (observation_dto inp) stored) deltas updated
              (h4\<lparr>hi_stored_rates := rates\<rparr>) = (event, h3))"
    have tables: "hi_traffic h3 = hi_traffic h4" "hi_entities h3 = hi_entities h4" using m by (auto dest: tell_clients_facts(3,4))
    have start: "hi_traffic h2 = hi_traffic h" "hi_entities h2 = hi_entities h"
      using store_interval_tables(1,2) [OF st] by (simp_all add: h2_def)
    have totals: "boundary_total o8 d r start ix h' = boundary_total o8 d r start ix h4" "endpoint_total o8 d r start ix h' = endpoint_total o8 d r start ix h4"
      by (simp_all add: boundary_total_def endpoint_total_def h3 tables)
    have before: "boundary_total o8 d r start ix (h2\<lparr>hi_entity_rates := table\<rparr>) = boundary_total o8 d r start ix h"
        "endpoint_total o8 d r start ix (h2\<lparr>hi_entity_rates := table\<rparr>) = endpoint_total o8 d r start ix h" "slots_ok (h2\<lparr>hi_entity_rates := table\<rparr>)"
      using assms(6) by (simp_all add: boundary_total_def endpoint_total_def start slots_ok_def)
    show ?thesis
    proof (cases "cb_flows batch = []")
      case True
      then have "moved_flows deltas updated = []" using dl by (induction updated) (auto simp: moved_flows_def map_filter_simps flow_deltas_def)
      then have "hi_traffic h4 = hi_traffic h2" "hi_entities h4 = hi_entities h2" using h4(1) by (auto simp: count_traffic_of_def count_boundary_def)
      then show ?thesis using True assms(7) totals by (simp add: boundary_total_def endpoint_total_def start)
    next
      case False
      have ids: "distinct (map fst updated)" using read_back_ids(1) unfolding u .
      have h4': "h4 = count_traffic_of ?at (moved_flows deltas updated) (h2\<lparr>hi_entity_rates := table\<rparr>)" using False h4(2) assms(2) by simp
      have present: "?id v \<in> fst ` set updated" if v: "v \<in> set (cb_flows batch)" "traffic_moved (fu_delta v)" for v
        unfolding u
      proof (rule read_back_complete)
        obtain news db where n: "hi_db h1 = fold sql_upsert news db" "map fr_id news = map ?id (cb_flows batch)" "set (map ?id (cb_flows batch)) \<subseteq> set touched"
          using store_interval_db [OF st] by metis
        show "?id v \<in> set touched" using n(3) v(1) by auto
        show "flow_moved deltas (?id v)" using delta_of_update [OF assms(4) v(1)] v(2) by (simp add: dl flow_moved_def)
        have "?id v \<in> set (map fr_id news)" using n(2) v(1) by simp
        then show "?id v \<in> fr_id ` set (fd_rows (hi_db h2))" by (simp add: h2_def n(1) ids_upserts)
      qed
      let ?G = "\<lambda>d' delta ix'. if d' = d \<and> ix' = ix then uint (counter_of o8 delta) else 0"
      have z: "?G d' delta ix' = 0" if "\<not> traffic_moved delta" for d' delta ix'
        using that by (simp add: traffic_moved_def counter_of_def word_gt_0)
      have "(\<Sum>m \<leftarrow> moved_flows deltas updated. if mo_ifindex m = ix then moved_amount o8 d m else 0)
          = (\<Sum>m \<leftarrow> moved_flows deltas updated. ?G (mo_direction m) (mo_delta m) (mo_ifindex m))"
        by (rule arg_cong [where f = sum_list], rule map_cong) (auto simp: moved_amount_def)
      also have "\<dots> = (\<Sum>i \<in> fst ` set updated. delta_value ?G deltas i)" by (rule moved_sum [OF z ids])
      also have "\<dots> = (\<Sum>v \<leftarrow> cb_flows batch. update_value ?G v)"
        unfolding dl
      proof (rule deltas_are_batch [OF _ assms(4)])
        show "?id v \<in> fst ` set updated" if "v \<in> set (cb_flows batch)" "update_value ?G v \<noteq> 0" for v
          using present [OF that(1)] that(2) z by (auto simp: update_value_def)
      qed simp
      also have "\<dots> = (\<Sum>v \<leftarrow> cb_flows batch. if key_direction (fu_key v) = d \<and> uint (key_interface_index (fu_key v)) = ix
          then uint (counter_of o8 (fu_delta v)) else 0)" by (simp add: update_value_def)
      finally show ?thesis
        using counted_totals(2,3) [OF before(3) small_moved [OF assms(5) ids, of "ii_flow_id inp"]] before(1,2) totals assms(7)
        unfolding h4' dl by simp
    qed
  qed
qed

section \<open>Examples\<close>

lemma example_agrees: "buckets_agree example_history"
  by (simp add: buckets_agree_def slots_ok_def slots_distinct_def boundary_total_def endpoint_total_def bucket_total_def example_history_def)

lemma example_small: "small_batch o8 [ended_update]"
  by (simp add: small_batch_def ended_update_def counter_of_def hundred_bytes_def)


text \<open>The policy ran just before.\<close>

lemma interval_counts_batch_witness:
  "boundary_total True FlowOutbound Minute 0 2
     (snd (ingest second_ops settings_default example_input True (batch_of [ended_update]) (example_history\<lparr>hi_last_policy_at := Some 100\<rparr>))) = 100"
proof -
  let ?h = "example_history\<lparr>hi_last_policy_at := Some 100\<rparr>"
  obtain event h where i: "ingest second_ops settings_default example_input True (batch_of [ended_update]) ?h = (event, h)" by fastforce
  have "boundary_total True FlowOutbound Minute 0 2 h = boundary_total True FlowOutbound Minute 0 2 ?h + 100
      \<and> endpoint_total True FlowOutbound Minute 0 2 h = endpoint_total True FlowOutbound Minute 0 2 ?h + 100"
  proof (rule interval_counts_batch [OF i])
    show "slots_ok ?h" using example_agrees by (simp add: buckets_agree_def slots_ok_def)
    show "small_batch True (cb_flows (batch_of [ended_update]))" by (simp add: batch_of_def example_small)
  qed (simp_all add: example_input_def batch_of_def I64_MAX_def seconds_def policy_due_def saturating_duration_since_def POLICY_INTERVAL_def hits_def
      truncate_time_def step_seconds_def unix_millis_def ended_update_def fake_update_def counter_of_def hundred_bytes_def)
  then show ?thesis by (simp add: i) (simp add: boundary_total_def bucket_total_def example_history_def)
qed

end
