(* ===== verification/Exports.thy ===== *)
theory Exports
  imports Ingest
begin

text \<open>
  Exports of the history (\<^verbatim>\<open>create_export\<close>, \<^verbatim>\<open>list_exports\<close>, \<^verbatim>\<open>get_export\<close>, \<^verbatim>\<open>export_content\<close>, \<^verbatim>\<open>delete_export\<close>,
  \<^verbatim>\<open>export_csv\<close> of \<^verbatim>\<open>api/db.rs\<close>) and clearing the history. The document of a JSON export is a record; the text \<^verbatim>\<open>serde_json\<close> makes of it is an argument.
  Proved: a CSV export that was created is served until it expires, and a reader of the format finds the header and, one by one, the values
  of the selected flows in it; after a restart the names of exports begin again and creating fails as often as the old names are still taken.
\<close>

section \<open>Comma-separated values\<close>

text \<open>A comma, a quotation mark and the two ends of lines.\<close>

definition csv_special :: "char \<Rightarrow> bool" where
  "csv_special c \<longleftrightarrow> of_char c \<in> {44, 34, 10, 13 :: nat}"

definition csv_field :: "string \<Rightarrow> string" where
  "csv_field s =
     (if list_ex csv_special s then quoted (concat (map (\<lambda>c. if c = CHR 0x22 then [CHR 0x22, CHR 0x22] else [c]) s)) else s)"

definition optional_port :: "u16 option \<Rightarrow> string" where
  "optional_port port = (case port of Some p \<Rightarrow> decimal (unat p) | None \<Rightarrow> [])"

text \<open>The first associated domain; an absent one leaves three empty texts.\<close>

definition first_domain :: "flow_dto \<Rightarrow> string \<times> string \<times> string" where
  "first_domain flow =
     (case dt_domains flow of
        d # _ \<Rightarrow> (dr_domain d, evidence_text (dr_evidence d), confidence_text (dr_confidence d))
      | [] \<Rightarrow> ([], [], []))"

definition csv_header :: "string list" where
  "csv_header =
     [''id'', ''direction'', ''protocol'', ''state'', ''end_reason'', ''src_ip'', ''src_port'', ''dst_ip'', ''dst_port'', ''remote_ip'',
      ''remote_port'', ''interface'', ''packets'', ''bytes'', ''first_seen_ms'', ''last_seen_ms'', ''domain'', ''evidence'', ''confidence'',
      ''application'']"

definition csv_line :: "flow_dto \<Rightarrow> string" where
  "csv_line flow =
     (let (domain, evidence, confidence) = first_domain flow in
      join_with '',''
        [dt_id flow, direction_text (dt_direction flow), protocol_text (dt_protocol flow), dt_state flow,
         (case dt_end_reason flow of Some why \<Rightarrow> end_reason_text why | None \<Rightarrow> []),
         ed_address (dt_source flow), optional_port (ed_port (dt_source flow)),
         ed_address (dt_destination flow), optional_port (ed_port (dt_destination flow)),
         ed_address (dt_remote flow), optional_port (ed_port (dt_remote flow)),
         csv_field (or_empty (dt_interface flow)), decimal (unat (dt_packets flow)), decimal (unat (dt_bytes flow)),
         int_text (dt_first_seen flow), int_text (dt_last_seen flow),
         csv_field domain, evidence, confidence,
         csv_field (or_empty (map_option ad_id (dt_application flow)))]
      @ [CHR 0x0A])"

definition export_csv :: "flow_dto list \<Rightarrow> string" where
  "export_csv flows = join_with '','' csv_header @ [CHR 0x0A] @ concat (map csv_line flows)"

section \<open>The documents\<close>

datatype export_format = JsonFormat | CsvFormat

fun format_text :: "export_format \<Rightarrow> string" where
  "format_text JsonFormat = ''json''"
| "format_text CsvFormat = ''csv''"

fun content_type :: "export_format \<Rightarrow> string" where
  "content_type JsonFormat = ''application/json''"
| "content_type CsvFormat = ''text/csv''"

fun extension :: "export_format \<Rightarrow> string" where
  "extension JsonFormat = ''json''"
| "extension CsvFormat = ''csv''"

text \<open>\<^verbatim>\<open>enum_from_value\<close>, or the default\<close>

definition format_of :: "string \<Rightarrow> export_format" where
  "format_of s = (if s = ''csv'' then CsvFormat else JsonFormat)"

definition EXPORT_MAX_RECORDS :: nat where "EXPORT_MAX_RECORDS = 10000"

record create_export_request =
  er_format :: export_format
  er_query :: flow_query

record export_document =
  xd_generated_at :: int
  xd_range :: "string option"
  xd_truncated :: bool
  xd_flows :: "flow_dto list"
  xd_domains :: "rated_domain list"
  xd_profiles :: "profile_dto list"
  xd_health :: "collector_health option"

text \<open>The statements of the exports, any of which the database may fail.\<close>

datatype export_statement =
  CountFlows | SelectFlows | CountDomains | SelectDomains | SelectProfiles | InsertExport | SelectExport | SelectExports | DeleteExport

text \<open>The times the parts of one creation read, and which of its statements fail.\<close>

record export_input =
  xi_now :: system_time
  xi_flows_now :: system_time
  xi_domains_now :: system_time
  xi_audit_now :: system_time
  xi_status_now :: system_time
  xi_fails :: "export_statement \<Rightarrow> bool"

type_synonym 'a export_answer = "query_refusal api_error + 'a"

definition statement :: "export_input \<Rightarrow> export_statement \<Rightarrow> 'a export_answer \<Rightarrow> 'a export_answer" where
  "statement inp s answer = (if xi_fails inp s then Inl ApiInternal else answer)"

definition export_flow :: "'f float_ops \<Rightarrow> 'f history \<Rightarrow> flow_row \<Rightarrow> flow_dto" where
  "export_flow fl h row = apply_flow_rate fl (hi_entity_rates h) (flow_dto_from_row (hi_applications h) row)"

text \<open>\<^verbatim>\<open>flows_page\<close>: the statement that counts comes before the order is looked at.\<close>

definition flows_page :: "export_input \<Rightarrow> flow_query \<Rightarrow> nat \<Rightarrow> nat \<Rightarrow> 'f history \<Rightarrow> (flow_row list \<times> nat) export_answer" where
  "flows_page inp query limit offset h =
     (case flow_clauses query (xi_flows_now inp) True of
        Inl e \<Rightarrow> Inl e
      | Inr _ \<Rightarrow>
          statement inp CountFlows
            (case flow_rows (fst (hi_stored_rates h)) (xi_flows_now inp) query limit offset (fd_rows (hi_db h)) of
               Inl e \<Rightarrow> Inl e
             | Inr page \<Rightarrow> statement inp SelectFlows (Inr page)))"

definition exported_domains :: "'f float_ops \<Rightarrow> export_input \<Rightarrow> flow_query \<Rightarrow> 'f history \<Rightarrow> rated_domain list export_answer" where
  "exported_domains fl inp query h =
     (case domain_clauses query (xi_domains_now inp) of
        Inl e \<Rightarrow> Inl e
      | Inr _ \<Rightarrow>
          statement inp CountDomains
            (case domain_rows (fst (hi_stored_rates h)) (xi_domains_now inp) query EXPORT_MAX_RECORDS 0 (hi_db h) of
               Inl e \<Rightarrow> Inl e
             | Inr (domains, _) \<Rightarrow>
                 statement inp SelectDomains
                   (Inr (map (\<lambda>d. (d, entity_rate fl (hi_entity_rates h) (DomainEntity (ds_domain d)))) domains))))"

definition row_profile :: "flow_row \<Rightarrow> profile_dto" where
  "row_profile row =
     \<lparr>pd_address = remote_text row, pd_scope = fr_remote_scope row, pd_country = fr_country row, pd_region = fr_region row,
      pd_city = fr_city row, pd_asn = fr_asn row, pd_org = fr_org row, pd_version = fr_db_version row,
      pd_enriched_at = fr_enriched_at_ms row\<rparr>"

text \<open>\<^verbatim>\<open>SELECT DISTINCT\<close>, in the order of the table.\<close>

definition export_profiles :: "export_input \<Rightarrow> flow_query \<Rightarrow> 'f history \<Rightarrow> profile_dto list export_answer" where
  "export_profiles inp query h =
     (case flow_clauses query (xi_now inp) True of
        Inl e \<Rightarrow> Inl e
      | Inr wanted \<Rightarrow>
          statement inp SelectProfiles
            (Inr (take EXPORT_MAX_RECORDS (rev (remdups (rev (map row_profile (filter wanted (fd_rows (hi_db h)))))))))) "

text \<open>The content with the number of its flows and whether there were more.\<close>

definition export_contents ::
  "'f float_ops \<Rightarrow> (export_document \<Rightarrow> string option) \<Rightarrow> export_input \<Rightarrow> create_export_request \<Rightarrow> 'f history
     \<Rightarrow> (string \<times> nat \<times> bool) export_answer" where
  "export_contents fl json inp req h =
     (case flows_page inp (er_query req) EXPORT_MAX_RECORDS 0 h of
        Inl e \<Rightarrow> Inl e
      | Inr (rows, found) \<Rightarrow>
          let flows = map (export_flow fl h) rows; truncated = length flows < found in
          (case er_format req of
             CsvFormat \<Rightarrow> Inr (export_csv flows, length flows, truncated)
           | JsonFormat \<Rightarrow>
               (case exported_domains fl inp (er_query req) h of
                  Inl e \<Rightarrow> Inl e
                | Inr domains \<Rightarrow>
                    (case export_profiles inp (er_query req) h of
                       Inl e \<Rightarrow> Inl e
                     | Inr profiles \<Rightarrow>
                         (case json \<lparr>xd_generated_at = unix_millis (xi_now inp), xd_range = fq_range (er_query req), xd_truncated = truncated,
                                 xd_flows = flows, xd_domains = domains, xd_profiles = profiles, xd_health = hi_health h\<rparr> of
                            None \<Rightarrow> Inl ApiInternal
                          | Some bytes \<Rightarrow> Inr (bytes, length flows, truncated))))))"

section \<open>The table of exports\<close>

record export_row =
  ex_id :: string
  ex_format :: string
  ex_range :: "string option"
  ex_created_at_ms :: int
  ex_expires_at_ms :: int
  ex_record_count :: int
  ex_truncated :: int
  ex_content_type :: string
  ex_content :: string

record export_store =
  es_rows :: "export_row list"
  es_counter :: u64
  es_ttl :: duration
  es_audit :: "audit_entry list"

record export_task =
  et_id :: string
  et_status :: string
  et_format :: export_format
  et_range :: "string option"
  et_created_at :: int
  et_expires_at :: int
  et_record_count :: u64
  et_size_bytes :: u64
  et_truncated :: bool
  et_content_type :: string
  et_download_url :: string

definition export_task_from_row :: "system_time \<Rightarrow> export_row \<Rightarrow> export_task" where
  "export_task_from_row now row =
     \<lparr>et_id = ex_id row, et_status = (if ex_expires_at_ms row \<le> unix_millis now then ''expired'' else ''completed''),
      et_format = format_of (ex_format row), et_range = ex_range row, et_created_at = ex_created_at_ms row,
      et_expires_at = ex_expires_at_ms row, et_record_count = word_of_int (ex_record_count row),
      et_size_bytes = of_nat (length (ex_content row)), et_truncated = (ex_truncated row \<noteq> 0), et_content_type = ex_content_type row,
      et_download_url = ''/v1/exports/'' @ ex_id row @ ''/content''\<rparr>"

definition export_row_of :: "string \<Rightarrow> export_store \<Rightarrow> export_row option" where
  "export_row_of i st = List.find (\<lambda>row. ex_id row = i) (es_rows st)"

definition export_by_id :: "system_time \<Rightarrow> string \<Rightarrow> export_store \<Rightarrow> export_task option" where
  "export_by_id now i st = map_option (export_task_from_row now) (export_row_of i st)"

definition export_id :: "u64 \<Rightarrow> string" where "export_id n = ''exp-'' @ decimal (unat n)"

text \<open>\<^verbatim>\<open>checked_add\<close>, or now\<close>

definition expiry :: "system_time \<Rightarrow> duration \<Rightarrow> system_time" where
  "expiry now ttl = (case instant_checked (now + int ttl) of Some t \<Rightarrow> t | None \<Rightarrow> now)"

definition new_export :: "export_input \<Rightarrow> create_export_request \<Rightarrow> string \<times> nat \<times> bool \<Rightarrow> export_store \<Rightarrow> export_row" where
  "new_export inp req contents st =
     (let (content, count, truncated) = contents in
      \<lparr>ex_id = export_id (es_counter st), ex_format = format_text (er_format req), ex_range = fq_range (er_query req),
       ex_created_at_ms = unix_millis (xi_now inp), ex_expires_at_ms = unix_millis (expiry (xi_now inp) (es_ttl st)),
       ex_record_count = int count, ex_truncated = one_if truncated, ex_content_type = content_type (er_format req),
       ex_content = content\<rparr>)"

text \<open>The identifier is the primary key, so storing one that is taken fails, as does any failing statement.\<close>

definition store_export :: "export_input \<Rightarrow> export_row \<Rightarrow> export_store \<Rightarrow> export_task export_answer \<times> export_store" where
  "store_export inp row st =
     (if xi_fails inp InsertExport \<or> export_row_of (ex_id row) st \<noteq> None then (Inl ApiInternal, st)
      else
        let st = st\<lparr>es_rows := es_rows st @ [row], es_audit := audit (xi_audit_now inp) ''export.create'' ''completed'' (es_audit st)\<rparr> in
        (statement inp SelectExport
           (case export_by_id (xi_status_now inp) (ex_id row) st of None \<Rightarrow> Inl ApiInternal | Some task \<Rightarrow> Inr task), st))"

text \<open>The counter has advanced before the row is stored.\<close>

definition create_export ::
  "'f float_ops \<Rightarrow> (export_document \<Rightarrow> string option) \<Rightarrow> export_input \<Rightarrow> create_export_request \<Rightarrow> 'f history \<Rightarrow> export_store
     \<Rightarrow> export_task export_answer \<times> export_store" where
  "create_export fl json inp req h st =
     (case export_contents fl json inp req h of
        Inl e \<Rightarrow> (Inl e, st)
      | Inr contents \<Rightarrow>
          let st = st\<lparr>es_counter := es_counter st + 1\<rparr> in store_export inp (new_export inp req contents st) st)"

text \<open>Newest first; of equal times, in the order of the table.\<close>

definition list_exports :: "(export_statement \<Rightarrow> bool) \<Rightarrow> system_time \<Rightarrow> export_store \<Rightarrow> export_task list export_answer" where
  "list_exports fails now st =
     (if fails SelectExports then Inl ApiInternal
      else Inr (map (export_task_from_row now) (sort_key (\<lambda>row. - ex_created_at_ms row) (es_rows st))))"

definition get_export :: "(export_statement \<Rightarrow> bool) \<Rightarrow> system_time \<Rightarrow> string \<Rightarrow> export_store \<Rightarrow> export_task export_answer" where
  "get_export fails now i st =
     (if fails SelectExport then Inl ApiInternal
      else (case export_by_id now i st of None \<Rightarrow> Inl ApiNotFound | Some task \<Rightarrow> Inr task))"

datatype content_error = ContentRefused "query_refusal api_error" | ContentGone

record export_file =
  ec_content_type :: string
  ec_file_name :: string
  ec_bytes :: string

definition export_content :: "(export_statement \<Rightarrow> bool) \<Rightarrow> system_time \<Rightarrow> string \<Rightarrow> export_store \<Rightarrow> content_error + export_file" where
  "export_content fails now i st =
     (if fails SelectExport then Inl (ContentRefused ApiInternal)
      else
        (case export_row_of i st of
           None \<Rightarrow> Inl (ContentRefused ApiNotFound)
         | Some row \<Rightarrow>
             if ex_expires_at_ms row \<le> unix_millis now then Inl ContentGone
             else Inr \<lparr>ec_content_type = ex_content_type row,
                       ec_file_name = ''zimascope-export-'' @ i @ ''.'' @ extension (format_of (ex_format row)),
                       ec_bytes = ex_content row\<rparr>))"

definition delete_export :: "(export_statement \<Rightarrow> bool) \<Rightarrow> system_time \<Rightarrow> string \<Rightarrow> export_store \<Rightarrow> unit export_answer \<times> export_store" where
  "delete_export fails now i st =
     (if fails DeleteExport then (Inl ApiInternal, st)
      else if export_row_of i st = None then (Inl ApiNotFound, st)
      else (Inr (), st\<lparr>es_rows := filter (\<lambda>row. ex_id row \<noteq> i) (es_rows st), es_audit := audit now ''export.delete'' ''completed'' (es_audit st)\<rparr>))"

text \<open>Opening the database again: the rows are kept, the counter and the ring of operations begin anew.\<close>

definition reopen :: "export_store \<Rightarrow> export_store" where
  "reopen st = st\<lparr>es_counter := 0, es_audit := []\<rparr>"

section \<open>Clearing the history\<close>

text \<open>
  The seven deletions run one by one and not in a transaction: when one fails those before it stay done. What is in memory is forgotten either
  way, and the operation is audited as completed.
\<close>

definition clear_history :: "'f float_ops \<Rightarrow> nat \<Rightarrow> system_time \<Rightarrow> 'f history \<Rightarrow> export_store \<Rightarrow> 'f history \<times> export_store" where
  "clear_history fl executed now h st =
     (h\<lparr>hi_db := (if 1 \<le> executed then sql_delete (\<lambda>_. True) (hi_db h) else hi_db h),
        hi_observations := (if 2 \<le> executed then [] else hi_observations h),
        hi_traffic := (if 3 \<le> executed then [] else hi_traffic h),
        hi_entities := (if 4 \<le> executed then [] else hi_entities h),
        hi_stored_rates := (if 5 \<le> executed then [] else fst (hi_stored_rates h), []),
        hi_applications := (if 6 \<le> executed then [] else hi_applications h),
        hi_database_error := (hi_database_error h \<or> executed < 7),
        hi_rates := entity_rates_default fl, hi_entity_rates := [], hi_tick_details := []\<rparr>,
      st\<lparr>es_rows := (if 7 \<le> executed then [] else es_rows st), es_audit := audit now ''history.clear'' ''completed'' (es_audit st)\<rparr>)"

section \<open>Reading the format\<close>

text \<open>
  A reader of comma-separated values with quoted fields (RFC 4180, with line feeds): before a field, in a bare one, in a quoted one, and
  after a quotation mark in a quoted one. It collects the field, the fields of the line and the lines.
\<close>

datatype csv_mode = FieldStart | BareField | QuotedField | QuoteSeen

fun csv_read :: "csv_mode \<Rightarrow> string \<Rightarrow> string list \<Rightarrow> string \<Rightarrow> string list list" where
  "csv_read mode cur cells [] = (if cells = [] \<and> mode = FieldStart then [] else [cells @ [cur]])"
| "csv_read mode cur cells (c # cs) =
     (if mode = QuotedField
      then (if c = CHR 0x22 then csv_read QuoteSeen cur cells cs else csv_read QuotedField (cur @ [c]) cells cs)
      else if c = CHR 0x22 \<and> mode = QuoteSeen then csv_read QuotedField (cur @ [c]) cells cs
      else if c = CHR 0x22 \<and> mode = FieldStart then csv_read QuotedField cur cells cs
      else if c = CHR '','' then csv_read FieldStart [] (cells @ [cur]) cs
      else if c = CHR 0x0A then (cells @ [cur]) # csv_read FieldStart [] [] cs
      else csv_read BareField (cur @ [c]) cells cs)"

definition csv_table :: "string \<Rightarrow> string list list" where
  "csv_table s = csv_read FieldStart [] [] s"

text \<open>What the columns stand for.\<close>

definition csv_values :: "flow_dto \<Rightarrow> string list" where
  "csv_values flow =
     [dt_id flow, direction_text (dt_direction flow), protocol_text (dt_protocol flow), dt_state flow,
      or_empty (map_option end_reason_text (dt_end_reason flow)),
      ed_address (dt_source flow), optional_port (ed_port (dt_source flow)),
      ed_address (dt_destination flow), optional_port (ed_port (dt_destination flow)),
      ed_address (dt_remote flow), optional_port (ed_port (dt_remote flow)),
      or_empty (dt_interface flow), decimal (unat (dt_packets flow)), decimal (unat (dt_bytes flow)),
      int_text (dt_first_seen flow), int_text (dt_last_seen flow),
      fst (first_domain flow), fst (snd (first_domain flow)), snd (snd (first_domain flow)),
      or_empty (map_option ad_id (dt_application flow))]"

lemma csv_special_code: "d < 256 \<Longrightarrow> csv_special (char_of d) \<longleftrightarrow> d \<in> {44, 34, 10, 13 :: nat}"
  by (simp add: csv_special_def)

lemma special_cases: "csv_special c \<longleftrightarrow> c = CHR '','' \<or> c = CHR 0x22 \<or> c = CHR 0x0A \<or> c = CHR 0x0D"
proof -
  have "(of_char c :: nat) = of_char d \<longleftrightarrow> c = d" for d by (rule of_char_eq_iff)
  from this [of "CHR '',''"] this [of "CHR 0x22"] this [of "CHR 0x0A"] this [of "CHR 0x0D"]
  show ?thesis by (simp add: csv_special_def)
qed

abbreviation csv_plain :: "string \<Rightarrow> bool" where
  "csv_plain s \<equiv> list_all (\<lambda>c. \<not> csv_special c) s"

lemma csv_field_plain: "csv_plain s \<Longrightarrow> csv_field s = s"
  by (auto simp: csv_field_def list_ex_iff list_all_iff)

lemma read_bare:
  assumes "csv_plain s" "mode \<noteq> QuotedField"
  shows "csv_read mode cur cells (s @ c # rest) = csv_read (if s = [] then mode else BareField) (cur @ s) cells (c # rest)"
  using assms
proof (induction s arbitrary: mode cur)
  case (Cons d s)
  then have "\<not> csv_special d" "csv_plain s" by simp_all
  then show ?case using Cons.IH [of BareField "cur @ [d]"] Cons.prems(2) by (simp add: special_cases)
qed simp

lemma read_quoted:
  "csv_read QuotedField cur cells (concat (map (\<lambda>c. if c = CHR 0x22 then [CHR 0x22, CHR 0x22] else [c]) s) @ CHR 0x22 # rest)
    = csv_read QuoteSeen (cur @ s) cells rest"
  by (induction s arbitrary: cur) simp_all

lemma read_field:
  assumes "c = CHR '','' \<or> c = CHR 0x0A"
  shows "csv_read FieldStart [] cells (csv_field s @ c # rest)
    = (if c = CHR '','' then csv_read FieldStart [] (cells @ [s]) rest else (cells @ [s]) # csv_read FieldStart [] [] rest)"
proof (cases "list_ex csv_special s")
  case True
  then have "csv_read FieldStart [] cells (csv_field s @ c # rest) = csv_read QuoteSeen s cells (c # rest)"
    by (simp add: csv_field_def quoted_def read_quoted)
  then show ?thesis using assms by auto
next
  case False
  then have "csv_plain s" by (auto simp: list_ex_iff list_all_iff)
  then show ?thesis using read_bare [of s FieldStart "[]" cells c rest] assms by (auto simp: csv_field_plain)
qed

lemma read_line:
  "vs \<noteq> [] \<Longrightarrow> csv_read FieldStart [] cells (join_with '','' (map csv_field vs) @ CHR 0x0A # rest)
    = (cells @ vs) # csv_read FieldStart [] [] rest"
proof (induction vs arbitrary: cells rule: induct_list012)
  case (3 x y vs)
  then show ?case using read_field [of "CHR '',''" cells x "join_with '','' (map csv_field (y # vs)) @ CHR 0x0A # rest"] by simp
qed (simp_all add: read_field)

section \<open>The texts without special characters\<close>

lemma csv_plain_map: "(\<And>d. d \<in> set ds \<Longrightarrow> 46 \<le> d \<and> d < 128) \<Longrightarrow> csv_plain (map char_of ds)" for ds :: "nat list"
  by (force simp: list_all_iff csv_special_code)

lemma hex_char_high: "d < 16 \<Longrightarrow> 46 \<le> hex_char d \<and> hex_char d < 128"
  by (auto simp: hex_char_def)

lemma decimal_plain [simp]: "csv_plain (decimal n)"
  unfolding decimal_def using decimal_digits_range by (fastforce intro!: csv_plain_map)

lemma hex_digits_high: "d \<in> set (hex_digits n v) \<Longrightarrow> 46 \<le> d \<and> d < 128"
  using hex_char_high by (auto simp: hex_digits_def)

lemma hex16_plain [simp]: "csv_plain (hex16 w)"
  unfolding hex16_def using hex_digits_high by (intro csv_plain_map)

lemma hex_segment_plain [simp]: "csv_plain (hex_segment w)"
  unfolding hex_segment_def Let_def using hex_digits_high by (intro csv_plain_map) (force dest: set_dropWhileD split: if_splits)

lemma plain_literals [simp]:
  "csv_plain []" "\<not> csv_special CHR ''.''" "\<not> csv_special CHR '':''" "\<not> csv_special CHR ''-''"
  by (simp_all add: special_cases)

lemma ipv4_plain [simp]: "csv_plain (ipv4_text a)"
  by (cases a) (simp add: ipv4_text_def)

lemma join_plain: "csv_plain sep \<Longrightarrow> list_all csv_plain xs \<Longrightarrow> csv_plain (join_with sep xs)"
  by (induction sep xs rule: join_with.induct) simp_all

lemma ipv6_plain [simp]: "csv_plain (ipv6_text a)"
proof (cases a)
  case (Ipv6 octets)
  have "csv_plain ''::ffff:''" by (simp add: special_cases)
  moreover have "csv_plain (join_with '':'' (map hex_segment ss))" for ss by (rule join_plain) (simp_all add: list.pred_map list.pred_True comp_def)
  ultimately show ?thesis by (simp add: Ipv6 Let_def case_prod_beta)
qed

lemma ip_plain [simp]: "csv_plain (ip_text a)"
  by (cases a) simp_all

lemma enum_plain [simp]:
  "csv_plain (direction_text d)" "csv_plain (protocol_text p)" "csv_plain (end_reason_text r)" "csv_plain (evidence_text e)"
  "csv_plain (confidence_text c)"
proof -
  show "csv_plain (direction_text d)" by (cases d) (simp_all add: special_cases)
  show "csv_plain (protocol_text p)" by (cases p) (simp_all add: special_cases)
  show "csv_plain (end_reason_text r)" by (cases r) (simp_all add: special_cases)
  show "csv_plain (evidence_text e)" by (cases e) (simp_all add: special_cases)
  show "csv_plain (confidence_text c)" by (cases c) (simp_all add: special_cases)
qed

lemma int_text_plain [simp]: "csv_plain (int_text n)"
  by (simp add: int_text_def)

lemma port_plain [simp]: "csv_plain (optional_port p)"
  by (simp add: optional_port_def split: option.split)

definition csv_dto :: "flow_dto \<Rightarrow> bool" where
  "csv_dto flow \<longleftrightarrow> csv_plain (dt_id flow) \<and> csv_plain (dt_state flow) \<and> csv_plain (ed_address (dt_source flow))
     \<and> csv_plain (ed_address (dt_destination flow)) \<and> csv_plain (ed_address (dt_remote flow))"

lemma flow_dto_csv: "csv_dto (export_flow fl h row)"
proof -
  have "csv_plain ''active''" "csv_plain ''ended''" by (simp_all add: special_cases)
  then show ?thesis
    by (simp add: csv_dto_def export_flow_def apply_flow_rate_def flow_dto_from_row_def Let_def endpoint_dto_def split: option.split)
qed

lemma csv_line_values:
  assumes "csv_dto flow"
  shows "csv_line flow = join_with '','' (map csv_field (csv_values flow)) @ [CHR 0x0A]"
proof -
  obtain domain evidence confidence where d: "first_domain flow = (domain, evidence, confidence)" by (cases "first_domain flow")
  have p: "csv_plain evidence" "csv_plain confidence" using d by (auto simp: first_domain_def split: list.splits)
  have r: "csv_field (or_empty (map_option end_reason_text (dt_end_reason flow)))
      = (case dt_end_reason flow of Some why \<Rightarrow> end_reason_text why | None \<Rightarrow> [])"
    by (simp add: or_empty_def csv_field_plain split: option.split)
  show ?thesis
    using assms p by (simp add: csv_line_def csv_values_def csv_dto_def d r csv_field_plain)
qed

lemma header_plain: "map csv_field csv_header = csv_header"
  by (simp add: csv_header_def csv_field_def special_cases)

lemma csv_table_export:
  assumes "list_all csv_dto flows"
  shows "csv_table (export_csv flows) = csv_header # map csv_values flows"
proof -
  have lines: "csv_read FieldStart [] [] (concat (map csv_line flows)) = map csv_values flows"
    using assms
  proof (induction flows)
    case (Cons flow flows)
    have "csv_values flow \<noteq> []" by (simp add: csv_values_def)
    then show ?case using Cons read_line [of "csv_values flow" "[]" "concat (map csv_line flows)"] by (simp add: csv_line_values)
  qed simp
  have "csv_header \<noteq> []" by (simp add: csv_header_def)
  then show ?thesis using read_line [of csv_header "[]" "concat (map csv_line flows)"] lines header_plain
    by (simp add: csv_table_def export_csv_def)
qed

section \<open>A created export\<close>

lemma find_snoc: "List.find P xs = None \<Longrightarrow> List.find P (xs @ [x]) = (if P x then Some x else None)"
  by (induction xs) (simp_all split: if_splits)

lemma create_export_cases:
  assumes "create_export fl json inp req h st = (Inr task, st')"
  obtains contents row where "export_contents fl json inp req h = Inr contents"
    and "row = new_export inp req contents (st\<lparr>es_counter := es_counter st + 1\<rparr>)"
    and "export_row_of (ex_id row) st' = Some row" "task = export_task_from_row (xi_status_now inp) row"
proof -
  obtain contents where c: "export_contents fl json inp req h = Inr contents"
    using assms by (auto simp: create_export_def split: sum.splits)
  define row where "row = new_export inp req contents (st\<lparr>es_counter := es_counter st + 1\<rparr>)"
  have st: "store_export inp row (st\<lparr>es_counter := es_counter st + 1\<rparr>) = (Inr task, st')"
    using assms by (simp add: create_export_def c row_def Let_def)
  then have absent: "export_row_of (ex_id row) (st\<lparr>es_counter := es_counter st + 1\<rparr>) = None"
    by (auto simp: store_export_def split: if_splits)
  then have found: "List.find (\<lambda>r. ex_id r = ex_id row) (es_rows st @ [row]) = Some row"
    by (simp add: export_row_of_def find_snoc)
  have rows: "es_rows st' = es_rows st @ [row]" "task = export_task_from_row (xi_status_now inp) row"
    using st absent found
    by (auto simp: store_export_def Let_def export_by_id_def export_row_of_def statement_def split: if_splits)
  show thesis by (rule that [OF c row_def]) (simp_all add: export_row_of_def rows found)
qed

text \<open>
  C38: a CSV export that was created is served until it expires: a reader of the format finds the header and then, line by line,
  the values of the flows the query selects, whatever their texts contain, at most 10000; the task names their number and whether there were more.
\<close>

theorem csv_export_reads_back:
  assumes "create_export fl json inp req h st = (Inr task, st')" "er_format req = CsvFormat"
    and "unix_millis later < et_expires_at task" "\<not> fails SelectExport"
  shows "\<exists>rows found content.
    flow_rows (fst (hi_stored_rates h)) (xi_flows_now inp) (er_query req) EXPORT_MAX_RECORDS 0 (fd_rows (hi_db h)) = Inr (rows, found)
    \<and> export_content fails later (et_id task) st' = Inr content \<and> ec_content_type content = ''text/csv''
    \<and> csv_table (ec_bytes content) = csv_header # map (csv_values \<circ> export_flow fl h) rows
    \<and> et_record_count task = of_nat (length rows) \<and> et_truncated task = (length rows < found)"
proof -
  obtain contents row where e: "export_contents fl json inp req h = Inr contents"
    "row = new_export inp req contents (st\<lparr>es_counter := es_counter st + 1\<rparr>)"
    "export_row_of (ex_id row) st' = Some row" "task = export_task_from_row (xi_status_now inp) row"
    using create_export_cases [OF assms(1)] .
  obtain rows found where p: "flows_page inp (er_query req) EXPORT_MAX_RECORDS 0 h = Inr (rows, found)"
    and c: "contents = (export_csv (map (export_flow fl h) rows), length rows, length rows < found)"
    using e(1) assms(2) by (auto simp: export_contents_def Let_def split: sum.splits)
  have f: "flow_rows (fst (hi_stored_rates h)) (xi_flows_now inp) (er_query req) EXPORT_MAX_RECORDS 0 (fd_rows (hi_db h)) = Inr (rows, found)"
    using p by (auto simp: flows_page_def statement_def split: sum.splits if_splits)
  have r: "ex_content row = export_csv (map (export_flow fl h) rows)" "ex_content_type row = ''text/csv''"
    "ex_record_count row = int (length rows)" "ex_truncated row = one_if (length rows < found)"
    using e(2) c assms(2) by (simp_all add: new_export_def)
  have t: "csv_table (ex_content row) = csv_header # map (csv_values \<circ> export_flow fl h) rows"
    using csv_table_export [of "map (export_flow fl h) rows"] by (simp add: r(1) flow_dto_csv list.pred_map list.pred_True comp_def)
  have x: "ex_expires_at_ms row > unix_millis later" "et_id task = ex_id row"
    using assms(3) by (simp_all add: e(4) export_task_from_row_def)
  show ?thesis
    using f t r x e(3) assms(4) by (simp add: export_content_def e(4) export_task_from_row_def one_if_def)
qed

section \<open>After a restart\<close>

text \<open>One creation after the other; the history and everything else may change in between.\<close>

type_synonym 'f creation = "export_input \<times> create_export_request \<times> 'f history"

fun create_all :: "'f float_ops \<Rightarrow> (export_document \<Rightarrow> string option) \<Rightarrow> 'f creation list \<Rightarrow> export_store
    \<Rightarrow> export_task export_answer list \<times> export_store" where
  "create_all fl json [] st = ([], st)"
| "create_all fl json ((inp, req, h) # creations) st =
     (let (answer, st) = create_export fl json inp req h st; (answers, st) = create_all fl json creations st in (answer # answers, st))"

text \<open>
  The counter starts anew when the database is opened, the rows do not go: while the identifiers up to n are stored, the first n creations
  fail, whatever is asked, and store nothing.
\<close>

theorem restart_blocks_exports:
  assumes "\<forall>i \<in> {1..n}. export_row_of (export_id (of_nat i)) st \<noteq> None" "length creations \<le> n" "n < 2 ^ 64"
  shows "(\<forall>answer \<in> set (fst (create_all fl json creations (reopen st))). \<exists>e. answer = Inl e)
    \<and> es_rows (snd (create_all fl json creations (reopen st))) = es_rows st"
proof -
  have "(\<forall>answer \<in> set (fst (create_all fl json creations st')). \<exists>e. answer = Inl e) \<and> es_rows (snd (create_all fl json creations st')) = es_rows st"
    if "es_rows st' = es_rows st" "es_counter st' = of_nat k" "k + length creations \<le> n" for k st'
    using that
  proof (induction creations arbitrary: k st')
    case (Cons c creations)
    obtain inp req h where c: "c = (inp, req, h)" by (cases c)
    obtain answer st'' where a: "create_export fl json inp req h st' = (answer, st'')" by fastforce
    have taken: "export_row_of (export_id (of_nat (Suc k))) st'' = export_row_of (export_id (of_nat (Suc k))) st" if "es_rows st'' = es_rows st" for st''
      using that by (simp add: export_row_of_def)
    have "Suc k \<in> {1..n}" using Cons.prems(3) by simp
    then have stored: "export_row_of (export_id (of_nat (Suc k))) st \<noteq> None" using assms(1) by blast
    show ?case
    proof (cases "export_contents fl json inp req h")
      case (Inl e)
      then have "answer = Inl e" "st'' = st'" using a by (simp_all add: create_export_def)
      then show ?thesis using Cons.IH [of st' k] Cons.prems by (simp add: c a case_prod_beta)
    next
      case (Inr contents)
      have s: "es_counter st' + 1 = of_nat (Suc k)" using Cons.prems(2) by simp
      let ?st = "st'\<lparr>es_counter := es_counter st' + 1\<rparr>"
      have "ex_id (new_export inp req contents ?st) = export_id (of_nat (Suc k))"
        using s by (simp add: new_export_def case_prod_beta ac_simps)
      then have "export_row_of (ex_id (new_export inp req contents ?st)) ?st \<noteq> None"
        using taken [of ?st] stored Cons.prems(1) by simp
      then have "store_export inp (new_export inp req contents ?st) ?st = (Inl ApiInternal, ?st)" unfolding store_export_def by simp
      then have "answer = Inl ApiInternal" "st'' = ?st" using a Inr by (simp_all add: create_export_def Let_def)
      then show ?thesis using Cons.IH [of ?st "Suc k"] Cons.prems s by (simp add: c a case_prod_beta)
    qed
  qed simp
  from this [of "reopen st" 0] assms(2) show ?thesis by (simp add: reopen_def)
qed

text \<open>
  A JSON export also lists the domains in the order of the query: one that flows have and domains have not is refused, though nothing is
  wrong with the flows.
\<close>

theorem json_export_refuses_flow_sort:
  assumes "fq_sort (er_query req) = Some ''first_seen''" "er_format req = JsonFormat"
  shows "\<exists>e. fst (create_export fl json inp req h st) = Inl e"
proof -
  have "split_sort (fq_sort (er_query req)) d = (''first_seen'', False)" for d
    using assms(1) by (simp add: split_sort_def strip_prefix_def starts_with_def)
  moreover have "domain_column rates ''first_seen'' = None" for rates
    by (simp add: domain_column_def sums_column_def is_rate_def)
  ultimately have refused: "\<not> isl (domain_clauses (er_query req) now) \<Longrightarrow> isl (domain_rows rates now (er_query req) limit offset db)"
    for rates now limit offset db
    by (cases "domain_clauses (er_query req) now") (simp_all add: domain_rows_def group_rows_def)
  have "isl (exported_domains fl inp (er_query req) h)"
  proof (cases "domain_clauses (er_query req) (xi_domains_now inp)")
    case (Inr wanted)
    then have "isl (domain_rows (fst (hi_stored_rates h)) (xi_domains_now inp) (er_query req) EXPORT_MAX_RECORDS 0 (hi_db h))"
      using refused by simp
    then show ?thesis using Inr by (auto simp: exported_domains_def statement_def isl_def)
  qed (simp add: exported_domains_def)
  then obtain e where "exported_domains fl inp (er_query req) h = Inl e" by (auto simp: isl_def)
  then show ?thesis
    using assms(2) by (simp add: create_export_def export_contents_def Let_def case_prod_beta split: sum.split)
qed

section \<open>A cleared history\<close>

text \<open>When all the deletions work, the tables are empty, with exact counters; so are the rates and the exports.\<close>

lemma cleared_tables:
  assumes "flow_db_ok (hi_db h)" "7 \<le> executed"
  shows "hi_db (fst (clear_history fl executed now h st)) = flow_db_empty"
proof -
  have ok: "flow_db_ok (sql_delete (\<lambda>_. True) (hi_db h))" using assms(1) by (rule sql_delete_ok)
  have rows: "fd_rows (sql_delete (\<lambda>_. True) (hi_db h)) = []" by (simp add: sql_delete_def Let_def)
  have "fd_domains (sql_delete (\<lambda>_. True) (hi_db h)) = Map.empty"
    using ok rows by (auto simp: flow_db_ok_def mirrors_def fun_eq_iff)
  moreover have "fd_stats (sql_delete (\<lambda>_. True) (hi_db h)) = \<lparr>fs_total = 0, fs_active = 0, fs_with_domain = 0\<rparr>"
    using ok rows by (simp add: flow_db_ok_def exact_stats_def)
  ultimately show ?thesis using assms(2) rows by (simp add: clear_history_def flow_db_empty_def)
qed

section \<open>Examples\<close>

text \<open>One flow, over an interface whose name needs quoting.\<close>

definition quoted_flow :: flow_row where
  "quoted_flow = (example_flow 7 30)\<lparr>fr_interface := Some ''a,b''\<rparr>"

definition export_history :: "int history" where
  "export_history = example_history\<lparr>hi_db := (hi_db example_history)\<lparr>fd_rows := [quoted_flow]\<rparr>\<rparr>"

definition example_clocks :: export_input where
  "example_clocks = \<lparr>xi_now = 0, xi_flows_now = 0, xi_domains_now = 0, xi_audit_now = 0, xi_status_now = 0, xi_fails = (\<lambda>_. False)\<rparr>"

definition csv_request :: create_export_request where
  "csv_request = \<lparr>er_format = CsvFormat, er_query = every_flow\<rparr>"

definition no_exports :: export_store where
  "no_exports = \<lparr>es_rows = [], es_counter = 0, es_ttl = 1000000000, es_audit = []\<rparr>"

lemma export_every_flow:
  "flow_rows [] 0 every_flow EXPORT_MAX_RECORDS 0 [quoted_flow] = Inr ([quoted_flow], 1)"
proof -
  obtain wanted where w: "flow_clauses every_flow 0 True = Inr wanted" "filter wanted [quoted_flow] = [quoted_flow]"
    by (simp add: flow_clauses_def time_clause_def every_flow_def list_query_def row_clauses_def wants_def search_of_def nonempty_def
        association_clauses_def)
  have s: "split_sort (fq_sort every_flow) ''-last_seen'' = (''last_seen'', True)"
    by (simp add: every_flow_def list_query_def split_sort_def strip_prefix_def starts_with_def)
  have c: "flow_column [] ''last_seen'' = Some (\<lambda>row. SqlInt (fr_last_seen_ms row))" by (simp add: flow_column_def)
  have "ordered (\<lambda>row. SqlInt (fr_last_seen_ms row)) (\<lambda>row. sint (fr_id row)) True [quoted_flow] = [quoted_flow]"
    by (simp add: ordered_def)
  then show ?thesis by (simp add: flow_rows_def w(1) s c page_rows_def EXPORT_MAX_RECORDS_def del: filter.simps) (simp only: w(2), simp)
qed

lemma example_rows_found:
  "flow_rows (fst (hi_stored_rates export_history)) (xi_flows_now example_clocks) (er_query csv_request) EXPORT_MAX_RECORDS 0
      (fd_rows (hi_db export_history)) = Inr ([quoted_flow], 1)"
  using export_every_flow by (simp add: export_history_def example_history_def example_clocks_def csv_request_def)

lemma example_created:
  obtains task st' where "create_export second_ops (\<lambda>_. None) example_clocks csv_request export_history no_exports = (Inr task, st')"
    and "unix_millis 999999999 < et_expires_at task"
proof -
  obtain wanted where w: "flow_clauses every_flow 0 True = Inr wanted"
    using export_every_flow by (auto simp: flow_rows_def split: sum.splits)
  have p: "flows_page example_clocks every_flow EXPORT_MAX_RECORDS 0 export_history = Inr ([quoted_flow], 1)"
    using example_rows_found w by (simp add: flows_page_def statement_def example_clocks_def csv_request_def)
  have f: "er_format csv_request = CsvFormat" "er_query csv_request = every_flow" by (simp_all add: csv_request_def)
  define contents where "contents = (export_csv [export_flow second_ops export_history quoted_flow], 1 :: nat, False)"
  have "export_contents second_ops (\<lambda>_. None) example_clocks csv_request export_history = Inr contents"
    by (simp add: export_contents_def p f contents_def)
  then have c: "create_export second_ops (\<lambda>_. None) example_clocks csv_request export_history no_exports
      = store_export example_clocks (new_export example_clocks csv_request contents (no_exports\<lparr>es_counter := 1\<rparr>)) (no_exports\<lparr>es_counter := 1\<rparr>)"
    by (simp add: create_export_def no_exports_def Let_def)
  define row where "row = new_export example_clocks csv_request contents (no_exports\<lparr>es_counter := 1\<rparr>)"
  obtain st' where "store_export example_clocks row (no_exports\<lparr>es_counter := 1\<rparr>) = (Inr (export_task_from_row 0 row), st')"
    by (simp add: store_export_def export_by_id_def export_row_of_def no_exports_def statement_def example_clocks_def)
  then have created: "create_export second_ops (\<lambda>_. None) example_clocks csv_request export_history no_exports
      = (Inr (export_task_from_row 0 row), st')"
    using c by (simp add: row_def)
  moreover have "unix_millis 999999999 < et_expires_at (export_task_from_row 0 row)"
    by (simp add: export_task_from_row_def row_def new_export_def contents_def unix_millis_def expiry_def instant_checked_def INSTANT_LIMIT_def
        example_clocks_def no_exports_def I64_MAX_def)
  ultimately show thesis by (rule that)
qed

lemma csv_export_reads_back_witness:
  "\<exists>task st' content. create_export second_ops (\<lambda>_. None) example_clocks csv_request export_history no_exports = (Inr task, st')
     \<and> export_content (\<lambda>_. False) 999999999 (et_id task) st' = Inr content
     \<and> csv_table (ec_bytes content) = [csv_header, csv_values (export_flow second_ops export_history quoted_flow)]"
proof -
  obtain task st' where c: "create_export second_ops (\<lambda>_. None) example_clocks csv_request export_history no_exports = (Inr task, st')"
    "unix_millis 999999999 < et_expires_at task"
    using example_created .
  have "er_format csv_request = CsvFormat" by (simp add: csv_request_def)
  from csv_export_reads_back [OF c(1) this c(2), of "\<lambda>_. False"] example_rows_found c(1) show ?thesis by auto
qed

text \<open>One export, a restart: the next creation fails.\<close>

lemma restart_blocks_exports_witness:
  "\<exists>e. fst (create_all second_ops (\<lambda>_. None) [(example_clocks, csv_request, export_history)]
     (reopen (snd (create_export second_ops (\<lambda>_. None) example_clocks csv_request export_history no_exports)))) = [Inl e]"
proof -
  obtain task st' where c: "create_export second_ops (\<lambda>_. None) example_clocks csv_request export_history no_exports = (Inr task, st')"
    using example_created by blast
  obtain contents row where r: "row = new_export example_clocks csv_request contents (no_exports\<lparr>es_counter := es_counter no_exports + 1\<rparr>)"
    "export_row_of (ex_id row) st' = Some row"
    using create_export_cases [OF c] .
  have "ex_id row = export_id (of_nat 1)" by (simp add: r(1) new_export_def case_prod_beta no_exports_def)
  then have "\<forall>i \<in> {1..1::nat}. export_row_of (export_id (of_nat i)) st' \<noteq> None" using r(2) by simp
  from restart_blocks_exports [OF this, of "[(example_clocks, csv_request, export_history)]" second_ops "\<lambda>_. None"]
  show ?thesis by (simp add: c case_prod_beta)
qed

end
